(* ===== verification/OK_Prelude.thy ===== *)
theory OK_Prelude
  imports Main "HOL-Library.Word"
begin

text \<open>
  Shared vocabulary of the development: the machine types of the i686 target, the console
  events through which every component reports progress, the counting loops of the C
  sources, and the generic lemmas the component theories use.
\<close>

unbundle bit_operations_syntax

section \<open>Machine types\<close>

type_synonym u8 = "8 word"
type_synonym u16 = "16 word"
type_synonym u32 = "32 word"

abbreviation NUL :: char where "NUL \<equiv> CHR 0x00"
abbreviation NEWLINE :: char where "NEWLINE \<equiv> CHR 0x0A"

named_theorems ok_simps \<open>unfolding equations of the model's operations\<close>
named_theorems inv_intros \<open>facts that every operation keeps its component's invariant\<close>

section \<open>Console events\<close>

text \<open>
  The memory, process and driver code writes to the console only through \<open>printk\<close> and
  the four \<open>loading_status\<close> functions declared in \<open>kernel.h\<close>, and never reads it back.
  A call is recorded as an event, in order.
\<close>

datatype karg = KDec int | KHex u32 | KStr string

datatype kevent =
    Printk string "karg list"
  | Status_start string
  | Status_tick
  | Status_progress int
  | Status_done

record kout =
  klog :: "kevent list"

definition log_event :: "kevent \<Rightarrow> 'a kout_scheme \<Rightarrow> 'a kout_scheme" where
  "log_event e s = s\<lparr>klog := klog s @ [e]\<rparr>"

lemma klog_log_event [simp]: "klog (log_event e s) = klog s @ [e]"
  by (simp add: log_event_def)

section \<open>Counting loops\<close>

text \<open>\<open>for (i = lo; i < hi; i++) s = f(i, s);\<close>\<close>

definition for_loop :: "nat \<Rightarrow> nat \<Rightarrow> (nat \<Rightarrow> 's \<Rightarrow> 's) \<Rightarrow> 's \<Rightarrow> 's" where
  "for_loop lo hi f s = fold f [lo..<hi] s"

lemma for_loop_empty [simp]: "hi \<le> lo \<Longrightarrow> for_loop lo hi f s = s"
  by (simp add: for_loop_def)

lemma for_loop_step:
  "for_loop lo hi f s = (if lo < hi then for_loop (Suc lo) hi f (f lo s) else s)"
  by (simp add: for_loop_def upt_rec)

lemma for_loop_Suc: "lo \<le> hi \<Longrightarrow> for_loop lo (Suc hi) f s = f hi (for_loop lo hi f s)"
  by (simp add: for_loop_def)

lemma for_loop_append:
  assumes "lo \<le> mid" and "mid \<le> hi"
  shows "for_loop lo hi f s = for_loop mid hi f (for_loop lo mid f s)"
proof -
  have "[lo..<hi] = [lo..<mid] @ [mid..<hi]"
    using assms upt_add_eq_append [of lo mid "hi - mid"] by simp
  then show ?thesis by (simp add: for_loop_def)
qed

lemma for_loop_invariant:
  assumes "lo \<le> hi" and "P lo s"
    and "\<And>i s. lo \<le> i \<Longrightarrow> i < hi \<Longrightarrow> P i s \<Longrightarrow> P (Suc i) (f i s)"
  shows "P hi (for_loop lo hi f s)"
  using assms(1,3)
proof (induction hi)
  case 0
  with assms(2) show ?case by simp
next
  case (Suc hi)
  show ?case
  proof (cases "lo = Suc hi")
    case True
    with assms(2) show ?thesis by simp
  next
    case False
    with Suc.prems(1) have le: "lo \<le> hi" by simp
    then have "P hi (for_loop lo hi f s)" using Suc by simp
    then show ?thesis using Suc.prems(2) le by (simp add: for_loop_Suc)
  qed
qed

lemma for_loop_preserves:
  assumes "\<And>i s. P (f i s) = P s"
  shows "P (for_loop lo hi f s) = P s"
proof -
  have "P (fold f xs s) = P s" for xs
    by (induction xs arbitrary: s) (auto simp: assms)
  then show ?thesis by (simp add: for_loop_def)
qed

lemma for_loop_cong:
  assumes "\<And>i t. lo \<le> i \<Longrightarrow> i < hi \<Longrightarrow> P t \<Longrightarrow> f i t = g i t \<and> P (g i t)" and "P s"
  shows "for_loop lo hi f s = for_loop lo hi g s \<and> P (for_loop lo hi g s)"
proof -
  have "fold f xs s = fold g xs s \<and> P (fold g xs s)" if "set xs \<subseteq> {lo..<hi}" for xs
    using that assms by (induction xs arbitrary: s) simp_all
  then show ?thesis by (simp add: for_loop_def)
qed

text \<open>\<open>for (i = lo; i < hi; i++) if (P(i)) return i;\<close>, \<open>None\<close> when the loop ends.\<close>

definition scan :: "nat \<Rightarrow> nat \<Rightarrow> (nat \<Rightarrow> bool) \<Rightarrow> nat option" where
  "scan lo hi P = List.find P [lo..<hi]"

lemma scan_Some_iff:
  "scan lo hi P = Some i \<longleftrightarrow> lo \<le> i \<and> i < hi \<and> P i \<and> (\<forall>j. lo \<le> j \<and> j < i \<longrightarrow> \<not> P j)"
proof
  assume "scan lo hi P = Some i"
  then obtain k where k: "k < length [lo..<hi]" "P ([lo..<hi] ! k)" "i = [lo..<hi] ! k"
      "\<forall>j<k. \<not> P ([lo..<hi] ! j)"
    by (auto simp: scan_def find_Some_iff)
  then have i: "i = lo + k" by simp
  have "\<not> P j" if "lo \<le> j" "j < i" for j
    using k(4)[rule_format, of "j - lo"] that i k(1) by simp
  with k i show "lo \<le> i \<and> i < hi \<and> P i \<and> (\<forall>j. lo \<le> j \<and> j < i \<longrightarrow> \<not> P j)" by auto
next
  assume a: "lo \<le> i \<and> i < hi \<and> P i \<and> (\<forall>j. lo \<le> j \<and> j < i \<longrightarrow> \<not> P j)"
  then have "\<exists>k<length [lo..<hi]. P ([lo..<hi] ! k) \<and> i = [lo..<hi] ! k \<and>
      (\<forall>j<k. \<not> P ([lo..<hi] ! j))"
    by (intro exI [of _ "i - lo"]) auto
  then show "scan lo hi P = Some i" by (simp add: scan_def find_Some_iff)
qed

lemma scan_None_iff: "scan lo hi P = None \<longleftrightarrow> (\<forall>i. lo \<le> i \<and> i < hi \<longrightarrow> \<not> P i)"
  by (auto simp: scan_def find_None_iff)

lemma scan_SomeD:
  assumes "scan lo hi P = Some i"
  shows "lo \<le> i" and "i < hi" and "P i" and "\<And>j. lo \<le> j \<Longrightarrow> j < i \<Longrightarrow> \<not> P j"
  using assms by (auto simp: scan_Some_iff)

lemma scan_exists: "lo \<le> i \<Longrightarrow> i < hi \<Longrightarrow> P i \<Longrightarrow> \<exists>j. scan lo hi P = Some j"
  by (cases "scan lo hi P") (auto simp: scan_None_iff)

section \<open>Words\<close>

lemma unat_u32_bound: "unat (a :: u32) < 2 ^ 32"
  using unsigned_less [of a] by simp

lemma unat_of_nat_small [simp]: "n < 2 ^ 32 \<Longrightarrow> unat (of_nat n :: u32) = n"
  by (simp add: unat_of_nat)

lemma unat_less_iff: "(a :: u32) < b \<longleftrightarrow> unat a < unat b"
  by (rule word_less_nat_alt)

lemma unat_le_iff: "(a :: u32) \<le> b \<longleftrightarrow> unat a \<le> unat b"
  by (rule word_le_nat_alt)

lemma unat_add_small: "unat (a :: u32) + unat b < 2 ^ 32 \<Longrightarrow> unat (a + b) = unat a + unat b"
  by (simp add: unat_word_ariths)

lemma unat_mult_small: "unat (a :: u32) * unat b < 2 ^ 32 \<Longrightarrow> unat (a * b) = unat a * unat b"
  by (simp add: unat_word_ariths)

lemma unat_sub_small: "unat (b :: u32) \<le> unat a \<Longrightarrow> unat (a - b) = unat a - unat b"
  by (simp add: unat_sub word_le_nat_alt)

lemmas unat_arith_simps = unat_less_iff unat_le_iff unat_add_small unat_mult_small unat_sub_small
  unat_div unat_mod

lemma unat_and_not_mask: "unat ((x :: u32) AND NOT (mask n)) = unat x div 2 ^ n * 2 ^ n"
proof -
  have "x AND NOT (mask n) = push_bit n (drop_bit n x)"
    by (rule bit_word_eqI) (auto simp: bit_simps)
  then have "unat (x AND NOT (mask n)) = unat (push_bit n (drop_bit n x))" by simp
  also have "\<dots> = take_bit 32 (push_bit n (unat (drop_bit n x)))"
    by (subst unsigned_push_bit_eq) simp
  also have "unat (drop_bit n x) = unat x div 2 ^ n"
    by (subst unsigned_drop_bit_eq) (simp add: drop_bit_eq_div take_bit_nat_eq_self [OF unat_u32_bound])
  finally show ?thesis
    using unat_u32_bound [of x]
    by (simp add: push_bit_eq_mult take_bit_nat_eq_self le_less_trans [OF div_times_less_eq_dividend])
qed

section \<open>Refinement of a component by sequences of operations\<close>

text \<open>
  A component is a step function on its state, \<open>None\<close> meaning that the call does not return;
  its contract is a relation on an abstract view of that state. When every operation keeps
  the invariant and satisfies the contract, so does every sequence of operations.
\<close>

fun run_ops :: "('o \<Rightarrow> 's \<Rightarrow> ('r \<times> 's) option) \<Rightarrow> 'o list \<Rightarrow> 's \<Rightarrow> ('r list \<times> 's) option" where
  "run_ops step [] s = Some ([], s)"
| "run_ops step (x # xs) s =
     (case step x s of None \<Rightarrow> None
      | Some (r, s') \<Rightarrow> map_option (\<lambda>(rs, s''). (r # rs, s'')) (run_ops step xs s'))"

fun spec_run :: "('o \<Rightarrow> 'v \<Rightarrow> 'r \<Rightarrow> 'v \<Rightarrow> bool) \<Rightarrow> 'o list \<Rightarrow> 'v \<Rightarrow> 'r list \<Rightarrow> 'v \<Rightarrow> bool" where
  "spec_run spec [] v rs v' \<longleftrightarrow> rs = [] \<and> v' = v"
| "spec_run spec (x # xs) v rs v' \<longleftrightarrow>
     (\<exists>r rs' w. rs = r # rs' \<and> spec x v r w \<and> spec_run spec xs w rs' v')"

locale op_refinement =
  fixes step :: "'o \<Rightarrow> 's \<Rightarrow> ('r \<times> 's) option"
    and spec :: "'o \<Rightarrow> 'v \<Rightarrow> 'r \<Rightarrow> 'v \<Rightarrow> bool"
    and inv :: "'s \<Rightarrow> bool"
    and view :: "'s \<Rightarrow> 'v"
    and valid :: "'o \<Rightarrow> bool"
  assumes step_refines: "inv s \<Longrightarrow> valid x \<Longrightarrow>
    \<exists>r s'. step x s = Some (r, s') \<and> inv s' \<and> spec x (view s) r (view s')"
begin

lemma run_refines:
  "inv s \<Longrightarrow> \<forall>x \<in> set xs. valid x \<Longrightarrow>
     \<exists>rs s'. run_ops step xs s = Some (rs, s') \<and> inv s' \<and> spec_run spec xs (view s) rs (view s')"
proof (induction xs arbitrary: s)
  case (Cons x xs)
  from Cons.prems obtain r s1 where s1: "step x s = Some (r, s1)" "inv s1" "spec x (view s) r (view s1)"
    using step_refines by (metis list.set_intros(1))
  with Cons obtain rs s' where "run_ops step xs s1 = Some (rs, s')" "inv s'"
      "spec_run spec xs (view s1) rs (view s')" by (metis list.set_intros(2))
  with s1 show ?case by auto
qed simp

end

end
