(* ===== verification/Idt.thy ===== *)
theory Idt
  imports OK_Prelude
begin

text \<open>
  Interrupts: the descriptor table and the interrupt controller of \<open>idt.c\<close>, the gates that
  \<open>isr_setup.c\<close> installs, the handlers the assembly stubs call, and the segment table of
  \<open>gdt.c\<close>.
\<close>

section \<open>Ports\<close>

text \<open>
  The two instructions \<open>in\<close> and \<open>out\<close> behind \<open>io_inb\<close> and \<open>io_outb\<close>. The devices are a
  parameter \<open>hw\<close> of the code that reads a port: the byte read may depend on everything that
  was read and written before.
\<close>

datatype io_event = In u16 u8 | Out u16 u8 | In16 u16 u16 | Out16 u16 u16 | In32 u16 u32 | Out32 u16 u32

type_synonym device = "io_event list \<Rightarrow> u16 \<Rightarrow> u8"

record ports = kout +
  io_trace :: "io_event list"

definition io_inb :: "device \<Rightarrow> u16 \<Rightarrow> 'a ports_scheme \<Rightarrow> u8 \<times> 'a ports_scheme" where
  "io_inb hw port s = (let v = hw (io_trace s) port in (v, s\<lparr>io_trace := io_trace s @ [In port v]\<rparr>))"

definition io_outb :: "u16 \<Rightarrow> u8 \<Rightarrow> 'a ports_scheme \<Rightarrow> 'a ports_scheme" where
  "io_outb port v s = s\<lparr>io_trace := io_trace s @ [Out port v]\<rparr>"

text \<open>The bytes written, in order, with the port of each.\<close>

fun outs :: "io_event list \<Rightarrow> (u16 \<times> u8) list" where
  "outs [] = []"
| "outs (In p v # es) = outs es"
| "outs (Out p v # es) = (p, v) # outs es"
| "outs (_ # es) = outs es"

lemma outs_append [simp]: "outs (es @ es') = outs es @ outs es'"
  by (induction es rule: outs.induct) simp_all

section \<open>Descriptors\<close>

record gdt_entry_t =
  limit_low :: u16
  gbase_low :: u16
  base_middle :: u8
  access :: u8
  granularity :: u8
  gbase_high :: u8

record idt_entry_t =
  base_low :: u16
  selector :: u16
  always0 :: u8
  flags :: u8
  base_high :: u16

text \<open>The operand of \<open>lgdt\<close> and \<open>lidt\<close>: a limit and a base address.\<close>

record table_ptr_t =
  tlimit :: u16
  tbase :: u32

text \<open>The interrupt handlers the kernel registers; the table holds \<open>None\<close> for a null pointer.\<close>

datatype isr_t = Timer_irq_handler | Keyboard_irq_handler

text \<open>
  \<open>idtr\<close> and \<open>gdtr\<close> are the registers loaded by \<open>lidt\<close> and \<open>lgdt\<close>; \<open>data_segs\<close> and
  \<open>code_seg\<close> the selectors in \<open>ds, es, fs, gs, ss\<close> and \<open>cs\<close>; \<open>vga_buffer\<close> the cells of the
  text screen at \<open>0xB8000\<close>.
\<close>

record interrupts = ports +
  idt_entries :: "nat \<Rightarrow> idt_entry_t"
  irq_handlers :: "nat \<Rightarrow> isr_t option"
  idtr :: "table_ptr_t option"
  gdt_entries :: "nat \<Rightarrow> gdt_entry_t"
  gdtr :: "table_ptr_t option"
  data_segs :: u16
  code_seg :: u16
  vga_buffer :: "nat \<Rightarrow> u16"
  graphics_mode_active :: bool

section \<open>The segment table\<close>

definition gdt_set_entry :: "nat \<Rightarrow> u32 \<Rightarrow> u32 \<Rightarrow> u8 \<Rightarrow> u8 \<Rightarrow> 'a interrupts_scheme \<Rightarrow> 'a interrupts_scheme" where
  "gdt_set_entry num base limit acc gran s =
     s\<lparr>gdt_entries := (gdt_entries s)(num :=
        \<lparr>limit_low = ucast (limit AND 0xFFFF),
         gbase_low = ucast (base AND 0xFFFF),
         base_middle = ucast (drop_bit 16 base AND 0xFF),
         access = acc,
         granularity = ucast (drop_bit 16 limit AND 0x0F) OR (gran AND 0xF0),
         gbase_high = ucast (drop_bit 24 base AND 0xFF)\<rparr>)\<rparr>"

text \<open>\<open>gdt_addr\<close> is the link address of \<open>gdt_entries\<close>, 3 entries of 8 bytes.\<close>

definition gdt_init :: "u32 \<Rightarrow> 'a interrupts_scheme \<Rightarrow> 'a interrupts_scheme" where
  "gdt_init gdt_addr s =
     (let s = gdt_set_entry 0 0 0 0 0 s;
          s = gdt_set_entry 1 0 0xFFFFFFFF 0x9A 0xCF s;
          s = gdt_set_entry 2 0 0xFFFFFFFF 0x92 0xCF s
      in s\<lparr>gdtr := Some \<lparr>tlimit = 3 * 8 - 1, tbase = gdt_addr\<rparr>,
           data_segs := 0x10, code_seg := 0x08\<rparr>)"

section \<open>The interrupt table and the interrupt controller\<close>

definition idt_gate :: "u32 \<Rightarrow> u16 \<Rightarrow> u8 \<Rightarrow> idt_entry_t" where
  "idt_gate base sel fl =
     \<lparr>base_low = ucast (base AND 0xFFFF), selector = sel, always0 = 0, flags = fl,
      base_high = ucast (drop_bit 16 base AND 0xFFFF)\<rparr>"

definition idt_set_entry_raw :: "nat \<Rightarrow> u32 \<Rightarrow> u16 \<Rightarrow> u8 \<Rightarrow> 'a interrupts_scheme \<Rightarrow> 'a interrupts_scheme" where
  "idt_set_entry_raw num base sel fl s =
     s\<lparr>idt_entries := (idt_entries s)(num := idt_gate base sel fl)\<rparr>"

abbreviation PIC1_CMD :: u16 where "PIC1_CMD \<equiv> 0x20"
abbreviation PIC1_DATA :: u16 where "PIC1_DATA \<equiv> 0x21"
abbreviation PIC2_CMD :: u16 where "PIC2_CMD \<equiv> 0xA0"
abbreviation PIC2_DATA :: u16 where "PIC2_DATA \<equiv> 0xA1"
abbreviation PIC_EOI :: u8 where "PIC_EOI \<equiv> 0x20"

definition pic_remap :: "'a ports_scheme \<Rightarrow> 'a ports_scheme" where
  "pic_remap s =
     (let s = io_outb PIC1_CMD (0x10 OR 0x11) s;
          s = io_outb PIC2_CMD (0x10 OR 0x11) s;
          s = io_outb PIC1_DATA 0x20 s;
          s = io_outb PIC2_DATA 0x28 s;
          s = io_outb PIC1_DATA 0x04 s;
          s = io_outb PIC2_DATA 0x02 s;
          s = io_outb PIC1_DATA 0x01 s;
          s = io_outb PIC2_DATA 0x01 s;
          s = io_outb PIC1_DATA 0xFC s
      in io_outb PIC2_DATA 0xFF s)"

definition pic_send_eoi :: "u8 \<Rightarrow> 'a ports_scheme \<Rightarrow> 'a ports_scheme" where
  "pic_send_eoi irq s =
     (let s = (if 8 \<le> irq then io_outb PIC2_CMD PIC_EOI s else s) in io_outb PIC1_CMD PIC_EOI s)"

text \<open>\<open>idt_addr\<close> is the link address of \<open>idt_entries\<close>, 256 entries of 8 bytes.\<close>

definition idt_init :: "u32 \<Rightarrow> 'a interrupts_scheme \<Rightarrow> 'a interrupts_scheme" where
  "idt_init idt_addr s =
     (let s = for_loop 0 256 (\<lambda>i. idt_set_entry_raw i 0 0 0) s;
          s = for_loop 0 16 (\<lambda>i s. s\<lparr>irq_handlers := (irq_handlers s)(i := None)\<rparr>) s;
          s = pic_remap s
      in s\<lparr>idtr := Some \<lparr>tlimit = 256 * 8 - 1, tbase = idt_addr\<rparr>\<rparr>)"

definition idt_register_handler :: "int \<Rightarrow> isr_t \<Rightarrow> 'a interrupts_scheme \<Rightarrow> 'a interrupts_scheme" where
  "idt_register_handler irq handler s =
     (if 0 \<le> irq \<and> irq < 16 then s\<lparr>irq_handlers := (irq_handlers s)(nat irq \<mapsto> handler)\<rparr> else s)"

text \<open>
  \<open>isr_install_all\<close>: the stubs are the assembly labels \<open>isr0 .. isr31\<close>, \<open>irq0 .. irq15\<close> and
  \<open>isr128\<close>; \<open>isr\<close> and \<open>irq\<close> give their addresses.
\<close>

definition isr_install_all :: "(nat \<Rightarrow> u32) \<Rightarrow> (nat \<Rightarrow> u32) \<Rightarrow> 'a interrupts_scheme \<Rightarrow> 'a interrupts_scheme" where
  "isr_install_all isr irq s =
     (let s = for_loop 0 32 (\<lambda>i. idt_set_entry_raw i (isr i) 0x08 0x8E) s;
          s = for_loop 0 16 (\<lambda>i. idt_set_entry_raw (0x20 + i) (irq i) 0x08 0x8E) s
      in idt_set_entry_raw 0x80 (isr 128) 0x08 0xEE s)"

section \<open>The handlers called by the assembly stubs\<close>

record regs_t =
  r_gs :: u32
  r_fs :: u32
  r_es :: u32
  r_ds :: u32
  r_edi :: u32
  r_esi :: u32
  r_ebp :: u32
  r_esp :: u32
  r_ebx :: u32
  r_edx :: u32
  r_ecx :: u32
  r_eax :: u32
  r_int_no :: u32
  r_err_code :: u32
  r_eip :: u32
  r_cs :: u32
  r_eflags :: u32
  r_user_esp :: u32
  r_ss :: u32

definition exception_msgs :: "string list" where
  "exception_msgs =
    [''Division By Zero'',
     ''Debug'',
     ''Non-Maskable Interrupt'',
     ''Breakpoint'',
     ''Overflow'',
     ''Bound Range Exceeded'',
     ''Invalid Opcode'',
     ''Device Not Available'',
     ''Double Fault'',
     ''Coprocessor Segment Overrun'',
     ''Invalid TSS'',
     ''Segment Not Present'',
     ''Stack-Segment Fault'',
     ''General Protection Fault'',
     ''Page Fault'',
     ''Reserved'',
     ''x87 FPU Error'',
     ''Alignment Check'',
     ''Machine Check'',
     ''SIMD Floating-Point Exception'',
     ''Virtualization Exception'',
     ''Reserved'',
     ''Reserved'',
     ''Reserved'',
     ''Reserved'',
     ''Reserved'',
     ''Reserved'',
     ''Reserved'',
     ''Reserved'',
     ''Reserved'',
     ''Security Exception'',
     ''Reserved'']"

definition syscall_handler :: "regs_t \<Rightarrow> 'a kout_scheme \<Rightarrow> 'a kout_scheme" where
  "syscall_handler r s =
     log_event (Printk ''Syscall: int 0x%x (eax: 0x%x)\<newline>'' [KHex (r_int_no r), KHex (r_eax r)]) s"

text \<open>A handler either returns to the interrupted code or stops the machine in \<open>halt\<close>.\<close>

datatype 's outcome = Returns 's | Halts 's

definition isr_handler :: "regs_t \<Rightarrow> 'a kout_scheme \<Rightarrow> 'a kout_scheme outcome" where
  "isr_handler r s =
     (if r_int_no r < 32
      then let s = log_event (Printk ''\<newline>!!! CPU Exception: %s (int %d)\<newline>''
                     [KStr (exception_msgs ! unat (r_int_no r)), KDec (sint (r_int_no r))]) s;
               s = log_event (Printk ''  Error code: 0x%x\<newline>'' [KHex (r_err_code r)]) s;
               s = log_event (Printk ''  EIP: 0x%x  CS: 0x%x  EFLAGS: 0x%x\<newline>''
                     [KHex (r_eip r), KHex (r_cs r), KHex (r_eflags r)]) s;
               s = log_event (Printk ''  EAX: 0x%x  EBX: 0x%x  ECX: 0x%x  EDX: 0x%x\<newline>''
                     [KHex (r_eax r), KHex (r_ebx r), KHex (r_ecx r), KHex (r_edx r)]) s;
               s = log_event (Printk ''  System halted!\<newline>'' []) s
           in Halts s
      else if r_int_no r = 0x80 then Returns (syscall_handler r s)
      else Returns s)"

text \<open>The heartbeat in cell 79 of the screen, shown in text mode only.\<close>

definition heartbeat :: "'a interrupts_scheme \<Rightarrow> 'a interrupts_scheme" where
  "heartbeat s =
     (if graphics_mode_active s then s
      else let cell = vga_buffer s 79 in
        s\<lparr>vga_buffer := (vga_buffer s)(79 :=
            (cell AND 0xFF00) OR (if cell AND 0xFF = 0x2A then 0x2E else 0x2A))\<rparr>)"

text \<open>
  \<open>irq_handler\<close>: \<open>call\<close> runs the registered handler. \<open>irq\<close> is a C \<open>int\<close>, the signed
  reading of \<open>int_no - 32\<close>.
\<close>

definition irq_handler ::
  "(isr_t \<Rightarrow> 'a interrupts_scheme \<Rightarrow> 'a interrupts_scheme) \<Rightarrow> regs_t \<Rightarrow>
   'a interrupts_scheme \<Rightarrow> 'a interrupts_scheme" where
  "irq_handler call r s =
     (let irq = sint (r_int_no r - 32);
          s = heartbeat s;
          s = pic_send_eoi (ucast (r_int_no r - 32)) s
      in if 0 \<le> irq \<and> irq < 16
         then (case irq_handlers s (nat irq) of Some h \<Rightarrow> call h s | None \<Rightarrow> s)
         else s)"

section \<open>Decoding the tables\<close>

text \<open>How the processor reads the descriptors.\<close>

definition gate_target :: "idt_entry_t \<Rightarrow> u32" where
  "gate_target e = push_bit 16 (ucast (base_high e)) OR ucast (base_low e)"

definition seg_base :: "gdt_entry_t \<Rightarrow> u32" where
  "seg_base e = push_bit 24 (ucast (gbase_high e)) OR push_bit 16 (ucast (base_middle e)) OR
     ucast (gbase_low e)"

definition seg_limit :: "gdt_entry_t \<Rightarrow> u32" where
  "seg_limit e = push_bit 16 (ucast (granularity e AND 0x0F)) OR ucast (limit_low e)"

lemma mask_consts:
  "(0xFFFF :: u32) = mask 16" "(0xFF :: u32) = mask 8" "(0x0F :: u32) = mask 4"
  "(0xFFFFF :: u32) = mask 20" "(0x0F :: u8) = mask 4" "(0xF0 :: u8) = push_bit 4 (mask 4)"
  by (simp_all add: mask_eq_exp_minus_1)

lemma idt_gate_decodes [simp]:
  "gate_target (idt_gate base sel fl) = base" "flags (idt_gate base sel fl) = fl"
  "selector (idt_gate base sel fl) = sel"
  unfolding gate_target_def idt_gate_def
  by (rule bit_word_eqI) (auto simp: bit_simps mask_consts)

lemma idt_set_entry_raw_entries [simp]:
  "idt_entries (idt_set_entry_raw n base sel fl s) = (idt_entries s)(n := idt_gate base sel fl)"
  by (simp add: idt_set_entry_raw_def)

lemma gates_loop:
  "idt_entries (for_loop 0 n (\<lambda>i. idt_set_entry_raw (k + i) (f i) sel fl) s) m =
     (if k \<le> m \<and> m < k + n then idt_gate (f (m - k)) sel fl else idt_entries s m)"
proof (induction n)
  case (Suc n)
  have "m < k + Suc n \<longleftrightarrow> m < k + n \<or> m = k + n" by arith
  with Suc show ?case by (subst for_loop_Suc) auto
qed auto

lemmas gates_loop_0 = gates_loop [of _ 0, simplified]

text \<open>Every descriptor written by \<open>gdt_set_entry\<close> decodes to its base, to the low 20 bits
  of its limit, and to its access byte and flags.\<close>

theorem gdt_set_entry_decodes:
  "let e = gdt_entries (gdt_set_entry num base limit acc gran s) num in
     seg_base e = base \<and> seg_limit e = limit AND 0xFFFFF \<and> access e = acc \<and>
     granularity e AND 0xF0 = gran AND 0xF0"
proof -
  let ?e = "gdt_entries (gdt_set_entry num base limit acc gran s) num"
  have "seg_base ?e = base"
    unfolding seg_base_def gdt_set_entry_def
    by (rule bit_word_eqI, rename_tac i, case_tac "i < 24") (auto simp: bit_simps mask_consts)
  moreover have "seg_limit ?e = limit AND 0xFFFFF"
    unfolding seg_limit_def gdt_set_entry_def
    by (rule bit_word_eqI) (auto simp: bit_simps mask_consts)
  moreover have "granularity ?e AND 0xF0 = gran AND 0xF0"
    unfolding gdt_set_entry_def
    by (rule bit_word_eqI) (auto simp: bit_simps mask_consts)
  ultimately show ?thesis by (simp add: gdt_set_entry_def Let_def)
qed

text \<open>C21. After \<open>idt_init\<close> and \<open>isr_install_all\<close> each of the 256 vectors leads to its own stub:
  0 to 31 to the exception stubs, 32 to 47 to the interrupt stubs, 128 to the system call
  stub, which alone may be called from user mode; every other gate is absent.\<close>

theorem idt_gates_installed:
  assumes "n < 256"
  shows "let e = idt_entries (isr_install_all isr irq (idt_init addr s)) n in
    (if n < 32 then gate_target e = isr n \<and> flags e = 0x8E \<and> selector e = 0x08
     else if n < 48 then gate_target e = irq (n - 32) \<and> flags e = 0x8E \<and> selector e = 0x08
     else if n = 128 then gate_target e = isr 128 \<and> flags e = 0xEE \<and> selector e = 0x08
     else gate_target e = 0 \<and> flags e = 0)"
proof -
  have handlers: "idt_entries (for_loop 0 k (\<lambda>i s. s\<lparr>irq_handlers := (irq_handlers s)(i := None)\<rparr>) t) = idt_entries t"
    for k and t :: "'a interrupts_scheme"
    by (rule for_loop_preserves) simp
  have remap: "idt_entries (pic_remap t) = idt_entries t" for t :: "'a interrupts_scheme"
    by (simp add: pic_remap_def io_outb_def)
  have "idt_entries (idt_init addr s) n = idt_gate 0 0 0"
    using assms by (simp add: idt_init_def Let_def handlers remap gates_loop_0)
  then show ?thesis by (simp add: isr_install_all_def Let_def gates_loop gates_loop_0)
qed

theorem idt_gates_installed_witness:
  "gate_target (idt_entries (isr_install_all (\<lambda>n. 0x1000 + of_nat n) (\<lambda>n. 0x2000 + of_nat n)
     (idt_init 0 (undefined :: interrupts))) 33) = 0x2001"
  using idt_gates_installed [of 33 "\<lambda>n. 0x1000 + of_nat n" "\<lambda>n. 0x2000 + of_nat n" 0 "undefined :: interrupts"]
  by (simp add: Let_def)


section \<open>Dispatch\<close>

lemma heartbeat_fields [simp]:
  "io_trace (heartbeat s) = io_trace s" "irq_handlers (heartbeat s) = irq_handlers s"
  "klog (heartbeat s) = klog s"
  by (simp_all add: heartbeat_def Let_def)

lemma heartbeat_cells:
  "vga_buffer (heartbeat s) i AND (if i = 79 \<and> \<not> graphics_mode_active s then 0xFF00 else 0xFFFF) =
   vga_buffer s i AND (if i = 79 \<and> \<not> graphics_mode_active s then 0xFF00 else 0xFFFF)"
  by (auto simp: heartbeat_def Let_def bit.conj_disj_distrib2)

lemma pic_send_eoi_fields [simp]:
  "irq_handlers (pic_send_eoi k s) = irq_handlers s" "vga_buffer (pic_send_eoi k s) = vga_buffer s"
  by (simp_all add: pic_send_eoi_def io_outb_def Let_def)

lemma pic_send_eoi_outs:
  "outs (io_trace (pic_send_eoi k s)) = outs (io_trace s) @
     (if 8 \<le> k then [(PIC2_CMD, PIC_EOI)] else []) @ [(PIC1_CMD, PIC_EOI)]"
  by (simp add: pic_send_eoi_def io_outb_def Let_def)

lemma sint_small: "unat (a :: u32) < 2 ^ 31 \<Longrightarrow> sint a = int (unat a)"
proof -
  assume "unat a < 2 ^ 31"
  then have "int (unat a) < int (2 ^ 31)" by (simp only: of_nat_less_iff)
  then have "uint a < 2 ^ 31" by simp
  then have "signed_take_bit 31 (uint a) = uint a"
    using order_trans [OF _ uint_ge_0, of "- 2147483648" a] by (simp add: signed_take_bit_int_eq_self_iff)
  then show "sint a = int (unat a)" by (simp add: sint_uint)
qed

lemma irq_number:
  assumes "k < 16"
  shows "sint ((32 + of_nat k :: u32) - 32) = int k" "ucast ((32 + of_nat k :: u32) - 32) = (of_nat k :: u8)"
    "(8 :: u8) \<le> of_nat k \<longleftrightarrow> 8 \<le> k"
proof -
  show "sint ((32 + of_nat k :: u32) - 32) = int k"
    using assms by (subst sint_small) simp_all
  show "ucast ((32 + of_nat k :: u32) - 32) = (of_nat k :: u8)"
    using assms by (simp add: unsigned_of_nat take_bit_nat_eq_self)
  show "(8 :: u8) \<le> of_nat k \<longleftrightarrow> 8 \<le> k"
    using assms by (simp add: word_le_nat_alt unat_of_nat)
qed

text \<open>C12. On interrupt line \<open>k\<close> the controller is acknowledged before the handler runs, once at the
  master and for the lines 8 to 15 first at the slave; then exactly the handler registered for
  \<open>k\<close> runs, if there is one. Of the screen only the character of cell 79 changes, and in graphics
  mode nothing.\<close>

theorem irq_handler_acknowledges:
  assumes "r_int_no r = 32 + of_nat k" and "k < 16"
  shows "\<exists>t. irq_handler call r s = (case irq_handlers s k of Some h \<Rightarrow> call h t | None \<Rightarrow> t) \<and>
    irq_handlers t = irq_handlers s \<and>
    outs (io_trace t) = outs (io_trace s) @
      (if k < 8 then [(PIC1_CMD, PIC_EOI)] else [(PIC2_CMD, PIC_EOI), (PIC1_CMD, PIC_EOI)]) \<and>
    (\<forall>i. vga_buffer t i AND (if i = 79 \<and> \<not> graphics_mode_active s then 0xFF00 else 0xFFFF) =
         vga_buffer s i AND (if i = 79 \<and> \<not> graphics_mode_active s then 0xFF00 else 0xFFFF))"
proof (intro exI conjI)
  let ?t = "pic_send_eoi (of_nat k) (heartbeat s)"
  show "irq_handler call r s = (case irq_handlers s k of Some h \<Rightarrow> call h ?t | None \<Rightarrow> ?t)"
    using assms(2) unfolding irq_handler_def Let_def assms(1) irq_number [OF assms(2)] by simp
  show "outs (io_trace ?t) = outs (io_trace s) @
      (if k < 8 then [(PIC1_CMD, PIC_EOI)] else [(PIC2_CMD, PIC_EOI), (PIC1_CMD, PIC_EOI)])"
    by (simp add: pic_send_eoi_outs irq_number(3) [OF assms(2)])
qed (simp_all only: pic_send_eoi_fields heartbeat_fields heartbeat_cells simp_thms)

definition quiet_regs :: "u32 \<Rightarrow> regs_t" where
  "quiet_regs n = \<lparr>r_gs = 0, r_fs = 0, r_es = 0, r_ds = 0, r_edi = 0, r_esi = 0, r_ebp = 0, r_esp = 0,
     r_ebx = 0, r_edx = 0, r_ecx = 0, r_eax = 0, r_int_no = n, r_err_code = 0, r_eip = 0, r_cs = 8,
     r_eflags = 0, r_user_esp = 0, r_ss = 0\<rparr>"

definition cold_interrupts :: interrupts where
  "cold_interrupts = \<lparr>klog = [], io_trace = [], idt_entries = (\<lambda>_. idt_gate 0 0 0), irq_handlers = (\<lambda>_. None),
     idtr = None, gdt_entries = (\<lambda>_. \<lparr>limit_low = 0, gbase_low = 0, base_middle = 0, access = 0,
     granularity = 0, gbase_high = 0\<rparr>), gdtr = None, data_segs = 0, code_seg = 0,
     vga_buffer = (\<lambda>_. 0x0720), graphics_mode_active = False\<rparr>"

theorem irq_handler_acknowledges_witness:
  "outs (io_trace (irq_handler (\<lambda>h s. s) (quiet_regs 44) cold_interrupts)) = [(0xA0, 0x20), (0x20, 0x20)]"
proof -
  have "r_int_no (quiet_regs 44) = 32 + of_nat 12" by (simp add: quiet_regs_def)
  from irq_handler_acknowledges [OF this, of "\<lambda>h s. s" cold_interrupts]
  show ?thesis by (auto simp: cold_interrupts_def)
qed

text \<open>Each of the 32 exception vectors has a message, is reported with it and stops the machine;
  the system call vector is reported and returns, and every other vector returns with the state
  unchanged.\<close>

theorem isr_handler_total:
  "case isr_handler r s of
     Halts s' \<Rightarrow> r_int_no r < 32 \<and> unat (r_int_no r) < length exception_msgs \<and>
       (\<exists>es. klog s' = klog s @ Printk ''\<newline>!!! CPU Exception: %s (int %d)\<newline>''
          [KStr (exception_msgs ! unat (r_int_no r)), KDec (int (unat (r_int_no r)))] # es)
   | Returns s' \<Rightarrow> 32 \<le> r_int_no r \<and> (if r_int_no r = 128 then length (klog s') = length (klog s) + 1 else s' = s)"
proof (cases "r_int_no r < 32")
  case True
  then have n: "unat (r_int_no r) < 32" by (simp add: word_less_nat_alt)
  then have "sint (r_int_no r) = int (unat (r_int_no r))"
    by (intro sint_small) simp
  with True n show ?thesis by (simp add: isr_handler_def exception_msgs_def Let_def)
next
  case False
  then show ?thesis by (auto simp: isr_handler_def syscall_handler_def)
qed


end
