(* ===== verification/Keyboard_Layouts.thy ===== *)
theory Keyboard_Layouts
  imports OK_Prelude
begin

text \<open>
  The keyboard layouts of \<open>keyboard.c\<close>: for each of the 19 layouts the character of a scan code
  without and with shift, in the order of the source. A table holds the scan codes 0 to 59.
\<close>

section \<open>The tables\<close>

subsection \<open>United States\<close>

definition scancode_ascii_lower_us :: "char list" where
  "scancode_ascii_lower_us =
    [NUL, NUL] @ ''1234567890-='' @ [NUL, NUL] @ ''qwertyuiop[]'' @ [NEWLINE, NUL] @
    ''asdfghjkl;'' @ [CHR 0x27, CHR 0x60, NUL, CHR 0x5C] @ ''zxcvbnm,./'' @ [NUL] @ ''*'' @ [NUL] @
    '' '' @ [NUL, NUL]"

definition scancode_ascii_upper_us :: "char list" where
  "scancode_ascii_upper_us =
    [NUL, NUL] @ ''!@#$%^&*()_+'' @ [NUL, NUL] @ ''QWERTYUIOP{}'' @ [NEWLINE, NUL] @
    ''ASDFGHJKL:'' @ [CHR 0x22] @ ''~'' @ [NUL] @ ''|ZXCVBNM<>?'' @ [NUL] @ ''*'' @ [NUL] @ '' '' @
    [NUL, NUL]"

subsection \<open>United Kingdom\<close>

definition scancode_ascii_lower_uk :: "char list" where
  "scancode_ascii_lower_uk =
    [NUL, NUL] @ ''1234567890-='' @ [NUL, NUL] @ ''qwertyuiop[]'' @ [NEWLINE, NUL] @
    ''asdfghjkl;'' @ [CHR 0x27, CHR 0x60, NUL] @ ''#zxcvbnm,./'' @ [NUL] @ ''*'' @ [NUL] @ '' '' @
    [NUL, NUL]"

definition scancode_ascii_upper_uk :: "char list" where
  "scancode_ascii_upper_uk =
    [NUL, NUL] @ ''!'' @ [CHR 0x22, CHR 0xA3] @ ''$%^&*()_+'' @ [NUL, NUL] @ ''QWERTYUIOP{}'' @
    [NEWLINE, NUL] @ ''ASDFGHJKL:@~'' @ [NUL] @ ''~ZXCVBNM<>?'' @ [NUL] @ ''*'' @ [NUL] @ '' '' @
    [NUL, NUL]"

subsection \<open>Italian\<close>

definition scancode_ascii_lower_it :: "char list" where
  "scancode_ascii_lower_it =
    [NUL, NUL] @ ''1234567890'' @ [CHR 0x27] @ ''i'' @ [NUL, NUL] @ ''qwertyuiope+'' @
    [NEWLINE, NUL] @ ''asdfghjkloa'' @ [CHR 0x5C, NUL] @ ''uzxcvbnm,.-'' @ [NUL] @ ''*'' @ [NUL] @
    '' '' @ [NUL, NUL]"

definition scancode_ascii_upper_it :: "char list" where
  "scancode_ascii_upper_it =
    [NUL, NUL] @ ''!'' @ [CHR 0x22] @ ''#$%&/()=?^'' @ [NUL, NUL] @ ''QWERTYUIOPE*'' @
    [NEWLINE, NUL] @ ''ASDFGHJKLCO|'' @ [NUL] @ ''SZXCVBNM;:_'' @ [NUL] @ ''*'' @ [NUL] @ '' '' @
    [NUL, NUL]"

subsection \<open>French\<close>

definition scancode_ascii_lower_fr :: "char list" where
  "scancode_ascii_lower_fr =
    [NUL, NUL] @ ''&'' @ [CHR 0x82, CHR 0x22, CHR 0x27] @ ''(-'' @
    [CHR 0x8A, CHR 0x5F, CHR 0x87, CHR 0x85] @ '')='' @ [NUL, NUL] @ ''azertyuiop^$'' @
    [NEWLINE, NUL] @ ''qsdfghjklm'' @ [CHR 0x97] @ ''^'' @ [NUL] @ ''*wxcvbn,;:!'' @ [NUL] @ ''*'' @
    [NUL] @ '' '' @ [NUL, NUL]"

definition scancode_ascii_upper_fr :: "char list" where
  "scancode_ascii_upper_fr =
    [NUL, NUL] @ ''1234567890'' @ [CHR 0xB0] @ ''+'' @ [NUL, NUL] @ ''AZERTYUIOP'' @
    [CHR 0xA8, CHR 0xA3, NEWLINE, NUL] @ ''QSDFGHJKLM'' @ [CHR 0x97, CHR 0xA8, NUL, NUL] @
    ''WXCVBN?./#'' @ [NUL] @ ''*'' @ [NUL] @ '' '' @ [NUL, NUL]"

subsection \<open>German\<close>

definition scancode_ascii_lower_de :: "char list" where
  "scancode_ascii_lower_de =
    [NUL, NUL] @ ''1234567890'' @ [CHR 0xE1, CHR 0x27, NUL, NUL] @ ''qwertzuiop'' @ [CHR 0x81] @
    ''+'' @ [NEWLINE, NUL] @ ''asdfghjkl'' @ [CHR 0x94, CHR 0x84] @ ''^'' @ [NUL] @
    ''#yxcvbnm,.-'' @ [NUL] @ ''*'' @ [NUL] @ '' '' @ [NUL, NUL]"

definition scancode_ascii_upper_de :: "char list" where
  "scancode_ascii_upper_de =
    [NUL, NUL] @ ''!'' @ [CHR 0x22] @ ''#$%&/()=?'' @ [CHR 0x60, NUL, NUL] @ ''QWERTZUIOP'' @
    [CHR 0x9A] @ ''*'' @ [NEWLINE, NUL] @ ''ASDFGHJKL'' @ [CHR 0x99, CHR 0x8E] @ ''^'' @
    [NUL, CHR 0x27] @ ''YXCVBNM;:_'' @ [NUL] @ ''*'' @ [NUL] @ '' '' @ [NUL, NUL]"

subsection \<open>Spanish\<close>

definition scancode_ascii_lower_es :: "char list" where
  "scancode_ascii_lower_es =
    [NUL, NUL] @ ''1234567890'' @ [CHR 0x27, CHR 0xAD, NUL, NUL] @ ''qwertyuiop'' @ [CHR 0x60] @
    ''+'' @ [NEWLINE, NUL] @ ''asdfghjkl'' @ [CHR 0xA4, CHR 0xA0, CHR 0xB0, NUL, CHR 0x87] @
    ''zxcvbnm,.-'' @ [NUL] @ ''*'' @ [NUL] @ '' '' @ [NUL, NUL]"

definition scancode_ascii_upper_es :: "char list" where
  "scancode_ascii_upper_es =
    [NUL, NUL] @ ''!'' @ [CHR 0x22, CHR 0xA7] @ ''$%&/()=?'' @ [CHR 0xA8, NUL, NUL] @
    ''QWERTYUIOP^*'' @ [NEWLINE, NUL] @ ''ASDFGHJKL'' @
    [CHR 0xA5, CHR 0xA2, CHR 0xA7, NUL, CHR 0x80] @ ''ZXCVBNM;:_'' @ [NUL] @ ''*'' @ [NUL] @ '' '' @
    [NUL, NUL]"

subsection \<open>Portuguese\<close>

definition scancode_ascii_lower_pt :: "char list" where
  "scancode_ascii_lower_pt =
    [NUL, NUL] @ ''1234567890'' @ [CHR 0x27, CHR 0xAE, NUL, NUL] @ ''qwertyuiop+'' @
    [CHR 0x27, NEWLINE, NUL] @ ''asdfghjkl'' @ [CHR 0x87, CHR 0xB0, CHR 0xAA, NUL] @
    ''~zxcvbnm,.-'' @ [NUL] @ ''*'' @ [NUL] @ '' '' @ [NUL, NUL]"

definition scancode_ascii_upper_pt :: "char list" where
  "scancode_ascii_upper_pt =
    [NUL, NUL] @ ''!'' @ [CHR 0x22] @ ''#$%&/()=?'' @ [CHR 0xAF, NUL, NUL] @ ''QWERTYUIOP*?'' @
    [NEWLINE, NUL] @ ''ASDFGHJKL'' @ [CHR 0x87] @ ''^'' @ [CHR 0xA7, NUL] @ ''^ZXCVBNM;:_'' @
    [NUL] @ ''*'' @ [NUL] @ '' '' @ [NUL, NUL]"

subsection \<open>Norwegian\<close>

definition scancode_ascii_lower_no :: "char list" where
  "scancode_ascii_lower_no =
    [NUL, NUL] @ ''1234567890+'' @ [CHR 0x5C, NUL, NUL] @ ''qwertyuiop'' @ [CHR 0x86] @ ''^'' @
    [NEWLINE, NUL] @ ''asdfghjkl'' @ [CHR 0x94, CHR 0x84, CHR 0x27, NUL] @ ''*zxcvbnm,.-'' @ [NUL] @
    ''*'' @ [NUL] @ '' '' @ [NUL, NUL]"

definition scancode_ascii_upper_no :: "char list" where
  "scancode_ascii_upper_no =
    [NUL, NUL] @ ''!'' @ [CHR 0x22] @ ''#$%&/()=?'' @ [CHR 0x60, NUL, NUL] @ ''QWERTYUIOP'' @
    [CHR 0x8F] @ ''^'' @ [NEWLINE, NUL] @ ''ASDFGHJKL'' @ [CHR 0x99, CHR 0x8E] @ ''*'' @ [NUL] @
    ''*ZXCVBNM;:_'' @ [NUL] @ ''*'' @ [NUL] @ '' '' @ [NUL, NUL]"

subsection \<open>Danish\<close>

definition scancode_ascii_lower_dk :: "char list" where
  "scancode_ascii_lower_dk =
    [NUL, NUL] @ ''1234567890+'' @ [CHR 0x5C, NUL, NUL] @ ''qwertyuiop'' @ [CHR 0x86] @ ''^'' @
    [NEWLINE, NUL] @ ''asdfghjkl'' @ [CHR 0x84, CHR 0x94, CHR 0x27, NUL] @ ''*zxcvbnm,.-'' @ [NUL] @
    ''*'' @ [NUL] @ '' '' @ [NUL, NUL]"

definition scancode_ascii_upper_dk :: "char list" where
  "scancode_ascii_upper_dk =
    [NUL, NUL] @ ''!'' @ [CHR 0x22] @ ''#$%&/()=?'' @ [CHR 0x60, NUL, NUL] @ ''QWERTYUIOP'' @
    [CHR 0x8F] @ ''^'' @ [NEWLINE, NUL] @ ''ASDFGHJKL'' @ [CHR 0x8E, CHR 0x99] @ ''*'' @ [NUL] @
    ''*ZXCVBNM;:_'' @ [NUL] @ ''*'' @ [NUL] @ '' '' @ [NUL, NUL]"

subsection \<open>Swedish\<close>

definition scancode_ascii_lower_se :: "char list" where
  "scancode_ascii_lower_se =
    [NUL, NUL] @ ''1234567890+'' @ [CHR 0x27, NUL, NUL] @ ''qwertyuiop'' @ [CHR 0x86] @ ''^'' @
    [NEWLINE, NUL] @ ''asdfghjkl'' @ [CHR 0x94, CHR 0x84, CHR 0x27, NUL] @ ''*zxcvbnm,.-'' @ [NUL] @
    ''*'' @ [NUL] @ '' '' @ [NUL, NUL]"

definition scancode_ascii_upper_se :: "char list" where
  "scancode_ascii_upper_se =
    [NUL, NUL] @ ''!'' @ [CHR 0x22] @ ''#$%&/()=?'' @ [CHR 0x60, NUL, NUL] @ ''QWERTYUIOP'' @
    [CHR 0x8F] @ ''^'' @ [NEWLINE, NUL] @ ''ASDFGHJKL'' @ [CHR 0x99, CHR 0x8E] @ ''*'' @ [NUL] @
    ''*ZXCVBNM;:_'' @ [NUL] @ ''*'' @ [NUL] @ '' '' @ [NUL, NUL]"

subsection \<open>Finnish\<close>

definition scancode_ascii_lower_fi :: "char list" where
  "scancode_ascii_lower_fi =
    [NUL, NUL] @ ''1234567890+'' @ [CHR 0x27, NUL, NUL] @ ''qwertyuiop'' @ [CHR 0x86] @ ''^'' @
    [NEWLINE, NUL] @ ''asdfghjkl'' @ [CHR 0x94, CHR 0x84, CHR 0x27, NUL] @ ''*zxcvbnm,.-'' @ [NUL] @
    ''*'' @ [NUL] @ '' '' @ [NUL, NUL]"

definition scancode_ascii_upper_fi :: "char list" where
  "scancode_ascii_upper_fi =
    [NUL, NUL] @ ''!'' @ [CHR 0x22] @ ''#$%&/()=?'' @ [CHR 0x60, NUL, NUL] @ ''QWERTYUIOP'' @
    [CHR 0x8F] @ ''^'' @ [NEWLINE, NUL] @ ''ASDFGHJKL'' @ [CHR 0x99, CHR 0x8E] @ ''*'' @ [NUL] @
    ''*ZXCVBNM;:_'' @ [NUL] @ ''*'' @ [NUL] @ '' '' @ [NUL, NUL]"

subsection \<open>Dutch\<close>

definition scancode_ascii_lower_nl :: "char list" where
  "scancode_ascii_lower_nl =
    [NUL, NUL] @ ''1234567890-='' @ [NUL, NUL] @ ''qwertyuiop[]'' @ [NEWLINE, NUL] @
    ''asdfghjkl;'' @ [CHR 0x27, CHR 0x60, NUL, CHR 0x5C] @ ''zxcvbnm,./'' @ [NUL] @ ''*'' @ [NUL] @
    '' '' @ [NUL, NUL]"

definition scancode_ascii_upper_nl :: "char list" where
  "scancode_ascii_upper_nl =
    [NUL, NUL] @ ''!'' @ [CHR 0x22] @ ''#$%&*()_+='' @ [NUL, NUL] @ ''QWERTYUIOP{}'' @
    [NEWLINE, NUL] @ ''ASDFGHJKL:'' @ [CHR 0x22] @ ''~'' @ [NUL] @ ''|ZXCVBNM<>?'' @ [NUL] @ ''*'' @
    [NUL] @ '' '' @ [NUL, NUL]"

subsection \<open>Belgian\<close>

definition scancode_ascii_lower_be :: "char list" where
  "scancode_ascii_lower_be =
    [NUL, NUL] @ ''&'' @ [CHR 0x82, CHR 0x22, CHR 0x27] @ ''(#'' @ [CHR 0x8A] @ ''!'' @
    [CHR 0x87, CHR 0x85] @ '')-'' @ [NUL, NUL] @ ''azertyuiop^$'' @ [NEWLINE, NUL] @
    ''qsdfghjklm'' @ [CHR 0x97, CHR 0x60, NUL, CHR 0xA3] @ ''wxcvbn,;:='' @ [NUL] @ ''*'' @ [NUL] @
    '' '' @ [NUL, NUL]"

definition scancode_ascii_upper_be :: "char list" where
  "scancode_ascii_upper_be =
    [NUL, NUL] @ ''1234567890^+'' @ [NUL, NUL] @ ''AZERTYUIOP'' @ [CHR 0xA8] @ ''*'' @
    [NEWLINE, NUL] @ ''QSDFGHJKLM%~'' @ [NUL] @ ''|WXCVBN?./+'' @ [NUL] @ ''*'' @ [NUL] @ '' '' @
    [NUL, NUL]"

subsection \<open>Polish\<close>

definition scancode_ascii_lower_pl :: "char list" where
  "scancode_ascii_lower_pl =
    [NUL, NUL] @ ''1234567890-='' @ [NUL, NUL] @ ''qwertyuiop[]'' @ [NEWLINE, NUL] @
    ''asdfghjkl;'' @ [CHR 0x27, CHR 0x60, NUL, CHR 0x5C] @ ''zxcvbnm,./'' @ [NUL] @ ''*'' @ [NUL] @
    '' '' @ [NUL, NUL]"

definition scancode_ascii_upper_pl :: "char list" where
  "scancode_ascii_upper_pl =
    [NUL, NUL] @ ''!'' @ [CHR 0x22] @ ''#$%&*()_+='' @ [NUL, NUL] @ ''QWERTYUIOP{}'' @
    [NEWLINE, NUL] @ ''ASDFGHJKL:'' @ [CHR 0x22] @ ''~'' @ [NUL] @ ''|ZXCVBNM<>?'' @ [NUL] @ ''*'' @
    [NUL] @ '' '' @ [NUL, NUL]"

subsection \<open>Czech\<close>

definition scancode_ascii_lower_cz :: "char list" where
  "scancode_ascii_lower_cz =
    [NUL, NUL] @ ''+1234567890='' @ [NUL, NUL] @ ''qwertzuiop'' @ [CHR 0x8B] @ ''('' @
    [NEWLINE, NUL] @ ''asdfghjkl'' @ [CHR 0x94, CHR 0x97] @ ''#'' @ [NUL, CHR 0x27] @
    ''yxcvbnm,.-'' @ [NUL] @ ''*'' @ [NUL] @ '' '' @ [NUL, NUL]"

definition scancode_ascii_upper_cz :: "char list" where
  "scancode_ascii_upper_cz =
    [NUL, NUL] @ ''1234567890%~'' @ [NUL, NUL] @ ''QWERTZUIOP/('' @ [NEWLINE, NUL] @ ''ASDFGHJKL'' @
    [CHR 0x22] @ ''!^'' @ [NUL] @ '')YXCVBNM?:_'' @ [NUL] @ ''*'' @ [NUL] @ '' '' @ [NUL, NUL]"

subsection \<open>Slovak\<close>

definition scancode_ascii_lower_sk :: "char list" where
  "scancode_ascii_lower_sk =
    [NUL, NUL] @ ''+1234567890='' @ [NUL, NUL] @ ''qwertzuiop'' @ [CHR 0x8B] @ ''('' @
    [NEWLINE, NUL] @ ''asdfghjkl'' @ [CHR 0x94, CHR 0x97] @ ''#'' @ [NUL, CHR 0x27] @
    ''yxcvbnm,.-'' @ [NUL] @ ''*'' @ [NUL] @ '' '' @ [NUL, NUL]"

definition scancode_ascii_upper_sk :: "char list" where
  "scancode_ascii_upper_sk =
    [NUL, NUL] @ ''1234567890%~'' @ [NUL, NUL] @ ''QWERTZUIOP/('' @ [NEWLINE, NUL] @ ''ASDFGHJKL'' @
    [CHR 0x22] @ ''!^'' @ [NUL] @ '')YXCVBNM?:_'' @ [NUL] @ ''*'' @ [NUL] @ '' '' @ [NUL, NUL]"

subsection \<open>Hungarian\<close>

definition scancode_ascii_lower_hu :: "char list" where
  "scancode_ascii_lower_hu =
    [NUL, NUL] @ ''1234567890'' @ [CHR 0x94, CHR 0x9A, NUL, NUL] @ ''qwertzuiop'' @
    [CHR 0x94, CHR 0x9A, NEWLINE, NUL] @ ''asdfghjkl'' @ [CHR 0x94, CHR 0x81] @ ''0'' @
    [NUL, CHR 0x81] @ ''yxcvbnm,.-'' @ [NUL] @ ''*'' @ [NUL] @ '' '' @ [NUL, NUL]"

definition scancode_ascii_upper_hu :: "char list" where
  "scancode_ascii_upper_hu =
    [NUL, NUL, CHR 0x27, CHR 0x22] @ ''+!%/=()#'' @ [CHR 0x99, CHR 0x9A, NUL, NUL] @
    ''QWERTZUIOP'' @ [CHR 0x99, CHR 0x9A, NEWLINE, NUL] @ ''ASDFGHJKL'' @ [CHR 0x99, CHR 0x9A] @
    ''$'' @ [NUL, CHR 0x9A] @ ''YXCVBNM;:_'' @ [NUL] @ ''*'' @ [NUL] @ '' '' @ [NUL, NUL]"

subsection \<open>Romanian\<close>

definition scancode_ascii_lower_ro :: "char list" where
  "scancode_ascii_lower_ro =
    [NUL, NUL] @ ''1234567890-='' @ [NUL, NUL] @ ''qwertyuiop'' @ [CHR 0x83] @ '']'' @
    [NEWLINE, NUL] @ ''asdfghjkl'' @ [CHR 0x83, CHR 0x84, CHR 0x60, NUL, CHR 0x5C] @
    ''zxcvbnm,./'' @ [NUL] @ ''*'' @ [NUL] @ '' '' @ [NUL, NUL]"

definition scancode_ascii_upper_ro :: "char list" where
  "scancode_ascii_upper_ro =
    [NUL, NUL] @ ''!'' @ [CHR 0x22] @ ''#$%&*()_+='' @ [NUL, NUL] @ ''QWERTYUIOP'' @ [CHR 0x83] @
    ''}'' @ [NEWLINE, NUL] @ ''ASDFGHJKL'' @ [CHR 0x83, CHR 0x8E] @ ''~'' @ [NUL] @
    ''|ZXCVBNM;:?'' @ [NUL] @ ''*'' @ [NUL] @ '' '' @ [NUL, NUL]"

subsection \<open>Turkish\<close>

definition scancode_ascii_lower_tr :: "char list" where
  "scancode_ascii_lower_tr =
    [NUL, NUL] @ ''1234567890*-'' @ [NUL, NUL] @ ''qwertyuiop'' @ [CHR 0x8B] @ ''$'' @
    [NEWLINE, NUL] @ ''asdfghjkl;'' @ [CHR 0x22] @ '','' @ [NUL] @ ''<zxcvbnm'' @ [CHR 0x94] @
    ''c.'' @ [NUL] @ ''*'' @ [NUL] @ '' '' @ [NUL, NUL]"

definition scancode_ascii_upper_tr :: "char list" where
  "scancode_ascii_upper_tr =
    [NUL, NUL] @ ''!'' @ [CHR 0x27] @ ''^+%&/()=?_'' @ [NUL, NUL] @ ''QWERTYUIOP'' @ [CHR 0x8B] @
    ''!'' @ [NEWLINE, NUL] @ ''ASDFGHJKL:'' @ [CHR 0x22] @ ''*'' @ [NUL] @ ''>ZXCVBNM'' @
    [CHR 0x99] @ ''C:'' @ [NUL] @ ''*'' @ [NUL] @ '' '' @ [NUL, NUL]"

end
