(* ===== verification/Keyboard.thy ===== *)
theory Keyboard
  imports Idt Keyboard_Layouts "HOL-Library.Monad_Syntax"
begin

text \<open>
  The PS/2 keyboard driver of \<open>keyboard.c\<close>: the interrupt handler that tracks the modifier keys
  and queues scan codes in a ring buffer, the reader of that buffer, the conversion of scan
  codes to characters under the 19 layouts, and the initialisation of the controller.
\<close>

section \<open>State\<close>

abbreviation KEYBUF_SIZE :: nat where "KEYBUF_SIZE \<equiv> 64"
abbreviation KEYBOARD_DATA_PORT :: u16 where "KEYBOARD_DATA_PORT \<equiv> 0x60"
abbreviation KEYBOARD_STATUS_PORT :: u16 where "KEYBOARD_STATUS_PORT \<equiv> 0x64"

abbreviation KEYBOARD_CAPS_LOCK :: u8 where "KEYBOARD_CAPS_LOCK \<equiv> 0x01"
abbreviation KEYBOARD_LSHIFT :: u8 where "KEYBOARD_LSHIFT \<equiv> 0x08"
abbreviation KEYBOARD_RSHIFT :: u8 where "KEYBOARD_RSHIFT \<equiv> 0x10"
abbreviation KEYBOARD_LALT :: u8 where "KEYBOARD_LALT \<equiv> 0x20"
abbreviation KEYBOARD_LCTRL :: u8 where "KEYBOARD_LCTRL \<equiv> 0x40"
abbreviation KEYBOARD_RCTRL :: u8 where "KEYBOARD_RCTRL \<equiv> 0x80"

datatype layout_t =
    LAYOUT_US
  | LAYOUT_UK
  | LAYOUT_IT
  | LAYOUT_FR
  | LAYOUT_DE
  | LAYOUT_ES
  | LAYOUT_PT
  | LAYOUT_NO
  | LAYOUT_DK
  | LAYOUT_SE
  | LAYOUT_FI
  | LAYOUT_NL
  | LAYOUT_BE
  | LAYOUT_PL
  | LAYOUT_CZ
  | LAYOUT_SK
  | LAYOUT_HU
  | LAYOUT_RO
  | LAYOUT_TR

text \<open>The enumeration in the order of its values 0 to 18.\<close>

definition layouts :: "layout_t list" where
  "layouts = [LAYOUT_US, LAYOUT_UK, LAYOUT_IT, LAYOUT_FR, LAYOUT_DE, LAYOUT_ES, LAYOUT_PT, LAYOUT_NO,
    LAYOUT_DK, LAYOUT_SE, LAYOUT_FI, LAYOUT_NL, LAYOUT_BE, LAYOUT_PL, LAYOUT_CZ, LAYOUT_SK,
    LAYOUT_HU, LAYOUT_RO, LAYOUT_TR]"

record kbd = interrupts +
  key_buffer :: "nat \<Rightarrow> u8"
  keybuf_head :: nat
  keybuf_tail :: nat
  modifiers :: u8
  extended_mode :: bool
  keyboard_debug_counter :: u32
  arrow_left_requested :: bool
  arrow_right_requested :: bool
  arrow_up_requested :: bool
  arrow_down_requested :: bool
  delete_requested :: bool
  graphics_toggle_requested :: bool
  t_key_pressed :: bool
  current_layout :: layout_t

section \<open>Layouts\<close>

definition keyboard_set_layout :: "int \<Rightarrow> 'a kbd_scheme \<Rightarrow> 'a kbd_scheme" where
  "keyboard_set_layout layout s =
     (if 0 \<le> layout \<and> layout \<le> 18 then s\<lparr>current_layout := layouts ! nat layout\<rparr> else s)"

definition keyboard_layout_name :: "int \<Rightarrow> string" where
  "keyboard_layout_name layout =
     (if layout = 0 then ''US''
      else if layout = 1 then ''UK''
      else if layout = 2 then ''IT''
      else if layout = 3 then ''FR''
      else if layout = 4 then ''DE''
      else if layout = 5 then ''ES''
      else if layout = 6 then ''PT''
      else if layout = 7 then ''NO''
      else if layout = 8 then ''DK''
      else if layout = 9 then ''SE''
      else if layout = 10 then ''FI''
      else if layout = 11 then ''NL''
      else if layout = 12 then ''BE''
      else if layout = 13 then ''PL''
      else if layout = 14 then ''CZ''
      else if layout = 15 then ''SK''
      else if layout = 16 then ''HU''
      else if layout = 17 then ''RO''
      else if layout = 18 then ''TR''
      else ''?'')"

fun kstrcmp_prefix :: "string \<Rightarrow> string \<Rightarrow> bool" where
  "kstrcmp_prefix str [] = True"
| "kstrcmp_prefix [] (p # ps) = False"
| "kstrcmp_prefix (c # str) (p # ps) = (if c \<noteq> p then False else kstrcmp_prefix str ps)"

text \<open>The chain of comparisons after \<open>layout=\<close>, in its order.\<close>

definition layout_codes :: "(string \<times> int) list" where
  "layout_codes = [(''us'', 0), (''uk'', 1), (''it'', 2), (''fr'', 3), (''de'', 4), (''es'', 5), (''pt'',
    6), (''no'', 7), (''dk'', 8), (''se'', 9), (''fi'', 10), (''nl'', 11), (''be'', 12),
    (''pl'', 13), (''cz'', 14), (''sk'', 15), (''hu'', 16), (''ro'', 17), (''tr'', 18)]"

fun detect_loop :: "string \<Rightarrow> 'a kbd_scheme \<Rightarrow> 'a kbd_scheme" where
  "detect_loop [] s = s"
| "detect_loop (c # p) s =
     (if kstrcmp_prefix (c # p) ''layout=''
      then (case List.find (\<lambda>(code, layout). kstrcmp_prefix (drop 7 (c # p)) code) layout_codes of
              Some (code, layout) \<Rightarrow> keyboard_set_layout layout s
            | None \<Rightarrow> s)
      else detect_loop p s)"

definition keyboard_detect_layout :: "string option \<Rightarrow> 'a kbd_scheme \<Rightarrow> 'a kbd_scheme" where
  "keyboard_detect_layout cmdline s = (case cmdline of None \<Rightarrow> s | Some p \<Rightarrow> detect_loop p s)"

section \<open>The interrupt handler\<close>

definition keyboard_read :: "device \<Rightarrow> 'a ports_scheme \<Rightarrow> u8 \<times> 'a ports_scheme" where
  "keyboard_read hw s = io_inb hw KEYBOARD_DATA_PORT s"

definition track_modifiers :: "u8 \<Rightarrow> u8 \<Rightarrow> u8" where
  "track_modifiers scancode m =
     (if scancode = 0x2A then m OR KEYBOARD_LSHIFT
      else if scancode = 0xAA then m AND NOT KEYBOARD_LSHIFT
      else if scancode = 0x36 then m OR KEYBOARD_RSHIFT
      else if scancode = 0xB6 then m AND NOT KEYBOARD_RSHIFT
      else if scancode = 0x38 then m OR KEYBOARD_LALT
      else if scancode = 0xB8 then m AND NOT KEYBOARD_LALT
      else if scancode = 0x1D then m OR KEYBOARD_LCTRL
      else if scancode = 0x9D then m AND NOT KEYBOARD_LCTRL
      else if scancode = 0x3A then m XOR KEYBOARD_CAPS_LOCK
      else m)"

definition handle_extended :: "u8 \<Rightarrow> 'a kbd_scheme \<Rightarrow> 'a kbd_scheme" where
  "handle_extended scancode s =
     (let s = s\<lparr>extended_mode := False\<rparr> in
      if scancode = 0x48 then s\<lparr>arrow_up_requested := True\<rparr>
      else if scancode = 0x50 then s\<lparr>arrow_down_requested := True\<rparr>
      else if scancode = 0x4B then s\<lparr>arrow_left_requested := True\<rparr>
      else if scancode = 0x4D then s\<lparr>arrow_right_requested := True\<rparr>
      else if scancode = 0x53 then s\<lparr>delete_requested := True\<rparr>
      else s)"

definition buffer_scancode :: "u8 \<Rightarrow> 'a kbd_scheme \<Rightarrow> 'a kbd_scheme" where
  "buffer_scancode scancode s =
     (if scancode AND 0x80 = 0
      then let next = (keybuf_head s + 1) mod KEYBUF_SIZE in
           if next \<noteq> keybuf_tail s
           then s\<lparr>key_buffer := (key_buffer s)(keybuf_head s := scancode), keybuf_head := next\<rparr>
           else s
      else s)"

definition handle_scancode :: "u8 \<Rightarrow> 'a kbd_scheme \<Rightarrow> 'a kbd_scheme" where
  "handle_scancode scancode s =
     (let s = s\<lparr>keyboard_debug_counter := keyboard_debug_counter s + 1\<rparr> in
      if scancode = 0xE0 then s\<lparr>extended_mode := True\<rparr>
      else let s = s\<lparr>modifiers := track_modifiers scancode (modifiers s)\<rparr> in
        if extended_mode s then handle_extended scancode s
        else if scancode = 0x14 \<and> \<not> t_key_pressed s \<and>
                modifiers s AND (KEYBOARD_LCTRL OR KEYBOARD_RCTRL) \<noteq> 0
        then s\<lparr>graphics_toggle_requested := True, t_key_pressed := True\<rparr>
        else if scancode = 0x94 then s\<lparr>t_key_pressed := False\<rparr>
        else buffer_scancode scancode s)"

definition keyboard_irq_handler :: "device \<Rightarrow> 'a kbd_scheme \<Rightarrow> 'a kbd_scheme" where
  "keyboard_irq_handler hw s = (let (scancode, s) = keyboard_read hw s in handle_scancode scancode s)"

section \<open>Initialisation\<close>

text \<open>\<open>while (timeout-- && (io_inb(KEYBOARD_STATUS_PORT) & 0x01)) io_inb(KEYBOARD_DATA_PORT);\<close>\<close>

fun drain :: "device \<Rightarrow> nat \<Rightarrow> 'a ports_scheme \<Rightarrow> 'a ports_scheme" where
  "drain hw 0 s = s"
| "drain hw (Suc timeout) s =
     (let (status, s) = io_inb hw KEYBOARD_STATUS_PORT s in
      if status AND 0x01 \<noteq> 0 then drain hw timeout (snd (io_inb hw KEYBOARD_DATA_PORT s)) else s)"

text \<open>
  \<open>while (timeout-- && P(io_inb(KEYBOARD_STATUS_PORT)));\<close> with the final value of
  \<open>timeout\<close>, which is -1 when the loop ran out.
\<close>

fun wait_while :: "device \<Rightarrow> (u8 \<Rightarrow> bool) \<Rightarrow> nat \<Rightarrow> 'a ports_scheme \<Rightarrow> int \<times> 'a ports_scheme" where
  "wait_while hw P 0 s = (-1, s)"
| "wait_while hw P (Suc timeout) s =
     (let (status, s) = io_inb hw KEYBOARD_STATUS_PORT s in
      if P status then wait_while hw P timeout s else (int timeout, s))"

abbreviation input_full :: "u8 \<Rightarrow> bool" where "input_full status \<equiv> status AND 0x02 \<noteq> 0"
abbreviation output_empty :: "u8 \<Rightarrow> bool" where "output_empty status \<equiv> status AND 0x01 = 0"

definition report_ack :: "device \<Rightarrow> int \<Rightarrow> 'a ports_scheme \<Rightarrow> 'a ports_scheme" where
  "report_ack hw timeout s =
     (if timeout > 0
      then let (ack, s) = io_inb hw KEYBOARD_DATA_PORT s in
           if ack = 0xFA
           then log_event (Printk ''  [KB] Scanning enabled (ACK OK)\<newline>'' []) s
           else log_event (Printk ''  [KB] Responded with 0x%x (continuing)\<newline>'' [KHex (ucast ack)]) s
      else log_event (Printk ''  [KB] No ACK from keyboard (continuing anyway)\<newline>'' []) s)"

text \<open>The dialogue with the controller, up to the registration of the handler.\<close>

definition controller_setup :: "device \<Rightarrow> 'a ports_scheme \<Rightarrow> 'a ports_scheme" where
  "controller_setup hw s =
     (let s = log_event (Printk ''Initializing PS/2 keyboard...\<newline>'' []) s;
          s = drain hw 1000 s;
          s = io_outb KEYBOARD_STATUS_PORT 0xAE s;
          s = snd (wait_while hw input_full 5000 s);
          s = io_outb KEYBOARD_STATUS_PORT 0x20 s;
          s = snd (wait_while hw output_empty 5000 s);
          (ccb, s) = io_inb hw KEYBOARD_DATA_PORT s;
          ccb = ccb OR 0x01;
          ccb = ccb OR 0x40;
          ccb = ccb AND NOT 0x02;
          s = snd (wait_while hw input_full 5000 s);
          s = io_outb KEYBOARD_STATUS_PORT 0x60 s;
          s = snd (wait_while hw input_full 5000 s);
          s = io_outb KEYBOARD_DATA_PORT ccb s;
          s = log_event (Printk ''  [KB] CCB configured (0x%x)\<newline>'' [KHex (ucast ccb)]) s;
          s = snd (wait_while hw input_full 5000 s);
          s = io_outb KEYBOARD_DATA_PORT 0xF4 s;
          (timeout, s) = wait_while hw output_empty 10000 s;
          s = report_ack hw timeout s
      in drain hw 5000 s)"

definition keyboard_init :: "device \<Rightarrow> 'a kbd_scheme \<Rightarrow> 'a kbd_scheme" where
  "keyboard_init hw s =
     (let s = controller_setup hw s;
          s = idt_register_handler 1 Keyboard_irq_handler s;
          s = s\<lparr>keybuf_head := 0, keybuf_tail := 0, modifiers := 0\<rparr>
      in log_event (Printk ''  [OK] Keyboard interrupts registered\<newline>'' []) s)"

section \<open>Reading keys\<close>

definition keyboard_get_modifiers :: "'a kbd_scheme \<Rightarrow> u8" where
  "keyboard_get_modifiers s = modifiers s"

definition keyboard_get_scancode :: "'a kbd_scheme \<Rightarrow> u8 \<times> 'a kbd_scheme" where
  "keyboard_get_scancode s =
     (if keybuf_tail s \<noteq> keybuf_head s
      then (key_buffer s (keybuf_tail s), s\<lparr>keybuf_tail := (keybuf_tail s + 1) mod KEYBUF_SIZE\<rparr>)
      else (0, s))"

fun layout_tables :: "layout_t \<Rightarrow> char list \<times> char list" where
  "layout_tables LAYOUT_US = (scancode_ascii_lower_us, scancode_ascii_upper_us)"
| "layout_tables LAYOUT_UK = (scancode_ascii_lower_uk, scancode_ascii_upper_uk)"
| "layout_tables LAYOUT_IT = (scancode_ascii_lower_it, scancode_ascii_upper_it)"
| "layout_tables LAYOUT_FR = (scancode_ascii_lower_fr, scancode_ascii_upper_fr)"
| "layout_tables LAYOUT_DE = (scancode_ascii_lower_de, scancode_ascii_upper_de)"
| "layout_tables LAYOUT_ES = (scancode_ascii_lower_es, scancode_ascii_upper_es)"
| "layout_tables LAYOUT_PT = (scancode_ascii_lower_pt, scancode_ascii_upper_pt)"
| "layout_tables LAYOUT_NO = (scancode_ascii_lower_no, scancode_ascii_upper_no)"
| "layout_tables LAYOUT_DK = (scancode_ascii_lower_dk, scancode_ascii_upper_dk)"
| "layout_tables LAYOUT_SE = (scancode_ascii_lower_se, scancode_ascii_upper_se)"
| "layout_tables LAYOUT_FI = (scancode_ascii_lower_fi, scancode_ascii_upper_fi)"
| "layout_tables LAYOUT_NL = (scancode_ascii_lower_nl, scancode_ascii_upper_nl)"
| "layout_tables LAYOUT_BE = (scancode_ascii_lower_be, scancode_ascii_upper_be)"
| "layout_tables LAYOUT_PL = (scancode_ascii_lower_pl, scancode_ascii_upper_pl)"
| "layout_tables LAYOUT_CZ = (scancode_ascii_lower_cz, scancode_ascii_upper_cz)"
| "layout_tables LAYOUT_SK = (scancode_ascii_lower_sk, scancode_ascii_upper_sk)"
| "layout_tables LAYOUT_HU = (scancode_ascii_lower_hu, scancode_ascii_upper_hu)"
| "layout_tables LAYOUT_RO = (scancode_ascii_lower_ro, scancode_ascii_upper_ro)"
| "layout_tables LAYOUT_TR = (scancode_ascii_lower_tr, scancode_ascii_upper_tr)"

text \<open>\<open>None\<close> stands for a read beyond the end of a table, which is undefined in C.\<close>

definition table_read :: "char list \<Rightarrow> u8 \<Rightarrow> char option" where
  "table_read t i = (if unat i < length t then Some (t ! unat i) else None)"

definition keyboard_scancode_to_ascii :: "u8 \<Rightarrow> 'a kbd_scheme \<Rightarrow> char option" where
  "keyboard_scancode_to_ascii scancode s =
     (if scancode AND 0x80 \<noteq> 0 then Some NUL
      else let (lower_ptr, upper_ptr) = layout_tables (current_layout s) in
        if scancode < 0x59
        then do {
          c \<leftarrow> table_read lower_ptr scancode;
          if c = NUL then Some NUL
          else let shifted = (modifiers s AND (KEYBOARD_LSHIFT OR KEYBOARD_RSHIFT) \<noteq> 0);
                   caps = (modifiers s AND KEYBOARD_CAPS_LOCK \<noteq> 0)
               in if shifted \<or> caps
                  then do {
                    upper \<leftarrow> table_read upper_ptr scancode;
                    if upper \<noteq> NUL \<and>
                       (shifted \<or> (caps \<and> (of_char c :: nat) \<ge> 97 \<and> (of_char c :: nat) \<le> 122))
                    then Some upper else Some c
                  }
                  else Some c
        }
        else Some NUL)"

end
