(* ===== verification/Keyboard_Props.thy ===== *)
theory Keyboard_Props
  imports Keyboard "HOL-Library.Sublist"
begin

text \<open>
  Properties of the keyboard driver: the ring buffer is a bounded queue, also when the reader is
  interrupted between any two of its accesses; the modifier byte follows the key events; what a
  scan code means under each layout; and what the initialisation does to the controller.
\<close>

section \<open>A bounded queue\<close>

locale bounded_fifo =
  fixes push :: "'x \<Rightarrow> 's \<Rightarrow> 's"
    and pop :: "'s \<Rightarrow> 'x \<times> 's"
    and none :: 'x
    and items :: "'s \<Rightarrow> 'x list"
    and wf :: "'s \<Rightarrow> bool"
    and limit :: nat
    and ok :: "'x \<Rightarrow> bool"
  assumes push_items: "wf s \<Longrightarrow> ok x \<Longrightarrow>
      wf (push x s) \<and> items (push x s) = (if length (items s) < limit then items s @ [x] else items s)"
    and pop_items: "wf s \<Longrightarrow> items s \<noteq> [] \<Longrightarrow>
      wf (snd (pop s)) \<and> fst (pop s) = hd (items s) \<and> items (snd (pop s)) = tl (items s)"
    and pop_none: "wf s \<Longrightarrow> items s = [] \<Longrightarrow> pop s = (none, s)"
    and items_limit: "wf s \<Longrightarrow> length (items s) \<le> limit"
begin

text \<open>Pushing a batch and then taking as many items out returns the old items, then the batch.\<close>

lemma push_batch:
  "wf s \<Longrightarrow> \<forall>x \<in> set xs. ok x \<Longrightarrow> length (items s) + length xs \<le> limit \<Longrightarrow>
     wf (fold push xs s) \<and> items (fold push xs s) = items s @ xs"
  by (induction xs arbitrary: s) (auto simp: push_items)

fun pops :: "nat \<Rightarrow> 's \<Rightarrow> 'x list \<times> 's" where
  "pops 0 s = ([], s)"
| "pops (Suc n) s = (let (x, s) = pop s; (xs, s) = pops n s in (x # xs, s))"

lemma pops_items:
  "wf s \<Longrightarrow> n \<le> length (items s) \<Longrightarrow>
     wf (snd (pops n s)) \<and> fst (pops n s) = take n (items s) \<and> items (snd (pops n s)) = drop n (items s)"
proof (induction n arbitrary: s)
  case (Suc n)
  then have ne: "items s \<noteq> []" by auto
  then obtain x xs where xs: "items s = x # xs" by (cases "items s") auto
  obtain y t where yt: "pop s = (y, t)" by (cases "pop s")
  with pop_items [OF Suc.prems(1) ne] xs have "wf t" "y = x" "items t = xs" by auto
  with Suc.IH [of t] Suc.prems(2) show ?case by (auto simp: yt xs split: prod.splits)
qed simp

end

section \<open>The ring buffer\<close>

definition ring_count :: "'a kbd_scheme \<Rightarrow> nat" where
  "ring_count s = (keybuf_head s + KEYBUF_SIZE - keybuf_tail s) mod KEYBUF_SIZE"

definition ring_items :: "'a kbd_scheme \<Rightarrow> u8 list" where
  "ring_items s = map (\<lambda>i. key_buffer s ((keybuf_tail s + i) mod KEYBUF_SIZE)) [0..<ring_count s]"

definition ring_wf :: "'a kbd_scheme \<Rightarrow> bool" where
  "ring_wf s \<longleftrightarrow> keybuf_head s < KEYBUF_SIZE \<and> keybuf_tail s < KEYBUF_SIZE"

lemma length_ring_items [simp]: "length (ring_items s) = ring_count s"
  by (simp add: ring_items_def)

lemma ring_count_less: "ring_count s < KEYBUF_SIZE"
  by (simp add: ring_count_def)

lemma ring_head: "ring_wf s \<Longrightarrow> (keybuf_tail s + ring_count s) mod KEYBUF_SIZE = keybuf_head s"
  by (auto simp: ring_wf_def ring_count_def mod_if)

lemma ring_count_eq:
  assumes "ring_wf s"
  shows "ring_count s = (if keybuf_tail s \<le> keybuf_head s then keybuf_head s - keybuf_tail s
                         else keybuf_head s + KEYBUF_SIZE - keybuf_tail s)"
  using assms by (auto simp: ring_wf_def ring_count_def mod_if)

lemma ring_old_slot:
  assumes "ring_wf s" and "i < ring_count s"
  shows "(keybuf_tail s + i) mod KEYBUF_SIZE \<noteq> keybuf_head s"
proof (cases "keybuf_tail s + i < KEYBUF_SIZE")
  case True
  with assms show ?thesis by (auto simp: ring_count_eq ring_wf_def split: if_splits)
next
  case False
  moreover have "keybuf_tail s + i - KEYBUF_SIZE < KEYBUF_SIZE"
    using assms ring_count_less [of s] unfolding ring_wf_def by linarith
  ultimately have "(keybuf_tail s + i) mod KEYBUF_SIZE = keybuf_tail s + i - KEYBUF_SIZE"
    by (metis le_mod_geq mod_less not_less)
  with False assms show ?thesis by (simp add: ring_count_eq ring_wf_def split: if_splits)
qed

lemma ring_empty_iff: "ring_wf s \<Longrightarrow> ring_count s = 0 \<longleftrightarrow> keybuf_tail s = keybuf_head s"
  by (auto simp: ring_wf_def ring_count_def mod_if)

lemma ring_full_iff:
  "ring_wf s \<Longrightarrow> (keybuf_head s + 1) mod KEYBUF_SIZE = keybuf_tail s \<longleftrightarrow> ring_count s = KEYBUF_SIZE - 1"
  by (auto simp: ring_wf_def ring_count_def mod_if)

lemma ring_push:
  assumes "ring_wf s" and "sc AND 0x80 = 0"
  shows "ring_wf (buffer_scancode sc s)"
    and "ring_items (buffer_scancode sc s) =
      (if ring_count s < KEYBUF_SIZE - 1 then ring_items s @ [sc] else ring_items s)"
proof -
  show "ring_wf (buffer_scancode sc s)"
    using assms(1) by (simp add: buffer_scancode_def ring_wf_def Let_def)
  show "ring_items (buffer_scancode sc s) =
      (if ring_count s < KEYBUF_SIZE - 1 then ring_items s @ [sc] else ring_items s)"
  proof (cases "ring_count s < KEYBUF_SIZE - 1")
    case False
    with ring_full_iff [OF assms(1)] ring_count_less [of s] show ?thesis
      by (simp add: buffer_scancode_def Let_def)
  next
    case True
    let ?s = "s\<lparr>key_buffer := (key_buffer s)(keybuf_head s := sc),
                keybuf_head := (keybuf_head s + 1) mod KEYBUF_SIZE\<rparr>"
    have upd: "buffer_scancode sc s = ?s"
      using True ring_full_iff [OF assms(1)] assms(2) by (simp add: buffer_scancode_def Let_def)
    have count: "ring_count ?s = Suc (ring_count s)"
      using assms(1) True by (auto simp: ring_wf_def ring_count_def mod_if split: if_splits)
    show ?thesis
      using True ring_head [OF assms(1)] ring_old_slot [OF assms(1)] unfolding upd ring_items_def count by simp
  qed
qed

lemma ring_pop:
  assumes "ring_wf s" and "0 < ring_count s"
  shows "ring_wf (s\<lparr>keybuf_tail := (keybuf_tail s + 1) mod KEYBUF_SIZE\<rparr>)"
    and "ring_items s = key_buffer s (keybuf_tail s) #
      ring_items (s\<lparr>keybuf_tail := (keybuf_tail s + 1) mod KEYBUF_SIZE\<rparr>)"
proof -
  let ?s = "s\<lparr>keybuf_tail := (keybuf_tail s + 1) mod KEYBUF_SIZE\<rparr>"
  show "ring_wf ?s" using assms(1) by (simp add: ring_wf_def)
  have count: "ring_count s = Suc (ring_count ?s)"
    using assms by (auto simp: ring_wf_def ring_count_def mod_if split: if_splits)
  have shift: "(Suc (keybuf_tail s) mod KEYBUF_SIZE + i) mod KEYBUF_SIZE = Suc (keybuf_tail s + i) mod KEYBUF_SIZE" for i
    by (simp add: mod_add_left_eq)
  show "ring_items s = key_buffer s (keybuf_tail s) # ring_items ?s"
    using assms(1) unfolding ring_items_def count
    by (simp add: upt_conv_Cons map_Suc_upt [symmetric] ring_wf_def shift del: upt_Suc)
qed

interpretation ring: bounded_fifo buffer_scancode keyboard_get_scancode 0 ring_items ring_wf
  "KEYBUF_SIZE - 1" "\<lambda>sc. sc AND 0x80 = 0"
proof
  fix s :: "'a kbd_scheme" and x :: u8
  assume s: "ring_wf s"
  show "x AND 0x80 = 0 \<Longrightarrow> ring_wf (buffer_scancode x s) \<and> ring_items (buffer_scancode x s) =
      (if length (ring_items s) < KEYBUF_SIZE - 1 then ring_items s @ [x] else ring_items s)"
    using ring_push [OF s] by simp
  show "length (ring_items s) \<le> KEYBUF_SIZE - 1" using ring_count_less [of s] by simp
  have empty: "ring_items s = [] \<longleftrightarrow> keybuf_tail s = keybuf_head s"
    using ring_empty_iff [OF s] length_ring_items [of s] by (metis length_0_conv)
  then show "ring_items s = [] \<Longrightarrow> keyboard_get_scancode s = (0, s)"
    by (simp add: keyboard_get_scancode_def)
  assume "ring_items s \<noteq> []"
  then have "0 < ring_count s" and "keybuf_tail s \<noteq> keybuf_head s"
    using empty length_ring_items [of s] by (metis length_greater_0_conv, blast)
  then show "ring_wf (snd (keyboard_get_scancode s)) \<and> fst (keyboard_get_scancode s) = hd (ring_items s) \<and>
      ring_items (snd (keyboard_get_scancode s)) = tl (ring_items s)"
    using ring_pop [OF s] by (simp add: keyboard_get_scancode_def)
qed

section \<open>Interrupts during a read\<close>

text \<open>
  The handler runs with interrupts off, the reader does not: an interrupt may arrive between
  the test of \<open>keyboard_get_scancode\<close>, its load from the buffer and its update of the tail. A
  configuration adds to the driver's state the position of the reader and two histories, the
  scan codes put into the buffer and the ones returned.
\<close>

datatype reader = Ready | Tested | Loaded u8

type_synonym 'a kb_config = "'a kbd_scheme \<times> reader \<times> u8 list \<times> u8 list"

text \<open>The scan codes that reach the buffer when it has room.\<close>

definition is_queued :: "u8 \<Rightarrow> 'a kbd_scheme \<Rightarrow> bool" where
  "is_queued sc s \<longleftrightarrow> sc AND 0x80 = 0 \<and> \<not> extended_mode s \<and>
     \<not> (sc = 0x14 \<and> \<not> t_key_pressed s \<and> modifiers s AND (KEYBOARD_LCTRL OR KEYBOARD_RCTRL) \<noteq> 0)"

definition queued :: "u8 \<Rightarrow> 'a kbd_scheme \<Rightarrow> u8 list" where
  "queued sc s = (if is_queued sc s \<and> ring_count s < KEYBUF_SIZE - 1 then [sc] else [])"

inductive kb_step :: "'a kb_config \<Rightarrow> 'a kb_config \<Rightarrow> bool" where
  irq: "kb_step (s, pc, acc, del) (handle_scancode sc s, pc, acc @ queued sc s, del)"
| test_empty: "keybuf_tail s = keybuf_head s \<Longrightarrow> kb_step (s, Ready, acc, del) (s, Ready, acc, del)"
| test: "keybuf_tail s \<noteq> keybuf_head s \<Longrightarrow> kb_step (s, Ready, acc, del) (s, Tested, acc, del)"
| load: "kb_step (s, Tested, acc, del) (s, Loaded (key_buffer s (keybuf_tail s)), acc, del)"
| advance: "kb_step (s, Loaded sc, acc, del)
    (s\<lparr>keybuf_tail := (keybuf_tail s + 1) mod KEYBUF_SIZE\<rparr>, Ready, acc, del @ [sc])"

lemmas kb_trans = converse_rtranclp_into_rtranclp [where r = kb_step]
lemmas kb_once = r_into_rtranclp [where r = kb_step]

text \<open>Without interrupts the reader's steps are \<open>keyboard_get_scancode\<close>.\<close>

lemma kb_steps_read:
  assumes "keybuf_tail s \<noteq> keybuf_head s"
  shows "kb_step\<^sup>*\<^sup>* (s, Ready, acc, del)
    (snd (keyboard_get_scancode s), Ready, acc, del @ [fst (keyboard_get_scancode s)])"
proof -
  let ?c = "(s, Tested, acc, del)" and ?x = "key_buffer s (keybuf_tail s)"
  let ?t = "s\<lparr>keybuf_tail := (keybuf_tail s + 1) mod KEYBUF_SIZE\<rparr>"
  have 1: "kb_step (s, Ready, acc, del) ?c" by (rule kb_step.test [OF assms])
  have 2: "kb_step ?c (s, Loaded ?x, acc, del)" by (rule kb_step.load)
  have 3: "kb_step (s, Loaded ?x, acc, del) (?t, Ready, acc, del @ [?x])" by (rule kb_step.advance)
  show ?thesis
    using kb_trans [OF 1 kb_trans [OF 2 kb_once [OF 3]]] assms by (simp add: keyboard_get_scancode_def)
qed

definition ring_same :: "'a kbd_scheme \<Rightarrow> 'a kbd_scheme \<Rightarrow> bool" where
  "ring_same t s \<longleftrightarrow> key_buffer t = key_buffer s \<and> keybuf_head t = keybuf_head s \<and> keybuf_tail t = keybuf_tail s"

lemma ring_sameD:
  assumes "ring_same t s"
  shows "ring_wf t = ring_wf s" "ring_items t = ring_items s" "ring_count t = ring_count s"
    "keybuf_tail t = keybuf_tail s"
  using assms by (simp_all add: ring_same_def ring_wf_def ring_items_def ring_count_def)

lemma handle_scancode_same:
  obtains t where "ring_same t s" and "handle_scancode sc s = (if is_queued sc s then buffer_scancode sc t else t)"
proof (cases "is_queued sc s")
  case True
  then have sc: "sc AND 0x80 = 0" "\<not> extended_mode s" by (simp_all add: is_queued_def)
  then have "sc \<noteq> 0xE0" "sc \<noteq> 0x94" by auto
  moreover have "track_modifiers 0x14 m = m" for m by (simp add: track_modifiers_def)
  ultimately have "handle_scancode sc s = buffer_scancode sc
      (s\<lparr>keyboard_debug_counter := keyboard_debug_counter s + 1, modifiers := track_modifiers sc (modifiers s)\<rparr>)"
    using True sc(2) by (auto simp: handle_scancode_def Let_def is_queued_def)
  with True show ?thesis by (intro that) (simp_all add: ring_same_def)
next
  case False
  have ext: "ring_same (handle_extended sc t) t" for t :: "'a kbd_scheme"
    by (simp add: handle_extended_def Let_def ring_same_def)
  have "track_modifiers 0x14 m = m" for m by (simp add: track_modifiers_def)
  with False ext have "ring_same (handle_scancode sc s) s"
    by (auto simp: handle_scancode_def is_queued_def Let_def ring_same_def buffer_scancode_def)
  with False show ?thesis by (intro that) simp_all
qed

lemma handle_scancode_ring:
  assumes "ring_wf s"
  shows "ring_wf (handle_scancode sc s)" and "keybuf_tail (handle_scancode sc s) = keybuf_tail s"
    and "ring_items (handle_scancode sc s) = ring_items s @ queued sc s"
proof -
  obtain t where same: "ring_same t s"
      and eq: "handle_scancode sc s = (if is_queued sc s then buffer_scancode sc t else t)"
    by (rule handle_scancode_same)
  note t = ring_sameD [OF same]
  have "keybuf_tail (buffer_scancode sc t) = keybuf_tail t"
    by (simp add: buffer_scancode_def Let_def)
  with t assms ring_push [of t sc]
  show "ring_wf (handle_scancode sc s)" "keybuf_tail (handle_scancode sc s) = keybuf_tail s"
      "ring_items (handle_scancode sc s) = ring_items s @ queued sc s"
    unfolding eq by (simp_all add: queued_def is_queued_def)
qed

definition kb_inv :: "'a kb_config \<Rightarrow> bool" where
  "kb_inv = (\<lambda>(s, pc, acc, del). ring_wf s \<and> acc = del @ ring_items s \<and>
     (case pc of Ready \<Rightarrow> True | Tested \<Rightarrow> ring_items s \<noteq> []
      | Loaded sc \<Rightarrow> \<exists>xs. ring_items s = sc # xs))"

lemma ring_items_Nil: "ring_wf s \<Longrightarrow> ring_items s = [] \<longleftrightarrow> keybuf_tail s = keybuf_head s"
  using ring_empty_iff [of s] length_ring_items [of s] by (metis length_0_conv)

lemma ring_items_hd: "ring_wf s \<Longrightarrow> ring_items s \<noteq> [] \<Longrightarrow> \<exists>xs. ring_items s = key_buffer s (keybuf_tail s) # xs"
  using ring_pop(2) [of s] length_ring_items [of s] by (metis length_greater_0_conv)

lemma kb_inv_step:
  assumes "kb_step c c'" and "kb_inv c" shows "kb_inv c'"
  using assms
proof induction
  case (irq s pc acc del sc)
  then have wf: "ring_wf s" by (simp add: kb_inv_def)
  from irq show ?case by (auto simp: kb_inv_def handle_scancode_ring [OF wf] split: reader.splits)
next
  case (load s acc del)
  then show ?case using ring_items_hd [of s] by (auto simp: kb_inv_def)
next
  case (advance s sc acc del)
  then obtain xs where wf: "ring_wf s" and xs: "ring_items s = sc # xs" by (auto simp: kb_inv_def)
  then have "0 < ring_count s" using length_ring_items [of s] by simp
  from ring_pop [OF wf this] xs advance show ?case by (simp add: kb_inv_def)
qed (auto simp: kb_inv_def ring_items_Nil)

text \<open>C4. However key interrupts fall between the accesses of the reader, the scan codes returned
  are the ones accepted, in order, without loss or duplicate; the rest is in the buffer, which
  never holds more than 63.\<close>

theorem keyboard_fifo:
  assumes "kb_step\<^sup>*\<^sup>* (s\<^sub>0, Ready, [], []) (s, pc, acc, del)"
    and "keybuf_head s\<^sub>0 = 0" and "keybuf_tail s\<^sub>0 = 0"
  shows "acc = del @ ring_items s \<and> length (ring_items s) < KEYBUF_SIZE"
proof -
  have "kb_inv (s\<^sub>0, Ready, [], [])"
    using assms(2,3) by (simp add: kb_inv_def ring_wf_def ring_items_def ring_count_def)
  with assms(1) have "kb_inv (s, pc, acc, del)"
    by (induction rule: rtranclp_induct) (auto intro: kb_inv_step)
  then show ?thesis by (simp add: kb_inv_def ring_count_less)
qed

definition cold_kbd :: kbd where
  "cold_kbd = interrupts.extend cold_interrupts (kbd.fields (\<lambda>_. 0) 0 0 0 False 0 False False False False False
     False False LAYOUT_IT)"

lemma cold_kbd_simps [simp]:
  "keybuf_head cold_kbd = 0" "keybuf_tail cold_kbd = 0" "modifiers cold_kbd = 0" "extended_mode cold_kbd = False"
  "t_key_pressed cold_kbd = False" "current_layout cold_kbd = LAYOUT_IT" "io_trace cold_kbd = []"
  by (simp_all add: cold_kbd_def cold_interrupts_def kbd.defs interrupts.defs)

theorem keyboard_fifo_witness:
  "\<exists>s. kb_step\<^sup>*\<^sup>* (cold_kbd, Ready, [], []) (s, Ready, [0x1E, 0x30], [0x1E]) \<and> ring_items s = [0x30]"
proof -
  let ?s1 = "handle_scancode 0x1E cold_kbd"
  let ?s2 = "handle_scancode 0x30 ?s1"
  have one: "handle_scancode sc s = s\<lparr>keyboard_debug_counter := keyboard_debug_counter s + 1,
      modifiers := track_modifiers sc (modifiers s), key_buffer := (key_buffer s)(keybuf_head s := sc), keybuf_head := Suc (keybuf_head s) mod KEYBUF_SIZE\<rparr>"
    if "sc = 0x1E \<or> sc = 0x30" "Suc (keybuf_head s) mod KEYBUF_SIZE \<noteq> 0" "keybuf_tail s = 0" "\<not> extended_mode s" for sc and s :: kbd
    using that(1) by (rule disjE) (simp_all add: that(2-4) handle_scancode_def buffer_scancode_def Let_def)
  have q: "queued 0x1E cold_kbd = [0x1E]" "queued 0x30 ?s1 = [0x30]"
    by (simp_all add: queued_def is_queued_def ring_count_def one)
  have 1: "kb_step (cold_kbd, Ready, [], []) (?s1, Ready, [0x1E], [])"
    using kb_step.irq [of cold_kbd Ready "[]" "[]" "0x1E"] q by simp
  have 2: "kb_step (?s1, Ready, [0x1E], []) (?s1, Tested, [0x1E], [])"
    by (rule kb_step.test) (simp add: one)
  have 3: "kb_step (?s1, Tested, [0x1E], []) (?s2, Tested, [0x1E, 0x30], [])"
    using kb_step.irq [of ?s1 Tested "[0x1E]" "[]" "0x30"] q by simp
  have 4: "kb_step (?s2, Tested, [0x1E, 0x30], []) (?s2, Loaded 0x1E, [0x1E, 0x30], [])"
    using kb_step.load [of ?s2] by (simp add: one)
  have 5: "kb_step (?s2, Loaded 0x1E, [0x1E, 0x30], []) (?s2\<lparr>keybuf_tail := 1\<rparr>, Ready, [0x1E, 0x30], [0x1E])"
    using kb_step.advance [of ?s2 "0x1E" "[0x1E, 0x30]" "[]"] by (simp add: one)
  have run: "kb_step\<^sup>*\<^sup>* (cold_kbd, Ready, [], []) (?s2\<lparr>keybuf_tail := 1\<rparr>, Ready, [0x1E, 0x30], [0x1E])"
    by (rule kb_trans [OF 1 kb_trans [OF 2 kb_trans [OF 3 kb_trans [OF 4 kb_once [OF 5]]]]])
  from keyboard_fifo [OF run cold_kbd_simps(1,2)]
  have "[0x1E, 0x30] = [0x1E] @ ring_items (?s2\<lparr>keybuf_tail := 1\<rparr>)" by (rule conjunct1)
  with run show ?thesis by (intro exI conjI) simp_all
qed


section \<open>Modifier keys\<close>

text \<open>Whether a key is down after a sequence of scan codes: the last press or release decides.\<close>

definition key_down :: "u8 \<Rightarrow> u8 \<Rightarrow> u8 list \<Rightarrow> bool \<Rightarrow> bool" where
  "key_down press release scs b = fold (\<lambda>sc b. if sc = press then True else if sc = release then False else b) scs b"

lemma handle_scancode_modifiers:
  "modifiers (handle_scancode sc s) = track_modifiers sc (modifiers s)"
proof -
  have "track_modifiers 0xE0 m = m" for m by (simp add: track_modifiers_def)
  then show ?thesis
    by (simp add: handle_scancode_def Let_def handle_extended_def buffer_scancode_def)
qed

lemma modifiers_fold:
  "modifiers (fold handle_scancode scs s) = fold track_modifiers scs (modifiers s)"
  by (induction scs arbitrary: s) (simp_all add: handle_scancode_modifiers)

lemma track_modifiers_bits:
  "bit (track_modifiers sc m) 3 = (if sc = 0x2A then True else if sc = 0xAA then False else bit m 3)"
  "bit (track_modifiers sc m) 4 = (if sc = 0x36 then True else if sc = 0xB6 then False else bit m 4)"
  "bit (track_modifiers sc m) 5 = (if sc = 0x38 then True else if sc = 0xB8 then False else bit m 5)"
  "bit (track_modifiers sc m) 6 = (if sc = 0x1D then True else if sc = 0x9D then False else bit m 6)"
  "bit (track_modifiers sc m) 0 = (if sc = 0x3A then \<not> bit m 0 else bit m 0)"
  unfolding track_modifiers_def by (simp_all add: bit_simps)

lemma fold_bit:
  assumes "\<And>sc m. bit (track_modifiers sc m) i = f sc (bit m i)"
  shows "bit (fold track_modifiers scs m) i = fold f scs (bit m i)"
  by (induction scs arbitrary: m) (simp_all add: assms)

lemma fold_toggle: "fold (\<lambda>sc b. if sc = k then \<not> b else b) scs b = (b \<noteq> odd (count_list scs k))"
  by (induction scs arbitrary: b) auto

text \<open>C22. After any sequence of key interrupts each of the shift, alt and control bits is set exactly
  when the last event of its key was a press, and the caps lock bit has changed once per press of
  caps lock.\<close>

theorem keyboard_modifiers_track_keys:
  "let m = keyboard_get_modifiers (fold handle_scancode scs s); m\<^sub>0 = modifiers s in
     bit m 3 = key_down 0x2A 0xAA scs (bit m\<^sub>0 3) \<and>
     bit m 4 = key_down 0x36 0xB6 scs (bit m\<^sub>0 4) \<and>
     bit m 5 = key_down 0x38 0xB8 scs (bit m\<^sub>0 5) \<and>
     bit m 6 = key_down 0x1D 0x9D scs (bit m\<^sub>0 6) \<and>
     bit m 0 = (bit m\<^sub>0 0 \<noteq> odd (count_list scs 0x3A))"
  unfolding keyboard_get_modifiers_def modifiers_fold key_down_def Let_def
  by (simp add: fold_bit [OF track_modifiers_bits(1)] fold_bit [OF track_modifiers_bits(2)]
      fold_bit [OF track_modifiers_bits(3)] fold_bit [OF track_modifiers_bits(4)]
      fold_bit [OF track_modifiers_bits(5)] fold_toggle)


section \<open>Scan codes and layouts\<close>

lemmas table_defs =
  scancode_ascii_lower_us_def scancode_ascii_upper_us_def scancode_ascii_lower_uk_def scancode_ascii_upper_uk_def
  scancode_ascii_lower_it_def scancode_ascii_upper_it_def scancode_ascii_lower_fr_def scancode_ascii_upper_fr_def
  scancode_ascii_lower_de_def scancode_ascii_upper_de_def scancode_ascii_lower_es_def scancode_ascii_upper_es_def
  scancode_ascii_lower_pt_def scancode_ascii_upper_pt_def scancode_ascii_lower_no_def scancode_ascii_upper_no_def
  scancode_ascii_lower_dk_def scancode_ascii_upper_dk_def scancode_ascii_lower_se_def scancode_ascii_upper_se_def
  scancode_ascii_lower_fi_def scancode_ascii_upper_fi_def scancode_ascii_lower_nl_def scancode_ascii_upper_nl_def
  scancode_ascii_lower_be_def scancode_ascii_upper_be_def scancode_ascii_lower_pl_def scancode_ascii_upper_pl_def
  scancode_ascii_lower_cz_def scancode_ascii_upper_cz_def scancode_ascii_lower_sk_def scancode_ascii_upper_sk_def
  scancode_ascii_lower_hu_def scancode_ascii_upper_hu_def scancode_ascii_lower_ro_def scancode_ascii_upper_ro_def
  scancode_ascii_lower_tr_def scancode_ascii_upper_tr_def

lemma table_length: "length (fst (layout_tables l)) = 60 \<and> length (snd (layout_tables l)) = 60"
  by (cases l) (simp_all add: table_defs)

lemma table_read_None: "table_read (fst (layout_tables l)) sc = None \<longleftrightarrow> 60 \<le> sc"
  "table_read (snd (layout_tables l)) sc = None \<longleftrightarrow> 60 \<le> sc"
  by (simp_all add: table_read_def table_length word_le_nat_alt not_less)

lemma press_bit: "(sc :: u8) AND 0x80 = 0 \<longleftrightarrow> sc < 0x80"
proof -
  have "sc AND 0x80 = 0 \<longleftrightarrow> \<not> bit sc 7"
    using and_exp_eq_0_iff_not_bit [of sc 7] by simp
  also have "bit sc 7 \<longleftrightarrow> bit (unat sc) 7" by (simp add: bit_unsigned_iff)
  also have "bit (unat sc) 7 \<longleftrightarrow> odd (unat sc div 128)" by (simp add: bit_iff_odd)
  also have "\<not> odd (unat sc div 128) \<longleftrightarrow> unat sc < 128"
  proof (cases "unat sc < 128")
    case False
    moreover have "unat sc < 256" using unsigned_less [of sc] by simp
    ultimately have "unat sc div 128 = 1" by (simp add: div_nat_eqI)
    with False show ?thesis by simp
  qed simp
  finally show ?thesis by (simp add: word_less_nat_alt)
qed

text \<open>Under every layout the conversion reads beyond the 60 entries of the layout's table exactly
  for the scan codes 60 to 88, among them the function keys F2 to F12 and the keypad.\<close>

theorem scancode_to_ascii_out_of_bounds:
  "keyboard_scancode_to_ascii sc s = None \<longleftrightarrow> 60 \<le> sc \<and> sc \<le> 88"
proof -
  have le: "sc < 0x59 \<longleftrightarrow> sc \<le> 88" by (auto simp: word_less_nat_alt word_le_nat_alt)
  have "sc \<le> 88 \<Longrightarrow> sc AND 0x80 = 0"
    unfolding press_bit by (simp add: word_less_nat_alt word_le_nat_alt)
  then show ?thesis
    using table_read_None [of "current_layout s" sc]
    by (auto simp: keyboard_scancode_to_ascii_def Let_def le case_prod_beta bind_eq_None_conv split: if_splits)
qed


abbreviation is_letter :: "char \<Rightarrow> bool" where
  "is_letter c \<equiv> (of_char c :: nat) \<ge> 97 \<and> (of_char c :: nat) \<le> 122"

text \<open>A capital letter is the small one with bit 5 cleared.\<close>

primrec capital :: "char \<Rightarrow> char" where
  "capital (Char b0 b1 b2 b3 b4 b5 b6 b7) = Char b0 b1 b2 b3 b4 False b6 b7"

text \<open>The same test of a letter on the bits of the character, quick to evaluate.\<close>

primrec letter_bits :: "char \<Rightarrow> bool" where
  "letter_bits (Char b0 b1 b2 b3 b4 b5 b6 b7) \<longleftrightarrow>
     b5 \<and> b6 \<and> \<not> b7 \<and> (b0 \<or> b1 \<or> b2 \<or> b3 \<or> b4) \<and> \<not> (b4 \<and> b3 \<and> (b2 \<or> (b1 \<and> b0)))"

lemma is_letter_bits: "is_letter c \<Longrightarrow> letter_bits c"
proof (induction c)
  case (Char b0 b1 b2 b3 b4 b5 b6 b7)
  then show ?case
    by (cases b0; cases b1; cases b2; cases b3; cases b4; cases b5; cases b6; cases b7; simp add: of_char_def)
qed

definition caps_ok :: "char list \<times> char list \<Rightarrow> bool" where
  "caps_ok t = list_all2 (\<lambda>c u. letter_bits c \<longrightarrow> u = capital c) (fst t) (snd t)"

lemma caps_ok_layouts: "list_all (\<lambda>l. caps_ok (layout_tables l)) (remove1 LAYOUT_IT layouts)"
  by code_simp

lemma caps_ok_layout: "l \<noteq> LAYOUT_IT \<Longrightarrow> caps_ok (layout_tables l)"
  using caps_ok_layouts by (cases l) (simp_all add: layouts_def)

text \<open>Under every layout but the Italian one a letter key gives the capital of its letter when
  only caps lock is on.\<close>

theorem caps_lock_capitals:
  assumes "keyboard_scancode_to_ascii sc (s\<lparr>modifiers := 0\<rparr>) = Some c" and "is_letter c"
    and "current_layout s \<noteq> LAYOUT_IT"
  shows "keyboard_scancode_to_ascii sc (s\<lparr>modifiers := KEYBOARD_CAPS_LOCK\<rparr>) = Some (capital c)"
proof -
  obtain lo up where t: "layout_tables (current_layout s) = (lo, up)" by fastforce
  have nn: "c \<noteq> NUL" using assms(2) by auto
  from assms(1) nn have sc: "sc AND 0x80 = 0" "sc < 0x59" and i: "unat sc < length lo" "lo ! unat sc = c"
    by (auto simp: keyboard_scancode_to_ascii_def t table_read_def Let_def bind_eq_Some_conv split: if_splits)
  from caps_ok_layout [OF assms(3)] t have "list_all2 (\<lambda>c u. letter_bits c \<longrightarrow> u = capital c) lo up"
    by (simp add: caps_ok_def)
  with i is_letter_bits [OF assms(2)] have up: "unat sc < length up" "up ! unat sc = capital c"
    by (auto simp: list_all2_conv_all_nth)
  have "capital c \<noteq> NUL" using is_letter_bits [OF assms(2)] by (cases c) auto
  with sc i up t nn assms(2) show ?thesis
    by (simp add: keyboard_scancode_to_ascii_def table_read_def Let_def)
qed

theorem caps_lock_capitals_witness:
  "keyboard_scancode_to_ascii 0x10 (cold_kbd\<lparr>current_layout := LAYOUT_FR, modifiers := KEYBOARD_CAPS_LOCK\<rparr>) = Some CHR ''A''"
proof -
  have "keyboard_scancode_to_ascii 0x10 (cold_kbd\<lparr>current_layout := LAYOUT_FR, modifiers := 0\<rparr>) = Some CHR ''a''"
    by (simp add: keyboard_scancode_to_ascii_def table_read_def scancode_ascii_lower_fr_def)
  from caps_lock_capitals [OF this] show ?thesis by simp
qed

text \<open>
  The Italian table has \<open>C\<close> where the capital of \<open>o\<close> is expected, so with caps lock the key gives
  another letter.
\<close>

lemma caps_lock_italian:
  "keyboard_scancode_to_ascii 39 (cold_kbd\<lparr>modifiers := 0\<rparr>) = Some CHR ''o''"
  "keyboard_scancode_to_ascii 39 (cold_kbd\<lparr>modifiers := KEYBOARD_CAPS_LOCK\<rparr>) = Some CHR ''C''"
  by (simp_all add: keyboard_scancode_to_ascii_def table_read_def scancode_ascii_lower_it_def
      scancode_ascii_upper_it_def)


section \<open>Layout selection\<close>

lemma kstrcmp_prefix_iff: "kstrcmp_prefix str pre \<longleftrightarrow> prefix pre str"
  by (induction str pre rule: kstrcmp_prefix.induct) auto

text \<open>\<open>layout=\<close> overlaps itself nowhere, so no occurrence starts inside a text without one.\<close>

lemma no_early_key:
  assumes "prefix ''layout='' (p @ ''layout='' @ rest)" and "p \<noteq> []" and "\<not> sublist ''layout='' p"
  shows False
proof (cases "7 \<le> length p")
  case True
  then have "length ''layout='' \<le> length p" by simp
  with assms(1) have "prefix ''layout='' p"
    using prefix_length_prefix [OF assms(1), of p] by simp
  with assms(3) show False by (simp add: prefix_imp_sublist)
next
  case False
  from assms(1) obtain zs where "p @ ''layout='' @ rest = ''layout='' @ zs" by (auto simp: prefix_def)
  then have "(''layout='' @ zs) ! length p = CHR ''l''"
    by (metis append_Cons nth_append_length)
  moreover have "length p \<in> set [1..<7]" using False assms(2) by (simp add: Suc_le_eq)
  ultimately show False by (auto simp: upt_rec)
qed

lemma detect_loop_first:
  "\<not> sublist ''layout='' p \<Longrightarrow> detect_loop (p @ ''layout='' @ rest) s = detect_loop (''layout='' @ rest) s"
proof (induction p)
  case (Cons c p)
  have "\<not> kstrcmp_prefix ((c # p) @ ''layout='' @ rest) ''layout=''"
    unfolding kstrcmp_prefix_iff using no_early_key [of "c # p" rest] Cons.prems by blast
  then have "detect_loop ((c # p) @ ''layout='' @ rest) s = detect_loop (p @ ''layout='' @ rest) s"
    by (simp del: kstrcmp_prefix.simps)
  moreover have "\<not> sublist ''layout='' p" using Cons.prems by (auto simp: sublist_Cons_right)
  ultimately show ?case using Cons.IH by simp
qed simp

primrec small :: "char \<Rightarrow> char" where
  "small (Char b0 b1 b2 b3 b4 b5 b6 b7) = Char b0 b1 b2 b3 b4 True b6 b7"

lemma layout_cases:
  assumes "n \<le> (18 :: nat)" shows "n \<in> set [0..<19]"
  using assms by simp

lemma detect_loop_code:
  assumes "n \<le> (18 :: nat)"
  shows "detect_loop (''layout='' @ map small (keyboard_layout_name (int n)) @ rest) s = keyboard_set_layout (int n) s"
  using layout_cases [OF assms]
  by (auto simp: upt_rec keyboard_layout_name_def layout_codes_def)

text \<open>The layout whose name, in small letters, follows the first \<open>layout=\<close> of the boot command line
  becomes the current one, whatever precedes and follows.\<close>

theorem keyboard_detect_layout_name:
  assumes "n \<le> (18 :: nat)" and "\<not> sublist ''layout='' p"
  shows "keyboard_detect_layout (Some (p @ ''layout='' @ map small (keyboard_layout_name (int n)) @ rest)) s =
    s\<lparr>current_layout := layouts ! n\<rparr>"
proof -
  let ?rest = "map small (keyboard_layout_name (int n)) @ rest"
  have "keyboard_detect_layout (Some (p @ ''layout='' @ ?rest)) s = detect_loop (p @ ''layout='' @ ?rest) s"
    by (simp only: keyboard_detect_layout_def option.case)
  also have "\<dots> = keyboard_set_layout (int n) s"
    by (simp only: detect_loop_first [OF assms(2)] detect_loop_code [OF assms(1)])
  finally show ?thesis using assms(1) by (simp only: keyboard_set_layout_def) simp
qed

theorem keyboard_detect_layout_name_witness:
  "current_layout (keyboard_detect_layout (Some ''quiet layout=fr debug'') cold_kbd) = LAYOUT_FR"
proof -
  have "\<not> sublist ''layout='' ''quiet ''" by (simp add: sublist_Cons_right)
  from keyboard_detect_layout_name [of 3, OF _ this, of "'' debug''" cold_kbd]
  show ?thesis by (simp add: keyboard_layout_name_def layouts_def del: sublist_code)
qed


section \<open>Initialisation of the controller\<close>

text \<open>Steps that only print and use ports: the bytes written, and a bound on the accesses.\<close>

definition io_only :: "(u16 \<times> u8) list \<Rightarrow> nat \<Rightarrow> 'a ports_scheme \<Rightarrow> 'a ports_scheme \<Rightarrow> bool" where
  "io_only ws k s t \<longleftrightarrow>
     (\<exists>ls es. t = s\<lparr>klog := klog s @ ls, io_trace := io_trace s @ es\<rparr> \<and> outs es = ws \<and> length es \<le> k)"

lemma io_onlyI:
  "t = s\<lparr>klog := klog s @ ls, io_trace := io_trace s @ es\<rparr> \<Longrightarrow> outs es = ws \<Longrightarrow> length es \<le> k \<Longrightarrow> io_only ws k s t"
  unfolding io_only_def by blast

lemma io_only_refl: "io_only [] k s s"
  by (rule io_onlyI [where ls = "[]" and es = "[]"]) simp_all

lemma io_only_trans:
  assumes "io_only ws k s t" and "io_only ws' l t u" shows "io_only (ws @ ws') (k + l) s u"
proof -
  from assms(1) obtain ls es where 1: "t = s\<lparr>klog := klog s @ ls, io_trace := io_trace s @ es\<rparr>" "outs es = ws"
      "length es \<le> k" unfolding io_only_def by blast
  from assms(2) obtain ls' es' where 2: "u = t\<lparr>klog := klog t @ ls', io_trace := io_trace t @ es'\<rparr>" "outs es' = ws'"
      "length es' \<le> l" unfolding io_only_def by blast
  from 1 2 show ?thesis by (intro io_onlyI [where ls = "ls @ ls'" and es = "es @ es'"]) simp_all
qed

lemma io_only_inb: "io_only [] 1 s (snd (io_inb hw p s))"
  by (rule io_onlyI [where ls = "[]" and es = "[In p (hw (io_trace s) p)]"]) (simp_all add: io_inb_def Let_def)

lemma io_only_outb: "io_only [(p, v)] 1 s (io_outb p v s)"
  by (rule io_onlyI [where ls = "[]" and es = "[Out p v]"]) (simp_all add: io_outb_def)

lemma io_only_log: "io_only [] 0 s (log_event e s)"
  by (rule io_onlyI [where ls = "[e]" and es = "[]"]) (simp_all add: log_event_def)

lemma io_only_drain: "io_only [] (2 * n) s (drain hw n s)"
proof (induction n arbitrary: s)
  case (Suc n)
  let ?s1 = "snd (io_inb hw KEYBOARD_STATUS_PORT s)"
  let ?s2 = "snd (io_inb hw KEYBOARD_DATA_PORT ?s1)"
  have "io_only [] (2 + 2 * n) s (drain hw n ?s2)"
    using io_only_trans [OF io_only_trans [OF io_only_inb io_only_inb [of ?s1]] Suc.IH [of ?s2]] by simp
  moreover have "io_only [] (2 + 2 * n) s ?s1"
    using io_only_trans [OF io_only_inb io_only_refl [of "1 + 2 * n"]] by simp
  ultimately show ?case by (simp add: case_prod_beta)
qed (simp add: io_only_refl)

lemma io_only_wait: "io_only [] n s (snd (wait_while hw P n s))"
proof (induction n arbitrary: s)
  case (Suc n)
  let ?s1 = "snd (io_inb hw KEYBOARD_STATUS_PORT s)"
  have "io_only [] (Suc n) s (snd (wait_while hw P n ?s1))"
    using io_only_trans [OF io_only_inb Suc.IH [of ?s1]] by simp
  moreover have "io_only [] (Suc n) s ?s1"
    using io_only_trans [OF io_only_inb io_only_refl [of n]] by simp
  ultimately show ?case by (simp add: case_prod_beta)
qed (simp add: io_only_refl)

text \<open>The report on the acknowledgement reads at most one byte more.\<close>

lemma io_only_ack: "io_only [] 1 s (report_ack hw timeout s)"
proof -
  have "io_only [] 1 s (log_event e (snd (io_inb hw p s)))" for e p
    using io_only_trans [OF io_only_inb io_only_log] by simp
  moreover have "io_only [] 1 s (log_event e s)" for e
    using io_only_trans [OF io_only_refl [of 1] io_only_log] by simp
  ultimately show ?thesis by (simp add: report_ack_def case_prod_beta)
qed

lemma io_only_cast: "io_only ws k s t \<Longrightarrow> ws = ws' \<Longrightarrow> k = k' \<Longrightarrow> io_only ws' k' s t"
  by simp

lemmas io_only_seq = io_only_trans [OF _ io_only_log] io_only_trans [OF _ io_only_drain]
  io_only_trans [OF _ io_only_outb] io_only_trans [OF _ io_only_wait] io_only_trans [OF _ io_only_inb]
  io_only_trans [OF _ io_only_ack]

lemma controller_setup_io:
  "\<exists>ccb. io_only [(0x64, 0xAE), (0x64, 0x20), (0x64, 0x60), (0x60, ((ccb OR 0x01) OR 0x40) AND NOT 0x02), (0x60, 0xF4)]
     47007 s (controller_setup hw s)"
  unfolding controller_setup_def Let_def case_prod_beta
  by (rule exI, rule io_only_cast, (rule io_only_seq)+, rule io_only_refl [of 0],
      simp only: append_Nil append_Cons append_Nil2, simp)

text \<open>C23. Whatever the controller answers, \<open>keyboard_init\<close> ends after at most 47,007 port accesses and
  writes exactly the five bytes of the protocol, with the interrupt and the translation of the
  first port on and the interrupt of the second off; the handler is registered and the buffer empty.\<close>

theorem keyboard_init_correct:
  "\<exists>ccb. outs (io_trace (keyboard_init hw s)) = outs (io_trace s) @
       [(0x64, 0xAE), (0x64, 0x20), (0x64, 0x60), (0x60, ccb), (0x60, 0xF4)] \<and>
     bit ccb 0 \<and> bit ccb 6 \<and> \<not> bit ccb 1 \<and>
     length (io_trace (keyboard_init hw s)) \<le> length (io_trace s) + 47007 \<and>
     irq_handlers (keyboard_init hw s) = (irq_handlers s)(1 \<mapsto> Keyboard_irq_handler) \<and>
     ring_items (keyboard_init hw s) = [] \<and> keyboard_get_modifiers (keyboard_init hw s) = 0"
proof -
  obtain ccb where io: "io_only [(0x64, 0xAE), (0x64, 0x20), (0x64, 0x60), (0x60, ((ccb OR 0x01) OR 0x40) AND NOT 0x02),
      (0x60, 0xF4)] 47007 s (controller_setup hw s)"
    using controller_setup_io by blast
  then obtain ls es where t: "controller_setup hw s = s\<lparr>klog := klog s @ ls, io_trace := io_trace s @ es\<rparr>"
      and es: "outs es = [(0x64, 0xAE), (0x64, 0x20), (0x64, 0x60), (0x60, ((ccb OR 0x01) OR 0x40) AND NOT 0x02), (0x60, 0xF4)]"
      "length es \<le> 47007"
    unfolding io_only_def by blast
  have "bit (((ccb OR 0x01) OR 0x40) AND NOT 0x02) 0" "bit (((ccb OR 0x01) OR 0x40) AND NOT 0x02) 6"
    "\<not> bit (((ccb OR 0x01) OR 0x40) AND NOT 0x02) 1"
    by (simp_all add: bit_simps)
  with es show ?thesis
    by (intro exI conjI) (simp_all add: keyboard_init_def t idt_register_handler_def log_event_def ring_items_def
        ring_count_def keyboard_get_modifiers_def)
qed

end
