(* ===== verification/Pmm.thy ===== *)
theory Pmm
  imports OK_Prelude
begin

text \<open>
  The physical memory manager of \<open>memory.c\<close>: a bitmap with one bit per 4 KB page, a
  counter of free pages and a search hint. The operations are translated as they are
  written, with the 32-bit counters as words; the abstract view is the set of free page
  numbers. The theory ends with the interface \<open>frame_allocator\<close> that the virtual memory
  manager relies on and its interpretation on these operations.
\<close>

unbundle bit_operations_syntax

section \<open>State and operations\<close>

abbreviation PAGE_SIZE :: u32 where "PAGE_SIZE \<equiv> 4096"
abbreviation PMM_MAX_PAGES :: u32 where "PMM_MAX_PAGES \<equiv> 0x100000"
abbreviation PMM_STATUS_TICK_INTERVAL :: nat where "PMM_STATUS_TICK_INTERVAL \<equiv> 1024"

record pmm = kout +
  pmm_bitmap :: "nat \<Rightarrow> u32"
  pmm_page_count :: u32
  pmm_free_pages :: u32
  pmm_search_hint :: u32

definition pmm_set_bit :: "u32 \<Rightarrow> bool \<Rightarrow> 'a pmm_scheme \<Rightarrow> 'a pmm_scheme" where
  "pmm_set_bit index value s =
     (if PMM_MAX_PAGES \<le> index then s
      else let w = unat (index div 32); b = unat (index mod 32); old = pmm_bitmap s w in
        s\<lparr>pmm_bitmap := (pmm_bitmap s)
            (w := if value then old OR push_bit b 1 else old AND NOT (push_bit b 1))\<rparr>)"

definition pmm_get_bit :: "u32 \<Rightarrow> 'a pmm_scheme \<Rightarrow> bool" where
  "pmm_get_bit index s =
     (if PMM_MAX_PAGES \<le> index then True
      else let w = pmm_bitmap s (unat (index div 32)); b = unat (index mod 32) in
        drop_bit b w AND 1 \<noteq> 0)"

text \<open>The page examined by the \<open>n\<close>-th turn of the circular search.\<close>

definition pmm_probe :: "'a pmm_scheme \<Rightarrow> nat \<Rightarrow> u32" where
  "pmm_probe s n = (pmm_search_hint s + of_nat n) mod pmm_page_count s"

definition pmm_find_free_page :: "'a pmm_scheme \<Rightarrow> u32 \<times> 'a pmm_scheme" where
  "pmm_find_free_page s =
     (case scan 0 (unat (pmm_page_count s)) (\<lambda>n. \<not> pmm_get_bit (pmm_probe s n) s) of
        Some n \<Rightarrow> (pmm_probe s n,
                   s\<lparr>pmm_search_hint := (pmm_probe s n + 1) mod pmm_page_count s\<rparr>)
      | None \<Rightarrow> (PMM_MAX_PAGES, s))"

text \<open>A null pointer is the address 0.\<close>

definition pmm_alloc_page :: "'a pmm_scheme \<Rightarrow> u32 \<times> 'a pmm_scheme" where
  "pmm_alloc_page s =
     (let (index, s) = pmm_find_free_page s in
      if pmm_page_count s \<le> index
      then (0, log_event (Printk ''PMM: Out of memory!\<newline>'' []) s)
      else let s = pmm_set_bit index True s in
           (index * PAGE_SIZE, s\<lparr>pmm_free_pages := pmm_free_pages s - 1\<rparr>))"

definition pmm_free_page :: "u32 \<Rightarrow> 'a pmm_scheme \<Rightarrow> 'a pmm_scheme" where
  "pmm_free_page addr s =
     (let index = addr div PAGE_SIZE in
      if pmm_page_count s \<le> index then s
      else let s = pmm_set_bit index False s;
               s = s\<lparr>pmm_free_pages := pmm_free_pages s + 1\<rparr>
           in if index < pmm_search_hint s then s\<lparr>pmm_search_hint := index\<rparr> else s)"

text \<open>
  \<open>pmm_init\<close>. The linker symbol \<open>_kernel_end\<close> is a parameter; \<open>busy_delay\<close> only burns
  cycles. The first loop carries \<open>status_started\<close>.
\<close>

definition pmm_init_mark :: "nat \<Rightarrow> bool \<times> 'a pmm_scheme \<Rightarrow> bool \<times> 'a pmm_scheme" where
  "pmm_init_mark i = (\<lambda>(status_started, s).
     let s = (if \<not> status_started
              then log_event (Status_progress 0) (log_event (Status_start ''Memory management'') s)
              else s);
         s = pmm_set_bit (of_nat i) True s;
         s = (if i mod PMM_STATUS_TICK_INTERVAL = 0
              then log_event Status_tick
                     (log_event (Status_progress (uint (of_nat i * 50 div pmm_page_count s))) s)
              else s)
     in (True, s))"

definition pmm_init_free :: "u32 \<Rightarrow> nat \<Rightarrow> 'a pmm_scheme \<Rightarrow> 'a pmm_scheme" where
  "pmm_init_free start_page i s =
     (let s = pmm_set_bit (of_nat i) False s;
          s = s\<lparr>pmm_free_pages := pmm_free_pages s + 1\<rparr>
      in if i mod PMM_STATUS_TICK_INTERVAL = 0
         then log_event Status_tick (log_event (Status_progress
                (50 + uint ((of_nat i - start_page) * 50 div (pmm_page_count s - start_page)))) s)
         else s)"

definition pmm_init :: "u32 \<Rightarrow> u32 \<Rightarrow> u32 \<Rightarrow> 'a pmm_scheme \<Rightarrow> 'a pmm_scheme" where
  "pmm_init kernel_end mem_lower mem_upper s =
     (let total_mem_kb = mem_lower + mem_upper;
          s = s\<lparr>pmm_page_count := total_mem_kb * 1024 div PAGE_SIZE\<rparr>;
          n = unat (pmm_page_count s);
          (_, s) = for_loop 0 n pmm_init_mark (False, s);
          start_page = (kernel_end + PAGE_SIZE) div PAGE_SIZE;
          s = s\<lparr>pmm_free_pages := 0\<rparr>;
          s = for_loop (unat start_page) n (pmm_init_free start_page) s;
          s = s\<lparr>pmm_search_hint := start_page\<rparr>;
          s = log_event Status_done s
      in log_event (Printk ''Memory: %d KB (%d total pages, %d free pages)\<newline>''
           [KDec (sint total_mem_kb), KDec (sint (pmm_page_count s)),
            KDec (sint (pmm_free_pages s))]) s)"

definition memory_get_total :: "'a pmm_scheme \<Rightarrow> u32" where
  "memory_get_total s = pmm_page_count s * PAGE_SIZE div 1024"

section \<open>The bitmap\<close>

lemma page_index_bounds:
  assumes "index < PMM_MAX_PAGES"
  shows "unat (index div 32) < 0x8000" and "unat (index mod 32) < 32"
  using assms by (auto simp: unat_less_iff unat_div unat_mod)

lemma page_index_eq:
  "unat (i div 32 :: u32) = unat (j div 32) \<Longrightarrow> unat (i mod 32) = unat (j mod 32) \<Longrightarrow> i = j"
  by (metis unat_div unat_mod unat_numeral div_mult_mod_eq word_unat_eq_iff)

lemma low_bit_of_shift: "drop_bit b (w :: u32) AND 1 \<noteq> 0 \<longleftrightarrow> bit w b"
  by (simp add: and_one_eq bit_iff_odd_drop_bit odd_iff_mod_2_eq_one)

lemma bit_set_mask: "b < 32 \<Longrightarrow> c < 32 \<Longrightarrow> bit ((w :: u32) OR 2 ^ b) c \<longleftrightarrow> c = b \<or> bit w c"
  by (auto simp: bit_simps)

lemma bit_clear_mask:
  "b < 32 \<Longrightarrow> c < 32 \<Longrightarrow> bit ((w :: u32) AND NOT (2 ^ b)) c \<longleftrightarrow> c \<noteq> b \<and> bit w c"
  by (auto simp: bit_simps)

lemma pmm_get_bit_iff:
  "pmm_get_bit i s \<longleftrightarrow>
     PMM_MAX_PAGES \<le> i \<or> bit (pmm_bitmap s (unat (i div 32))) (unat (i mod 32))"
  by (simp add: pmm_get_bit_def low_bit_of_shift)

lemma pmm_get_bit_out: "PMM_MAX_PAGES \<le> i \<Longrightarrow> pmm_get_bit i s"
  by (simp add: pmm_get_bit_def)

lemma pmm_set_bit_out: "PMM_MAX_PAGES \<le> i \<Longrightarrow> pmm_set_bit i v s = s"
  by (simp add: pmm_set_bit_def)

lemma pmm_get_set_bit:
  "pmm_get_bit j (pmm_set_bit i v s) =
     (if i = j \<and> i < PMM_MAX_PAGES then v else pmm_get_bit j s)"
proof (cases "PMM_MAX_PAGES \<le> i \<or> PMM_MAX_PAGES \<le> j")
  case True
  then show ?thesis
    by (metis linorder_not_le pmm_get_bit_out pmm_set_bit_out)
next
  case False
  define w b where "w = unat (i div 32)" and "b = unat (i mod 32)"
  define w' b' where "w' = unat (j div 32)" and "b' = unat (j mod 32)"
  from False have lt: "i < PMM_MAX_PAGES" "j < PMM_MAX_PAGES" by auto
  then have b: "b < 32" "b' < 32"
    unfolding b_def b'_def using page_index_bounds by blast+
  have ne: "i = j \<longleftrightarrow> w = w' \<and> b = b'"
    unfolding w_def b_def w'_def b'_def using page_index_eq by blast
  show ?thesis
    using False lt b
    by (simp add: pmm_get_bit_iff pmm_set_bit_def Let_def ne
        flip: w_def b_def w'_def b'_def)
      (auto simp: bit_set_mask bit_clear_mask)
qed

section \<open>The abstract view: the set of free page numbers\<close>

definition free_frames :: "'a pmm_scheme \<Rightarrow> nat set" where
  "free_frames s = {i. i < unat (pmm_page_count s) \<and> \<not> pmm_get_bit (of_nat i) s}"

definition pmm_wf :: "'a pmm_scheme \<Rightarrow> bool" where
  "pmm_wf s \<longleftrightarrow> unat (pmm_page_count s) \<le> 0x100000 \<and> unat (pmm_search_hint s) \<le> 0x100000 \<and>
     0 \<notin> free_frames s \<and> unat (pmm_free_pages s) = card (free_frames s)"

lemma free_frames_finite [simp]: "finite (free_frames s)"
  by (rule finite_subset [of _ "{..<unat (pmm_page_count s)}"]) (auto simp: free_frames_def)

lemma pmm_set_bit_fields [simp]:
  "pmm_page_count (pmm_set_bit i v s) = pmm_page_count s"
  "pmm_free_pages (pmm_set_bit i v s) = pmm_free_pages s"
  "pmm_search_hint (pmm_set_bit i v s) = pmm_search_hint s"
  by (simp_all add: pmm_set_bit_def Let_def)

lemma pmm_get_bit_updates [simp]:
  "pmm_get_bit i (s\<lparr>pmm_free_pages := a\<rparr>) = pmm_get_bit i s"
  "pmm_get_bit i (s\<lparr>pmm_search_hint := a\<rparr>) = pmm_get_bit i s"
  "pmm_get_bit i (s\<lparr>pmm_page_count := a\<rparr>) = pmm_get_bit i s"
  "pmm_get_bit i (s\<lparr>klog := l\<rparr>) = pmm_get_bit i s"
  by (simp_all add: pmm_get_bit_def)

lemma log_event_pmm [simp]:
  "pmm_page_count (log_event e s) = pmm_page_count s"
  "pmm_free_pages (log_event e s) = pmm_free_pages s"
  "pmm_search_hint (log_event e s) = pmm_search_hint s"
  "pmm_bitmap (log_event e s) = pmm_bitmap s"
  "pmm_get_bit i (log_event e s) = pmm_get_bit i s"
  by (simp_all add: log_event_def)

lemma free_frames_updates [simp]:
  "free_frames (s\<lparr>pmm_free_pages := a\<rparr>) = free_frames s"
  "free_frames (s\<lparr>pmm_search_hint := a\<rparr>) = free_frames s"
  "free_frames (log_event e s) = free_frames s"
  by (simp_all add: free_frames_def)

lemma free_frames_set_bit:
  assumes "i < unat (pmm_page_count s)" and "unat (pmm_page_count s) \<le> 0x100000"
  shows "free_frames (pmm_set_bit (of_nat i) v s) =
    (if v then free_frames s - {i} else insert i (free_frames s))"
proof -
  from assms have i: "i < 0x100000" by simp
  then have lt: "(of_nat i :: u32) < PMM_MAX_PAGES" by (simp add: unat_less_iff)
  have eq: "(of_nat i :: u32) = of_nat j \<longleftrightarrow> i = j" if "j < unat (pmm_page_count s)" for j
    using that assms i by (simp add: word_unat_eq_iff)
  show ?thesis
    using assms lt by (auto simp: free_frames_def pmm_get_set_bit eq)
qed

section \<open>The circular search finds a free page whenever there is one\<close>

lemma circular_reach:
  fixes c h i :: nat
  assumes "i < c"
  shows "\<exists>n<c. (h + n) mod c = i"
proof (intro exI conjI)
  let ?n = "(i + c - h mod c) mod c"
  show "?n < c" using assms by simp
  have "(h + ?n) mod c = (h mod c + (i + c - h mod c)) mod c"
    by (simp add: mod_simps)
  also have "h mod c + (i + c - h mod c) = i + c"
    using assms by (simp add: mod_le_divisor trans_le_add2)
  finally show "(h + ?n) mod c = i" using assms by simp
qed

lemma unat_pmm_probe:
  assumes "pmm_wf s" and "n < unat (pmm_page_count s)"
  shows "unat (pmm_probe s n) = (unat (pmm_search_hint s) + n) mod unat (pmm_page_count s)"
proof -
  from assms have "unat (pmm_search_hint s) + n < 2 ^ 32" and n: "n < 2 ^ 32"
    by (auto simp: pmm_wf_def)
  then show ?thesis
    by (simp add: pmm_probe_def unat_mod unat_add_small)
qed

lemma free_frames_probe:
  assumes "pmm_wf s" and "n < unat (pmm_page_count s)"
  shows "unat (pmm_probe s n) \<in> free_frames s \<longleftrightarrow> \<not> pmm_get_bit (pmm_probe s n) s"
proof -
  have "unat (pmm_probe s n) < unat (pmm_page_count s)"
    using assms by (simp add: unat_pmm_probe)
  then show ?thesis by (simp add: free_frames_def)
qed

lemma pmm_find_free_page_none:
  assumes "pmm_wf s" and "free_frames s = {}"
  shows "pmm_find_free_page s = (PMM_MAX_PAGES, s)"
proof -
  have "scan 0 (unat (pmm_page_count s)) (\<lambda>n. \<not> pmm_get_bit (pmm_probe s n) s) = None"
    using assms free_frames_probe [OF assms(1)] by (auto simp: scan_None_iff)
  then show ?thesis by (simp add: pmm_find_free_page_def)
qed

lemma pmm_find_free_page_some:
  assumes wf: "pmm_wf s" and ne: "free_frames s \<noteq> {}"
  obtains i where "i \<in> free_frames s"
    and "pmm_find_free_page s =
      (of_nat i, s\<lparr>pmm_search_hint := (of_nat i + 1) mod pmm_page_count s\<rparr>)"
proof -
  from ne obtain j where j: "j \<in> free_frames s" by auto
  then have jc: "j < unat (pmm_page_count s)" by (simp add: free_frames_def)
  obtain n where n: "n < unat (pmm_page_count s)"
      "(unat (pmm_search_hint s) + n) mod unat (pmm_page_count s) = j"
    using circular_reach [OF jc] by blast
  then have "unat (pmm_probe s n) = j"
    by (simp add: unat_pmm_probe [OF wf])
  then have "\<not> pmm_get_bit (pmm_probe s n) s"
    using j free_frames_probe [OF wf n(1)] by simp
  then obtain m where m: "scan 0 (unat (pmm_page_count s))
      (\<lambda>n. \<not> pmm_get_bit (pmm_probe s n) s) = Some m"
    using scan_exists [of 0 n _ "\<lambda>n. \<not> pmm_get_bit (pmm_probe s n) s", OF _ n(1)] by auto
  from scan_SomeD(2,3) [OF m] have "unat (pmm_probe s m) \<in> free_frames s"
    using free_frames_probe [OF wf] by blast
  then show thesis
    using that [of "unat (pmm_probe s m)"] m by (simp add: pmm_find_free_page_def)
qed

section \<open>Allocation and release against the set of free pages\<close>

lemma frame_address:
  assumes "i < 0x100000"
  shows "unat (of_nat i * PAGE_SIZE) = i * 4096"
    and "of_nat i * PAGE_SIZE = 0 \<longleftrightarrow> i = 0"
    and "of_nat i * PAGE_SIZE div PAGE_SIZE = of_nat i"
proof -
  show u: "unat (of_nat i * PAGE_SIZE) = i * 4096"
    using assms by (simp add: unat_mult_small)
  then show "of_nat i * PAGE_SIZE = 0 \<longleftrightarrow> i = 0"
    by (metis mult_is_0 unat_0 unat_eq_zero zero_neq_numeral)
  show "of_nat i * PAGE_SIZE div PAGE_SIZE = of_nat i"
    using assms by (simp add: word_unat_eq_iff unat_div u)
qed

lemma hint_after_alloc:
  assumes "i < unat c" and "unat c \<le> 0x100000"
  shows "unat ((of_nat i + 1) mod c :: u32) \<le> 0x100000"
proof -
  have "unat ((of_nat i + 1) mod c) < unat c"
    using assms by (simp add: unat_mod)
  with assms show ?thesis by simp
qed

lemma pmm_alloc_page_empty:
  assumes "pmm_wf s" and "free_frames s = {}"
  shows "fst (pmm_alloc_page s) = 0" and "free_frames (snd (pmm_alloc_page s)) = {}"
    and "pmm_wf (snd (pmm_alloc_page s))"
    and "pmm_page_count (snd (pmm_alloc_page s)) = pmm_page_count s"
proof -
  have "pmm_page_count s \<le> PMM_MAX_PAGES"
    using assms by (simp add: pmm_wf_def unat_le_iff)
  then have *: "pmm_alloc_page s = (0, log_event (Printk ''PMM: Out of memory!\<newline>'' []) s)"
    using pmm_find_free_page_none [OF assms] by (simp add: pmm_alloc_page_def)
  show "fst (pmm_alloc_page s) = 0" and "free_frames (snd (pmm_alloc_page s)) = {}"
    and "pmm_wf (snd (pmm_alloc_page s))"
    and "pmm_page_count (snd (pmm_alloc_page s)) = pmm_page_count s"
    using assms by (simp_all add: * pmm_wf_def)
qed

lemma pmm_alloc_page_nonempty:
  assumes wf: "pmm_wf s" and ne: "free_frames s \<noteq> {}"
  obtains i where "i \<in> free_frames s" and "fst (pmm_alloc_page s) = of_nat i * PAGE_SIZE"
    and "free_frames (snd (pmm_alloc_page s)) = free_frames s - {i}"
    and "pmm_wf (snd (pmm_alloc_page s))"
    and "pmm_page_count (snd (pmm_alloc_page s)) = pmm_page_count s"
proof -
  obtain i where i: "i \<in> free_frames s"
    and find: "pmm_find_free_page s =
      (of_nat i, s\<lparr>pmm_search_hint := (of_nat i + 1) mod pmm_page_count s\<rparr>)"
    using pmm_find_free_page_some [OF assms] .
  have c: "i < unat (pmm_page_count s)" "unat (pmm_page_count s) \<le> 0x100000"
    using i wf by (auto simp: free_frames_def pmm_wf_def)
  then have lt: "\<not> pmm_page_count s \<le> of_nat i" by (simp add: unat_le_iff)
  define t where "t = pmm_set_bit (of_nat i) True
    (s\<lparr>pmm_search_hint := (of_nat i + 1) mod pmm_page_count s\<rparr>)"
  have alloc: "pmm_alloc_page s = (of_nat i * PAGE_SIZE, t\<lparr>pmm_free_pages := pmm_free_pages t - 1\<rparr>)"
    using find lt by (simp add: pmm_alloc_page_def t_def Let_def)
  have free: "free_frames t = free_frames s - {i}"
    using c by (simp add: t_def free_frames_set_bit)
  have "0 < card (free_frames s)" using i by (auto simp: card_gt_0_iff)
  then have "unat (1 :: u32) \<le> unat (pmm_free_pages s)"
    using wf by (simp add: pmm_wf_def)
  then have "unat (pmm_free_pages s - 1) = card (free_frames s) - 1"
    using wf by (simp add: pmm_wf_def unat_sub_small)
  then have "pmm_wf (t\<lparr>pmm_free_pages := pmm_free_pages t - 1\<rparr>)"
    using wf c i free hint_after_alloc [OF c] by (simp add: pmm_wf_def t_def)
  then show thesis
    using that [OF i] free by (simp add: alloc t_def)
qed

lemma pmm_free_page_release:
  assumes wf: "pmm_wf s" and i: "0 < i" "i < unat (pmm_page_count s)" "i \<notin> free_frames s"
  shows "free_frames (pmm_free_page (of_nat i * PAGE_SIZE) s) = insert i (free_frames s)"
    and "pmm_wf (pmm_free_page (of_nat i * PAGE_SIZE) s)"
    and "pmm_page_count (pmm_free_page (of_nat i * PAGE_SIZE) s) = pmm_page_count s"
proof -
  have c: "unat (pmm_page_count s) \<le> 0x100000" using wf by (simp add: pmm_wf_def)
  then have idx: "of_nat i * PAGE_SIZE div PAGE_SIZE = of_nat i" and lt: "\<not> pmm_page_count s \<le> of_nat i"
    using i frame_address(3) [of i] by (auto simp: unat_le_iff)
  define t where "t = (let s = pmm_set_bit (of_nat i) False s in
    s\<lparr>pmm_free_pages := pmm_free_pages s + 1\<rparr>)"
  have step: "pmm_free_page (of_nat i * PAGE_SIZE) s =
      (if of_nat i < pmm_search_hint s then t\<lparr>pmm_search_hint := of_nat i\<rparr> else t)"
    using lt by (simp add: pmm_free_page_def idx t_def Let_def)
  have free: "free_frames t = insert i (free_frames s)"
    using i c by (simp add: t_def Let_def free_frames_set_bit)
  have "card (free_frames s) \<le> card {..<unat (pmm_page_count s)}"
    by (rule card_mono) (auto simp: free_frames_def)
  then have "unat (pmm_free_pages s + 1) = card (free_frames s) + 1"
    using wf c by (simp add: pmm_wf_def unat_add_small)
  then have "pmm_wf t" using wf i free by (simp add: pmm_wf_def t_def Let_def)
  moreover have "pmm_page_count t = pmm_page_count s" by (simp add: t_def Let_def)
  ultimately show "free_frames (pmm_free_page (of_nat i * PAGE_SIZE) s) = insert i (free_frames s)"
    and "pmm_wf (pmm_free_page (of_nat i * PAGE_SIZE) s)"
    and "pmm_page_count (pmm_free_page (of_nat i * PAGE_SIZE) s) = pmm_page_count s"
    using i c by (auto simp: step free pmm_wf_def)
qed

section \<open>Initialisation\<close>

lemma pmm_get_bit_set_True: "pmm_get_bit j s \<or> j = i \<Longrightarrow> pmm_get_bit j (pmm_set_bit i True s)"
  by (metis linorder_not_le pmm_get_bit_out pmm_get_set_bit)

lemma pmm_init_mark_step:
  assumes "pmm_init_mark i (b, s) = (b', s')"
  shows "pmm_page_count s' = pmm_page_count s"
    and "pmm_get_bit j s \<or> j = of_nat i \<Longrightarrow> pmm_get_bit j s'"
  using assms by (auto simp: pmm_init_mark_def Let_def pmm_get_bit_set_True split: if_splits)

lemma pmm_init_mark_loop:
  assumes "for_loop 0 n pmm_init_mark (False, s) = (b, s')"
  shows "pmm_page_count s' = pmm_page_count s" and "j < n \<Longrightarrow> pmm_get_bit (of_nat j) s'"
proof -
  have "case for_loop 0 n pmm_init_mark (False, s) of (b, s') \<Rightarrow>
      pmm_page_count s' = pmm_page_count s \<and> (\<forall>j<n. pmm_get_bit (of_nat j) s')"
  proof (rule for_loop_invariant [where P = "\<lambda>i x. case x of (b, s') \<Rightarrow>
      pmm_page_count s' = pmm_page_count s \<and> (\<forall>j<i. pmm_get_bit (of_nat j) s')"])
    fix i and x :: "bool \<times> 'a pmm_scheme"
    assume "case x of (b, s') \<Rightarrow>
      pmm_page_count s' = pmm_page_count s \<and> (\<forall>j<i. pmm_get_bit (of_nat j) s')"
    then show "case pmm_init_mark i x of (b, s') \<Rightarrow>
      pmm_page_count s' = pmm_page_count s \<and> (\<forall>j<Suc i. pmm_get_bit (of_nat j) s')"
      by (cases x; cases "pmm_init_mark i x")
        (auto dest: pmm_init_mark_step simp: less_Suc_eq)
  qed auto
  with assms show "pmm_page_count s' = pmm_page_count s" and "j < n \<Longrightarrow> pmm_get_bit (of_nat j) s'"
    by auto
qed

lemma pmm_init_free_step:
  assumes "i < unat (pmm_page_count s)" and "unat (pmm_page_count s) \<le> 0x100000"
  shows "pmm_page_count (pmm_init_free p i s) = pmm_page_count s"
    and "pmm_free_pages (pmm_init_free p i s) = pmm_free_pages s + 1"
    and "free_frames (pmm_init_free p i s) = insert i (free_frames s)"
  using assms by (simp_all add: pmm_init_free_def Let_def free_frames_set_bit)

lemma pmm_init_free_loop:
  fixes p :: u32
  assumes "free_frames s = {}" and "pmm_free_pages s = 0" and "lo \<le> unat (pmm_page_count s)"
    and "unat (pmm_page_count s) \<le> 0x100000"
  defines "s' \<equiv> for_loop lo (unat (pmm_page_count s)) (pmm_init_free p) s"
  shows "pmm_page_count s' = pmm_page_count s" and "free_frames s' = {lo..<unat (pmm_page_count s)}"
    and "unat (pmm_free_pages s') = unat (pmm_page_count s) - lo"
proof -
  define n where "n = unat (pmm_page_count s)"
  have n: "n \<le> 0x100000" using assms(4) by (simp add: n_def)
  have "pmm_page_count s' = pmm_page_count s \<and> free_frames s' = {lo..<n} \<and>
      unat (pmm_free_pages s') = n - lo"
    unfolding s'_def n_def [symmetric]
  proof (rule for_loop_invariant [where P = "\<lambda>i s'. pmm_page_count s' = pmm_page_count s \<and>
      free_frames s' = {lo..<i} \<and> unat (pmm_free_pages s') = i - lo"])
    fix i s'
    assume i: "lo \<le> i" "i < n" and inv: "pmm_page_count s' = pmm_page_count s \<and>
      free_frames s' = {lo..<i} \<and> unat (pmm_free_pages s') = i - lo"
    have "unat (pmm_free_pages s' + 1) = Suc i - lo"
      using i inv n by (simp add: unat_add_small Suc_diff_le)
    moreover have "insert i {lo..<i} = {lo..<Suc i}" using i by auto
    ultimately show "pmm_page_count (pmm_init_free p i s') = pmm_page_count s \<and>
      free_frames (pmm_init_free p i s') = {lo..<Suc i} \<and>
      unat (pmm_free_pages (pmm_init_free p i s')) = Suc i - lo"
      using i inv n pmm_init_free_step [of i s' p] by (simp add: n_def)
  qed (use assms n_def in auto)
  then show "pmm_page_count s' = pmm_page_count s"
    and "free_frames s' = {lo..<unat (pmm_page_count s)}"
    and "unat (pmm_free_pages s') = unat (pmm_page_count s) - lo"
    by (auto simp: n_def)
qed

lemma page_count_bound: "unat (t * 1024 div PAGE_SIZE) \<le> 0x100000"
  using unat_u32_bound [of "t * 1024"] by (simp add: unat_div)

lemma pmm_init_frames:
  fixes s :: "'a pmm_scheme"
  assumes start: "unat ((kernel_end + PAGE_SIZE) div PAGE_SIZE) = start" and "0 < start"
    and n: "n = unat ((mem_lower + mem_upper) * 1024 div PAGE_SIZE)"
  defines "s' \<equiv> pmm_init kernel_end mem_lower mem_upper s"
  shows "unat (pmm_page_count s') = n" and "free_frames s' = {start..<n}" and "pmm_wf s'"
proof -
  define s0 where "s0 = s\<lparr>pmm_page_count := (mem_lower + mem_upper) * 1024 div PAGE_SIZE\<rparr>"
  obtain b s1 where s1: "for_loop 0 n pmm_init_mark (False, s0) = (b, s1)"
    by (cases "for_loop 0 n pmm_init_mark (False, s0)")
  define s2 where "s2 = for_loop start n
    (pmm_init_free ((kernel_end + PAGE_SIZE) div PAGE_SIZE)) (s1\<lparr>pmm_free_pages := 0\<rparr>)"
  have cnt: "unat (pmm_page_count s1) = n"
    using pmm_init_mark_loop(1) [OF s1] by (simp add: s0_def n)
  have nb: "n \<le> 0x100000" unfolding n by (rule page_count_bound)
  have none: "free_frames (s1\<lparr>pmm_free_pages := 0\<rparr>) = {}"
    using pmm_init_mark_loop(2) [OF s1] cnt by (auto simp: free_frames_def)
  have s': "pmm_page_count s' = pmm_page_count s2 \<and> free_frames s' = free_frames s2 \<and>
      pmm_free_pages s' = pmm_free_pages s2 \<and>
      pmm_search_hint s' = (kernel_end + PAGE_SIZE) div PAGE_SIZE"
    using s1 by (simp add: s'_def pmm_init_def s0_def s2_def Let_def start n)
  have st: "start \<le> 0x100000"
    using unat_u32_bound [of "kernel_end + PAGE_SIZE"] by (simp add: unat_div flip: start)
  have "pmm_page_count s2 = pmm_page_count s1 \<and> free_frames s2 = {start..<n} \<and>
      unat (pmm_free_pages s2) = n - start"
  proof (cases "start \<le> n")
    case True
    with pmm_init_free_loop [OF none] cnt nb show ?thesis by (simp add: s2_def)
  next
    case False
    with none show ?thesis by (simp add: s2_def)
  qed
  with s' cnt nb st \<open>0 < start\<close> show "unat (pmm_page_count s') = n"
    and "free_frames s' = {start..<n}" and "pmm_wf s'"
    by (auto simp: pmm_wf_def start)
qed

section \<open>The interface to the virtual memory manager\<close>

text \<open>
  What a client of the page allocator may rely on: the pages it manages, the free ones
  among them, and how allocation and release change the free set. Page 0 is never handed
  out, so the null address always means failure.
\<close>

locale frame_allocator =
  fixes alloc :: "'s \<Rightarrow> u32 \<times> 's"
    and release :: "u32 \<Rightarrow> 's \<Rightarrow> 's"
    and managed :: "'s \<Rightarrow> nat"
    and frames :: "'s \<Rightarrow> nat set"
    and inv :: "'s \<Rightarrow> bool"
  assumes managed_bound: "inv s \<Longrightarrow> managed s \<le> 0x100000"
    and frames_managed: "inv s \<Longrightarrow> frames s \<subseteq> {0<..<managed s}"
    and alloc_none: "inv s \<Longrightarrow> frames s = {} \<Longrightarrow> fst (alloc s) = 0"
    and alloc_none_frames: "inv s \<Longrightarrow> frames s = {} \<Longrightarrow> frames (snd (alloc s)) = {}"
    and alloc_some: "inv s \<Longrightarrow> frames s \<noteq> {} \<Longrightarrow> \<exists>i \<in> frames s.
          fst (alloc s) = of_nat i * PAGE_SIZE \<and> frames (snd (alloc s)) = frames s - {i}"
    and alloc_inv: "inv s \<Longrightarrow> inv (snd (alloc s))"
    and alloc_managed: "inv s \<Longrightarrow> managed (snd (alloc s)) = managed s"
    and release_frames: "inv s \<Longrightarrow> 0 < i \<Longrightarrow> i < managed s \<Longrightarrow> i \<notin> frames s \<Longrightarrow>
          frames (release (of_nat i * PAGE_SIZE) s) = insert i (frames s)"
    and release_inv: "inv s \<Longrightarrow> 0 < i \<Longrightarrow> i < managed s \<Longrightarrow> i \<notin> frames s \<Longrightarrow>
          inv (release (of_nat i * PAGE_SIZE) s)"
begin

lemma frame_bound: "inv s \<Longrightarrow> i \<in> frames s \<Longrightarrow> 0 < i \<and> i < 0x100000"
  using managed_bound frames_managed by fastforce

lemma alloc_null_iff: "inv s \<Longrightarrow> fst (alloc s) = 0 \<longleftrightarrow> frames s = {}"
  using alloc_none alloc_some frame_bound frame_address(2) by (metis less_irrefl)

lemma alloc_cases:
  assumes "inv s"
  obtains (fail) "frames s = {}" and "fst (alloc s) = 0" and "frames (snd (alloc s)) = {}"
  | (ok) i where "i \<in> frames s" and "0 < i" and "i < 0x100000"
      and "fst (alloc s) = of_nat i * PAGE_SIZE" and "fst (alloc s) \<noteq> 0"
      and "frames (snd (alloc s)) = frames s - {i}"
  using assms alloc_none alloc_none_frames alloc_some frame_bound alloc_null_iff by metis

lemma alloc_page_number:
  assumes "inv s" and "fst (alloc s) \<noteq> 0"
  shows "unat (fst (alloc s)) div 4096 \<in> frames s"
    and "frames (snd (alloc s)) = frames s - {unat (fst (alloc s)) div 4096}"
    and "unat (fst (alloc s)) mod 4096 = 0"
proof -
  from assms obtain i where "i \<in> frames s" "i < 0x100000" "fst (alloc s) = of_nat i * PAGE_SIZE"
      "frames (snd (alloc s)) = frames s - {i}"
    using alloc_cases by metis
  moreover from this have "unat (fst (alloc s)) = i * 4096"
    by (metis frame_address(1))
  ultimately show "unat (fst (alloc s)) div 4096 \<in> frames s"
    and "frames (snd (alloc s)) = frames s - {unat (fst (alloc s)) div 4096}"
    and "unat (fst (alloc s)) mod 4096 = 0"
    by simp_all
qed

lemma alloc_twice_distinct:
  assumes "inv s" and "fst (alloc s) \<noteq> 0" and "fst (alloc (snd (alloc s))) \<noteq> 0"
  shows "fst (alloc s) \<noteq> fst (alloc (snd (alloc s)))"
  using alloc_page_number(2) [OF assms(1,2)]
    alloc_page_number(1) [OF alloc_inv [OF assms(1)] assms(3)]
  by (metis Diff_iff singletonI)

lemma alloc_release:
  assumes "inv s" and "fst (alloc s) \<noteq> 0"
  shows "frames (release (fst (alloc s)) (snd (alloc s))) = frames s"
proof -
  from assms obtain i where ok: "i \<in> frames s" "0 < i" "fst (alloc s) = of_nat i * PAGE_SIZE"
      "frames (snd (alloc s)) = frames s - {i}"
    using alloc_cases by metis
  then have "frames (release (of_nat i * PAGE_SIZE) (snd (alloc s))) = insert i (frames s - {i})"
    using release_frames [OF alloc_inv [OF assms(1)], of i] frames_managed [OF assms(1)]
      alloc_managed [OF assms(1)] by auto
  with ok show ?thesis by auto
qed

end

interpretation pm: frame_allocator pmm_alloc_page pmm_free_page
  "\<lambda>s. unat (pmm_page_count s)" free_frames pmm_wf
proof unfold_locales
  fix s :: "'a pmm_scheme"
  assume wf: "pmm_wf s"
  then show "unat (pmm_page_count s) \<le> 0x100000" by (simp add: pmm_wf_def)
  show "free_frames s \<subseteq> {0<..<unat (pmm_page_count s)}"
  proof
    fix i assume "i \<in> free_frames s"
    with wf have "i \<noteq> 0" by (metis pmm_wf_def)
    with \<open>i \<in> free_frames s\<close> show "i \<in> {0<..<unat (pmm_page_count s)}"
      by (simp add: free_frames_def)
  qed
  show "pmm_wf (snd (pmm_alloc_page s))"
    using pmm_alloc_page_empty(3) [OF wf] pmm_alloc_page_nonempty [OF wf] by blast
  show "unat (pmm_page_count (snd (pmm_alloc_page s))) = unat (pmm_page_count s)"
    using pmm_alloc_page_empty(4) [OF wf] pmm_alloc_page_nonempty [OF wf] by metis
  show "\<exists>i\<in>free_frames s. fst (pmm_alloc_page s) = of_nat i * PAGE_SIZE \<and>
      free_frames (snd (pmm_alloc_page s)) = free_frames s - {i}" if "free_frames s \<noteq> {}"
    using pmm_alloc_page_nonempty [OF wf that] by metis
qed (simp_all add: pmm_alloc_page_empty pmm_free_page_release)

section \<open>Properties\<close>

lemma free_frames_code [code]:
  "free_frames s = set (filter (\<lambda>i. \<not> pmm_get_bit (of_nat i) s) [0..<unat (pmm_page_count s)])"
  by (auto simp: free_frames_def)

text \<open>
  C7. From a well-formed state, \<open>pmm_alloc_page\<close> fails (returns the null address) exactly
  when no page is free; otherwise it returns the page-aligned address of a page that was
  free, takes exactly that page out of the free set, and keeps the free-page counter equal to
  the number of clear bits.
\<close>

theorem pmm_alloc_page_correct:
  assumes "pmm_wf s" and "pmm_alloc_page s = (a, s')"
  shows "pmm_wf s' \<and> (a = 0 \<longleftrightarrow> free_frames s = {}) \<and>
    (a \<noteq> 0 \<longrightarrow> unat a mod 4096 = 0 \<and> unat a div 4096 \<in> free_frames s \<and>
       free_frames s' = free_frames s - {unat a div 4096})"
  using pm.alloc_inv [OF assms(1)] pm.alloc_null_iff [OF assms(1)]
    pm.alloc_page_number [OF assms(1)] assms(2) by simp

definition pmm_example :: pmm where
  "pmm_example = \<lparr>klog = [], pmm_bitmap = (\<lambda>_. - 1)(0 := NOT 32), pmm_page_count = 16,
     pmm_free_pages = 1, pmm_search_hint = 9\<rparr>"

lemma pmm_example_frames: "free_frames pmm_example = {5}"
  by code_simp

lemma pmm_example_wf: "pmm_wf pmm_example"
  unfolding pmm_wf_def pmm_example_frames by (simp add: pmm_example_def)

theorem pmm_alloc_page_correct_witness:
  "pmm_alloc_page pmm_example = (5 * 4096, snd (pmm_alloc_page pmm_example)) \<and>
   free_frames pmm_example = {5} \<and> free_frames (snd (pmm_alloc_page pmm_example)) = {}"
proof -
  have a: "fst (pmm_alloc_page pmm_example) = 5 * 4096" by code_simp
  show ?thesis
    using pmm_alloc_page_correct [OF pmm_example_wf, of "5 * 4096" "snd (pmm_alloc_page pmm_example)"]
      a by (simp add: prod_eq_iff pmm_example_frames)
qed

text \<open>
  C14. Releasing a page that is allocated (and is neither page 0 nor outside the managed
  range) puts exactly that page back into the free set and keeps the well-formedness, so a
  page that was just allocated and is released again leaves the free set as it was.
\<close>

theorem pmm_free_page_correct:
  assumes "pmm_wf s"
  shows "(0 < i \<and> i < unat (pmm_page_count s) \<and> i \<notin> free_frames s \<longrightarrow>
      pmm_wf (pmm_free_page (of_nat i * PAGE_SIZE) s) \<and>
      free_frames (pmm_free_page (of_nat i * PAGE_SIZE) s) = insert i (free_frames s)) \<and>
    (fst (pmm_alloc_page s) \<noteq> 0 \<longrightarrow>
      free_frames (pmm_free_page (fst (pmm_alloc_page s)) (snd (pmm_alloc_page s))) = free_frames s)"
  using pm.release_inv [OF assms] pm.release_frames [OF assms] pm.alloc_release [OF assms] by blast

theorem pmm_free_page_correct_witness:
  "free_frames (pmm_free_page (of_nat 7 * PAGE_SIZE) pmm_example) = {5, 7} \<and>
   free_frames (pmm_free_page (5 * 4096) (snd (pmm_alloc_page pmm_example))) = {5}"
proof -
  have a: "fst (pmm_alloc_page pmm_example) = 5 * 4096" by code_simp
  have c: "unat (pmm_page_count pmm_example) = 16" by (simp add: pmm_example_def)
  show ?thesis
    using pmm_free_page_correct [OF pmm_example_wf, of 7] by (auto simp: a c pmm_example_frames)
qed

text \<open>
  C15. \<open>pmm_init\<close> from any previous state: with less than 4 GB of memory (in KB, lower plus
  upper) and a kernel end below the last page, the managed pages are all 4 KB pages of that
  memory, the free ones are exactly those after the page the kernel ends in, everything below
  stays reserved, the counters agree with the bitmap, and \<open>memory_get_total\<close> reports the
  memory rounded down to whole pages.
\<close>

theorem pmm_init_correct:
  fixes s :: "'a pmm_scheme"
  assumes "unat kernel_end < 0xFFFFF000" and "unat mem_lower + unat mem_upper < 0x400000"
  defines "s' \<equiv> pmm_init kernel_end mem_lower mem_upper s"
  shows "pmm_wf s' \<and> unat (pmm_page_count s') = (unat mem_lower + unat mem_upper) div 4 \<and>
    free_frames s' =
      {unat kernel_end div 4096 + 1..<(unat mem_lower + unat mem_upper) div 4} \<and>
    unat (memory_get_total s') = (unat mem_lower + unat mem_upper) div 4 * 4"
proof -
  have "unat (kernel_end + PAGE_SIZE) = unat kernel_end + 4096"
    using assms(1) by (simp add: unat_add_small)
  then have start: "unat ((kernel_end + PAGE_SIZE) div PAGE_SIZE) = unat kernel_end div 4096 + 1"
    by (simp add: unat_div)
  have sum: "unat (mem_lower + mem_upper) = unat mem_lower + unat mem_upper"
    using assms(2) by (simp add: unat_add_small)
  have "unat ((mem_lower + mem_upper) * 1024) = (unat mem_lower + unat mem_upper) * 1024"
    using assms(2) unat_mult_small [of "mem_lower + mem_upper" 1024] sum by simp
  then have count: "(unat mem_lower + unat mem_upper) div 4 =
      unat ((mem_lower + mem_upper) * 1024 div PAGE_SIZE)"
    by (simp only: unat_div) simp
  note init = pmm_init_frames [OF start _ count, of s, folded s'_def, simplified]
  have "unat (pmm_page_count s' * PAGE_SIZE) = (unat mem_lower + unat mem_upper) div 4 * 4096"
    using init(1) assms(2) by (simp add: unat_mult_small)
  then have "unat (memory_get_total s') = (unat mem_lower + unat mem_upper) div 4 * 4"
    by (simp add: memory_get_total_def unat_div)
  with init show ?thesis by simp
qed

theorem pmm_init_correct_witness:
  "free_frames (pmm_init 0x200000 640 32128 pmm_example) = {513..<8192} \<and>
   pmm_wf (pmm_init 0x200000 640 32128 pmm_example) \<and>
   unat (memory_get_total (pmm_init 0x200000 640 32128 pmm_example)) = 32768"
  using pmm_init_correct [where kernel_end = "0x200000" and mem_lower = 640 and mem_upper = 32128
      and s = pmm_example] by simp

end
