(* ===== verification/Vmm.thy ===== *)
theory Vmm
  imports Pmm
begin

text \<open>
  The virtual memory manager of \<open>memory.c\<close>: the two-level page tables of the i686, kept in
  physical memory (a map from word addresses to words), built by \<open>vmm_map_page\<close> with page
  tables taken from the physical allocator, taken apart by \<open>vmm_unmap_page\<close>, and filled at
  boot by \<open>vmm_init\<close>.
\<close>

unbundle bit_operations_syntax

section \<open>State and operations\<close>

abbreviation PDE_PRESENT :: u32 where "PDE_PRESENT \<equiv> 1"
abbreviation PDE_WRITABLE :: u32 where "PDE_WRITABLE \<equiv> 2"
abbreviation KERNEL_VIRTUAL_BASE :: u32 where "KERNEL_VIRTUAL_BASE \<equiv> 0xC0000000"
abbreviation HEAP_START :: u32 where "HEAP_START \<equiv> 0xE0000000"
abbreviation HEAP_SIZE :: u32 where "HEAP_SIZE \<equiv> 0x04000000"
abbreviation VMM_STATUS_TICK_INTERVAL :: u32 where "VMM_STATUS_TICK_INTERVAL \<equiv> 512"
abbreviation VMM_TOTAL_STEPS :: u32 where "VMM_TOTAL_STEPS \<equiv> 1024 + 256 + 17 + 512 + 16384"

text \<open>
  \<open>phys_mem\<close> holds the 32-bit word at each word-aligned physical address; \<open>invlpg_log\<close> the
  pages whose TLB entry was invalidated; \<open>cr0\<close> and \<open>cr3\<close> the control registers.
\<close>

record vmm = pmm +
  phys_mem :: "u32 \<Rightarrow> u32"
  kernel_page_directory :: u32
  current_page_directory :: u32
  invlpg_log :: "u32 list"
  cr0 :: u32
  cr3 :: u32

definition PAGE_ALIGN_UP :: "u32 \<Rightarrow> u32" where
  "PAGE_ALIGN_UP addr = (addr + PAGE_SIZE - 1) AND NOT (PAGE_SIZE - 1)"

definition PAGE_ALIGN_DOWN :: "u32 \<Rightarrow> u32" where
  "PAGE_ALIGN_DOWN addr = addr AND NOT (PAGE_SIZE - 1)"

definition pd_index :: "u32 \<Rightarrow> u32" where
  "pd_index virt = drop_bit 22 virt"

definition pt_index :: "u32 \<Rightarrow> u32" where
  "pt_index virt = drop_bit 12 virt AND 0x3FF"

definition write_word :: "u32 \<Rightarrow> u32 \<Rightarrow> 'a vmm_scheme \<Rightarrow> 'a vmm_scheme" where
  "write_word addr v s = s\<lparr>phys_mem := (phys_mem s)(addr := v)\<rparr>"

definition invlpg :: "u32 \<Rightarrow> 'a vmm_scheme \<Rightarrow> 'a vmm_scheme" where
  "invlpg virt s = s\<lparr>invlpg_log := invlpg_log s @ [virt]\<rparr>"

text \<open>\<open>for (i = 0; i < 1024; i++) table[i] = 0;\<close>\<close>

definition clear_table :: "u32 \<Rightarrow> 'a vmm_scheme \<Rightarrow> 'a vmm_scheme" where
  "clear_table table s = for_loop 0 1024 (\<lambda>i. write_word (table + 4 * of_nat i) 0) s"

definition vmm_get_pde :: "u32 \<Rightarrow> 'a vmm_scheme \<Rightarrow> u32" where
  "vmm_get_pde virt s = kernel_page_directory s + 4 * pd_index virt"

definition vmm_get_pte :: "u32 \<Rightarrow> 'a vmm_scheme \<Rightarrow> u32" where
  "vmm_get_pte virt s =
     (let pd_entry = phys_mem s (kernel_page_directory s + 4 * pd_index virt) in
      if pd_entry AND PDE_PRESENT = 0 then 0
      else (pd_entry AND NOT 0xFFF) + 4 * pt_index virt)"

definition vmm_map_page :: "u32 \<Rightarrow> u32 \<Rightarrow> u32 \<Rightarrow> 'a vmm_scheme \<Rightarrow> 'a vmm_scheme" where
  "vmm_map_page phys virt flags s =
     (let pde = kernel_page_directory s + 4 * pd_index virt;
          (ok, s) =
            (if phys_mem s pde AND PDE_PRESENT = 0
             then let (new_pt, s) = pmm_alloc_page s in
                  if new_pt = 0
                  then (False, log_event (Printk ''VMM: Failed to allocate page table!\<newline>'' []) s)
                  else let s = clear_table new_pt s in
                       (True, write_word pde (new_pt OR PDE_PRESENT OR PDE_WRITABLE) s)
             else (True, s))
      in if \<not> ok then s
         else let page_table = phys_mem s pde AND NOT 0xFFF;
                  s = write_word (page_table + 4 * pt_index virt) (phys OR flags OR PDE_PRESENT) s
              in invlpg virt s)"

definition vmm_unmap_page :: "u32 \<Rightarrow> 'a vmm_scheme \<Rightarrow> 'a vmm_scheme" where
  "vmm_unmap_page virt s =
     (let pte = vmm_get_pte virt s in
      if pte = 0 then s else invlpg virt (write_word pte 0 s))"

text \<open>The progress counter \<open>*done\<close> of \<open>vmm_init\<close> travels with the state.\<close>

definition vmm_loading_tick :: "u32 \<times> 'a vmm_scheme \<Rightarrow> u32 \<times> 'a vmm_scheme" where
  "vmm_loading_tick = (\<lambda>(done, s).
     let done = done + 1 in
     if done mod VMM_STATUS_TICK_INTERVAL = 0 \<or> VMM_TOTAL_STEPS \<le> done
     then let percent = sint (done * 100 div VMM_TOTAL_STEPS);
              percent = (if percent > 100 then 100 else percent)
          in (done, log_event Status_tick (log_event (Status_progress percent) s))
     else (done, s))"

definition map_and_tick :: "u32 \<Rightarrow> u32 \<Rightarrow> u32 \<times> 'a vmm_scheme \<Rightarrow> u32 \<times> 'a vmm_scheme" where
  "map_and_tick phys virt = (\<lambda>(done, s).
     vmm_loading_tick (done, vmm_map_page phys virt (PDE_WRITABLE OR PDE_PRESENT) s))"

text \<open>One turn of the heap loop; the flag records the \<open>break\<close>.\<close>

definition map_heap_page :: "nat \<Rightarrow> bool \<times> u32 \<times> 'a vmm_scheme \<Rightarrow> bool \<times> u32 \<times> 'a vmm_scheme" where
  "map_heap_page i = (\<lambda>(stop, done, s).
     if stop then (stop, done, s)
     else let (phys, s) = pmm_alloc_page s in
       if phys = 0
       then (True, done, log_event (Printk
               ''VMM: Failed to allocate page for heap mapping at index %u\<newline>'' [KDec (int i)]) s)
       else (False, map_and_tick phys (HEAP_START + of_nat i * PAGE_SIZE) (done, s)))"

definition vmm_init :: "'a vmm_scheme \<Rightarrow> 'a vmm_scheme" where
  "vmm_init s =
     (let s = log_event (Status_progress 0) (log_event (Status_start ''Virtual memory'') s);
          (page, s) = pmm_alloc_page s;
          s = s\<lparr>kernel_page_directory := PAGE_ALIGN_UP page,
                current_page_directory := PAGE_ALIGN_UP page\<rparr>;
          s = clear_table (kernel_page_directory s) s;
          x = for_loop 0 1024 (\<lambda>i. map_and_tick (of_nat i * PAGE_SIZE) (of_nat i * PAGE_SIZE)) (0, s);
          x = for_loop 0 256 (\<lambda>i. map_and_tick (0x100000 + of_nat i * PAGE_SIZE)
                                     (KERNEL_VIRTUAL_BASE + of_nat i * PAGE_SIZE)) x;
          x = map_and_tick 0xB8000 0xB8000 x;
          x = for_loop 0 16 (\<lambda>i. map_and_tick (0xA0000 + of_nat i * PAGE_SIZE)
                                    (0xA0000 + of_nat i * PAGE_SIZE)) x;
          x = for_loop 0 512 (\<lambda>i. map_and_tick (0xFD000000 + of_nat i * 0x1000)
                                     (0xFD000000 + of_nat i * 0x1000)) x;
          (_, _, s) = for_loop 0 16384 map_heap_page (False, x);
          s = log_event Status_done (log_event (Status_progress 100) s);
          s = s\<lparr>cr3 := kernel_page_directory s\<rparr>;
          s = s\<lparr>cr0 := cr0 s OR 0x80000000\<rparr>
      in log_event (Printk ''VMM: Paging enabled, kernel mapped at 0x%x\<newline>''
                     [KHex KERNEL_VIRTUAL_BASE]) s)"

section \<open>Page tables as frames of words\<close>

text \<open>The address of word \<open>i\<close> of page frame \<open>f\<close>.\<close>

definition cell :: "nat \<Rightarrow> nat \<Rightarrow> u32" where
  "cell f i = of_nat (f * 4096 + 4 * i)"

lemma unat_cell: "f < 0x100000 \<Longrightarrow> i < 1024 \<Longrightarrow> unat (cell f i) = f * 4096 + 4 * i"
  unfolding cell_def by (rule unat_of_nat_small) simp

lemma cell_eq_iff:
  assumes "f < 0x100000" "i < 1024" "g < 0x100000" "j < 1024"
  shows "cell f i = cell g j \<longleftrightarrow> f = g \<and> i = j"
proof
  assume "cell f i = cell g j"
  then have eq: "f * 4096 + 4 * i = g * 4096 + 4 * j" using unat_cell assms by metis
  moreover have "(f * 4096 + 4 * i) div 4096 = f" "(g * 4096 + 4 * j) div 4096 = g"
    using assms by auto
  ultimately have "f = g" by metis
  with eq show "f = g \<and> i = j" by simp
qed simp

definition pdi :: "u32 \<Rightarrow> nat" where "pdi v = unat v div 2 ^ 22"
definition pti :: "u32 \<Rightarrow> nat" where "pti v = unat v div 4096 mod 1024"

lemma pdi_less [simp]: "pdi v < 1024" and pti_less [simp]: "pti v < 1024"
  using unat_u32_bound [of v] by (auto simp: pdi_def pti_def)

lemma same_page_iff: "pdi v = pdi w \<and> pti v = pti w \<longleftrightarrow> unat v div 4096 = unat w div 4096"
proof -
  have "unat v div 2 ^ 22 = unat v div 4096 div 1024" for v :: u32
    by (simp flip: div_mult2_eq)
  then show ?thesis unfolding pdi_def pti_def by (metis div_mult_mod_eq)
qed

lemma pd_index_pdi: "pd_index v = of_nat (pdi v)"
proof -
  have "unat (pd_index v) = pdi v"
    unfolding pd_index_def pdi_def
    by (subst unsigned_drop_bit_eq) (simp add: drop_bit_eq_div take_bit_nat_eq_self [OF unat_u32_bound])
  then show ?thesis by (simp add: word_unat_eq_iff unat_of_nat_small [OF less_trans [OF pdi_less]])
qed

lemma pt_index_pti: "pt_index v = of_nat (pti v)"
proof -
  have mask: "(0x3FF :: u32) = mask 10" by (simp add: mask_eq_exp_minus_1)
  have "unat (drop_bit 12 v AND mask 10) = take_bit 10 (unat (drop_bit 12 v))"
    by (simp flip: take_bit_eq_mask add: unsigned_take_bit_eq)
  also have "unat (drop_bit 12 v) = unat v div 4096"
    by (subst unsigned_drop_bit_eq) (simp add: drop_bit_eq_div take_bit_nat_eq_self [OF unat_u32_bound])
  finally have "unat (pt_index v) = pti v"
    by (simp add: pt_index_def pti_def mask take_bit_eq_mod)
  then show ?thesis by (simp add: word_unat_eq_iff unat_of_nat_small [OF less_trans [OF pti_less]])
qed

definition frame_of :: "u32 \<Rightarrow> nat" where "frame_of a = unat a div 4096"

lemma frame_of_less [simp]: "frame_of a < 0x100000"
  using unat_u32_bound [of a] by (simp add: frame_of_def)

lemma word_of_frame: "unat a mod 4096 = 0 \<Longrightarrow> a + 4 * of_nat i = cell (frame_of a) i"
proof -
  assume "unat a mod 4096 = 0"
  then have "frame_of a * 4096 = unat a" unfolding frame_of_def by (metis add.right_neutral div_mult_mod_eq)
  then have "of_nat (frame_of a * 4096) = a"
    using frame_of_less [of a] by (simp add: word_unat_eq_iff del: of_nat_mult)
  then show ?thesis by (simp add: cell_def)
qed

lemma entry_frame: "(e AND NOT 0xFFF) + 4 * of_nat i = cell (frame_of e) i"
proof -
  have mask: "(0xFFF :: u32) = mask 12" by (simp add: mask_eq_exp_minus_1)
  have u: "unat (e AND NOT 0xFFF) = frame_of e * 4096"
    unfolding mask unat_and_not_mask by (simp add: frame_of_def)
  then have "frame_of (e AND NOT 0xFFF) = frame_of e" by (simp add: frame_of_def)
  with u word_of_frame [of "e AND NOT 0xFFF" i] show ?thesis by simp
qed

lemma flagged_entry:
  assumes "i < 0x100000"
  shows "frame_of (of_nat i * PAGE_SIZE OR PDE_PRESENT OR PDE_WRITABLE) = i"
    and "(of_nat i * PAGE_SIZE OR PDE_PRESENT OR PDE_WRITABLE :: u32) AND PDE_PRESENT \<noteq> 0"
proof -
  have s: "(of_nat i * PAGE_SIZE :: u32) = push_bit 12 (of_nat i)" by (simp add: push_bit_eq_mult)
  have m: "(1 OR 2 :: u32) = mask 2" by (simp add: mask_eq_exp_minus_1)
  have "drop_bit 12 (push_bit 12 w OR mask 2 :: u32) = take_bit 20 w" for w
    by (rule bit_word_eqI) (auto simp: bit_simps)
  then have "drop_bit 12 (of_nat i * PAGE_SIZE OR PDE_PRESENT OR PDE_WRITABLE :: u32) = take_bit 20 (of_nat i)"
    unfolding s or.assoc m .
  moreover have "unat (drop_bit 12 a) = frame_of a" for a :: u32
    unfolding frame_of_def
    by (subst unsigned_drop_bit_eq) (simp add: drop_bit_eq_div take_bit_nat_eq_self [OF unat_u32_bound])
  moreover have "unat (take_bit 20 (of_nat i :: u32)) = i"
    using assms by (simp add: unsigned_take_bit_eq take_bit_nat_eq_self)
  ultimately show "frame_of (of_nat i * PAGE_SIZE OR PDE_PRESENT OR PDE_WRITABLE) = i" by metis
  have "bit (of_nat i * PAGE_SIZE OR PDE_PRESENT OR PDE_WRITABLE :: u32) 0" by (simp add: bit_or_iff)
  then show "(of_nat i * PAGE_SIZE OR PDE_PRESENT OR PDE_WRITABLE :: u32) AND PDE_PRESENT \<noteq> 0"
    by (metis and_one_eq bit_0 odd_iff_mod_2_eq_one zero_neq_one)
qed

section \<open>Well-formed page tables\<close>

definition pd_frame :: "'a vmm_scheme \<Rightarrow> nat" where
  "pd_frame s = frame_of (kernel_page_directory s)"

definition pde :: "'a vmm_scheme \<Rightarrow> nat \<Rightarrow> u32" where
  "pde s i = phys_mem s (cell (pd_frame s) i)"

definition table_present :: "'a vmm_scheme \<Rightarrow> nat \<Rightarrow> bool" where
  "table_present s i \<longleftrightarrow> pde s i AND PDE_PRESENT \<noteq> 0"

definition pt_frame :: "'a vmm_scheme \<Rightarrow> nat \<Rightarrow> nat" where
  "pt_frame s i = frame_of (pde s i)"

text \<open>
  The page directory and the page tables it names occupy allocated frames of their own,
  none of them frame 0.
\<close>

definition vm_wf :: "'a vmm_scheme \<Rightarrow> bool" where
  "vm_wf s \<longleftrightarrow> pmm_wf s \<and> unat (kernel_page_directory s) mod 4096 = 0 \<and>
     pd_frame s \<noteq> 0 \<and> pd_frame s \<notin> free_frames s \<and>
     (\<forall>i < 1024. table_present s i \<longrightarrow> pt_frame s i \<noteq> 0 \<and> pt_frame s i \<noteq> pd_frame s \<and>
        pt_frame s i \<notin> free_frames s) \<and>
     (\<forall>i < 1024. \<forall>j < 1024. table_present s i \<and> table_present s j \<and> pt_frame s i = pt_frame s j \<longrightarrow> i = j)"

text \<open>The entry the processor reads for a virtual address; 0 when there is no page table.\<close>

definition vmm_entry :: "u32 \<Rightarrow> 'a vmm_scheme \<Rightarrow> u32" where
  "vmm_entry virt s = (let pte = vmm_get_pte virt s in if pte = 0 then 0 else phys_mem s pte)"

lemma frame_bounds [simp]: "pd_frame s < 0x100000" "pt_frame s i < 0x100000"
  by (simp_all add: pd_frame_def pt_frame_def)

lemma pde_address:
  "vm_wf s \<Longrightarrow> kernel_page_directory s + 4 * pd_index v = cell (pd_frame s) (pdi v)"
  unfolding pd_index_pdi pd_frame_def by (rule word_of_frame) (simp add: vm_wf_def)

lemma vmm_get_pte_cell:
  assumes "vm_wf s"
  shows "vmm_get_pte v s =
    (if table_present s (pdi v) then cell (pt_frame s (pdi v)) (pti v) else 0)"
  unfolding vmm_get_pte_def Let_def pde_address [OF assms] pt_index_pti entry_frame
    table_present_def pde_def pt_frame_def by simp

lemma vmm_entry_cell:
  assumes "vm_wf s"
  shows "vmm_entry v s =
    (if table_present s (pdi v) then phys_mem s (cell (pt_frame s (pdi v)) (pti v)) else 0)"
proof -
  have "cell (pt_frame s (pdi v)) (pti v) \<noteq> 0" if "table_present s (pdi v)"
  proof -
    have "pt_frame s (pdi v) \<noteq> 0" using assms that by (simp add: vm_wf_def)
    then have "unat (cell (pt_frame s (pdi v)) (pti v)) \<noteq> 0" by (simp add: unat_cell)
    then show ?thesis by auto
  qed
  then show ?thesis by (simp add: vmm_entry_def vmm_get_pte_cell [OF assms] Let_def)
qed

lemma write_word_fields [simp]:
  "phys_mem (write_word a v s) = (phys_mem s)(a := v)"
  "kernel_page_directory (write_word a v s) = kernel_page_directory s"
  "pd_frame (write_word a v s) = pd_frame s"
  "free_frames (write_word a v s) = free_frames s"
  "invlpg_log (write_word a v s) = invlpg_log s"
  "klog (write_word a v s) = klog s"
  "pmm_wf (write_word a v s) = pmm_wf s"
  by (simp_all add: write_word_def pd_frame_def pmm_wf_def free_frames_def pmm_get_bit_def)

lemma invlpg_fields [simp]:
  "phys_mem (invlpg v s) = phys_mem s" "free_frames (invlpg v s) = free_frames s"
  "vm_wf (invlpg v s) = vm_wf s" "vmm_entry w (invlpg v s) = vmm_entry w s"
  "invlpg_log (invlpg v s) = invlpg_log s @ [v]" "klog (invlpg v s) = klog s"
  "table_present (invlpg v s) = table_present s" "pmm_page_count (invlpg v s) = pmm_page_count s"
  by (simp_all add: invlpg_def vm_wf_def pd_frame_def pmm_wf_def free_frames_def pmm_get_bit_def
      table_present_def pt_frame_def pde_def vmm_entry_def vmm_get_pte_def Let_def fun_eq_iff)

lemma pde_write:
  "f < 0x100000 \<Longrightarrow> i < 1024 \<Longrightarrow> j < 1024 \<Longrightarrow>
     pde (write_word (cell f i) v s) j = (if f = pd_frame s \<and> i = j then v else pde s j)"
  by (auto simp: pde_def cell_eq_iff)

text \<open>Writing an entry of a page table that is present.\<close>

lemma write_entry:
  fixes x :: u32
  assumes wf: "vm_wf s" and p: "table_present s (pdi v)"
  defines "s' \<equiv> write_word (cell (pt_frame s (pdi v)) (pti v)) x s"
  shows "vm_wf s'" and "\<And>w. vmm_entry w s' = (if unat w div 4096 = unat v div 4096 then x else vmm_entry w s)"
    and "\<And>i. i < 1024 \<Longrightarrow> table_present s' i = table_present s i"
proof -
  have "pt_frame s (pdi v) \<noteq> pd_frame s" using wf p by (simp add: vm_wf_def)
  then have pde: "pde s' i = pde s i" if "i < 1024" for i
    using that by (simp add: s'_def pde_write)
  then show same: "table_present s' i = table_present s i" if "i < 1024" for i
    using that by (simp add: table_present_def)
  have pt: "pt_frame s' i = pt_frame s i" if "i < 1024" for i
    using that pde by (simp add: pt_frame_def)
  show wf': "vm_wf s'"
    using wf unfolding vm_wf_def by (simp add: same pt) (simp add: s'_def)
  show "vmm_entry w s' = (if unat w div 4096 = unat v div 4096 then x else vmm_entry w s)" for w
  proof -
    have "pt_frame s (pdi w) = pt_frame s (pdi v) \<longleftrightarrow> pdi w = pdi v" if "table_present s (pdi w)"
      using wf p that by (auto simp: vm_wf_def)
    moreover have "phys_mem s' (cell g j) = (if g = pt_frame s (pdi v) \<and> j = pti v then x
        else phys_mem s (cell g j))" if "g < 0x100000" "j < 1024" for g j
      using that by (auto simp: s'_def cell_eq_iff)
    ultimately show ?thesis
      unfolding vmm_entry_cell [OF wf'] vmm_entry_cell [OF wf] same_page_iff [symmetric]
      using p by (auto simp: same pt)
  qed
qed

text \<open>A page table that has just been allocated, cleared and entered in the directory.\<close>

lemma clear_table_fields [simp]:
  "kernel_page_directory (clear_table a s) = kernel_page_directory s"
  "free_frames (clear_table a s) = free_frames s" "pmm_wf (clear_table a s) = pmm_wf s"
  "invlpg_log (clear_table a s) = invlpg_log s" "klog (clear_table a s) = klog s"
  unfolding clear_table_def
  by (rule for_loop_preserves [where P = kernel_page_directory], simp)
    (rule for_loop_preserves [where P = free_frames], simp,
     rule for_loop_preserves [where P = pmm_wf], simp,
     rule for_loop_preserves [where P = invlpg_log], simp,
     rule for_loop_preserves [where P = klog], simp)

lemma clear_table_mem:
  assumes "f < 0x100000" and "g < 0x100000" and "j < 1024"
  shows "phys_mem (clear_table (of_nat f * PAGE_SIZE) s) (cell g j) =
    (if g = f then 0 else phys_mem s (cell g j))"
proof -
  have "unat (of_nat f * PAGE_SIZE :: u32) = f * 4096" using frame_address(1) [OF assms(1)] .
  then have a: "of_nat f * PAGE_SIZE + 4 * of_nat i = cell f i" for i
    using word_of_frame [of "of_nat f * PAGE_SIZE" i] by (simp add: frame_of_def)
  have "\<forall>g < 0x100000. \<forall>j < 1024. phys_mem (for_loop 0 n (\<lambda>i. write_word (cell f i) 0) s) (cell g j) =
      (if g = f \<and> j < n then 0 else phys_mem s (cell g j))" if "n \<le> 1024" for n
    using that
  proof (induction n)
    case 0
    show ?case by simp
  next
    case (Suc n)
    then show ?case using assms(1) by (auto simp: for_loop_Suc cell_eq_iff less_Suc_eq)
  qed
  then show ?thesis using assms by (simp add: clear_table_def a)
qed

lemma pmm_alloc_page_vmm [simp]:
  "phys_mem (snd (pmm_alloc_page s)) = phys_mem s"
  "kernel_page_directory (snd (pmm_alloc_page s)) = kernel_page_directory s"
  "invlpg_log (snd (pmm_alloc_page s)) = invlpg_log s"
  by (auto simp: pmm_alloc_page_def pmm_find_free_page_def pmm_set_bit_def log_event_def Let_def
      split: prod.splits option.splits if_splits)

lemma new_table:
  assumes wf: "vm_wf s" and p: "\<not> table_present s (pdi v)"
    and new: "i \<in> free_frames s" and i: "0 < i" "i < 0x100000"
    and a: "pmm_wf t" "free_frames t = free_frames s - {i}" "phys_mem t = phys_mem s"
      "kernel_page_directory t = kernel_page_directory s"
  defines "s' \<equiv> write_word (cell (pd_frame s) (pdi v))
      (of_nat i * PAGE_SIZE OR PDE_PRESENT OR PDE_WRITABLE) (clear_table (of_nat i * PAGE_SIZE) t)"
  shows "vm_wf s'" and "\<And>w. vmm_entry w s' = vmm_entry w s"
    and "\<And>j. j < 1024 \<Longrightarrow> table_present s' j \<longleftrightarrow> j = pdi v \<or> table_present s j"
proof -
  have pd: "pd_frame s' = pd_frame s" "pd_frame s \<noteq> i" "pd_frame (clear_table (of_nat i * PAGE_SIZE) t) = pd_frame s"
    using wf new a(4) by (auto simp: s'_def pd_frame_def vm_wf_def)
  have pde: "pde s' j = (if j = pdi v then of_nat i * PAGE_SIZE OR PDE_PRESENT OR PDE_WRITABLE
      else pde s j)" if "j < 1024" for j
    using that pd i a(3) by (simp add: s'_def pde_def cell_eq_iff clear_table_mem)
  show present: "table_present s' j \<longleftrightarrow> j = pdi v \<or> table_present s j" if "j < 1024" for j
    using that flagged_entry(2) [OF i(2)] by (auto simp: table_present_def pde)
  have pt: "pt_frame s' j = (if j = pdi v then i else pt_frame s j)" if "j < 1024" for j
    using that flagged_entry(1) [OF i(2)] by (simp add: pt_frame_def pde)
  have old: "pt_frame s j \<noteq> i" if "j < 1024" "table_present s j" for j
    using wf new that by (auto simp: vm_wf_def)
  have free: "free_frames s' = free_frames s - {i}" "pmm_wf s'" "kernel_page_directory s' = kernel_page_directory s"
    using a by (simp_all add: s'_def)
  show wf': "vm_wf s'"
    using wf pd(2) old i free(2) unfolding vm_wf_def free(1,3) pd(1) by (simp add: present pt) blast
  have mem: "phys_mem s' (cell g j) = (if g = i then 0 else phys_mem s (cell g j))"
    if "g \<noteq> pd_frame s" "g < 0x100000" "j < 1024" for g j
    using that i a(3) by (simp add: s'_def cell_eq_iff clear_table_mem)
  show "vmm_entry w s' = vmm_entry w s" for w
  proof (cases "pdi w = pdi v")
    case True
    then show ?thesis
      unfolding vmm_entry_cell [OF wf'] vmm_entry_cell [OF wf]
      using p pd(2) i by (simp add: present pt mem)
  next
    case False
    moreover have "pt_frame s (pdi w) \<noteq> pd_frame s" if "table_present s (pdi w)"
      using wf that by (simp add: vm_wf_def)
    ultimately show ?thesis
      unfolding vmm_entry_cell [OF wf'] vmm_entry_cell [OF wf]
      using old by (simp add: present pt mem)
  qed
qed

lemma vmm_map_page_present:
  assumes "vm_wf s" and "table_present s (pdi virt)"
  shows "vmm_map_page phys virt flags s =
    invlpg virt (write_word (cell (pt_frame s (pdi virt)) (pti virt)) (phys OR flags OR PDE_PRESENT) s)"
  using assms(2)
  unfolding vmm_map_page_def Let_def pde_address [OF assms(1)] pt_index_pti entry_frame
    table_present_def pde_def pt_frame_def by simp

lemma vmm_map_page_absent:
  assumes "vm_wf s" and "\<not> table_present s (pdi virt)" and "pmm_alloc_page s = (a, t)"
  shows "vmm_map_page phys virt flags s =
    (if a = 0 then log_event (Printk ''VMM: Failed to allocate page table!\<newline>'' []) t
     else let s = write_word (cell (pd_frame s) (pdi virt)) (a OR PDE_PRESENT OR PDE_WRITABLE)
                    (clear_table a t)
          in invlpg virt (write_word (cell (pt_frame s (pdi virt)) (pti virt))
               (phys OR flags OR PDE_PRESENT) s))"
proof -
  have "kernel_page_directory t = kernel_page_directory s"
    using pmm_alloc_page_vmm(2) [of s] assms(3) by simp
  then have "pd_frame (clear_table a t) = pd_frame s" by (simp add: pd_frame_def)
  then show ?thesis
    using assms(2,3)
    unfolding vmm_map_page_def Let_def pde_address [OF assms(1)] pt_index_pti entry_frame
      table_present_def pde_def pt_frame_def by simp
qed

section \<open>Properties\<close>

lemma vm_wf_same:
  assumes "vm_wf s" and "pmm_wf t" and "free_frames t = free_frames s" and "phys_mem t = phys_mem s"
    and "kernel_page_directory t = kernel_page_directory s"
  shows "vm_wf t" and "vmm_entry w t = vmm_entry w s" and "table_present t = table_present s"
proof -
  have "pd_frame t = pd_frame s" "pde t = pde s"
    using assms by (simp_all add: pd_frame_def pde_def fun_eq_iff)
  then have "table_present t = table_present s" "pt_frame t = pt_frame s"
    by (simp_all add: table_present_def pt_frame_def fun_eq_iff)
  with assms \<open>pd_frame t = pd_frame s\<close> show "vm_wf t" "table_present t = table_present s"
    by (simp_all add: vm_wf_def)
  show "vmm_entry w t = vmm_entry w s" by (simp add: vmm_entry_def vmm_get_pte_def Let_def assms)
qed

lemma log_event_vmm [simp]:
  "phys_mem (log_event e s) = phys_mem s"
  "kernel_page_directory (log_event e s) = kernel_page_directory s"
  "invlpg_log (log_event e s) = invlpg_log s"
  "pmm_wf (log_event e s) = pmm_wf s"
  by (simp_all add: log_event_def pmm_wf_def free_frames_def pmm_get_bit_def)

lemma vmm_map_page_effect:
  fixes s :: "'a vmm_scheme" and phys virt flags :: u32
  assumes wf: "vm_wf s"
  defines "s' \<equiv> vmm_map_page phys virt flags s"
  shows "vm_wf s' \<and>
    (if table_present s (pdi virt) \<or> free_frames s \<noteq> {}
     then (\<forall>v. vmm_entry v s' = (if unat v div 4096 = unat virt div 4096
                                  then phys OR flags OR PDE_PRESENT else vmm_entry v s)) \<and>
          invlpg_log s' = invlpg_log s @ [virt] \<and>
          (if table_present s (pdi virt) then free_frames s' = free_frames s
           else \<exists>i \<in> free_frames s. free_frames s' = free_frames s - {i})
     else (\<forall>v. vmm_entry v s' = vmm_entry v s) \<and> invlpg_log s' = invlpg_log s \<and>
          free_frames s' = free_frames s)"
proof (cases "table_present s (pdi virt)")
  case True
  then show ?thesis
    using write_entry [OF wf, where v = virt and x = "phys OR flags OR PDE_PRESENT"]
    by (simp add: s'_def vmm_map_page_present [OF wf])
next
  case False
  obtain a t where at: "pmm_alloc_page s = (a, t)" by (cases "pmm_alloc_page s")
  note mp = vmm_map_page_absent [OF wf False at, of phys flags, folded s'_def]
  have pw: "pmm_wf s" using wf by (simp add: vm_wf_def)
  have t: "pmm_wf t" "phys_mem t = phys_mem s" "kernel_page_directory t = kernel_page_directory s"
      "invlpg_log t = invlpg_log s"
    using pm.alloc_inv [OF pw] pmm_alloc_page_vmm [of s] at by simp_all
  from pw show ?thesis
  proof (cases rule: pm.alloc_cases)
    case fail
    then have s': "s' = log_event (Printk ''VMM: Failed to allocate page table!\<newline>'' []) t"
      using mp at by simp
    have "vm_wf s'" "vmm_entry v s' = vmm_entry v s" for v
      using vm_wf_same [OF wf, of s'] t fail at by (simp_all add: s')
    then show ?thesis using False fail at t by (simp add: s')
  next
    case (ok i)
    define u where "u = write_word (cell (pd_frame s) (pdi virt))
      (of_nat i * PAGE_SIZE OR PDE_PRESENT OR PDE_WRITABLE) (clear_table (of_nat i * PAGE_SIZE) t)"
    have ft: "free_frames t = free_frames s - {i}" using ok at by simp
    note nt = new_table [OF wf False ok(1-3) t(1) ft t(2,3), folded u_def]
    have s': "s' = invlpg virt (write_word (cell (pt_frame u (pdi virt)) (pti virt))
        (phys OR flags OR PDE_PRESENT) u)"
      using mp ok at by (simp add: u_def Let_def)
    have "free_frames u = free_frames s - {i}" "invlpg_log u = invlpg_log s"
      using ft t by (simp_all add: u_def)
    then show ?thesis
      using write_entry [OF nt(1), where v = virt and x = "phys OR flags OR PDE_PRESENT"] nt(2,3) ok(1) False
      by (auto simp: s')
  qed
qed

lemma vmm_map_page_wf: "vm_wf s \<Longrightarrow> vm_wf (vmm_map_page phys virt flags s)"
  using vmm_map_page_effect by blast

text \<open>
  C8. \<open>vmm_map_page\<close> on well-formed page tables. When the page table for the address exists, or
  a frame is free for it, afterwards the processor reads \<open>phys | flags | PRESENT\<close> for every
  address of the page, the entry of every other page is what it was, the TLB entry is
  invalidated, at most one frame is taken from the allocator, and the tables stay
  well-formed. Otherwise no mapping changes.
\<close>

theorem vmm_map_page_correct:
  fixes s :: "'a vmm_scheme" and phys virt flags :: u32
  assumes wf: "vm_wf s"
  defines "s' \<equiv> vmm_map_page phys virt flags s"
  shows "vm_wf s' \<and>
    (if table_present s (pdi virt) \<or> free_frames s \<noteq> {}
     then (\<forall>v. vmm_entry v s' = (if unat v div 4096 = unat virt div 4096
                                  then phys OR flags OR PDE_PRESENT else vmm_entry v s)) \<and>
          invlpg_log s' = invlpg_log s @ [virt] \<and>
          (if table_present s (pdi virt) then free_frames s' = free_frames s
           else \<exists>i \<in> free_frames s. free_frames s' = free_frames s - {i})
     else (\<forall>v. vmm_entry v s' = vmm_entry v s) \<and> invlpg_log s' = invlpg_log s \<and>
          free_frames s' = free_frames s)"
  unfolding s'_def by (rule vmm_map_page_effect [OF wf])

text \<open>A page directory in frame 1, no page tables, frames 2 and 3 free.\<close>

definition vmm_example :: vmm where
  "vmm_example = \<lparr>klog = [], pmm_bitmap = (\<lambda>_. - 1)(0 := NOT 12), pmm_page_count = 16,
     pmm_free_pages = 2, pmm_search_hint = 0, phys_mem = (\<lambda>_. 0), kernel_page_directory = 4096,
     current_page_directory = 4096, invlpg_log = [], cr0 = 0, cr3 = 0\<rparr>"

lemma vmm_example_frames: "free_frames vmm_example = {2, 3}"
  by code_simp

lemma vmm_example_wf: "vm_wf vmm_example"
proof -
  have "pmm_wf vmm_example"
    unfolding pmm_wf_def vmm_example_frames by (simp add: vmm_example_def)
  moreover have "\<not> table_present vmm_example i" for i
    by (simp add: table_present_def pde_def vmm_example_def)
  ultimately show ?thesis
    by (simp add: vm_wf_def vmm_example_frames pd_frame_def frame_of_def) (simp add: vmm_example_def)
qed

theorem vmm_map_page_correct_witness:
  "vmm_entry 0xC0000ABC (vmm_map_page 0x100000 0xC0000000 2 vmm_example) = 0x100003 \<and>
   vmm_entry 0xC0001000 (vmm_map_page 0x100000 0xC0000000 2 vmm_example) = vmm_entry 0xC0001000 vmm_example"
  using vmm_map_page_correct [OF vmm_example_wf, of "0x100000" "0xC0000000" 2]
  by (simp add: vmm_example_frames)

text \<open>
  \<open>vmm_unmap_page\<close> clears the entry of exactly the page of the address and invalidates its
  TLB entry; without a page table for the address nothing happens. The page table itself is
  never returned to the allocator.
\<close>

theorem vmm_unmap_page_correct:
  fixes s :: "'a vmm_scheme" and virt :: u32
  assumes wf: "vm_wf s"
  defines "s' \<equiv> vmm_unmap_page virt s"
  shows "vm_wf s' \<and> free_frames s' = free_frames s \<and>
    (\<forall>v. vmm_entry v s' = (if unat v div 4096 = unat virt div 4096 then 0 else vmm_entry v s)) \<and>
    invlpg_log s' = (if table_present s (pdi virt) then invlpg_log s @ [virt] else invlpg_log s)"
proof (cases "table_present s (pdi virt)")
  case True
  have "pt_frame s (pdi virt) \<noteq> 0" using wf True by (simp add: vm_wf_def)
  then have "unat (cell (pt_frame s (pdi virt)) (pti virt)) \<noteq> 0" by (simp add: unat_cell)
  then have "s' = invlpg virt (write_word (cell (pt_frame s (pdi virt)) (pti virt)) 0 s)"
    using True by (auto simp: s'_def vmm_unmap_page_def vmm_get_pte_cell [OF wf] Let_def)
  then show ?thesis using write_entry [OF wf True, where x = 0] True by simp
next
  case False
  then have "s' = s" by (simp add: s'_def vmm_unmap_page_def vmm_get_pte_cell [OF wf])
  moreover have "vmm_entry v s = 0" if "unat v div 4096 = unat virt div 4096" for v
    using that False by (simp add: vmm_entry_cell [OF wf] flip: same_page_iff)
  ultimately show ?thesis using wf False by simp
qed

theorem vmm_unmap_page_correct_witness:
  "vmm_entry 0xC0000ABC (vmm_unmap_page 0xC0000000 (vmm_map_page 0x100000 0xC0000000 2 vmm_example)) = 0"
proof -
  have "vm_wf (vmm_map_page 0x100000 0xC0000000 2 vmm_example)"
    using vmm_map_page_wf [OF vmm_example_wf] .
  from vmm_unmap_page_correct [OF this, of "0xC0000000"] show ?thesis by simp
qed

end
