(* ===== verification/Kheap.thy ===== *)
theory Kheap
  imports Vmm
begin

text \<open>
  The kernel heap of \<open>memory.c\<close>: \<open>kmalloc\<close> (best fit, with splitting) and \<open>kfree\<close> (merging
  with the following block) over a singly linked list of block headers that starts at
  \<open>HEAP_START\<close>.
\<close>

unbundle bit_operations_syntax

section \<open>State and operations\<close>

text \<open>
  A header is three machine words: \<open>sizeof(heap_block)\<close> is 12 on the i686. \<open>heap_mem\<close> gives
  the header found at an address.
\<close>

abbreviation HDR :: u32 where "HDR \<equiv> 12"

record heap_block =
  hb_next :: u32
  hb_size :: u32
  hb_free :: bool

record kheap = vmm +
  heap_mem :: "u32 \<Rightarrow> heap_block"
  heap_start :: u32
  heap_end :: u32

definition heap_init :: "'a kheap_scheme \<Rightarrow> 'a kheap_scheme" where
  "heap_init s =
     (if HEAP_SIZE \<le> HDR
      then log_event (Printk ''Heap: Error - HEAP_SIZE (%d) is too small for headers!\<newline>''
             [KDec (sint HEAP_SIZE)]) s
      else let s = s\<lparr>heap_start := HEAP_START, heap_end := HEAP_START\<rparr>;
               s = s\<lparr>heap_mem := (heap_mem s)(heap_start s :=
                       \<lparr>hb_next = 0, hb_size = HEAP_SIZE - HDR, hb_free = True\<rparr>)\<rparr>
           in log_event (Printk ''Heap: Initialized at 0x%x, size %d MB\<newline>''
                [KHex HEAP_START, KDec (sint (HEAP_SIZE div (1024 * 1024)))]) s)"

text \<open>
  The search loop follows \<open>next\<close> pointers until it meets the null pointer, which a corrupted
  list may never do: \<open>None\<close> stands for a loop that does not end. \<open>best\<close> is 0 until a block
  is found.
\<close>

partial_function (option) find_best_fit ::
  "(u32 \<Rightarrow> heap_block) \<Rightarrow> u32 \<Rightarrow> u32 \<Rightarrow> u32 \<Rightarrow> u32 option" where
  "find_best_fit h sz current best_fit =
     (if current = 0 then Some best_fit
      else find_best_fit h sz (hb_next (h current))
             (if hb_free (h current) \<and> sz \<le> hb_size (h current) \<and>
                 (best_fit = 0 \<or> hb_size (h current) < hb_size (h best_fit))
              then current else best_fit))"

declare find_best_fit.simps [code]

text \<open>The part of \<open>kmalloc\<close> after the search: split the block when enough is left, mark it used.\<close>

definition take_block :: "u32 \<Rightarrow> u32 \<Rightarrow> (u32 \<Rightarrow> heap_block) \<Rightarrow> (u32 \<Rightarrow> heap_block)" where
  "take_block best_fit sz h =
     (let h = (if sz + HDR + 16 < hb_size (h best_fit)
               then let new_block = best_fit + HDR + sz;
                        h = h(new_block := \<lparr>hb_next = hb_next (h best_fit),
                                             hb_size = hb_size (h best_fit) - sz - HDR,
                                             hb_free = True\<rparr>)
                    in h(best_fit := (h best_fit)\<lparr>hb_size := sz, hb_next := new_block\<rparr>)
               else h)
      in h(best_fit := (h best_fit)\<lparr>hb_free := False\<rparr>))"

definition align16 :: "u32 \<Rightarrow> u32" where
  "align16 sz = (sz + 15) AND NOT 15"

definition kmalloc :: "u32 \<Rightarrow> 'a kheap_scheme \<Rightarrow> (u32 \<times> 'a kheap_scheme) option" where
  "kmalloc sz s =
     (if sz = 0 then Some (0, s)
      else let sz = align16 sz in
        case find_best_fit (heap_mem s) sz (heap_start s) 0 of
          None \<Rightarrow> None
        | Some best_fit \<Rightarrow>
            if best_fit = 0
            then Some (0, log_event (Printk ''kmalloc: Out of memory!\<newline>'' []) s)
            else Some (best_fit + HDR, s\<lparr>heap_mem := take_block best_fit sz (heap_mem s)\<rparr>))"

text \<open>The merge step of \<open>kfree\<close>.\<close>

definition merge_next :: "u32 \<Rightarrow> (u32 \<Rightarrow> heap_block) \<Rightarrow> (u32 \<Rightarrow> heap_block)" where
  "merge_next block h =
     (let nxt = hb_next (h block) in
      if nxt \<noteq> 0 \<and> hb_free (h nxt)
      then h(block := (h block)\<lparr>hb_size := hb_size (h block) + (HDR + hb_size (h nxt)),
                                hb_next := hb_next (h nxt)\<rparr>)
      else h)"

definition kfree :: "u32 \<Rightarrow> 'a kheap_scheme \<Rightarrow> 'a kheap_scheme" where
  "kfree ptr s =
     (if ptr = 0 then s
      else let block = ptr - HDR;
               h = (heap_mem s)(block := (heap_mem s block)\<lparr>hb_free := True\<rparr>)
           in s\<lparr>heap_mem := merge_next block h\<rparr>)"

definition memory_init :: "u32 \<Rightarrow> u32 \<Rightarrow> u32 \<Rightarrow> 'a kheap_scheme \<Rightarrow> 'a kheap_scheme" where
  "memory_init kernel_end mem_lower mem_upper s =
     (let s = log_event (Printk ''Initializing memory management...\<newline>'' []) s;
          s = pmm_init kernel_end mem_lower mem_upper s;
          s = vmm_init s;
          s = heap_init s
      in log_event (Printk ''Memory management initialized.\<newline>'' []) s)"

section \<open>The block list\<close>

text \<open>
  The heap seen as the list of its blocks, each with its payload size and whether it is free.
  \<open>seg h a bs e z\<close>: from address \<open>a\<close> on, memory is tiled by the blocks \<open>bs\<close> up to address
  \<open>e\<close>; each header links to the next block and the last one to \<open>z\<close>.
\<close>

type_synonym blk = "nat \<times> bool"

fun seg :: "(u32 \<Rightarrow> heap_block) \<Rightarrow> nat \<Rightarrow> blk list \<Rightarrow> nat \<Rightarrow> u32 \<Rightarrow> bool" where
  "seg h a [] e z \<longleftrightarrow> a = e"
| "seg h a ((n, f) # bs) e z \<longleftrightarrow>
     hb_size (h (of_nat a)) = of_nat n \<and> hb_free (h (of_nat a)) = f \<and>
     hb_next (h (of_nat a)) = (if bs = [] then z else of_nat (a + 12 + n)) \<and>
     seg h (a + 12 + n) bs e z"

fun extent :: "blk list \<Rightarrow> nat" where
  "extent [] = 0"
| "extent ((n, f) # bs) = 12 + n + extent bs"

fun block_addrs :: "nat \<Rightarrow> blk list \<Rightarrow> nat list" where
  "block_addrs a [] = []"
| "block_addrs a ((n, f) # bs) = a # block_addrs (a + 12 + n) bs"

text \<open>Pointer of each allocated block and the size of its payload.\<close>

fun live_of :: "nat \<Rightarrow> blk list \<Rightarrow> (u32 \<rightharpoonup> nat)" where
  "live_of a [] = Map.empty"
| "live_of a ((n, f) # bs) =
     (if f then live_of (a + 12 + n) bs else (live_of (a + 12 + n) bs)(of_nat (a + 12) \<mapsto> n))"

partial_function (option) walk_blocks :: "(u32 \<Rightarrow> heap_block) \<Rightarrow> u32 \<Rightarrow> blk list option" where
  "walk_blocks h a =
     (if a = 0 then Some []
      else Option.bind (walk_blocks h (hb_next (h a)))
             (\<lambda>bs. Some ((unat (hb_size (h a)), hb_free (h a)) # bs)))"

declare walk_blocks.simps [code]

definition heap_blocks :: "'a kheap_scheme \<Rightarrow> blk list" where
  "heap_blocks s = (case walk_blocks (heap_mem s) (heap_start s) of None \<Rightarrow> [] | Some bs \<Rightarrow> bs)"

abbreviation HEAP_LO :: nat where "HEAP_LO \<equiv> 0xE0000000"
abbreviation HEAP_HI :: nat where "HEAP_HI \<equiv> 0xE4000000"

definition heap_wf :: "'a kheap_scheme \<Rightarrow> bool" where
  "heap_wf s \<longleftrightarrow> heap_start s = HEAP_START \<and> heap_blocks s \<noteq> [] \<and>
     seg (heap_mem s) HEAP_LO (heap_blocks s) HEAP_HI 0"

definition live :: "'a kheap_scheme \<Rightarrow> (u32 \<rightharpoonup> nat)" where
  "live s = live_of HEAP_LO (heap_blocks s)"

lemma extent_append [simp]: "extent (xs @ ys) = extent xs + extent ys"
  by (induction xs rule: extent.induct) auto

lemma seg_extent: "seg h a bs e z \<Longrightarrow> e = a + extent bs"
  by (induction h a bs e z rule: seg.induct) auto

lemma seg_append:
  "ys \<noteq> [] \<Longrightarrow> seg h a (xs @ ys) e z \<longleftrightarrow>
     seg h a xs (a + extent xs) (of_nat (a + extent xs)) \<and> seg h (a + extent xs) ys e z"
  by (induction h a xs e z rule: seg.induct) (auto simp: add.assoc)

lemma seg_last_link: "xs = [] \<Longrightarrow> seg h a xs e z = seg h a xs e z'"
  by simp

lemma seg_upd_outside:
  assumes "x < a \<or> e \<le> x" and "e \<le> 2 ^ 32" and "x < 2 ^ 32"
  shows "seg (h(of_nat x := v)) a bs e z = seg h a bs e z"
  using assms
proof (induction bs arbitrary: a)
  case Nil
  show ?case by simp
next
  case (Cons b bs)
  obtain n f where b: "b = (n, f)" by (cases b)
  show ?case
  proof (cases "a + 12 + n + extent bs = e")
    case True
    with Cons.prems have "a < 2 ^ 32" and "a \<noteq> x" by auto
    with Cons.prems(3) have "(of_nat a :: u32) \<noteq> of_nat x"
      by (metis unat_of_nat_small)
    moreover have "x < a + 12 + n \<or> e \<le> x" using Cons.prems(1) by auto
    ultimately show ?thesis using Cons.IH Cons.prems by (simp add: b)
  next
    case False
    then show ?thesis using seg_extent by (fastforce simp: b)
  qed
qed

lemma seg_bound: "seg h a bs e z \<Longrightarrow> (n, f) \<in> set bs \<Longrightarrow> n < e"
  by (induction h a bs e z rule: seg.induct) (auto dest: seg_extent)

lemma walk_blocks_seg:
  "seg h a bs e 0 \<Longrightarrow> e < 2 ^ 32 \<Longrightarrow> 0 < a \<Longrightarrow>
     walk_blocks h (if bs = [] then 0 else of_nat a) = Some bs"
proof (induction bs arbitrary: a)
  case Nil
  show ?case by (simp add: walk_blocks.simps)
next
  case (Cons b bs)
  obtain n f where b: "b = (n, f)" by (cases b)
  from Cons.prems have e: "e = a + 12 + n + extent bs"
    using seg_extent by (fastforce simp: b)
  have "walk_blocks h (if bs = [] then 0 else of_nat (a + 12 + n)) = Some bs"
    using Cons by (simp add: b)
  then have "walk_blocks h (hb_next (h (of_nat a))) = Some bs"
    using Cons.prems(1) by (simp add: b)
  moreover have "(of_nat a :: u32) \<noteq> 0"
    using e Cons.prems(2,3) unat_of_nat_small [of a] by (metis le_add1 le_less_trans
        add.assoc less_numeral_extra(3) unat_0)
  ultimately show ?case
    using Cons.prems e by (simp add: b walk_blocks.simps [of h "of_nat a"])
qed

text \<open>The abstraction relation, and that it determines the block list.\<close>

definition heap_rep :: "'a kheap_scheme \<Rightarrow> blk list \<Rightarrow> bool" where
  "heap_rep s bs \<longleftrightarrow> heap_start s = HEAP_START \<and> bs \<noteq> [] \<and> seg (heap_mem s) HEAP_LO bs HEAP_HI 0"

lemma heap_rep_blocks:
  assumes "heap_rep s bs" shows "heap_blocks s = bs"
proof -
  have "walk_blocks (heap_mem s) (heap_start s) = Some bs"
    using assms walk_blocks_seg [of "heap_mem s" HEAP_LO bs HEAP_HI] by (simp add: heap_rep_def)
  then show ?thesis by (simp add: heap_blocks_def)
qed

lemma heap_wf_iff: "heap_wf s \<longleftrightarrow> (\<exists>bs. heap_rep s bs)"
  using heap_rep_blocks by (fastforce simp: heap_wf_def heap_rep_def)

lemma heap_wf_rep: "heap_wf s \<Longrightarrow> heap_rep s (heap_blocks s)"
  by (simp add: heap_wf_def heap_rep_def)

section \<open>The search finds a smallest free block that fits\<close>

definition fits :: "(u32 \<Rightarrow> heap_block) \<Rightarrow> u32 \<Rightarrow> u32 \<Rightarrow> bool" where
  "fits h sz c \<longleftrightarrow> hb_free (h c) \<and> sz \<le> hb_size (h c)"

definition better :: "(u32 \<Rightarrow> heap_block) \<Rightarrow> u32 \<Rightarrow> u32 \<Rightarrow> u32 \<Rightarrow> u32" where
  "better h sz c best =
     (if fits h sz c \<and> (best = 0 \<or> hb_size (h c) < hb_size (h best)) then c else best)"

lemma find_best_fit_fold:
  "seg h a bs e 0 \<Longrightarrow> e < 2 ^ 32 \<Longrightarrow> 0 < a \<Longrightarrow>
     find_best_fit h sz (if bs = [] then 0 else of_nat a) best =
       Some (fold (better h sz) (map of_nat (block_addrs a bs)) best)"
proof (induction bs arbitrary: a best)
  case Nil
  show ?case by (simp add: find_best_fit.simps)
next
  case (Cons b bs)
  obtain n f where b: "b = (n, f)" by (cases b)
  from Cons.prems have e: "e = a + 12 + n + extent bs"
    using seg_extent by (fastforce simp: b)
  have nxt: "hb_next (h (of_nat a)) = (if bs = [] then 0 else of_nat (a + 12 + n))"
    using Cons.prems(1) by (simp add: b)
  have IH: "find_best_fit h sz (hb_next (h (of_nat a))) best' =
      Some (fold (better h sz) (map of_nat (block_addrs (a + 12 + n) bs)) best')" for best'
    unfolding nxt using Cons.prems by (intro Cons.IH) (auto simp: b)
  have "(of_nat a :: u32) \<noteq> 0"
    using e Cons.prems(2,3) unat_of_nat_small [of a] by (metis le_add1 le_less_trans
        add.assoc less_numeral_extra(3) unat_0)
  then show ?case
    by (simp add: b find_best_fit.simps [of h sz "of_nat a"] IH better_def [of h sz "of_nat a" best]
        fits_def)
qed

lemma fold_better:
  assumes "0 \<notin> set cs" and "best = 0 \<or> fits h sz best"
  defines "r \<equiv> fold (better h sz) cs best"
  shows "r = 0 \<or> fits h sz r" and "r = best \<or> r \<in> set cs"
    and "best \<noteq> 0 \<Longrightarrow> r \<noteq> 0 \<and> hb_size (h r) \<le> hb_size (h best)"
    and "\<And>c. c \<in> set cs \<Longrightarrow> fits h sz c \<Longrightarrow> r \<noteq> 0 \<and> hb_size (h r) \<le> hb_size (h c)"
proof -
  have "(r = 0 \<or> fits h sz r) \<and> (r = best \<or> r \<in> set cs) \<and>
      (best \<noteq> 0 \<longrightarrow> r \<noteq> 0 \<and> hb_size (h r) \<le> hb_size (h best)) \<and>
      (\<forall>c \<in> set cs. fits h sz c \<longrightarrow> r \<noteq> 0 \<and> hb_size (h r) \<le> hb_size (h c))"
    using assms(1,2) unfolding r_def
  proof (induction cs arbitrary: best)
    case Nil
    then show ?case by simp
  next
    case (Cons c cs)
    define b' where "b' = better h sz c best"
    have "b' = 0 \<or> fits h sz b'" using Cons.prems by (auto simp: b'_def better_def)
    note IH = Cons.IH [of b', OF _ this]
    have step: "fits h sz c \<Longrightarrow> b' \<noteq> 0 \<and> hb_size (h b') \<le> hb_size (h c)"
        "best \<noteq> 0 \<Longrightarrow> b' \<noteq> 0 \<and> hb_size (h b') \<le> hb_size (h best)" "b' = best \<or> b' = c"
      using Cons.prems by (auto simp: b'_def better_def)
    show ?case using IH step Cons.prems(1) by (auto simp: b'_def [symmetric] intro: order_trans)
  qed
  then show "r = 0 \<or> fits h sz r" and "r = best \<or> r \<in> set cs"
    and "best \<noteq> 0 \<Longrightarrow> r \<noteq> 0 \<and> hb_size (h r) \<le> hb_size (h best)"
    and "\<And>c. c \<in> set cs \<Longrightarrow> fits h sz c \<Longrightarrow> r \<noteq> 0 \<and> hb_size (h r) \<le> hb_size (h c)"
    by auto
qed

lemma block_addrs_split:
  "x \<in> set (block_addrs a bs) \<longleftrightarrow>
     (\<exists>xs n f ys. bs = xs @ (n, f) # ys \<and> x = a + extent xs)"
proof (induction bs arbitrary: a)
  case Nil
  show ?case by simp
next
  case (Cons b bs)
  note IH = Cons.IH
  obtain n f where b: "b = (n, f)" by (cases b)
  show ?case
  proof
    assume "x \<in> set (block_addrs a (b # bs))"
    then consider "x = a" | "x \<in> set (block_addrs (a + 12 + n) bs)" by (auto simp: b)
    then show "\<exists>xs n f ys. b # bs = xs @ (n, f) # ys \<and> x = a + extent xs"
    proof cases
      case 1
      then show ?thesis by (intro exI [of _ "[]"]) (simp add: b)
    next
      case 2
      then obtain xs m g ys where "bs = xs @ (m, g) # ys" "x = a + 12 + n + extent xs"
        using IH by blast
      then show ?thesis by (intro exI [of _ "b # xs"]) (simp add: b)
    qed
  next
    assume "\<exists>xs n f ys. b # bs = xs @ (n, f) # ys \<and> x = a + extent xs"
    then obtain xs m g ys where *: "b # bs = xs @ (m, g) # ys" "x = a + extent xs" by blast
    show "x \<in> set (block_addrs a (b # bs))"
    proof (cases xs)
      case Nil
      with * show ?thesis by (simp add: b)
    next
      case (Cons c xs')
      with * have "bs = xs' @ (m, g) # ys" and "x = a + 12 + n + extent xs'" by (auto simp: b)
      then have "x \<in> set (block_addrs (a + 12 + n) bs)" unfolding IH by blast
      then show ?thesis by (simp add: b)
    qed
  qed
qed

section \<open>Effect of the operations on the block list\<close>

lemma seg_member_bounds:
  assumes "seg h a (xs @ (n, f) # ys) e z"
  shows "e = a + extent xs + 12 + n + extent ys"
  using seg_extent [OF assms] by simp

lemma seg_middle:
  "seg h a (xs @ (n, f) # ys) e z \<longleftrightarrow>
     seg h a xs (a + extent xs) (of_nat (a + extent xs)) \<and>
     seg h (a + extent xs) ((n, f) # ys) e z"
  by (rule seg_append) simp

lemma seg_header:
  assumes "seg h a (xs @ (n, f) # ys) e z"
  shows "hb_size (h (of_nat (a + extent xs))) = of_nat n"
    and "hb_free (h (of_nat (a + extent xs))) = f"
  using assms unfolding seg_middle by simp_all

lemma seg_set_free:
  assumes "seg h a (xs @ (n, f) # ys) e z" and "e \<le> 2 ^ 32" and "x = a + extent xs"
  shows "seg (h(of_nat x := (h (of_nat x))\<lparr>hb_free := g\<rparr>)) a (xs @ (n, g) # ys) e z"
proof -
  have e: "e = x + 12 + n + extent ys"
    using seg_member_bounds [OF assms(1)] assms(3) by simp
  have "seg (h(of_nat x := v)) a xs x w = seg h a xs x w" for v w
    by (rule seg_upd_outside) (use assms(2) e in auto)
  moreover have "seg (h(of_nat x := v)) (x + 12 + n) ys e w = seg h (x + 12 + n) ys e w" for v w
    by (rule seg_upd_outside) (use assms(2) e in auto)
  ultimately show ?thesis using assms(1,3) by (simp add: seg_middle)
qed

lemma seg_split:
  assumes "seg h a (xs @ (m + 12 + r, f) # ys) e z" and "e \<le> 2 ^ 32" and "x = a + extent xs"
  shows "seg (h(of_nat (x + 12 + m) := \<lparr>hb_next = hb_next (h (of_nat x)), hb_size = of_nat r,
                  hb_free = True\<rparr>,
                of_nat x := \<lparr>hb_next = of_nat (x + 12 + m), hb_size = of_nat m, hb_free = g\<rparr>))
    a (xs @ (m, g) # (r, True) # ys) e z"
proof -
  have e: "e = x + 24 + m + r + extent ys"
    using seg_member_bounds [OF assms(1)] assms(3) by simp
  define y where "y = x + 12 + m"
  have y: "x < y" "y < x + 24 + m + r" "y < 2 ^ 32" "x < 2 ^ 32"
    using assms(2) e by (auto simp: y_def)
  then have ne: "(of_nat y :: u32) \<noteq> of_nat x" by (metis less_irrefl unat_of_nat_small)
  have upd2: "seg (h(of_nat y := v, of_nat x := w)) b bs c u = seg h b bs c u"
    if "c \<le> x \<or> x + 24 + m + r \<le> b" "c \<le> e" for v w u b bs c
  proof -
    have "seg (h(of_nat y := v, of_nat x := w)) b bs c u = seg (h(of_nat y := v)) b bs c u"
      by (rule seg_upd_outside) (use that y assms(2) in auto)
    also have "\<dots> = seg h b bs c u"
      by (rule seg_upd_outside) (use that y assms(2) in auto)
    finally show ?thesis .
  qed
  have frame: "seg (h(of_nat y := v, of_nat x := w)) (y + 12 + r) ys e u = seg h (y + 12 + r) ys e u"
    "seg (h(of_nat y := v, of_nat x := w)) a xs x u = seg h a xs x u" for v w u
    by (rule upd2; use e in \<open>simp add: y_def\<close>)+
  have old: "x + 12 + (m + 12 + r) = y + 12 + r" by (simp add: y_def)
  from assms(1) have "seg h a xs x (of_nat x)" "seg h (y + 12 + r) ys e z"
      "hb_next (h (of_nat x)) = (if ys = [] then z else of_nat (y + 12 + r))"
    unfolding seg_middle assms(3) [symmetric] seg.simps old by auto
  then show ?thesis
    unfolding y_def [symmetric] seg_middle assms(3) [symmetric] seg.simps frame
    using ne by simp
qed

lemma seg_merge:
  assumes "seg h a (xs @ (n, f) # (m, g) # ys) e z" and "e \<le> 2 ^ 32" and "x = a + extent xs"
  shows "seg (h(of_nat x := \<lparr>hb_next = hb_next (h (of_nat (x + 12 + n))),
                  hb_size = of_nat n + (12 + of_nat m), hb_free = k\<rparr>))
    a (xs @ (n + 12 + m, k) # ys) e z"
proof -
  have e: "e = x + 12 + n + 12 + m + extent ys"
    using seg_member_bounds [OF assms(1)] assms(3) by simp
  have "seg (h(of_nat x := v)) a xs x w = seg h a xs x w" for v w
    by (rule seg_upd_outside) (use assms(2) e in auto)
  moreover have "seg (h(of_nat x := v)) (x + (m + (n + 24))) ys e w = seg h (x + (m + (n + 24))) ys e w"
    for v w
    by (rule seg_upd_outside) (use assms(2) e in auto)
  ultimately show ?thesis using assms(1,3) by (simp add: seg_middle algebra_simps)
qed

lemma heap_block_update_all [simp]:
  "(b :: heap_block)\<lparr>hb_size := n, hb_next := a, hb_free := f\<rparr> = \<lparr>hb_next = a, hb_size = n, hb_free = f\<rparr>"
  by (cases b) simp

lemma heap_block_free_update [simp]:
  "hb_free b \<Longrightarrow> (b :: heap_block)\<lparr>hb_size := n, hb_next := a\<rparr> = \<lparr>hb_next = a, hb_size = n, hb_free = True\<rparr>"
  by (cases b) simp

lemma unat_align16:
  assumes "unat sz \<le> 0xFFFFFFF0"
  shows "unat (align16 sz) = (unat sz + 15) div 16 * 16"
proof -
  have "unat (sz + 15) = unat sz + 15" using assms by (simp add: unat_add_small)
  moreover have "(15 :: u32) = mask 4" by (simp add: mask_eq_exp_minus_1)
  ultimately show ?thesis
    by (simp only: align16_def unat_and_not_mask) simp
qed

lemma take_block_seg:
  assumes "seg h HEAP_LO (xs @ (m, f) # ys) HEAP_HI 0" and "unat sz \<le> m"
  shows "seg (take_block (of_nat (HEAP_LO + extent xs)) sz h) HEAP_LO
    (xs @ (if unat sz + 28 < m then [(unat sz, False), (m - unat sz - 12, True)]
           else [(m, False)]) @ ys) HEAP_HI 0"
proof -
  define x where "x = HEAP_LO + extent xs"
  have e: "HEAP_HI = x + 12 + m + extent ys"
    using seg_member_bounds [OF assms(1)] by (simp add: x_def)
  have hdr: "hb_size (h (of_nat x)) = of_nat m" "hb_free (h (of_nat x)) = f"
    using assms(1) unfolding seg_middle x_def [symmetric] by simp_all
  have m: "m < 0x4000000" "x \<ge> HEAP_LO" using e by (auto simp: x_def)
  then have small: "unat (sz + HDR + 16) = unat sz + 28"
    using assms(2) by (simp add: unat_add_small)
  show ?thesis
  proof (cases "unat sz + 28 < m")
    case True
    define r where "r = m - unat sz - 12"
    have mr: "m = unat sz + 12 + r" using True by (simp add: r_def)
    have new: "of_nat x + HDR + sz = of_nat (x + 12 + unat sz)" by simp
    have sz': "of_nat m - sz - HDR = of_nat r" using mr by simp
    have ne: "(of_nat (x + 12 + unat sz) :: u32) \<noteq> of_nat x"
    proof -
      have "x + 12 + unat sz < 2 ^ 32" "x < 2 ^ 32" using e mr by auto
      then show ?thesis by (metis add.commute less_add_same_cancel1 less_irrefl unat_of_nat_small
            trans_less_add1 zero_less_numeral add.assoc)
    qed
    have "take_block (of_nat x) sz h =
      h(of_nat (x + 12 + unat sz) := \<lparr>hb_next = hb_next (h (of_nat x)), hb_size = of_nat r,
          hb_free = True\<rparr>,
        of_nat x := \<lparr>hb_next = of_nat (x + 12 + unat sz), hb_size = of_nat (unat sz),
          hb_free = False\<rparr>)"
      using True small ne hdr(1) m(1)
      by (simp add: take_block_def Let_def sz' unat_less_iff flip: new)
    then show ?thesis
      using True seg_split [of h HEAP_LO xs "unat sz" r f ys HEAP_HI 0 x False] assms(1)
      by (simp add: mr x_def del: of_nat_add)
  next
    case False
    then have "take_block (of_nat x) sz h = h(of_nat x := (h (of_nat x))\<lparr>hb_free := False\<rparr>)"
      using small hdr(1) m(1) by (simp add: take_block_def Let_def unat_less_iff)
    then show ?thesis
      using False seg_set_free [OF assms(1), of x False] by (simp add: x_def)
  qed
qed

lemma heap_rep_bound:
  "heap_rep s (xs @ (n, f) # ys) \<Longrightarrow> HEAP_HI = HEAP_LO + extent xs + 12 + n + extent ys"
  unfolding heap_rep_def using seg_member_bounds by blast

lemma block_addr_nonzero:
  assumes "seg h HEAP_LO bs HEAP_HI 0" and "x \<in> set (block_addrs HEAP_LO bs)"
  shows "HEAP_LO \<le> x" and "x + 12 \<le> HEAP_HI" and "(of_nat x :: u32) \<noteq> 0"
proof -
  obtain xs n f ys where "bs = xs @ (n, f) # ys" "x = HEAP_LO + extent xs"
    using assms(2) block_addrs_split by blast
  with seg_member_bounds assms(1) show le: "HEAP_LO \<le> x" "x + 12 \<le> HEAP_HI" by fastforce+
  then have "unat (of_nat x :: u32) = x" by simp
  with le(1) show "(of_nat x :: u32) \<noteq> 0" by (metis not_numeral_le_zero unat_0)
qed

text \<open>
  \<open>kmalloc\<close> on the block list: it always returns; it fails only when no free block is large
  enough; otherwise it takes a free block of minimal sufficient size.
\<close>

lemma kmalloc_cases:
  assumes rep: "heap_rep s bs" and sz: "sz \<noteq> 0"
  obtains (fail) "\<forall>(m, f) \<in> set bs. f \<longrightarrow> m < unat (align16 sz)"
      and "kmalloc sz s = Some (0, log_event (Printk ''kmalloc: Out of memory!\<newline>'' []) s)"
  | (ok) xs m ys s' where "bs = xs @ (m, True) # ys" and "unat (align16 sz) \<le> m"
      and "\<forall>(k, f) \<in> set bs. f \<and> unat (align16 sz) \<le> k \<longrightarrow> m \<le> k"
      and "kmalloc sz s = Some (of_nat (HEAP_LO + extent xs + 12), s')"
      and "s' = s\<lparr>heap_mem := take_block (of_nat (HEAP_LO + extent xs)) (align16 sz) (heap_mem s)\<rparr>"
      and "heap_rep s' (xs @ (if unat (align16 sz) + 28 < m
             then [(unat (align16 sz), False), (m - unat (align16 sz) - 12, True)]
             else [(m, False)]) @ ys)"
proof -
  define h n where "h = heap_mem s" and "n = align16 sz"
  define cs :: "u32 list" where "cs = map of_nat (block_addrs HEAP_LO bs)"
  have seg: "seg h HEAP_LO bs HEAP_HI 0" and st: "heap_start s = of_nat HEAP_LO" and ne: "bs \<noteq> []"
    using rep by (simp_all add: heap_rep_def h_def)
  have cs0: "0 \<notin> set cs" using block_addr_nonzero(3) [OF seg] by (auto simp: cs_def)
  define r where "r = fold (better h n) cs 0"
  have find: "find_best_fit h n (heap_start s) 0 = Some r"
    using find_best_fit_fold [OF seg, of n 0] ne by (simp add: st r_def cs_def)
  have best: "r = 0 \<or> fits h n r" "r = 0 \<or> r \<in> set cs"
      "\<And>c. c \<in> set cs \<Longrightarrow> fits h n c \<Longrightarrow> r \<noteq> 0 \<and> hb_size (h r) \<le> hb_size (h c)"
    using fold_better [OF cs0, of 0 h n, folded r_def] by auto
  have mem: "of_nat (HEAP_LO + extent xs) \<in> set cs \<and>
      unat (hb_size (h (of_nat (HEAP_LO + extent xs)))) = m \<and>
      hb_free (h (of_nat (HEAP_LO + extent xs))) = f" if "bs = xs @ (m, f) # ys" for xs m f ys
  proof -
    have "m < 2 ^ 32" using seg_member_bounds seg that by fastforce
    moreover have "HEAP_LO + extent xs \<in> set (block_addrs HEAP_LO bs)"
      using that block_addrs_split by blast
    moreover note seg_header [OF seg [unfolded that]]
    ultimately show ?thesis by (simp add: cs_def del: of_nat_add)
  qed
  show thesis
  proof (cases "r = 0")
    case True
    have "m < unat n" if "(m, f) \<in> set bs" "f" for m f
    proof (rule ccontr)
      assume "\<not> m < unat n"
      moreover obtain us vs where "bs = us @ (m, f) # vs" using \<open>(m, f) \<in> set bs\<close> split_list by fast
      note mk = mem [OF this]
      ultimately have "fits h n (of_nat (HEAP_LO + extent us))"
        using mk that(2) by (simp add: fits_def unat_le_iff del: of_nat_add)
      with best(3) mk True show False by blast
    qed
    then have "\<forall>(m, f) \<in> set bs. f \<longrightarrow> m < unat (align16 sz)" by (auto simp: n_def)
    then show thesis using fail sz find True by (simp add: kmalloc_def Let_def n_def h_def)
  next
    case False
    then obtain x where x: "x \<in> set (block_addrs HEAP_LO bs)" "r = of_nat x"
      using best(2) by (auto simp: cs_def)
    then obtain xs m f ys where split: "bs = xs @ (m, f) # ys" and xa: "x = HEAP_LO + extent xs"
      using block_addrs_split by blast
    note mem' = mem [OF split, folded xa x(2)]
    have f: "f" and fit: "unat n \<le> m" using best(1) False mem' by (auto simp: fits_def unat_le_iff)
    have min: "m \<le> k" if "(k, g) \<in> set bs" "g" "unat n \<le> k" for k g
    proof -
      obtain us vs where "bs = us @ (k, g) # vs" using \<open>(k, g) \<in> set bs\<close> split_list by fast
      note mk = mem [OF this]
      then have "fits h n (of_nat (HEAP_LO + extent us))" using that by (simp add: fits_def unat_le_iff)
      then show ?thesis using best(3) mk mem' by (metis unat_le_iff)
    qed
    have ptr: "r + HDR = of_nat (HEAP_LO + extent xs + 12)" by (simp add: x(2) xa)
    have call: "kmalloc sz s = Some (of_nat (HEAP_LO + extent xs + 12),
        s\<lparr>heap_mem := take_block (of_nat (HEAP_LO + extent xs)) (align16 sz) (heap_mem s)\<rparr>)"
      using sz find False x(2) xa ptr by (simp add: kmalloc_def Let_def n_def h_def)
    show thesis
      by (rule ok [OF _ _ _ call refl])
        (use split f fit min seg rep take_block_seg [of h xs m f ys n] in
          \<open>auto simp: n_def h_def heap_rep_def\<close>)
  qed
qed

lemma kfree_rep:
  assumes rep: "heap_rep s (xs @ (n, f) # ys)"
  shows "heap_rep (kfree (of_nat (HEAP_LO + extent xs + 12)) s)
    (case ys of (m, True) # ys' \<Rightarrow> xs @ (n + 12 + m, True) # ys' | _ \<Rightarrow> xs @ (n, True) # ys)"
proof -
  define x where "x = HEAP_LO + extent xs"
  have e: "HEAP_HI = x + 12 + n + extent ys" using heap_rep_bound [OF rep] by (simp add: x_def)
  then have small: "x < 2 ^ 32" "x + 12 < 2 ^ 32" by auto
  have p0: "(of_nat (x + 12) :: u32) \<noteq> 0"
    using small(2) unat_of_nat_small [of "x + 12"]
    by (metis add_is_0 unat_0 zero_neq_numeral)
  have block: "(of_nat (x + 12) :: u32) - HDR = of_nat x" by simp
  define h where "h = (heap_mem s)(of_nat x := (heap_mem s (of_nat x))\<lparr>hb_free := True\<rparr>)"
  have seg: "seg h HEAP_LO (xs @ (n, True) # ys) HEAP_HI 0"
    using seg_set_free [of "heap_mem s" HEAP_LO xs n f ys HEAP_HI 0 x True] rep
    by (simp add: h_def heap_rep_def x_def)
  then have hdr: "hb_size (h (of_nat x)) = of_nat n" "hb_free (h (of_nat x))"
      "hb_next (h (of_nat x)) = (if ys = [] then 0 else of_nat (x + 12 + n))"
    unfolding seg_middle x_def [symmetric] by simp_all
  have free: "heap_rep (kfree (of_nat (x + 12)) s) bs \<longleftrightarrow>
      bs \<noteq> [] \<and> seg (merge_next (of_nat x) h) HEAP_LO bs HEAP_HI 0" for bs
    using p0 block rep by (simp add: kfree_def Let_def heap_rep_def h_def del: of_nat_add)
  show ?thesis
  proof (cases "ys = [] \<or> \<not> snd (hd ys)")
    case True
    then have "merge_next (of_nat x) h = h"
      using seg hdr unfolding seg_middle x_def [symmetric]
      by (cases ys) (auto simp: merge_next_def)
    moreover have "(case ys of (m, True) # ys' \<Rightarrow> xs @ (n + 12 + m, True) # ys' | _ \<Rightarrow> xs @ (n, True) # ys)
        = xs @ (n, True) # ys"
      using True by (auto split: list.splits bool.splits)
    ultimately show ?thesis using seg by (simp add: free del: of_nat_add flip: x_def)
  next
    case False
    then obtain m ys' where ys: "ys = (m, True) # ys'" by (cases ys) auto
    define y where "y = x + 12 + n"
    have "y < 2 ^ 32" "0 < y" using e ys by (auto simp: y_def)
    then have y0: "(of_nat y :: u32) \<noteq> 0" by (metis less_irrefl unat_0 unat_of_nat_small)
    have nxt: "hb_free (h (of_nat y))" "hb_size (h (of_nat y)) = of_nat m"
      using seg ys unfolding seg_middle x_def [symmetric] y_def by simp_all
    have "hb_next (h (of_nat x)) = of_nat y" using hdr(3) ys by (simp add: y_def)
    then have "merge_next (of_nat x) h = h(of_nat x := \<lparr>hb_next = hb_next (h (of_nat y)),
        hb_size = of_nat n + (12 + of_nat m), hb_free = True\<rparr>)"
      using y0 nxt hdr by (simp add: merge_next_def)
    then show ?thesis
      using seg_merge [of h HEAP_LO xs n True m True ys' HEAP_HI 0 x True] seg ys
      by (simp add: free y_def del: of_nat_add flip: x_def)
  qed
qed

section \<open>Allocated regions\<close>

lemma live_of_append: "live_of a (xs @ ys) = live_of (a + extent xs) ys ++ live_of a xs"
  by (induction a xs rule: live_of.induct) (auto simp: add.assoc map_add_def fun_eq_iff)

lemma live_of_bounds:
  "live_of a bs p = Some m \<Longrightarrow> a + extent bs < 2 ^ 32 \<Longrightarrow> a + 12 \<le> unat p \<and> unat p + m \<le> a + extent bs"
proof (induction bs arbitrary: a)
  case Nil
  then show ?case by simp
next
  case (Cons b bs)
  obtain n f where b: "b = (n, f)" by (cases b)
  have unat: "unat (of_nat (a + 12) :: u32) = a + 12" using Cons.prems(2) by (simp add: b del: of_nat_add)
  show ?case
  proof (cases "p = of_nat (a + 12) \<and> \<not> f")
    case True
    then show ?thesis using Cons.prems unat by (simp add: b del: of_nat_add)
  next
    case False
    then have "live_of (a + 12 + n) bs p = Some m"
      using Cons.prems(1) by (auto simp: b simp del: of_nat_add split: if_splits)
    with Cons.IH Cons.prems(2) show ?thesis by (fastforce simp: b)
  qed
qed

lemma live_of_disjoint:
  assumes "live_of a bs p = Some m" and "live_of a bs q = Some k" and "p \<noteq> q"
    and "a + extent bs < 2 ^ 32"
  shows "unat p + m + 12 \<le> unat q \<or> unat q + k + 12 \<le> unat p"
  using assms
proof (induction bs arbitrary: a)
  case Nil
  then show ?case by simp
next
  case (Cons b bs)
  obtain n f where b: "b = (n, f)" by (cases b)
  have unat: "unat (of_nat (a + 12) :: u32) = a + 12" using Cons.prems(4) by (simp add: b del: of_nat_add)
  have later: "a + 12 + n + 12 \<le> unat r" if "live_of (a + 12 + n) bs r = Some l" for r l
    using live_of_bounds [OF that] Cons.prems(4) by (simp add: b)
  have step: "(r = of_nat (a + 12) \<and> l = n) \<or> live_of (a + 12 + n) bs r = Some l"
    if "live_of a (b # bs) r = Some l" for r l
    using that by (auto simp: b simp del: of_nat_add split: if_splits)
  consider "p = of_nat (a + 12)" "m = n" "live_of (a + 12 + n) bs q = Some k"
    | "q = of_nat (a + 12)" "k = n" "live_of (a + 12 + n) bs p = Some m"
    | "live_of (a + 12 + n) bs p = Some m" "live_of (a + 12 + n) bs q = Some k"
    using step [OF Cons.prems(1)] step [OF Cons.prems(2)] Cons.prems(3) by blast
  then show ?case
  proof cases
    case 1
    then show ?thesis using later unat by simp
  next
    case 2
    then show ?thesis using later unat by simp
  next
    case 3
    then show ?thesis using Cons.IH Cons.prems(3,4) by (simp add: b)
  qed
qed

text \<open>Changing one block of the list changes the map of allocated regions at its pointer only.\<close>

lemma live_of_middle:
  assumes "a + extent xs + 12 + n + extent ys < 2 ^ 32"
  defines "p \<equiv> of_nat (a + extent xs + 12)"
  shows "live_of a (xs @ (n, True) # ys) p = None"
    and "live_of a (xs @ (n, False) # ys) = (live_of a (xs @ (n, True) # ys))(p \<mapsto> n)"
    and "live_of a (xs @ (n, True) # ys) = (live_of a (xs @ (n, f) # ys))(p := None)"
proof -
  have unat: "unat p = a + extent xs + 12" unfolding p_def using assms(1) by (simp del: of_nat_add)
  have xs: "live_of a xs p = None"
    using live_of_bounds [of a xs p] unat assms(1) by (cases "live_of a xs p") auto
  have ys: "live_of (a + extent xs + 12 + n) ys p = None"
    using live_of_bounds [of "a + extent xs + 12 + n" ys p] unat assms(1)
    by (cases "live_of (a + extent xs + 12 + n) ys p") auto
  show none: "live_of a (xs @ (n, True) # ys) p = None"
    using xs ys by (simp add: live_of_append map_add_def)
  show eq: "live_of a (xs @ (n, False) # ys) = (live_of a (xs @ (n, True) # ys))(p \<mapsto> n)"
    using xs by (auto simp: live_of_append map_add_def fun_eq_iff p_def simp del: of_nat_add
        split: option.splits)
  show "live_of a (xs @ (n, True) # ys) = (live_of a (xs @ (n, f) # ys))(p := None)"
  proof (cases f)
    case True
    then show ?thesis using none by (simp add: fun_upd_idem)
  next
    case False
    then show ?thesis using none by (simp add: eq fun_upd_idem)
  qed
qed

lemma live_of_free_blocks:
  "live_of a (xs @ (n, True) # (m, True) # ys) = live_of a (xs @ (n + 12 + m, True) # ys)"
  by (simp add: live_of_append add.assoc)

lemma heap_rep_live: "heap_rep s bs \<Longrightarrow> live s = live_of HEAP_LO bs"
  by (simp add: live_def heap_rep_blocks)

lemma heap_rep_wf: "heap_rep s bs \<Longrightarrow> heap_wf s"
  using heap_wf_iff by blast

lemma heap_rep_log [simp]: "heap_rep (log_event e s) bs = heap_rep s bs"
  by (simp add: heap_rep_def log_event_def)

lemma live_log [simp]: "live (log_event e s) = live s" "heap_wf (log_event e s) = heap_wf s"
  by (simp_all add: live_def heap_blocks_def heap_wf_def log_event_def)

lemma heap_blocks_log [simp]: "heap_blocks (log_event e s) = heap_blocks s"
  by (simp add: heap_blocks_def log_event_def)

lemma block_ptr_unat:
  assumes "heap_rep s (xs @ (n, f) # ys)"
  shows "unat (of_nat (HEAP_LO + extent xs + 12) :: u32) = HEAP_LO + extent xs + 12"
    and "(of_nat (HEAP_LO + extent xs + 12) :: u32) \<noteq> 0"
proof -
  show eq: "unat (of_nat (HEAP_LO + extent xs + 12) :: u32) = HEAP_LO + extent xs + 12"
    using heap_rep_bound [OF assms] by (simp del: of_nat_add)
  show "(of_nat (HEAP_LO + extent xs + 12) :: u32) \<noteq> 0"
  proof
    assume "(of_nat (HEAP_LO + extent xs + 12) :: u32) = 0"
    then have "HEAP_LO + extent xs + 12 = 0" using eq by (metis unat_0)
    then show False by simp
  qed
qed

lemma kmalloc_effect:
  assumes "heap_wf s"
  obtains p s' where "kmalloc sz s = Some (p, s')" and "heap_wf s'"
    and "p = 0 \<Longrightarrow> live s' = live s"
    and "p \<noteq> 0 \<Longrightarrow> live s p = None \<and> (\<exists>m. unat (align16 sz) \<le> m \<and> live s' = (live s)(p \<mapsto> m))"
proof (cases "sz = 0")
  case True
  then show thesis using that [of 0 s] assms by (simp add: kmalloc_def)
next
  case False
  note rep = heap_wf_rep [OF assms]
  from rep False show thesis
  proof (cases rule: kmalloc_cases)
    case fail
    then show thesis using that assms by simp
  next
    case (ok xs m ys s')
    define k where "k = unat (align16 sz)"
    have b: "HEAP_LO + extent xs + 12 + m + extent ys < 2 ^ 32"
      using heap_rep_bound [of s xs m True ys] rep ok(1) by simp
    note live = heap_rep_live [OF rep, unfolded ok(1)]
    have none: "live s (of_nat (HEAP_LO + extent xs + 12)) = None"
      unfolding live using live_of_middle(1) [OF b] .
    have "\<exists>m'. k \<le> m' \<and> live s' = (live s)(of_nat (HEAP_LO + extent xs + 12) \<mapsto> m')"
    proof (cases "k + 28 < m")
      case True
      then have m: "m = k + 12 + (m - k - 12)" by simp
      have "live_of HEAP_LO (xs @ (k, False) # (m - k - 12, True) # ys) =
          (live_of HEAP_LO (xs @ (k, True) # (m - k - 12, True) # ys))
            (of_nat (HEAP_LO + extent xs + 12) \<mapsto> k)"
        by (rule live_of_middle(2)) (use b True in simp)
      then have "live s' = (live s)(of_nat (HEAP_LO + extent xs + 12) \<mapsto> k)"
        using True heap_rep_live [OF ok(6)] m
        by (simp add: live live_of_free_blocks k_def del: of_nat_add)
      then show ?thesis by blast
    next
      case False
      then have "live s' = (live s)(of_nat (HEAP_LO + extent xs + 12) \<mapsto> m)"
        using heap_rep_live [OF ok(6)] live_of_middle(2) [OF b]
        by (simp add: live k_def del: of_nat_add)
      then show ?thesis using ok(2) by (auto simp: k_def)
    qed
    then show thesis
      using that [OF ok(4) heap_rep_wf [OF ok(6)]] none block_ptr_unat(2) [of s xs m True ys] rep ok(1)
      by (simp add: k_def del: of_nat_add)
  qed
qed

lemma live_of_split:
  "live_of a bs p = Some m \<Longrightarrow> \<exists>xs ys. bs = xs @ (m, False) # ys \<and> p = of_nat (a + extent xs + 12)"
proof (induction bs arbitrary: a)
  case Nil
  then show ?case by simp
next
  case (Cons b bs)
  obtain n f where b: "b = (n, f)" by (cases b)
  show ?case
  proof (cases "p = of_nat (a + 12) \<and> \<not> f")
    case True
    then have "b # bs = [] @ (m, False) # bs" "p = of_nat (a + extent [] + 12)"
      using Cons.prems by (auto simp: b)
    then show ?thesis by blast
  next
    case False
    then have "live_of (a + 12 + n) bs p = Some m"
      using Cons.prems(1) by (auto simp: b simp del: of_nat_add split: if_splits)
    then obtain xs ys where "bs = xs @ (m, False) # ys" "p = of_nat (a + 12 + n + extent xs + 12)"
      using Cons.IH by blast
    then have "b # bs = (b # xs) @ (m, False) # ys" "p = of_nat (a + extent (b # xs) + 12)"
      by (auto simp: b algebra_simps)
    then show ?thesis by blast
  qed
qed

lemma kfree_effect:
  assumes wf: "heap_wf s" and p: "live s p = Some m"
  shows "heap_wf (kfree p s)" and "live (kfree p s) = (live s)(p := None)"
proof -
  note rep = heap_wf_rep [OF wf]
  obtain xs ys where bs: "heap_blocks s = xs @ (m, False) # ys"
      and ptr: "p = of_nat (HEAP_LO + extent xs + 12)"
    using live_of_split p heap_rep_live [OF rep] by metis
  have free: "heap_rep (kfree p s) (case ys of (k, True) # ys' \<Rightarrow> xs @ (m + 12 + k, True) # ys'
      | _ \<Rightarrow> xs @ (m, True) # ys)"
    unfolding ptr by (rule kfree_rep) (use rep bs in simp)
  then show "heap_wf (kfree p s)" by (rule heap_rep_wf)
  have "live (kfree p s) = live_of HEAP_LO (xs @ (m, True) # ys)"
    unfolding heap_rep_live [OF free]
    by (auto split: list.split bool.split simp: live_of_free_blocks)
  also have "\<dots> = (live s)(p := None)"
    unfolding heap_rep_live [OF rep] bs ptr
    by (rule live_of_middle(3)) (use heap_rep_bound [of s xs m False ys] rep bs in simp)
  finally show "live (kfree p s) = (live s)(p := None)" .
qed

section \<open>Room\<close>

text \<open>
  Whether a request can be met: some free block is large enough. An allocation of at most 64 KB
  takes at most that and two headers from the largest free block, and releasing never takes any.
\<close>

definition heap_room :: "'a kheap_scheme \<Rightarrow> nat \<Rightarrow> bool" where
  "heap_room s n \<longleftrightarrow> (\<exists>m. (m, True) \<in> set (heap_blocks s) \<and> n \<le> m)"

abbreviation ALLOC_COST :: nat where "ALLOC_COST \<equiv> 65568"

lemma heap_room_log [simp]: "heap_room (log_event e s) n = heap_room s n"
  by (simp add: heap_room_def)

lemma align16_small: "unat k \<le> 65536 \<Longrightarrow> unat (align16 k) \<le> 65536"
  by (subst unat_align16) (simp, presburger)

lemma kmalloc_gives:
  assumes wf: "heap_wf s" and k: "k \<noteq> 0" and room: "heap_room s (unat (align16 k))"
    and call: "kmalloc k s = Some (p, s')"
  shows "p \<noteq> 0"
  using heap_wf_rep [OF wf] k
proof (cases rule: kmalloc_cases)
  case fail
  then show ?thesis using room by (fastforce simp: heap_room_def)
next
  case (ok xs m ys t)
  then show ?thesis using call block_ptr_unat(2) [of s xs m True ys] heap_wf_rep [OF wf] by (auto simp del: of_nat_add)
qed

lemma kmalloc_room:
  assumes wf: "heap_wf s" and k: "k \<noteq> 0" "unat k \<le> 65536" and room: "heap_room s n" "ALLOC_COST \<le> n"
    and call: "kmalloc k s = Some (p, s')"
  shows "p \<noteq> 0" and "heap_room s' (n - ALLOC_COST)"
proof -
  have a: "unat (align16 k) \<le> 65536" using align16_small k(2) by blast
  obtain b where b: "(b, True) \<in> set (heap_blocks s)" "n \<le> b" using room(1) by (auto simp: heap_room_def)
  note rep = heap_wf_rep [OF wf]
  from rep k(1) have "p \<noteq> 0 \<and> heap_room s' (n - ALLOC_COST)"
  proof (cases rule: kmalloc_cases)
    case fail
    then have "b < unat (align16 k)" using b(1) by auto
    then show ?thesis using a b(2) room(2) by simp
  next
    case (ok xs m ys t)
    have p: "p \<noteq> 0" "s' = t" using ok(4) call block_ptr_unat(2) [of s xs m True ys] rep ok(1) by (auto simp del: of_nat_add)
    have blocks: "set (heap_blocks s') = set xs \<union> set ys \<union> set (if unat (align16 k) + 28 < m
        then [(unat (align16 k), False), (m - unat (align16 k) - 12, True)] else [(m, False)])"
      using heap_rep_blocks [OF ok(6)] p(2) by auto
    from b(1) ok(1) consider "(b, True) \<in> set xs \<union> set ys" | "b = m" by auto
    then show ?thesis
    proof cases
      case 1
      then show ?thesis using blocks b(2) p(1) by (auto simp: heap_room_def intro!: exI [of _ b])
    next
      case 2
      then have "(m - unat (align16 k) - 12, True) \<in> set (heap_blocks s')" using blocks a b(2) room(2) by simp
      moreover have "n - ALLOC_COST \<le> m - unat (align16 k) - 12" using 2 a b(2) by simp
      ultimately show ?thesis using p(1) unfolding heap_room_def by blast
    qed
  qed
  then show "p \<noteq> 0" and "heap_room s' (n - ALLOC_COST)" by simp_all
qed

lemma kfree_room:
  assumes wf: "heap_wf s" and p: "p = 0 \<or> live s p \<noteq> None" and room: "heap_room s n"
  shows "heap_room (kfree p s) n"
proof (cases "p = 0")
  case True
  then show ?thesis using room by (simp add: kfree_def)
next
  case False
  then obtain m where m: "live s p = Some m" using p by auto
  note rep = heap_wf_rep [OF wf]
  obtain xs ys where bs: "heap_blocks s = xs @ (m, False) # ys"
      and ptr: "p = of_nat (HEAP_LO + extent xs + 12)"
    using live_of_split m heap_rep_live [OF rep] by metis
  have "heap_rep (kfree p s) (case ys of (k, True) # ys' \<Rightarrow> xs @ (m + 12 + k, True) # ys'
      | _ \<Rightarrow> xs @ (m, True) # ys)"
    unfolding ptr by (rule kfree_rep) (use rep bs in simp)
  from heap_rep_blocks [OF this] room bs show ?thesis
    by (auto simp: heap_room_def split: list.splits bool.splits intro: le_trans)
qed

lemma live_region:
  assumes "heap_wf s" and "live s p = Some m"
  shows "HEAP_LO + 12 \<le> unat p" and "unat p + m \<le> HEAP_HI"
proof -
  note rep = heap_wf_rep [OF assms(1)]
  have "HEAP_HI = HEAP_LO + extent (heap_blocks s)"
    using rep seg_extent [of "heap_mem s" HEAP_LO "heap_blocks s" HEAP_HI 0] by (simp add: heap_rep_def)
  then show "HEAP_LO + 12 \<le> unat p" and "unat p + m \<le> HEAP_HI"
    using live_of_bounds [of HEAP_LO "heap_blocks s" p m] assms(2) heap_rep_live [OF rep] by auto
qed

lemma live_disjoint:
  assumes "heap_wf s" and "live s p = Some m" and "live s q = Some k" and "p \<noteq> q"
  shows "unat p + m + 12 \<le> unat q \<or> unat q + k + 12 \<le> unat p"
proof -
  note rep = heap_wf_rep [OF assms(1)]
  have "HEAP_LO + extent (heap_blocks s) = HEAP_HI"
    using rep seg_extent [of "heap_mem s" HEAP_LO "heap_blocks s" HEAP_HI 0] by (simp add: heap_rep_def)
  then show ?thesis
    using live_of_disjoint [of HEAP_LO "heap_blocks s" p m q k] assms(2-) heap_rep_live [OF rep] by auto
qed

section \<open>The interface the clients of the heap rely on\<close>

text \<open>
  What a component that keeps buffers in the heap may assume: allocation returns, a pointer
  it returns is new and its region large enough, releasing a pointer affects that pointer
  only, and the regions of two live pointers never overlap.
\<close>

locale heap_allocator =
  fixes alloc :: "u32 \<Rightarrow> 's \<Rightarrow> (u32 \<times> 's) option"
    and release :: "u32 \<Rightarrow> 's \<Rightarrow> 's"
    and regions :: "'s \<Rightarrow> (u32 \<rightharpoonup> nat)"
    and ok :: "'s \<Rightarrow> bool"
  assumes alloc_returns: "ok s \<Longrightarrow> \<exists>p s'. alloc n s = Some (p, s')"
    and alloc_ok: "ok s \<Longrightarrow> alloc n s = Some (p, s') \<Longrightarrow> ok s'"
    and alloc_null: "ok s \<Longrightarrow> alloc n s = Some (0, s') \<Longrightarrow> regions s' = regions s"
    and alloc_new: "ok s \<Longrightarrow> alloc n s = Some (p, s') \<Longrightarrow> p \<noteq> 0 \<Longrightarrow> unat n \<le> 0xFFFFFFF0 \<Longrightarrow>
      regions s p = None \<and> (\<exists>m. unat n \<le> m \<and> regions s' = (regions s)(p \<mapsto> m))"
    and release_ok: "ok s \<Longrightarrow> regions s p \<noteq> None \<Longrightarrow> ok (release p s)"
    and release_regions: "ok s \<Longrightarrow> regions s p \<noteq> None \<Longrightarrow> regions (release p s) = (regions s)(p := None)"
    and release_null: "release 0 s = s"
    and null_not_live: "ok s \<Longrightarrow> regions s 0 = None"
    and regions_disjoint: "ok s \<Longrightarrow> regions s p = Some m \<Longrightarrow> regions s q = Some k \<Longrightarrow> p \<noteq> q \<Longrightarrow>
      unat p + m \<le> unat q \<or> unat q + k \<le> unat p"
begin

text \<open>
  Replacing a buffer by a larger one, as the file system and the editor do: allocate, copy,
  release the old buffer. Every other buffer stays allocated where it was.
\<close>

lemma replace_buffer:
  assumes "ok s" and "alloc n s = Some (q, s')" and "q \<noteq> 0" and "unat n \<le> 0xFFFFFFF0"
    and "p = 0 \<or> regions s p \<noteq> None"
  obtains m where "unat n \<le> m" and "ok (release p s')"
    and "regions (release p s') = (regions s)(p := None, q \<mapsto> m)" and "q \<noteq> p"
proof -
  obtain m where new: "regions s q = None" "unat n \<le> m" "regions s' = (regions s)(q \<mapsto> m)"
    using alloc_new [OF assms(1-4)] by blast
  have ok': "ok s'" using alloc_ok assms(1,2) by blast
  show thesis
  proof (cases "p = 0")
    case True
    then show thesis
      using that [of m] new ok' release_null null_not_live [OF assms(1)] assms(3)
      by (simp add: fun_upd_idem)
  next
    case False
    then have p: "regions s p \<noteq> None" "q \<noteq> p" using assms(5) new(1) by auto
    then have "regions s' p \<noteq> None" using new(3) by simp
    then show thesis
      using that [of m] new p release_ok [OF ok', of p] release_regions [OF ok', of p]
      by (simp add: fun_upd_twist)
  qed
qed

text \<open>A block that was allocated and released leaves the regions as they were.\<close>

lemma alloc_release:
  assumes "ok s" and "alloc n s = Some (p, s')" and "unat n \<le> 0xFFFFFFF0"
  shows "ok (release p s')" and "regions (release p s') = regions s"
proof -
  have ok': "ok s'" using alloc_ok assms(1,2) by blast
  have "ok (release p s') \<and> regions (release p s') = regions s"
  proof (cases "p = 0")
    case True
    then show ?thesis using ok' alloc_null assms(1,2) release_null by simp
  next
    case False
    then obtain m where "regions s p = None" "regions s' = (regions s)(p \<mapsto> m)"
      using alloc_new [OF assms(1,2) False assms(3)] by blast
    then show ?thesis using ok' release_ok [of s' p] release_regions [of s' p] by (simp add: fun_upd_idem)
  qed
  then show "ok (release p s')" and "regions (release p s') = regions s" by auto
qed

end

lemma align16_ge: "unat n \<le> 0xFFFFFFF0 \<Longrightarrow> unat n \<le> unat (align16 n)"
  unfolding unat_align16 by presburger

interpretation kh: heap_allocator kmalloc kfree live heap_wf
proof unfold_locales
  fix s :: "'a kheap_scheme" and n p s'
  assume wf: "heap_wf s"
  from kmalloc_effect [OF this, of n] show "\<exists>p s'. kmalloc n s = Some (p, s')" by blast
  assume k: "kmalloc n s = Some (p, s')"
  from wf k show "heap_wf s'" by (metis kmalloc_effect option.inject prod.inject)
  assume "p \<noteq> 0" and "unat n \<le> 0xFFFFFFF0"
  with kmalloc_effect [OF wf, of n] k align16_ge [of n]
  show "live s p = None \<and> (\<exists>m. unat n \<le> m \<and> live s' = (live s)(p \<mapsto> m))"
    by (metis (no_types, lifting) option.inject order_trans prod.inject)
next
  fix s :: "'a kheap_scheme" and n s'
  assume "heap_wf s" "kmalloc n s = Some (0, s')"
  then show "live s' = live s" by (metis kmalloc_effect option.inject prod.inject)
next
  fix s :: "'a kheap_scheme" and p
  assume "heap_wf s" "live s p \<noteq> None"
  then show "heap_wf (kfree p s)" "live (kfree p s) = (live s)(p := None)"
    using kfree_effect by auto
next
  fix s :: "'a kheap_scheme"
  show "kfree 0 s = s" by (simp add: kfree_def)
  assume "heap_wf s"
  then show "live s 0 = None" using live_region(1) [of s 0] by (cases "live s 0") auto
next
  fix s :: "'a kheap_scheme" and p m q k
  assume "heap_wf s" "live s p = Some m" "live s q = Some k" "p \<noteq> q"
  then show "unat p + m \<le> unat q \<or> unat q + k \<le> unat p" using live_disjoint by fastforce
qed

section \<open>Properties\<close>

lemma heap_init_rep:
  "heap_rep (heap_init s) [(0x4000000 - 12, True)]"
  by (simp add: heap_init_def heap_rep_def log_event_def Let_def)

definition kheap_example :: kheap where
  "kheap_example = heap_init \<lparr>klog = [], pmm_bitmap = (\<lambda>_. 0), pmm_page_count = 0,
     pmm_free_pages = 0, pmm_search_hint = 0, phys_mem = (\<lambda>_. 0), kernel_page_directory = 0,
     current_page_directory = 0, invlpg_log = [], cr0 = 0, cr3 = 0,
     heap_mem = (\<lambda>_. \<lparr>hb_next = 0, hb_size = 0, hb_free = False\<rparr>), heap_start = 0, heap_end = 0\<rparr>"

lemma kheap_example_wf: "heap_wf kheap_example"
  unfolding kheap_example_def by (rule heap_rep_wf [OF heap_init_rep])

lemma kheap_example_blocks: "heap_blocks kheap_example = [(0x4000000 - 12, True)]"
  unfolding kheap_example_def by (rule heap_rep_blocks [OF heap_init_rep])

text \<open>
  C2. For a size other than 0, \<open>kmalloc\<close> refines best-fit allocation on the list of blocks. On a
  well-formed heap the search always ends. A null pointer is returned exactly when no free block has
  the size rounded up to 16 (in 32 bits, where a size above \<open>0xFFFFFFF0\<close> wraps), and then no block changes. Otherwise the pointer returned is the payload of a free block of
  minimal sufficient size, which becomes allocated: whole, or, when more than 28 bytes would
  be left over, cut to the requested size rounded up to 16 with the rest as a free block.
\<close>

theorem kmalloc_best_fit:
  assumes "heap_wf s" and "sz \<noteq> 0"
  defines "k \<equiv> unat (align16 sz)"
  shows "\<exists>p s'. kmalloc sz s = Some (p, s') \<and> heap_wf s' \<and>
    (if p = 0 then (\<forall>(m, f) \<in> set (heap_blocks s). f \<longrightarrow> m < k) \<and> heap_blocks s' = heap_blocks s
     else \<exists>xs m ys. heap_blocks s = xs @ (m, True) # ys \<and> k \<le> m \<and>
       (\<forall>(n, f) \<in> set (heap_blocks s). f \<and> k \<le> n \<longrightarrow> m \<le> n) \<and>
       p = of_nat (HEAP_LO + extent xs + 12) \<and>
       heap_blocks s' = xs @ (if k + 28 < m then [(k, False), (m - k - 12, True)]
                              else [(m, False)]) @ ys)"
  using heap_wf_rep [OF assms(1)] assms(2)
proof (cases rule: kmalloc_cases)
  case fail
  then show ?thesis using assms(1) by (simp add: k_def)
next
  case (ok xs m ys s')
  have "(of_nat (HEAP_LO + extent xs + 12) :: u32) \<noteq> 0"
    by (rule block_ptr_unat(2) [of s xs m True ys]) (use heap_wf_rep [OF assms(1)] ok(1) in simp)
  then show ?thesis
    using ok heap_rep_wf [OF ok(6)] heap_rep_blocks [OF ok(6)] unfolding k_def by (metis (no_types, lifting))
qed

lemma kheap_example_kmalloc:
  "\<exists>s'. kmalloc 100 kheap_example = Some (0xE000000C, s') \<and>
     heap_blocks s' = [(112, False), (0x4000000 - 136, True)] \<and> heap_wf s'"
proof -
  have k: "unat (align16 100) = 112" by (simp add: align16_def)
  have "(100 :: u32) \<noteq> 0" by simp
  with heap_wf_rep [OF kheap_example_wf] show ?thesis
  proof (cases rule: kmalloc_cases)
    case fail
    then show ?thesis by (simp add: kheap_example_blocks k)
  next
    case (ok xs m ys s')
    then have "xs = []" "ys = []" "m = 0x4000000 - 12"
      unfolding kheap_example_blocks by (auto simp: append_eq_Cons_conv Cons_eq_append_conv)
    with ok k heap_rep_blocks [OF ok(6)] heap_rep_wf [OF ok(6)] show ?thesis by simp
  qed
qed

theorem kmalloc_best_fit_witness:
  "\<exists>p s'. kmalloc 100 kheap_example = Some (p, s') \<and> heap_wf s' \<and> p \<noteq> 0"
proof -
  obtain s' where "kmalloc 100 kheap_example = Some (0xE000000C, s')"
    using kheap_example_kmalloc by blast
  then show ?thesis using kmalloc_best_fit [OF kheap_example_wf, of 100] by auto
qed

text \<open>
  C16. \<open>kfree\<close> of an allocated block refines freeing on the list of blocks: the block becomes
  free and absorbs the next one, header included, when that is free; no other block changes,
  and exactly that pointer stops being allocated.
\<close>

theorem kfree_merges_next:
  assumes "heap_wf s" and "heap_blocks s = xs @ (n, False) # ys"
  defines "p \<equiv> of_nat (HEAP_LO + extent xs + 12)"
  shows "heap_wf (kfree p s) \<and>
    heap_blocks (kfree p s) = (case ys of (m, True) # ys' \<Rightarrow> xs @ (n + 12 + m, True) # ys'
                                 | _ \<Rightarrow> xs @ (n, True) # ys) \<and>
    live s p = Some n \<and> live (kfree p s) = (live s)(p := None)"
proof -
  have rep: "heap_rep s (xs @ (n, False) # ys)" using heap_wf_rep [OF assms(1)] assms(2) by simp
  have b: "HEAP_LO + extent xs + 12 + n + extent ys < 2 ^ 32" using heap_rep_bound [OF rep] by simp
  have live: "live s p = Some n"
    unfolding heap_rep_live [OF rep] p_def live_of_middle(2) [OF b] by simp
  show ?thesis
    using kfree_effect [OF assms(1) live] heap_rep_blocks [OF kfree_rep [OF rep]] live
    by (simp add: p_def)
qed

definition kheap_used :: kheap where
  "kheap_used = (case kmalloc 100 kheap_example of None \<Rightarrow> kheap_example | Some (p, s) \<Rightarrow> s)"

lemma kheap_used: "heap_wf kheap_used" "heap_blocks kheap_used = [(112, False), (0x4000000 - 136, True)]"
  using kheap_example_kmalloc by (auto simp: kheap_used_def)

theorem kfree_merges_next_witness:
  "heap_blocks (kfree 0xE000000C kheap_used) = [(0x4000000 - 12, True)] \<and>
   live (kfree 0xE000000C kheap_used) 0xE000000C = None"
  using kfree_merges_next [of kheap_used "[]" 112 "[(0x4000000 - 136, True)]"] kheap_used by simp

text \<open>
  The heap in use, from its initialisation on, with the requests that are outstanding: the pointers
  \<open>kmalloc\<close> has returned and \<open>kfree\<close> has not been given back, with the size asked for. Sizes
  above \<open>0xFFFFFFF0\<close>, which wrap when they are rounded up, are left out.
\<close>

inductive heap_run :: "'a kheap_scheme \<Rightarrow> (u32 \<rightharpoonup> u32) \<Rightarrow> bool" where
  init: "heap_run (heap_init s) Map.empty"
| alloc: "heap_run s A \<Longrightarrow> kmalloc n s = Some (p, s') \<Longrightarrow> unat n \<le> 0xFFFFFFF0 \<Longrightarrow> p \<noteq> 0 \<Longrightarrow> heap_run s' (A(p \<mapsto> n))"
| refused: "heap_run s A \<Longrightarrow> kmalloc n s = Some (0, s') \<Longrightarrow> unat n \<le> 0xFFFFFFF0 \<Longrightarrow> heap_run s' A"
| free: "heap_run s A \<Longrightarrow> A p \<noteq> None \<Longrightarrow> heap_run (kfree p s) (A(p := None))"
| free_null: "heap_run s A \<Longrightarrow> heap_run (kfree 0 s) A"

lemma heap_run_live:
  "heap_run s A \<Longrightarrow> heap_wf s \<and> (\<forall>p n. A p = Some n \<longrightarrow> (\<exists>m. live s p = Some m \<and> unat n \<le> m))"
proof (induction rule: heap_run.induct)
  case (init s)
  show ?case using heap_rep_wf [OF heap_init_rep] by simp
next
  case (alloc s A n p s')
  then have wf: "heap_wf s" by blast
  obtain m where "unat n \<le> m" "live s' = (live s)(p \<mapsto> m)" using kh.alloc_new [OF wf alloc(2,4,3)] by blast
  then show ?case using alloc kh.alloc_ok [OF wf alloc(2)] by auto
next
  case (refused s A n s')
  then show ?case using kh.alloc_ok kh.alloc_null by metis
next
  case (free s A p)
  then have "heap_wf s" "live s p \<noteq> None" by auto
  then show ?case using free kh.release_ok kh.release_regions by fastforce
qed (simp add: kh.release_null)

text \<open>
  C17. Memory safety of the heap: after \<open>heap_init\<close> and any sequence of calls of \<open>kmalloc\<close> and of
  \<open>kfree\<close> on outstanding pointers, every outstanding request has its bytes inside the heap, and two
  outstanding requests never overlap: at least the 12 bytes of a header lie between them. A further
  call of \<open>kmalloc\<close> returns, and never a pointer that is outstanding.
\<close>

theorem heap_requests_separated:
  assumes run: "heap_run s A" and p: "A p = Some n"
  shows "HEAP_LO + 12 \<le> unat p \<and> unat p + unat n \<le> HEAP_HI \<and>
    (\<forall>q k. A q = Some k \<and> q \<noteq> p \<longrightarrow> unat p + unat n + 12 \<le> unat q \<or> unat q + unat k + 12 \<le> unat p) \<and>
    (\<forall>k. unat k \<le> 0xFFFFFFF0 \<longrightarrow> (\<exists>q s'. kmalloc k s = Some (q, s') \<and> q \<noteq> p))"
proof -
  note inv = heap_run_live [OF run]
  then have wf: "heap_wf s" by blast
  obtain m where m: "live s p = Some m" "unat n \<le> m" using inv p by blast
  have in_heap: "HEAP_LO + 12 \<le> unat p" "unat p + unat n \<le> HEAP_HI" using live_region [OF wf m(1)] m(2) by auto
  have "unat p + unat n + 12 \<le> unat q \<or> unat q + unat k + 12 \<le> unat p" if q: "A q = Some k" "q \<noteq> p" for q k
  proof -
    obtain l where "live s q = Some l" "unat k \<le> l" using inv q(1) by blast
    then show ?thesis using live_disjoint [OF wf m(1), of q l] q(2) m(2) by fastforce
  qed
  moreover have "\<exists>q s'. kmalloc k s = Some (q, s') \<and> q \<noteq> p" if k: "unat k \<le> 0xFFFFFFF0" for k
  proof -
    obtain q s' where q: "kmalloc k s = Some (q, s')" using kh.alloc_returns [OF wf] by blast
    have "q \<noteq> p" using kh.alloc_new [OF wf q _ k] kh.null_not_live [OF wf] m(1) by (cases "q = 0") auto
    with q show ?thesis by blast
  qed
  ultimately show ?thesis using in_heap by blast
qed

theorem heap_requests_separated_witness:
  "\<exists>s q s'. kmalloc 100 kheap_example = Some (0xE000000C, s) \<and> kmalloc 40 s = Some (q, s') \<and>
     unat (0xE000000C :: u32) + 100 + 12 \<le> unat q \<and> unat q + 40 \<le> HEAP_HI"
proof -
  obtain s where s: "kmalloc 100 kheap_example = Some (0xE000000C, s)"
      "heap_blocks s = [(112, False), (0x4000000 - 136, True)]" "heap_wf s"
    using kheap_example_kmalloc by blast
  obtain q s' where q: "kmalloc 40 s = Some (q, s')" using kh.alloc_returns [OF s(3)] by blast
  have "heap_room s (unat (align16 40))" by (auto simp: heap_room_def s(2) align16_def)
  then have "q \<noteq> 0" using kmalloc_gives [OF s(3) _ _ q] by simp
  moreover have run: "heap_run s [0xE000000C \<mapsto> 100]"
    by (rule heap_run.alloc [of kheap_example Map.empty]) (simp_all add: s(1) heap_run.init kheap_example_def [symmetric],
      simp add: kheap_example_def heap_run.init)
  ultimately have run': "heap_run s' [0xE000000C \<mapsto> 100, q \<mapsto> 40]" using heap_run.alloc [OF run q] by simp
  have "unat (40 :: u32) \<le> 0xFFFFFFF0 \<longrightarrow> (\<exists>q s'. kmalloc 40 s = Some (q, s') \<and> q \<noteq> 0xE000000C)"
    using heap_requests_separated [OF run, of "0xE000000C" 100] by simp
  then have ne: "q \<noteq> 0xE000000C" using q by simp
  let ?A = "[0xE000000C \<mapsto> 100, q \<mapsto> 40] :: u32 \<rightharpoonup> u32"
  have "?A q = Some 40" "?A 0xE000000C = Some 100" using ne by simp_all
  then have "unat q + unat (40 :: u32) + 12 \<le> unat (0xE000000C :: u32) \<or>
      unat (0xE000000C :: u32) + unat (100 :: u32) + 12 \<le> unat q"
      and "HEAP_LO + 12 \<le> unat q" "unat q + unat (40 :: u32) \<le> HEAP_HI"
    using heap_requests_separated [OF run', of q 40] ne by blast+
  then show ?thesis using s(1) q by (intro exI [of _ s] exI [of _ q] exI [of _ s']) simp
qed

fun no_adjacent_free :: "blk list \<Rightarrow> bool" where
  "no_adjacent_free ((m, f) # (n, g) # bs) \<longleftrightarrow> \<not> (f \<and> g) \<and> no_adjacent_free ((n, g) # bs)"
| "no_adjacent_free bs \<longleftrightarrow> True"

lemma no_adjacent_free_tl: "no_adjacent_free (b # bs) \<Longrightarrow> no_adjacent_free bs"
  by (cases "b # bs" rule: no_adjacent_free.cases) auto

lemma no_adjacent_free_next:
  "no_adjacent_free (xs @ (m, True) # ys) \<Longrightarrow> ys = [] \<or> \<not> snd (hd ys)"
proof (induction xs)
  case Nil
  then show ?case by (cases ys) auto
next
  case (Cons x xs)
  then show ?case using no_adjacent_free_tl by simp
qed

text \<open>
  C18. Allocating and releasing at once: when no two neighbouring blocks are free, \<open>kfree\<close> of
  the pointer \<open>kmalloc\<close> has just returned restores the list of blocks, and so undoes a split.
\<close>

theorem kmalloc_kfree_roundtrip:
  assumes "heap_wf s" and "no_adjacent_free (heap_blocks s)" and "kmalloc sz s = Some (p, s')"
  shows "heap_wf (kfree p s') \<and> heap_blocks (kfree p s') = heap_blocks s"
proof (cases "sz = 0")
  case True
  then show ?thesis using assms by (auto simp: kmalloc_def kfree_def)
next
  case False
  from heap_wf_rep [OF assms(1)] False show ?thesis
  proof (cases rule: kmalloc_cases)
    case fail
    then show ?thesis using assms by (auto simp: kfree_def)
  next
    case (ok xs m ys s'')
    then have p: "p = of_nat (HEAP_LO + extent xs + 12)" "s'' = s'" using assms(3) by auto
    have ys: "ys = [] \<or> \<not> snd (hd ys)" using no_adjacent_free_next assms(2) ok(1) by metis
    define k where "k = unat (align16 sz)"
    have "heap_rep (kfree p s') (xs @ (m, True) # ys)"
    proof (cases "k + 28 < m")
      case True
      then show ?thesis using kfree_rep [of s' xs k False "(m - k - 12, True) # ys"] ok(6) p by (simp add: k_def)
    next
      case False
      then have "heap_rep s' (xs @ (m, False) # ys)" using ok(6) p by (simp add: k_def)
      from kfree_rep [OF this] ys show ?thesis unfolding p(1) by (cases ys) (auto split: bool.splits)
    qed
    then show ?thesis using heap_rep_wf heap_rep_blocks ok(1) by metis
  qed
qed

theorem kmalloc_kfree_roundtrip_witness:
  "heap_blocks (kfree 0xE000000C kheap_used) = heap_blocks kheap_example"
proof -
  obtain s' where "kmalloc 100 kheap_example = Some (0xE000000C, s')" using kheap_example_kmalloc by blast
  then have "kmalloc 100 kheap_example = Some (0xE000000C, kheap_used)" by (simp add: kheap_used_def)
  from kmalloc_kfree_roundtrip [OF kheap_example_wf _ this] show ?thesis by (simp add: kheap_example_blocks)
qed

lemma align16_wraps:
  assumes "0xFFFFFFF0 < unat sz" shows "align16 sz = 0"
proof -
  have "unat (sz + 15) = unat sz + 15 - 2 ^ 32"
    using assms unat_u32_bound [of sz] by (simp add: unat_word_ariths mod_if)
  then have small: "unat (sz + 15) < 16" using unat_u32_bound [of sz] by simp
  have "(15 :: u32) = mask 4" by (simp add: mask_eq_exp_minus_1)
  then have "unat (align16 sz) = unat (sz + 15) div 2 ^ 4 * 2 ^ 4"
    by (simp only: align16_def unat_and_not_mask)
  with small have "unat (align16 sz) = 0" by simp
  then show ?thesis by (simp add: unat_eq_0)
qed

text \<open>
  The size computation wraps: for every request above \<open>0xFFFFFFF0\<close> bytes, more than the
  whole heap, \<open>kmalloc\<close> does not fail but returns the payload of the smallest free block, which
  is smaller than what was asked for.
\<close>

theorem kmalloc_size_wraps:
  assumes "heap_wf s" and "0xFFFFFFF0 < unat sz" and "(m, True) \<in> set (heap_blocks s)"
  shows "\<exists>p s' k. kmalloc sz s = Some (p, s') \<and> p \<noteq> 0 \<and> live s' p = Some k \<and> k < unat sz"
proof -
  obtain p s' where *: "kmalloc sz s = Some (p, s')" "heap_wf s'" "p = 0 \<longrightarrow> live s' = live s"
      "p \<noteq> 0 \<longrightarrow> live s p = None \<and> (\<exists>m. unat (align16 sz) \<le> m \<and> live s' = (live s)(p \<mapsto> m))"
    using kmalloc_effect [OF assms(1), of sz] by metis
  have "sz \<noteq> 0" using assms(2) by auto
  with heap_wf_rep [OF assms(1)] have "p \<noteq> 0"
  proof (cases rule: kmalloc_cases)
    case fail
    then show ?thesis using assms(3) align16_wraps [OF assms(2)] by fastforce
  next
    case (ok xs m ys s'')
    then show ?thesis
      using *(1) block_ptr_unat(2) [of s xs m True ys] heap_wf_rep [OF assms(1)] by (simp del: of_nat_add)
  qed
  with * obtain k where k: "live s' p = Some k" by auto
  then have "k < unat sz" using live_region [OF *(2) k] assms(2) by simp
  with k * \<open>p \<noteq> 0\<close> show ?thesis by blast
qed

theorem kmalloc_size_wraps_witness:
  "\<exists>p s'. kmalloc 0xFFFFFFFF kheap_example = Some (p, s') \<and> p \<noteq> 0"
  using kmalloc_size_wraps [OF kheap_example_wf, of "0xFFFFFFFF" "0x4000000 - 12"] kheap_example_blocks
  by auto

text \<open>
  \<open>heap_init\<close> leaves one free block that fills the heap region, with nothing allocated,
  whatever the memory held before.
\<close>

theorem heap_init_correct:
  "heap_wf (heap_init s) \<and> heap_blocks (heap_init s) = [(unat HEAP_SIZE - 12, True)] \<and>
   live (heap_init s) = Map.empty"
  using heap_init_rep [of s] heap_rep_wf heap_rep_blocks heap_rep_live [OF heap_init_rep [of s]]
  by (auto simp: live_def)

end
