(* ===== verification/Process.thy ===== *)
theory Process
  imports Kheap
begin

text \<open>
  Processes: the process table, the ready queue, the scheduler and the wait queues of
  \<open>process.c\<close>, and the stack switch of \<open>context_switch.asm\<close>.
\<close>

section \<open>Data\<close>

abbreviation PROCESS_STATE_READY :: u32 where "PROCESS_STATE_READY \<equiv> 0"
abbreviation PROCESS_STATE_RUNNING :: u32 where "PROCESS_STATE_RUNNING \<equiv> 1"
abbreviation PROCESS_STATE_BLOCKED :: u32 where "PROCESS_STATE_BLOCKED \<equiv> 2"
abbreviation PROCESS_STATE_ZOMBIE :: u32 where "PROCESS_STATE_ZOMBIE \<equiv> 3"
abbreviation MAX_PROCESSES :: nat where "MAX_PROCESSES \<equiv> 64"
abbreviation PROCESS_STACK_SIZE :: u32 where "PROCESS_STACK_SIZE \<equiv> 4096"

text \<open>
  A \<open>pcb_t*\<close> is null or points into the table \<open>pcbs\<close>: an optional index.
\<close>

record pcb_t =
  pid :: u32
  pstate :: u32
  esp :: u32
  ebp :: u32
  eip :: u32
  cr3 :: u32
  kernel_stack :: u32
  priority :: u32
  ticks_remaining :: u32
  pnext :: "nat option"

text \<open>The registers that \<open>context_switch\<close> saves and restores.\<close>

record cpu_t =
  r_esp :: u32
  r_ebp :: u32
  r_ebx :: u32
  r_esi :: u32
  r_edi :: u32
  r_eip :: u32

text \<open>
  \<open>stack\<close> is the memory of the process stacks, one 32-bit word per aligned address; \<open>cpu\<close> holds
  the registers of the running process. Compiled code changes both between two calls, so
  \<open>cpu\<close> is what the registers are when \<open>context_switch\<close> is entered.
\<close>

record procs = kheap +
  pcbs :: "nat \<Rightarrow> pcb_t"
  ready_queue :: "nat option"
  current_process :: "nat option"
  next_pid :: u32
  process_count :: u32
  stack :: "u32 \<Rightarrow> u32"
  cpu :: cpu_t

record wait_queue_t =
  head :: "nat option"
  tail :: "nat option"

text \<open>
  The ways a call has no result: an access through a null pointer, an access beyond the table,
  and a loop that does not end.
\<close>

datatype fault = Null_pointer | Out_of_bounds | No_return

definition returns :: "'a option \<Rightarrow> fault + 'a" where
  "returns x = (case x of None \<Rightarrow> Inl No_return | Some r \<Rightarrow> Inr r)"

fun bind_fault :: "fault + 'a \<Rightarrow> ('a \<Rightarrow> fault + 'b) \<Rightarrow> fault + 'b" where
  "bind_fault (Inl e) f = Inl e"
| "bind_fault (Inr x) f = f x"

definition pcb_upd :: "nat \<Rightarrow> (pcb_t \<Rightarrow> pcb_t) \<Rightarrow> 'a procs_scheme \<Rightarrow> 'a procs_scheme" where
  "pcb_upd i f s = s\<lparr>pcbs := (pcbs s)(i := f (pcbs s i))\<rparr>"

section \<open>Stacks and the context switch\<close>

definition store_word :: "u32 \<Rightarrow> u32 \<Rightarrow> 'a procs_scheme \<Rightarrow> 'a procs_scheme" where
  "store_word a v s = s\<lparr>stack := (stack s)(a := v)\<rparr>"

definition push_reg :: "u32 \<Rightarrow> 'a procs_scheme \<Rightarrow> 'a procs_scheme" where
  "push_reg v s =
     (let a = r_esp (cpu s) - 4 in (store_word a v s)\<lparr>cpu := (cpu s)\<lparr>r_esp := a\<rparr>\<rparr>)"

definition pop_reg :: "(u32 \<Rightarrow> cpu_t \<Rightarrow> cpu_t) \<Rightarrow> 'a procs_scheme \<Rightarrow> 'a procs_scheme" where
  "pop_reg put s =
     (let a = r_esp (cpu s) in s\<lparr>cpu := (put (stack s a) (cpu s))\<lparr>r_esp := a + 4\<rparr>\<rparr>)"

text \<open>
  \<open>context_switch(&prev->esp, next_esp)\<close> from its first instruction, with the return address on
  top of the stack, to the state after its \<open>ret\<close>.
\<close>

definition context_switch :: "nat \<Rightarrow> u32 \<Rightarrow> 'a procs_scheme \<Rightarrow> 'a procs_scheme" where
  "context_switch prev next_esp s =
     (let s = push_reg (r_ebp (cpu s)) s;
          s = push_reg (r_ebx (cpu s)) s;
          s = push_reg (r_esi (cpu s)) s;
          s = push_reg (r_edi (cpu s)) s;
          s = pcb_upd prev (\<lambda>p. p\<lparr>esp := r_esp (cpu s)\<rparr>) s;
          s = s\<lparr>cpu := (cpu s)\<lparr>r_esp := next_esp\<rparr>\<rparr>;
          s = pop_reg (\<lambda>v c. c\<lparr>r_edi := v\<rparr>) s;
          s = pop_reg (\<lambda>v c. c\<lparr>r_esi := v\<rparr>) s;
          s = pop_reg (\<lambda>v c. c\<lparr>r_ebx := v\<rparr>) s;
          s = pop_reg (\<lambda>v c. c\<lparr>r_ebp := v\<rparr>) s
      in pop_reg (\<lambda>v c. c\<lparr>r_eip := v\<rparr>) s)"

definition asm_get_esp :: "'a procs_scheme \<Rightarrow> u32" where
  "asm_get_esp s = r_esp (cpu s)"

section \<open>Process control blocks\<close>

definition pcb_init :: "nat \<Rightarrow> u32 \<Rightarrow> u32 \<Rightarrow> u32 \<Rightarrow> 'a procs_scheme \<Rightarrow> fault + 'a procs_scheme" where
  "pcb_init i p entry prio s =
     (let s = pcb_upd i (\<lambda>b. b\<lparr>pid := p, pstate := PROCESS_STATE_READY, esp := 0, ebp := 0, eip := entry,
                              cr3 := 0, priority := prio, ticks_remaining := prio, pnext := None\<rparr>) s
      in bind_fault (returns (kmalloc PROCESS_STACK_SIZE s)) (\<lambda>(ks, s).
         let s = pcb_upd i (\<lambda>b. b\<lparr>kernel_stack := ks\<rparr>) s in
         if ks = 0
         then Inr (log_event (Printk ''process: Failed to allocate kernel stack for PID %d\<newline>'' [KDec (sint p)]) s)
         else let top = ks + PROCESS_STACK_SIZE;
                  s = store_word (top - 4) entry s;
                  s = store_word (top - 8) 0 s;
                  s = store_word (top - 12) 0 s;
                  s = store_word (top - 16) 0 s;
                  s = store_word (top - 20) 0 s
              in Inr (pcb_upd i (\<lambda>b. b\<lparr>esp := top - 20, ebp := top - 20\<rparr>) s)))"

definition find_free_pcb :: "'a procs_scheme \<Rightarrow> nat option" where
  "find_free_pcb s = scan 0 MAX_PROCESSES
     (\<lambda>i. pstate (pcbs s i) = PROCESS_STATE_ZOMBIE \<or> pstate (pcbs s i) = 0)"

section \<open>The ready queue\<close>

definition add_to_ready_queue :: "nat \<Rightarrow> 'a procs_scheme \<Rightarrow> 'a procs_scheme" where
  "add_to_ready_queue p s =
     (let s = pcb_upd p (\<lambda>b. b\<lparr>pstate := PROCESS_STATE_READY\<rparr>) s in
      case ready_queue s of
        None \<Rightarrow> let s = s\<lparr>ready_queue := Some p\<rparr> in pcb_upd p (\<lambda>b. b\<lparr>pnext := Some p\<rparr>) s
      | Some h \<Rightarrow> let s = pcb_upd p (\<lambda>b. b\<lparr>pnext := pnext (pcbs s h)\<rparr>) s
                  in pcb_upd h (\<lambda>b. b\<lparr>pnext := Some p\<rparr>) s)"

text \<open>
  The loop of \<open>remove_from_ready_queue\<close>: it starts at the head \<open>h\<close>, and gives the last value of
  \<open>current\<close>.
\<close>

partial_function (option) unlink_loop ::
  "nat \<Rightarrow> nat \<Rightarrow> nat \<Rightarrow> 'a procs_scheme \<Rightarrow> (fault + nat \<times> 'a procs_scheme) option" where
  "unlink_loop p h c s =
     (if pnext (pcbs s c) = Some h then Some (Inr (c, s))
      else if pnext (pcbs s c) = Some p
      then Some (Inr (c, pcb_upd c (\<lambda>b. b\<lparr>pnext := pnext (pcbs s p)\<rparr>) s))
      else case pnext (pcbs s c) of
        None \<Rightarrow> Some (Inl Null_pointer)
      | Some d \<Rightarrow> unlink_loop p h d s)"

declare unlink_loop.simps [code]

definition remove_from_ready_queue :: "nat \<Rightarrow> 'a procs_scheme \<Rightarrow> fault + 'a procs_scheme" where
  "remove_from_ready_queue p s =
     (case ready_queue s of
        None \<Rightarrow> Inr s
      | Some h \<Rightarrow>
          if pnext (pcbs s h) = Some h
          then Inr (pcb_upd p (\<lambda>b. b\<lparr>pnext := None\<rparr>) (s\<lparr>ready_queue := None\<rparr>))
          else bind_fault (bind_fault (returns (unlink_loop p h h s)) (\<lambda>r. r)) (\<lambda>(c, s).
            let s = (if ready_queue s = Some p then s\<lparr>ready_queue := Some c\<rparr> else s)
            in Inr (pcb_upd p (\<lambda>b. b\<lparr>pnext := None\<rparr>) s)))"

section \<open>The scheduler\<close>

definition scheduler_init :: "'a procs_scheme \<Rightarrow> 'a procs_scheme" where
  "scheduler_init s = log_event (Printk ''Scheduler: Round-robin initialized\<newline>'' []) s"

definition scheduler_add_process :: "nat option \<Rightarrow> 'a procs_scheme \<Rightarrow> 'a procs_scheme" where
  "scheduler_add_process p s =
     (case p of None \<Rightarrow> s
      | Some i \<Rightarrow> let s = add_to_ready_queue i s in
          log_event (Printk ''scheduler: Added PID %d to ready queue\<newline>'' [KDec (sint (pid (pcbs s i)))]) s)"

definition scheduler_remove_process :: "u32 \<Rightarrow> 'a procs_scheme \<Rightarrow> fault + 'a procs_scheme" where
  "scheduler_remove_process p s =
     (if MAX_PROCESSES \<le> unat p then Inr s
      else if pstate (pcbs s (unat p)) \<noteq> PROCESS_STATE_READY then Inr s
      else bind_fault (remove_from_ready_queue (unat p) s) (\<lambda>s.
        Inr (log_event (Printk ''scheduler: Removed PID %d from ready queue\<newline>'' [KDec (sint p)]) s)))"

text \<open>
  \<open>scheduler_schedule\<close> up to its return or, when the process changes, up to the first
  instruction of the other process after the switch.
\<close>

definition pick_next :: "nat \<Rightarrow> 'a procs_scheme \<Rightarrow> 'a procs_scheme option" where
  "pick_next prev s =
     (case ready_queue s of
        None \<Rightarrow> if pid (pcbs s prev) = 0 then None else Some (s\<lparr>current_process := Some 0\<rparr>)
      | Some h \<Rightarrow>
          let s = s\<lparr>current_process := Some h\<rparr>;
              s = s\<lparr>ready_queue := pnext (pcbs s h)\<rparr>
          in Some (if ready_queue s = current_process s then s\<lparr>ready_queue := None\<rparr> else s))"

definition scheduler_schedule :: "'a procs_scheme \<Rightarrow> 'a procs_scheme" where
  "scheduler_schedule s =
     (case current_process s of
        None \<Rightarrow> s
      | Some prev \<Rightarrow>
          if process_count s = 0 then s
          else case pick_next prev s of
            None \<Rightarrow> s
          | Some s \<Rightarrow>
              let s = (if pstate (pcbs s prev) = PROCESS_STATE_RUNNING
                       then add_to_ready_queue prev (pcb_upd prev (\<lambda>b. b\<lparr>pstate := PROCESS_STATE_READY\<rparr>) s)
                       else s);
                  cur = the (current_process s);
                  s = pcb_upd cur (\<lambda>b. b\<lparr>pstate := PROCESS_STATE_RUNNING, ticks_remaining := priority b\<rparr>) s
              in if prev \<noteq> cur then context_switch prev (esp (pcbs s cur)) s else s)"

section \<open>Operations on processes\<close>

definition process_init :: "'a procs_scheme \<Rightarrow> fault + 'a procs_scheme" where
  "process_init s =
     (let s = log_event (Printk ''Initializing process management...\<newline>'' []) s;
          s = for_loop 0 MAX_PROCESSES
                (\<lambda>i. pcb_upd i (\<lambda>b. b\<lparr>pstate := PROCESS_STATE_ZOMBIE, pid := 0, pnext := None\<rparr>)) s;
          s = s\<lparr>current_process := Some 0\<rparr>;
          s = pcb_upd 0 (\<lambda>b. b\<lparr>pid := 0, pstate := PROCESS_STATE_RUNNING, priority := 0, ticks_remaining := 1\<rparr>) s;
          failed = log_event (Printk ''process: Failed to allocate kernel stack for idle process\<newline>'' []);
          set_stack = (\<lambda>k. pcb_upd 0 (\<lambda>b. b\<lparr>kernel_stack := k\<rparr>));
          finish = (\<lambda>s. log_event (Printk ''Process management initialized. Idle process (PID 0) running.\<newline>'' [])
                          (scheduler_init (s\<lparr>process_count := 1, next_pid := 1\<rparr>)))
      in bind_fault (returns (kmalloc PROCESS_STACK_SIZE s)) (\<lambda>(k, s).
         let s = set_stack k s in
         if k \<noteq> 0 then Inr (finish s)
         else bind_fault (returns (kmalloc 1024 (failed s))) (\<lambda>(k, s).
           let s = set_stack k s in
           if k \<noteq> 0 then Inr (finish s)
           else bind_fault (returns (kmalloc 256 s)) (\<lambda>(k, s).
             let s = set_stack k s in
             if k \<noteq> 0 then Inr (finish s) else Inr (failed s)))))"

definition process_create :: "u32 \<Rightarrow> u32 \<Rightarrow> 'a procs_scheme \<Rightarrow> fault + u32 \<times> 'a procs_scheme" where
  "process_create entry prio s =
     (if of_nat MAX_PROCESSES \<le> process_count s
      then Inr (0, log_event (Printk ''process: Maximum process limit reached (%d)\<newline>'' [KDec 64]) s)
      else case find_free_pcb s of
        None \<Rightarrow> Inr (0, log_event (Printk ''process: No free PCB slots available\<newline>'' []) s)
      | Some i \<Rightarrow>
          let p = next_pid s; s = s\<lparr>next_pid := p + 1\<rparr> in
          bind_fault (pcb_init i p entry prio s) (\<lambda>s.
            let s = scheduler_add_process (Some i) s;
                s = s\<lparr>process_count := process_count s + 1\<rparr>
            in Inr (p, log_event (Printk ''process: Created process PID %d (priority %d)\<newline>''
                                   [KDec (sint p), KDec (sint prio)]) s)))"

text \<open>\<open>&pcbs[pid]\<close> is read before any test against the size of the table.\<close>

definition process_terminate :: "u32 \<Rightarrow> 'a procs_scheme \<Rightarrow> fault + 'a procs_scheme" where
  "process_terminate p s =
     (if p = 0 then Inr (log_event (Printk ''process: Cannot terminate idle process (PID 0)\<newline>'' []) s)
      else if next_pid s \<le> p then Inr (log_event (Printk ''process: Invalid PID %d\<newline>'' [KDec (sint p)]) s)
      else if MAX_PROCESSES \<le> unat p then Inl Out_of_bounds
      else let i = unat p in
        if pstate (pcbs s i) = PROCESS_STATE_ZOMBIE
        then Inr (log_event (Printk ''process: PID %d already terminated\<newline>'' [KDec (sint p)]) s)
        else bind_fault (scheduler_remove_process p s) (\<lambda>s.
          let s = (if kernel_stack (pcbs s i) \<noteq> 0
                   then pcb_upd i (\<lambda>b. b\<lparr>kernel_stack := 0\<rparr>) (kfree (kernel_stack (pcbs s i)) s) else s);
              s = pcb_upd i (\<lambda>b. b\<lparr>pstate := PROCESS_STATE_ZOMBIE\<rparr>) s;
              s = s\<lparr>process_count := process_count s - 1\<rparr>
          in Inr (log_event (Printk ''process: Terminated PID %d\<newline>'' [KDec (sint p)]) s)))"

definition process_yield :: "'a procs_scheme \<Rightarrow> fault + 'a procs_scheme" where
  "process_yield s =
     (case current_process s of
        None \<Rightarrow> Inl Null_pointer
      | Some c \<Rightarrow>
          if pid (pcbs s c) = 0 then Inr s
          else let s = pcb_upd c (\<lambda>b. b\<lparr>pstate := PROCESS_STATE_READY\<rparr>) s;
                   s = add_to_ready_queue c s
               in Inr (scheduler_schedule s))"

definition process_get_current_pid :: "'a procs_scheme \<Rightarrow> u32" where
  "process_get_current_pid s = (case current_process s of Some c \<Rightarrow> pid (pcbs s c) | None \<Rightarrow> 0)"

definition process_get_current_pcb :: "'a procs_scheme \<Rightarrow> nat option" where
  "process_get_current_pcb s = current_process s"

section \<open>Wait queues\<close>

definition wait_queue_init :: "wait_queue_t \<Rightarrow> wait_queue_t" where
  "wait_queue_init wq = wq\<lparr>head := None, tail := None\<rparr>"

text \<open>\<open>process_block\<close> up to the switch away from the blocked process.\<close>

definition process_block :: "wait_queue_t \<Rightarrow> 'a procs_scheme \<Rightarrow> wait_queue_t \<times> 'a procs_scheme" where
  "process_block wq s =
     (case current_process s of
        None \<Rightarrow> (wq, s)
      | Some c \<Rightarrow>
          if pid (pcbs s c) = 0 then (wq, s)
          else let s = pcb_upd c (\<lambda>b. b\<lparr>pstate := PROCESS_STATE_BLOCKED\<rparr>) s;
                   s = pcb_upd c (\<lambda>b. b\<lparr>pnext := None\<rparr>) s;
                   (wq, s) = (case tail wq of
                       Some t \<Rightarrow> (wq, pcb_upd t (\<lambda>b. b\<lparr>pnext := Some c\<rparr>) s)
                     | None \<Rightarrow> (wq\<lparr>head := Some c\<rparr>, s));
                   wq = wq\<lparr>tail := Some c\<rparr>
               in (wq, scheduler_schedule s))"

definition process_wake :: "wait_queue_t \<Rightarrow> 'a procs_scheme \<Rightarrow> wait_queue_t \<times> 'a procs_scheme" where
  "process_wake wq s =
     (case head wq of
        None \<Rightarrow> (wq, s)
      | Some w \<Rightarrow>
          let wq = wq\<lparr>head := pnext (pcbs s w)\<rparr>;
              wq = (if head wq = None then wq\<lparr>tail := None\<rparr> else wq);
              s = pcb_upd w (\<lambda>b. b\<lparr>pnext := None\<rparr>) s;
              s = pcb_upd w (\<lambda>b. b\<lparr>pstate := PROCESS_STATE_READY\<rparr>) s
          in (wq, add_to_ready_queue w s))"

partial_function (option) process_wake_all ::
  "wait_queue_t \<Rightarrow> 'a procs_scheme \<Rightarrow> (wait_queue_t \<times> 'a procs_scheme) option" where
  "process_wake_all wq s =
     (if head wq = None then Some (wq, s)
      else case process_wake wq s of (wq, s) \<Rightarrow> process_wake_all wq s)"

declare process_wake_all.simps [code]

end
