(* ===== verification/Process_Props.thy ===== *)
theory Process_Props
  imports Process
begin

text \<open>
  Properties of the processes: linked queues of control blocks, the rotation of the scheduler,
  the round trip of a context switch, creation, termination and wait queues.
\<close>

section \<open>Fields\<close>

lemma pcb_upd_fields [simp]:
  "pcbs (pcb_upd i f s) = (pcbs s)(i := f (pcbs s i))" "ready_queue (pcb_upd i f s) = ready_queue s"
  "current_process (pcb_upd i f s) = current_process s" "process_count (pcb_upd i f s) = process_count s"
  "next_pid (pcb_upd i f s) = next_pid s" "stack (pcb_upd i f s) = stack s" "cpu (pcb_upd i f s) = cpu s"
  "heap_mem (pcb_upd i f s) = heap_mem s" "heap_start (pcb_upd i f s) = heap_start s" "klog (pcb_upd i f s) = klog s"
  by (simp_all add: pcb_upd_def)

lemma log_event_fields [simp]:
  "pcbs (log_event e s) = pcbs s" "ready_queue (log_event e s) = ready_queue s"
  "current_process (log_event e s) = current_process s" "process_count (log_event e s) = process_count s"
  "next_pid (log_event e s) = next_pid s" "stack (log_event e s) = stack s" "cpu (log_event e s) = cpu s"
  by (simp_all add: log_event_def)

lemma store_word_fields [simp]:
  "pcbs (store_word a v s) = pcbs s" "ready_queue (store_word a v s) = ready_queue s"
  "current_process (store_word a v s) = current_process s" "process_count (store_word a v s) = process_count s"
  "next_pid (store_word a v s) = next_pid s" "stack (store_word a v s) = (stack s)(a := v)" "cpu (store_word a v s) = cpu s"
  "heap_mem (store_word a v s) = heap_mem s" "heap_start (store_word a v s) = heap_start s"
  by (simp_all add: store_word_def)

text \<open>The heap functions look at the heap alone, and change nothing of the processes.\<close>

lemma heap_wf_cong:
  assumes "heap_mem s' = heap_mem s" and "heap_start s' = heap_start s"
  shows "heap_wf s' = heap_wf s" and "live s' = live s"
  using assms by (simp_all add: heap_wf_def live_def heap_blocks_def)

lemma kmalloc_frame:
  fixes s :: "'a procs_scheme"
  assumes "kmalloc n s = Some (p, s')"
  shows "pcbs s' = pcbs s" "ready_queue s' = ready_queue s" "current_process s' = current_process s"
    "process_count s' = process_count s" "next_pid s' = next_pid s" "stack s' = stack s" "cpu s' = cpu s"
  using assms by (auto simp: kmalloc_def Let_def log_event_def split: if_splits option.splits bind_splits)

lemma kfree_frame [simp]:
  fixes s :: "'a procs_scheme"
  shows "pcbs (kfree p s) = pcbs s" "ready_queue (kfree p s) = ready_queue s"
    "current_process (kfree p s) = current_process s" "process_count (kfree p s) = process_count s"
    "next_pid (kfree p s) = next_pid s" "stack (kfree p s) = stack s" "cpu (kfree p s) = cpu s"
  by (simp_all add: kfree_def Let_def)

section \<open>The context switch\<close>

text \<open>The frame that \<open>context_switch\<close> leaves at \<open>a\<close>, below the return address.\<close>

definition frame :: "('a procs_scheme) \<Rightarrow> u32 \<Rightarrow> u32 \<Rightarrow> u32 \<Rightarrow> u32 \<Rightarrow> u32 \<Rightarrow> u32 \<Rightarrow> bool" where
  "frame s a rdi rsi rbx rbp ret \<longleftrightarrow> stack s a = rdi \<and> stack s (a + 4) = rsi \<and> stack s (a + 8) = rbx \<and>
     stack s (a + 12) = rbp \<and> stack s (a + 16) = ret"

text \<open>The words of a frame, and the words that the pushes of a switch from stack pointer \<open>sp\<close> write.\<close>

definition frame_words :: "u32 \<Rightarrow> u32 set" where
  "frame_words a = {a, a + 4, a + 8, a + 12, a + 16}"

definition pushed_words :: "u32 \<Rightarrow> u32 set" where
  "pushed_words sp = {sp - 4, sp - 8, sp - 12, sp - 16}"

lemma context_switch_fields [simp]:
  "ready_queue (context_switch p n s) = ready_queue s" "current_process (context_switch p n s) = current_process s"
  "process_count (context_switch p n s) = process_count s"
  "pcbs (context_switch p n s) = (pcbs s)(p := (pcbs s p)\<lparr>esp := r_esp (cpu s) - 16\<rparr>)"
  "heap_mem (context_switch p n s) = heap_mem s" "heap_start (context_switch p n s) = heap_start s"
  by (simp_all add: context_switch_def push_reg_def pop_reg_def Let_def)

lemma context_switch_saves:
  "frame (context_switch p n s) (r_esp (cpu s) - 16) (r_edi (cpu s)) (r_esi (cpu s)) (r_ebx (cpu s))
     (r_ebp (cpu s)) (stack s (r_esp (cpu s)))"
  by (simp add: frame_def context_switch_def push_reg_def pop_reg_def Let_def)

lemma context_switch_stack:
  "a \<notin> pushed_words (r_esp (cpu s)) \<Longrightarrow> stack (context_switch p n s) a = stack s a"
  by (simp add: pushed_words_def context_switch_def push_reg_def pop_reg_def Let_def)

lemma context_switch_cpu:
  "cpu (context_switch q a s) =
    \<lparr>r_esp = a + 20, r_ebp = stack (context_switch q a s) (a + 12), r_ebx = stack (context_switch q a s) (a + 8),
     r_esi = stack (context_switch q a s) (a + 4), r_edi = stack (context_switch q a s) a,
     r_eip = stack (context_switch q a s) (a + 16)\<rparr>"
  by (rule cpu_t.equality)
    (simp_all add: context_switch_def push_reg_def pop_reg_def Let_def algebra_simps del: fun_upd_apply)

lemma context_switch_restores:
  assumes fr: "frame s a rdi rsi rbx rbp ret" and apart: "frame_words a \<inter> pushed_words (r_esp (cpu s)) = {}"
  shows "cpu (context_switch q a s) =
    \<lparr>r_esp = a + 20, r_ebp = rbp, r_ebx = rbx, r_esi = rsi, r_edi = rdi, r_eip = ret\<rparr>"
proof -
  have "stack (context_switch q a s) x = stack s x" if "x \<in> frame_words a" for x
    using context_switch_stack apart that by blast
  then show ?thesis using fr by (subst context_switch_cpu) (simp add: frame_words_def frame_def)
qed

section \<open>Linked lists of control blocks\<close>

text \<open>\<open>path b p xs q\<close>: following \<open>next\<close> from \<open>p\<close> visits \<open>xs\<close> and leads to \<open>q\<close>.\<close>

fun path :: "(nat \<Rightarrow> pcb_t) \<Rightarrow> nat option \<Rightarrow> nat list \<Rightarrow> nat option \<Rightarrow> bool" where
  "path b p [] q \<longleftrightarrow> p = q"
| "path b p (x # xs) q \<longleftrightarrow> p = Some x \<and> path b (pnext (b x)) xs q"

lemma path_append [simp]: "path b p (xs @ ys) q \<longleftrightarrow> (\<exists>m. path b p xs m \<and> path b m ys q)"
  by (induction xs arbitrary: p) auto

lemma path_cong: "(\<And>x. x \<in> set xs \<Longrightarrow> pnext (b x) = pnext (b' x)) \<Longrightarrow> path b p xs q = path b' p xs q"
  by (induction xs arbitrary: p) auto

lemma path_upd [simp]: "x \<notin> set xs \<Longrightarrow> path (b(x := v)) p xs q = path b p xs q"
  by (rule path_cong) auto

text \<open>The ready queue is a ring entered at its head, a wait queue a list from head to tail.\<close>

fun ready_ring :: "'a procs_scheme \<Rightarrow> nat list \<Rightarrow> bool" where
  "ready_ring s [] \<longleftrightarrow> ready_queue s = None"
| "ready_ring s (h # ys) \<longleftrightarrow> ready_queue s = Some h \<and> path (pcbs s) (pnext (pcbs s h)) ys (Some h) \<and> distinct (h # ys)"

definition wait_list :: "'a procs_scheme \<Rightarrow> wait_queue_t \<Rightarrow> nat list \<Rightarrow> bool" where
  "wait_list s wq xs \<longleftrightarrow> path (pcbs s) (head wq) xs None \<and> distinct xs \<and>
     tail wq = (if xs = [] then None else Some (last xs))"

text \<open>A new process enters the ring just behind the head.\<close>

fun ring_add :: "nat \<Rightarrow> nat list \<Rightarrow> nat list" where
  "ring_add p [] = [p]"
| "ring_add p (h # ys) = h # p # ys"

lemma add_fields [simp]:
  "current_process (add_to_ready_queue p s) = current_process s" "process_count (add_to_ready_queue p s) = process_count s"
  "next_pid (add_to_ready_queue p s) = next_pid s" "stack (add_to_ready_queue p s) = stack s"
  "cpu (add_to_ready_queue p s) = cpu s" "heap_mem (add_to_ready_queue p s) = heap_mem s"
  "heap_start (add_to_ready_queue p s) = heap_start s"
  by (simp_all add: add_to_ready_queue_def Let_def split: option.splits)

lemma add_ready_ring:
  assumes "ready_ring s zs" and "p \<notin> set zs" shows "ready_ring (add_to_ready_queue p s) (ring_add p zs)"
proof (cases zs)
  case (Cons h ys)
  have "path (pcbs s) (pnext (pcbs s h)) ys (Some h)" "h \<notin> set ys" "p \<notin> set ys" "p \<noteq> h"
    using assms Cons by auto
  then show ?thesis using assms Cons by (auto simp: add_to_ready_queue_def Let_def)
qed (use assms in \<open>simp add: add_to_ready_queue_def Let_def\<close>)

lemma add_other:
  assumes "x \<noteq> p" and "ready_queue s \<noteq> Some x"
  shows "pcbs (add_to_ready_queue p s) x = pcbs s x"
  using assms by (auto simp: add_to_ready_queue_def Let_def split: option.splits)

lemma add_kept [simp]:
  "pid (pcbs (add_to_ready_queue p s) x) = pid (pcbs s x)" "esp (pcbs (add_to_ready_queue p s) x) = esp (pcbs s x)"
  "kernel_stack (pcbs (add_to_ready_queue p s) x) = kernel_stack (pcbs s x)"
  "priority (pcbs (add_to_ready_queue p s) x) = priority (pcbs s x)"
  "pstate (pcbs (add_to_ready_queue p s) x) = (if x = p then PROCESS_STATE_READY else pstate (pcbs s x))"
  by (auto simp: add_to_ready_queue_def Let_def split: option.splits)

section \<open>The rotation of the scheduler\<close>

text \<open>\<open>A\<close> is running, \<open>H\<close> is the head of the ready queue and \<open>X\<close> the process behind the head.\<close>

definition rotating :: "nat \<Rightarrow> nat \<Rightarrow> nat \<Rightarrow> 'a procs_scheme \<Rightarrow> bool" where
  "rotating A H X s \<longleftrightarrow> distinct [A, H, X] \<and> process_count s \<noteq> 0 \<and> current_process s = Some A \<and>
     pstate (pcbs s A) = PROCESS_STATE_RUNNING \<and> ready_queue s = Some H \<and> pnext (pcbs s H) = Some X"

lemma schedule_rotates:
  assumes "rotating A H X s"
  shows "rotating H X A (scheduler_schedule s)"
    and "p \<notin> {A, H, X} \<Longrightarrow> pcbs (scheduler_schedule s) p = pcbs s p"
    and "x \<in> {A, H, X} \<Longrightarrow> pstate (pcbs (scheduler_schedule s) x) = (if x = H then 1 else if x = A then 0 else pstate (pcbs s x))"
  using assms by (auto simp: rotating_def scheduler_schedule_def pick_next_def add_to_ready_queue_def Let_def)

text \<open>A run of the system between calls of the scheduler: code of the processes changes registers and stacks.\<close>

inductive sched_run :: "'a procs_scheme \<Rightarrow> nat \<Rightarrow> 'a procs_scheme \<Rightarrow> bool" for s where
  start: "sched_run s 0 s"
| step: "sched_run s n t \<Longrightarrow> sched_run s (Suc n) (scheduler_schedule (t\<lparr>stack := m, cpu := c\<rparr>))"

inductive_simps sched_run_0 [simp]: "sched_run s 0 t"
inductive_simps sched_run_Suc: "sched_run s (Suc n) t"

lemma rotating_code: "rotating A H X (t\<lparr>stack := m, cpu := c\<rparr>) = rotating A H X t"
  by (simp add: rotating_def)

lemma rotating_run:
  assumes "rotating A H X s" and "sched_run s n t"
  shows "rotating ([A, H, X] ! (n mod 3)) ([A, H, X] ! (Suc n mod 3)) ([A, H, X] ! (Suc (Suc n) mod 3)) t \<and>
    (\<forall>p. p \<notin> {A, H, X} \<longrightarrow> pcbs t p = pcbs s p)"
  using assms(2)
proof induction
  case start
  then show ?case using assms(1) by simp
next
  case (step n t c m)
  let ?a = "[A, H, X] ! (n mod 3)" and ?b = "[A, H, X] ! (Suc n mod 3)" and ?c = "[A, H, X] ! (Suc (Suc n) mod 3)"
  have r: "rotating ?a ?b ?c (t\<lparr>stack := m, cpu := c\<rparr>)" using step.IH by (simp add: rotating_code)
  have idx: "k < 3 \<Longrightarrow> [A, H, X] ! k \<in> {A, H, X}" for k by (auto simp: eval_nat_numeral less_Suc_eq)
  have wrap: "Suc (Suc (Suc n)) mod 3 = n mod 3" by presburger
  have "pcbs (scheduler_schedule (t\<lparr>stack := m, cpu := c\<rparr>)) p = pcbs t p" if "p \<notin> {A, H, X}" for p
  proof -
    have "p \<notin> {?a, ?b, ?c}" using idx [of "n mod 3"] idx [of "Suc n mod 3"] idx [of "Suc (Suc n) mod 3"] that by auto
    then show ?thesis using schedule_rotates(2) [OF r] by simp
  qed
  then show ?case using schedule_rotates(1) [OF r] step.IH unfolding wrap by simp
qed

text \<open>
  C5. When a process runs and at least two wait in the ready queue, the scheduler gives the processor
  in turn to exactly three processes: the running one, the head of the queue and the one behind
  the head, each of them again at every third call. Every other process in the queue
  is never scheduled, and its control block stays as it is.
\<close>

theorem scheduler_rotation:
  assumes "rotating A H X s" and "sched_run s n t"
  shows "current_process t = Some ([A, H, X] ! (n mod 3)) \<and> (\<forall>p. p \<notin> {A, H, X} \<longrightarrow> pcbs t p = pcbs s p)"
  using rotating_run [OF assms] by (simp add: rotating_def)

text \<open>The idle process is running, three processes are ready.\<close>

definition pcb_example :: "u32 \<Rightarrow> u32 \<Rightarrow> nat option \<Rightarrow> pcb_t" where
  "pcb_example p st n = \<lparr>pid = p, pstate = st, esp = 0, ebp = 0, eip = 0, cr3 = 0, kernel_stack = 0,
     priority = 1, ticks_remaining = 1, pnext = n\<rparr>"

definition procs_base :: procs where
  "procs_base = kheap.extend kheap_example
     \<lparr>pcbs = (\<lambda>_. pcb_example 0 PROCESS_STATE_ZOMBIE None), ready_queue = None, current_process = None,
      next_pid = 1, process_count = 0, stack = (\<lambda>_. 0),
      cpu = \<lparr>r_esp = 0, r_ebp = 0, r_ebx = 0, r_esi = 0, r_edi = 0, r_eip = 0\<rparr>\<rparr>"

definition four_processes :: procs where
  "four_processes = procs_base\<lparr>current_process := Some 0, ready_queue := Some 1, process_count := 4,
     pcbs := (\<lambda>_. pcb_example 0 PROCESS_STATE_ZOMBIE None)
       (0 := pcb_example 0 PROCESS_STATE_RUNNING None, 1 := pcb_example 1 PROCESS_STATE_READY (Some 3),
        3 := pcb_example 3 PROCESS_STATE_READY (Some 2), 2 := pcb_example 2 PROCESS_STATE_READY (Some 1))\<rparr>"

lemma four_rotating: "rotating 0 1 3 four_processes"
  by (simp add: rotating_def four_processes_def pcb_example_def)

lemma sched_run_exists: "\<exists>t. sched_run s n t"
  by (induction n) (blast intro: sched_run.intros)+

theorem scheduler_rotation_witness:
  "\<exists>t. sched_run four_processes 302 t \<and> current_process t = Some 3 \<and> pstate (pcbs t 2) = PROCESS_STATE_READY"
proof -
  obtain t where t: "sched_run four_processes 302 t" using sched_run_exists by blast
  from scheduler_rotation [OF four_rotating t] have "current_process t = Some 3" "pcbs t 2 = pcbs four_processes 2"
    by simp_all
  with t show ?thesis by (auto simp: four_processes_def pcb_example_def)
qed

text \<open>With a single process in the queue, it and the running one alternate.\<close>

lemma schedule_alternates:
  assumes "current_process s = Some A" "pstate (pcbs s A) = PROCESS_STATE_RUNNING" "ready_ring s [B]" "A \<noteq> B"
    "process_count s \<noteq> 0"
  shows "current_process (scheduler_schedule s) = Some B" "pstate (pcbs (scheduler_schedule s) B) = PROCESS_STATE_RUNNING"
    "ready_ring (scheduler_schedule s) [A]"
  using assms by (auto simp: scheduler_schedule_def pick_next_def add_to_ready_queue_def Let_def)

section \<open>Switching away and back\<close>

text \<open>
  C9. A process that is switched out and later switched in again continues where it was: when
  the words of its saved frame are untouched in between, the second switch restores
  the registers it had at the first, and execution continues at its return address.
\<close>

theorem context_switch_roundtrip:
  assumes out: "s\<^sub>1 = context_switch p n s"
    and kept: "esp (pcbs s\<^sub>2 p) = esp (pcbs s\<^sub>1 p)"
      "\<forall>a \<in> frame_words (esp (pcbs s\<^sub>1 p)). stack s\<^sub>2 a = stack s\<^sub>1 a"
    and apart: "frame_words (esp (pcbs s\<^sub>2 p)) \<inter> pushed_words (r_esp (cpu s\<^sub>2)) = {}"
  shows "cpu (context_switch q (esp (pcbs s\<^sub>2 p)) s\<^sub>2) =
    (cpu s)\<lparr>r_esp := r_esp (cpu s) + 4, r_eip := stack s (r_esp (cpu s))\<rparr>"
proof -
  have a: "esp (pcbs s\<^sub>2 p) = r_esp (cpu s) - 16" using kept(1) by (simp add: out)
  have "frame s\<^sub>2 (r_esp (cpu s) - 16) (r_edi (cpu s)) (r_esi (cpu s)) (r_ebx (cpu s)) (r_ebp (cpu s)) (stack s (r_esp (cpu s)))"
    using context_switch_saves [of p n s] kept(2) unfolding out [symmetric] frame_def frame_words_def by (simp add: out)
  from context_switch_restores [OF this apart [unfolded a]] show ?thesis unfolding a by simp
qed

definition switch_example :: procs where
  "switch_example = procs_base\<lparr>cpu := \<lparr>r_esp = 0x1000, r_ebp = 1, r_ebx = 2, r_esi = 3, r_edi = 4, r_eip = 5\<rparr>\<rparr>"

theorem context_switch_roundtrip_witness:
  "let s\<^sub>1 = context_switch 0 0x2000 switch_example;
       s\<^sub>2 = s\<^sub>1\<lparr>cpu := (cpu s\<^sub>1)\<lparr>r_esp := 0x3000\<rparr>\<rparr>
   in r_ebx (cpu (context_switch 1 (esp (pcbs s\<^sub>2 0)) s\<^sub>2)) = 2"
proof -
  let ?s1 = "context_switch 0 0x2000 switch_example"
  have "frame_words (esp (pcbs ?s1 0)) \<inter> pushed_words 0x3000 = {}"
    by (simp add: frame_words_def pushed_words_def switch_example_def)
  then show ?thesis
    using context_switch_roundtrip [of ?s1 0 "0x2000" switch_example "?s1\<lparr>cpu := (cpu ?s1)\<lparr>r_esp := 0x3000\<rparr>\<rparr>" 1]
    by (simp add: Let_def switch_example_def)
qed

section \<open>Creating processes\<close>

lemma pcb_init_effect:
  fixes s :: "'a procs_scheme"
  assumes wf: "heap_wf s"
  obtains k s' where "pcb_init i p entry prio s = Inr s'" and "heap_wf s'"
    and "ready_queue s' = ready_queue s" "current_process s' = current_process s" "process_count s' = process_count s"
      "next_pid s' = next_pid s"
    and "\<And>j. j \<noteq> i \<Longrightarrow> pcbs s' j = pcbs s j"
    and "pcbs s' i = \<lparr>pid = p, pstate = PROCESS_STATE_READY, esp = (if k = 0 then 0 else k + 4076),
      ebp = (if k = 0 then 0 else k + 4076), eip = entry, cr3 = 0, kernel_stack = k, priority = prio,
      ticks_remaining = prio, pnext = None\<rparr>"
    and "k = 0 \<Longrightarrow> live s' = live s"
    and "k \<noteq> 0 \<Longrightarrow> live s k = None \<and> (\<exists>m. 4096 \<le> m \<and> live s' = (live s)(k \<mapsto> m)) \<and> frame s' (k + 4076) 0 0 0 0 entry"
    and "heap_room s 4096 \<Longrightarrow> k \<noteq> 0"
proof -
  note res = that
  define t where "t = pcb_upd i (\<lambda>b. b\<lparr>pid := p, pstate := PROCESS_STATE_READY, esp := 0, ebp := 0, eip := entry,
    cr3 := 0, priority := prio, ticks_remaining := prio, pnext := None\<rparr>) s"
  have t: "heap_wf t" "live t = live s" using heap_wf_cong [of t s] wf by (simp_all add: t_def)
  obtain k u where k: "kmalloc PROCESS_STACK_SIZE t = Some (k, u)" "heap_wf u" "k = 0 \<Longrightarrow> live u = live t"
      "k \<noteq> 0 \<Longrightarrow> live t k = None \<and> (\<exists>m. unat (align16 PROCESS_STACK_SIZE) \<le> m \<and> live u = (live t)(k \<mapsto> m))"
    by (rule kmalloc_effect [OF t(1), of PROCESS_STACK_SIZE]) blast
  note fr = kmalloc_frame [OF k(1)]
  have al: "unat (align16 PROCESS_STACK_SIZE) = 4096" by (simp add: align16_def)
  have room: "heap_room t n = heap_room s n" for n by (simp add: heap_room_def heap_blocks_def t_def)
  define s' where "s' = (if k = 0
    then log_event (Printk ''process: Failed to allocate kernel stack for PID %d\<newline>'' [KDec (sint p)])
           (pcb_upd i (\<lambda>b. b\<lparr>kernel_stack := k\<rparr>) u)
    else pcb_upd i (\<lambda>b. b\<lparr>esp := k + 4076, ebp := k + 4076\<rparr>)
      (store_word (k + 4076) 0 (store_word (k + 4080) 0 (store_word (k + 4084) 0 (store_word (k + 4088) 0
        (store_word (k + 4092) entry (pcb_upd i (\<lambda>b. b\<lparr>kernel_stack := k\<rparr>) u)))))))"
  have call: "pcb_init i p entry prio s = Inr s'"
    using k(1) by (simp add: pcb_init_def returns_def s'_def Let_def add.commute [of k] flip: t_def)
  have heap: "heap_mem s' = heap_mem u" "heap_start s' = heap_start u" by (simp_all add: s'_def log_event_def)
  show thesis
  proof (rule res [OF call])
    show "heap_wf s'" using heap_wf_cong(1) [OF heap] k(2) by simp
    show "ready_queue s' = ready_queue s" "current_process s' = current_process s" "process_count s' = process_count s"
      "next_pid s' = next_pid s" using fr by (simp_all add: s'_def t_def)
    show "pcbs s' j = pcbs s j" if "j \<noteq> i" for j using fr that by (simp add: s'_def t_def)
    show "pcbs s' i = \<lparr>pid = p, pstate = PROCESS_STATE_READY, esp = (if k = 0 then 0 else k + 4076),
      ebp = (if k = 0 then 0 else k + 4076), eip = entry, cr3 = 0, kernel_stack = k, priority = prio,
      ticks_remaining = prio, pnext = None\<rparr>" using fr by (simp add: s'_def t_def)
    show "live s' = live s" if "k = 0" using heap_wf_cong(2) [OF heap] k(3) that t(2) by simp
    show "live s k = None \<and> (\<exists>m. 4096 \<le> m \<and> live s' = (live s)(k \<mapsto> m)) \<and> frame s' (k + 4076) 0 0 0 0 entry" if "k \<noteq> 0"
      using heap_wf_cong(2) [OF heap] k(4) that t(2) al by (simp add: frame_def s'_def add.commute [of k])
    show "k \<noteq> 0" if "heap_room s 4096" using kmalloc_gives [OF t(1) _ _ k(1)] that al by (simp add: room)
  qed
qed

lemma process_create_effect:
  fixes s :: "'a procs_scheme"
  assumes wf: "heap_wf s" and free: "process_count s < 64" "find_free_pcb s = Some i"
  obtains k s' where "process_create entry prio s = Inr (next_pid s, s')" and "heap_wf s'"
    and "process_count s' = process_count s + 1" and "next_pid s' = next_pid s + 1"
    and "pid (pcbs s' i) = next_pid s" "pstate (pcbs s' i) = PROCESS_STATE_READY" "priority (pcbs s' i) = prio"
      "kernel_stack (pcbs s' i) = k" "esp (pcbs s' i) = (if k = 0 then 0 else k + 4076)"
    and "\<And>j. j \<noteq> i \<Longrightarrow> pid (pcbs s' j) = pid (pcbs s j) \<and> pstate (pcbs s' j) = pstate (pcbs s j)"
    and "\<And>zs. ready_ring s zs \<Longrightarrow> i \<notin> set zs \<Longrightarrow> ready_ring s' (ring_add i zs)"
    and "k \<noteq> 0 \<Longrightarrow> live s k = None \<and> (\<exists>m. 4096 \<le> m \<and> live s' = (live s)(k \<mapsto> m)) \<and> frame s' (k + 4076) 0 0 0 0 entry"
    and "heap_room s 4096 \<Longrightarrow> k \<noteq> 0"
proof -
  note res = that
  define t where "t = s\<lparr>next_pid := next_pid s + 1\<rparr>"
  have t: "heap_wf t" "live t = live s" using heap_wf_cong [of t s] wf by (simp_all add: t_def)
  obtain k u where u: "pcb_init i (next_pid s) entry prio t = Inr u" "heap_wf u" "ready_queue u = ready_queue t"
      "current_process u = current_process t" "process_count u = process_count t" "next_pid u = next_pid t"
      "\<And>j. j \<noteq> i \<Longrightarrow> pcbs u j = pcbs t j"
      "pcbs u i = \<lparr>pid = next_pid s, pstate = PROCESS_STATE_READY, esp = (if k = 0 then 0 else k + 4076),
        ebp = (if k = 0 then 0 else k + 4076), eip = entry, cr3 = 0, kernel_stack = k, priority = prio,
        ticks_remaining = prio, pnext = None\<rparr>"
      "k = 0 \<Longrightarrow> live u = live t"
      "k \<noteq> 0 \<Longrightarrow> live t k = None \<and> (\<exists>m. 4096 \<le> m \<and> live u = (live t)(k \<mapsto> m)) \<and> frame u (k + 4076) 0 0 0 0 entry"
      "heap_room t 4096 \<Longrightarrow> k \<noteq> 0"
    by (rule pcb_init_effect [OF t(1), of i "next_pid s" entry prio]) blast
  define v where "v = add_to_ready_queue i u"
  define e\<^sub>1 where "e\<^sub>1 = Printk ''scheduler: Added PID %d to ready queue\<newline>'' [KDec (sint (pid (pcbs v i)))]"
  define e\<^sub>2 where "e\<^sub>2 = Printk ''process: Created process PID %d (priority %d)\<newline>'' [KDec (sint (next_pid s)), KDec (sint prio)]"
  define s' where "s' = log_event e\<^sub>2 ((log_event e\<^sub>1 v)\<lparr>process_count := process_count v + 1\<rparr>)"
  have "\<not> 64 \<le> process_count s" using free(1) by simp
  then have call: "process_create entry prio s = Inr (next_pid s, s')"
    using free(2) u(1) unfolding s'_def e\<^sub>1_def e\<^sub>2_def v_def
    by (simp add: process_create_def Let_def scheduler_add_process_def flip: t_def)
  have s': "pcbs s' = pcbs v" "ready_queue s' = ready_queue v" "process_count s' = process_count s + 1"
      "next_pid s' = next_pid s + 1" "stack s' = stack u" "heap_mem s' = heap_mem u" "heap_start s' = heap_start u"
    using u(5,6) by (simp_all add: s'_def v_def t_def) (simp_all add: log_event_def)
  note heap = s'(6,7)
  have ring: "ready_ring s' (ring_add i zs)" if "ready_ring s zs" "i \<notin> set zs" for zs
  proof -
    have nx: "x \<in> set zs \<Longrightarrow> pcbs u x = pcbs s x" for x using that(2) u(7) [of x] by (cases "x = i") (auto simp: t_def)
    have "ready_ring u zs"
    proof (cases zs)
      case (Cons h ys)
      then show ?thesis using that(1) u(3) nx path_cong [of ys "pcbs u" "pcbs s"] by (simp add: t_def)
    qed (use that u(3) in \<open>simp add: t_def\<close>)
    from add_ready_ring [OF this that(2)] have "ready_ring v (ring_add i zs)" by (simp add: v_def)
    then show ?thesis by (cases zs) (simp_all add: s'(1,2))
  qed
  show thesis
  proof (rule res [OF call])
    show "heap_wf s'" using heap_wf_cong(1) [OF heap] u(2) by simp
    show "k \<noteq> 0 \<Longrightarrow> live s k = None \<and> (\<exists>m. 4096 \<le> m \<and> live s' = (live s)(k \<mapsto> m)) \<and> frame s' (k + 4076) 0 0 0 0 entry"
      using heap_wf_cong(2) [OF heap] u(10) t(2) by (simp add: frame_def s'(5))
    show "heap_room s 4096 \<Longrightarrow> k \<noteq> 0" using u(11) by (simp add: heap_room_def heap_blocks_def t_def)
  qed (use ring s'(1,3,4) u(7,8) in \<open>simp_all add: v_def t_def\<close>)
qed

text \<open>
  C24. \<open>process_create\<close> takes the first control block that \<open>find_free_pcb\<close> offers, gives it the next
  process number and the state ready, and leaves the number and state of the others; a block that was
  not in the ready queue goes behind its head. When the heap has a free block of 4096 bytes, the
  process has a stack: a fresh heap block on which the first switch to the process finds its entry
  point and cleared registers, with the stack pointer at its top. Without one, the stack is null.
\<close>

theorem process_create_correct:
  assumes wf: "heap_wf s" and free: "process_count s < 64" "find_free_pcb s = Some i"
  shows "\<exists>s' k. process_create entry prio s = Inr (next_pid s, s') \<and> heap_wf s' \<and>
    process_count s' = process_count s + 1 \<and> next_pid s' = next_pid s + 1 \<and>
    pid (pcbs s' i) = next_pid s \<and> pstate (pcbs s' i) = PROCESS_STATE_READY \<and> priority (pcbs s' i) = prio \<and>
    (\<forall>j. j \<noteq> i \<longrightarrow> pid (pcbs s' j) = pid (pcbs s j) \<and> pstate (pcbs s' j) = pstate (pcbs s j)) \<and>
    kernel_stack (pcbs s' i) = k \<and> (heap_room s 4096 \<longrightarrow> k \<noteq> 0) \<and>
    (\<forall>zs. ready_ring s zs \<and> i \<notin> set zs \<longrightarrow> ready_ring s' (ring_add i zs)) \<and>
    (k \<noteq> 0 \<longrightarrow> live s k = None \<and> (\<exists>m. 4096 \<le> m \<and> live s' = (live s)(k \<mapsto> m)) \<and>
      (\<forall>q c. frame_words (k + 4076) \<inter> pushed_words (r_esp c) = {} \<longrightarrow>
         cpu (context_switch q (esp (pcbs s' i)) (s'\<lparr>cpu := c\<rparr>)) =
           \<lparr>r_esp = k + 4096, r_ebp = 0, r_ebx = 0, r_esi = 0, r_edi = 0, r_eip = entry\<rparr>))"
proof -
  obtain k s' where e: "process_create entry prio s = Inr (next_pid s, s')" "heap_wf s'"
      "process_count s' = process_count s + 1" "next_pid s' = next_pid s + 1" "pid (pcbs s' i) = next_pid s"
      "pstate (pcbs s' i) = PROCESS_STATE_READY" "priority (pcbs s' i) = prio" "kernel_stack (pcbs s' i) = k"
      "esp (pcbs s' i) = (if k = 0 then 0 else k + 4076)"
      "\<And>zs. ready_ring s zs \<Longrightarrow> i \<notin> set zs \<Longrightarrow> ready_ring s' (ring_add i zs)"
      "k \<noteq> 0 \<Longrightarrow> live s k = None \<and> (\<exists>m. 4096 \<le> m \<and> live s' = (live s)(k \<mapsto> m)) \<and> frame s' (k + 4076) 0 0 0 0 entry"
      "heap_room s 4096 \<Longrightarrow> k \<noteq> 0"
      "\<And>j. j \<noteq> i \<Longrightarrow> pid (pcbs s' j) = pid (pcbs s j) \<and> pstate (pcbs s' j) = pstate (pcbs s j)"
    by (rule process_create_effect [OF assms, of entry prio]) blast
  have enter: "cpu (context_switch q (esp (pcbs s' i)) (s'\<lparr>cpu := c\<rparr>)) =
      \<lparr>r_esp = k + 4096, r_ebp = 0, r_ebx = 0, r_esi = 0, r_edi = 0, r_eip = entry\<rparr>"
    if "k \<noteq> 0" "frame_words (k + 4076) \<inter> pushed_words (r_esp c) = {}" for q c
  proof -
    have "frame (s'\<lparr>cpu := c\<rparr>) (k + 4076) 0 0 0 0 entry" using e(11) that(1) by (simp add: frame_def)
    from context_switch_restores [OF this] show ?thesis using that e(9) by simp
  qed
  then show ?thesis using e by (intro exI [of _ s'] exI [of _ k]) auto
qed

lemma procs_base_wf: "heap_wf procs_base"
proof -
  have "heap_mem procs_base = heap_mem kheap_example" "heap_start procs_base = heap_start kheap_example"
    by (simp_all add: procs_base_def kheap.defs)
  then show ?thesis using kheap_example_wf unfolding heap_wf_def heap_blocks_def by metis
qed

lemma procs_base_free: "find_free_pcb procs_base = Some 0" "process_count procs_base = 0" "next_pid procs_base = 1"
    "ready_ring procs_base []"
  by (simp_all add: find_free_pcb_def scan_Some_iff) (simp_all add: procs_base_def kheap.defs pcb_example_def)

lemma procs_base_room: "heap_room procs_base 4096"
proof -
  have "heap_mem procs_base = heap_mem kheap_example" "heap_start procs_base = heap_start kheap_example"
    by (simp_all add: procs_base_def kheap.defs)
  then have "heap_blocks procs_base = heap_blocks kheap_example" unfolding heap_blocks_def by metis
  then show ?thesis by (simp add: heap_room_def kheap_example_blocks)
qed

theorem process_create_correct_witness:
  "\<exists>s'. process_create 0x100000 5 procs_base = Inr (1, s') \<and> process_count s' = 1 \<and> ready_ring s' [0] \<and>
     kernel_stack (pcbs s' 0) \<noteq> 0"
proof -
  have free: "process_count procs_base < 64" using procs_base_free(2) by simp
  obtain s' where s': "process_create 0x100000 5 procs_base = Inr (next_pid procs_base, s')"
      "process_count s' = process_count procs_base + 1"
      "heap_room procs_base 4096 \<longrightarrow> kernel_stack (pcbs s' 0) \<noteq> 0"
      "\<forall>zs. ready_ring procs_base zs \<and> 0 \<notin> set zs \<longrightarrow> ready_ring s' (ring_add 0 zs)"
    using process_create_correct [OF procs_base_wf free procs_base_free(1), of "0x100000" 5] by blast
  have "ready_ring s' (ring_add 0 [])" using s'(4) procs_base_free(4) by (metis empty_iff list.set(1))
  then show ?thesis using s'(1-3) procs_base_free(2,3) procs_base_room by simp
qed

section \<open>Creating two processes\<close>

text \<open>
  Since \<open>find_free_pcb\<close> also takes a control block whose state is ready (the state ready has the
  value 0 that it takes for unused), a process created right after another replaces it: both
  calls report success with different numbers and both are counted, but the second uses the
  control block of the first, whose number is then held by no control block.
\<close>

theorem process_create_replaces_ready:
  assumes wf: "heap_wf s" and free: "process_count s < 63" "find_free_pcb s = Some i"
    and old: "\<forall>j. pid (pcbs s j) \<noteq> next_pid s"
    and c\<^sub>1: "process_create e\<^sub>1 q\<^sub>1 s = Inr (p\<^sub>1, s\<^sub>1)" and c\<^sub>2: "process_create e\<^sub>2 q\<^sub>2 s\<^sub>1 = Inr (p\<^sub>2, s\<^sub>2)"
  shows "p\<^sub>2 = p\<^sub>1 + 1 \<and> process_count s\<^sub>2 = process_count s + 2 \<and> pid (pcbs s\<^sub>2 i) = p\<^sub>2 \<and>
    (\<forall>j. pid (pcbs s\<^sub>2 j) \<noteq> p\<^sub>1)"
proof -
  have n: "unat (process_count s) < 63" using free(1) by (simp add: word_less_nat_alt)
  then have small: "process_count s < 64" "process_count s + 1 < 64"
    by (simp_all add: word_less_nat_alt unat_word_ariths)
  obtain s1' where 1: "process_create e\<^sub>1 q\<^sub>1 s = Inr (next_pid s, s1')" "heap_wf s1'"
      "process_count s1' = process_count s + 1" "next_pid s1' = next_pid s + 1" "pid (pcbs s1' i) = next_pid s"
      "pstate (pcbs s1' i) = PROCESS_STATE_READY"
      "\<And>j. j \<noteq> i \<Longrightarrow> pid (pcbs s1' j) = pid (pcbs s j) \<and> pstate (pcbs s1' j) = pstate (pcbs s j)"
    by (rule process_create_effect [OF wf small(1) free(2), of e\<^sub>1 q\<^sub>1]) blast
  have eq1: "p\<^sub>1 = next_pid s" "s\<^sub>1 = s1'" using c\<^sub>1 1(1) by simp_all
  have "find_free_pcb s1' = Some i" using free(2) 1(6,7) by (auto simp: find_free_pcb_def scan_Some_iff)
  then obtain s2' where 2: "process_create e\<^sub>2 q\<^sub>2 s1' = Inr (next_pid s1', s2')"
      "process_count s2' = process_count s1' + 1" "pid (pcbs s2' i) = next_pid s1'"
      "\<And>j. j \<noteq> i \<Longrightarrow> pid (pcbs s2' j) = pid (pcbs s1' j) \<and> pstate (pcbs s2' j) = pstate (pcbs s1' j)"
    using process_create_effect [OF 1(2), of i e\<^sub>2 q\<^sub>2] small(2) 1(3) by metis
  have eq2: "p\<^sub>2 = next_pid s1'" "s\<^sub>2 = s2'" using c\<^sub>2 2(1) by (simp_all add: eq1)
  have "pid (pcbs s\<^sub>2 j) \<noteq> p\<^sub>1" for j
    using 1(4,7) 2(3,4) old by (cases "j = i") (simp_all add: eq1 eq2)
  then show ?thesis using 1 2 by (simp add: eq1 eq2)
qed

theorem process_create_replaces_ready_witness:
  "\<exists>s\<^sub>1 s\<^sub>2. process_create 0x100000 5 procs_base = Inr (1, s\<^sub>1) \<and> process_create 0x200000 5 s\<^sub>1 = Inr (2, s\<^sub>2) \<and>
     (\<forall>j. pid (pcbs s\<^sub>2 j) \<noteq> 1)"
proof -
  obtain s1 where 1: "process_create 0x100000 5 procs_base = Inr (1, s1)" "heap_wf s1" "process_count s1 = 1"
      "next_pid s1 = 2" "pstate (pcbs s1 0) = PROCESS_STATE_READY"
    using process_create_effect [OF procs_base_wf, of 0 "0x100000" 5] procs_base_free by force
  have "find_free_pcb s1 = Some 0" using 1(5) by (simp add: find_free_pcb_def scan_Some_iff)
  then obtain s2 where 2: "process_create 0x200000 5 s1 = Inr (2, s2)"
    using process_create_effect [OF 1(2), of 0 "0x200000" 5] 1(3,4) by force
  have "\<forall>j. pid (pcbs procs_base j) \<noteq> next_pid procs_base"
    by (simp add: procs_base_def kheap.defs pcb_example_def)
  from process_create_replaces_ready [OF procs_base_wf _ procs_base_free(1) this 1(1) 2] 1(1) 2 procs_base_free(2)
  show ?thesis by auto
qed

section \<open>Wait queues\<close>

text \<open>A process that is not running is not queued again, and the scheduler leaves every link alone.\<close>

lemma schedule_blocked:
  assumes "current_process s = Some c" and "pstate (pcbs s c) = PROCESS_STATE_BLOCKED"
  shows "pnext (pcbs (scheduler_schedule s) x) = pnext (pcbs s x)"
    and "ready_queue s \<noteq> Some c \<Longrightarrow> c \<noteq> 0 \<Longrightarrow> pstate (pcbs (scheduler_schedule s) c) = PROCESS_STATE_BLOCKED"
  using assms by (auto simp: scheduler_schedule_def pick_next_def Let_def split: option.splits)

lemma process_block_appends:
  assumes wl: "wait_list s wq xs" and cur: "current_process s = Some c" "pid (pcbs s c) \<noteq> 0" "c \<notin> set xs"
    and call: "process_block wq s = (wq', s')"
  shows "wait_list s' wq' (xs @ [c])"
    and "ready_queue s \<noteq> Some c \<Longrightarrow> c \<noteq> 0 \<Longrightarrow> pstate (pcbs s' c) = PROCESS_STATE_BLOCKED"
proof -
  define t where "t = pcb_upd c (\<lambda>b. b\<lparr>pnext := None\<rparr>) (pcb_upd c (\<lambda>b. b\<lparr>pstate := PROCESS_STATE_BLOCKED\<rparr>) s)"
  define u where "u = (case tail wq of Some l \<Rightarrow> pcb_upd l (\<lambda>b. b\<lparr>pnext := Some c\<rparr>) t | None \<Rightarrow> t)"
  have ends: "wq' = (if tail wq = None then wq\<lparr>head := Some c, tail := Some c\<rparr> else wq\<lparr>tail := Some c\<rparr>)"
      "s' = scheduler_schedule u"
    using call cur by (auto simp: process_block_def t_def u_def Let_def split: option.splits)
  have u: "current_process u = Some c" "ready_queue u = ready_queue s"
    using cur(1) by (auto simp: u_def t_def split: option.splits)
  have tl: "tail wq = Some l \<Longrightarrow> l \<noteq> c" for l using wl cur(3) by (auto simp: wait_list_def split: if_splits)
  then have blocked: "pstate (pcbs u c) = PROCESS_STATE_BLOCKED" by (auto simp: u_def t_def split: option.splits)
  have "path (pcbs u) (head wq') (xs @ [c]) None"
  proof (cases xs rule: rev_cases)
    case Nil
    then show ?thesis using wl by (simp add: wait_list_def ends u_def t_def)
  next
    case (snoc ys l)
    then have "tail wq = Some l" "path (pcbs s) (head wq) ys (Some l)" "l \<notin> set ys" "c \<notin> set ys" "c \<noteq> l"
      using wl cur(3) by (auto simp: wait_list_def)
    then show ?thesis using snoc by (simp add: ends u_def t_def)
  qed
  moreover have "path (pcbs s') p (xs @ [c]) q = path (pcbs u) p (xs @ [c]) q" for p q
    by (rule path_cong) (simp add: ends(2) schedule_blocked(1) [OF u(1) blocked])
  ultimately have "path (pcbs s') (head wq') (xs @ [c]) None" by blast
  then show "wait_list s' wq' (xs @ [c])" using wl cur(3) by (simp add: wait_list_def ends(1))
  show "ready_queue s \<noteq> Some c \<Longrightarrow> c \<noteq> 0 \<Longrightarrow> pstate (pcbs s' c) = PROCESS_STATE_BLOCKED"
    using schedule_blocked(2) [OF u(1) blocked] u(2) by (simp add: ends(2))
qed

lemma process_wake_first:
  assumes wl: "wait_list s wq (x # xs)" and ring: "ready_ring s zs" "set zs \<inter> set (x # xs) = {}"
  obtains wq' s' where "process_wake wq s = (wq', s')" and "wait_list s' wq' xs" and "ready_ring s' (ring_add x zs)"
    and "\<And>y. pstate (pcbs s' y) = (if y = x then PROCESS_STATE_READY else pstate (pcbs s y))"
proof -
  define t where "t = pcb_upd x (\<lambda>b. b\<lparr>pstate := PROCESS_STATE_READY\<rparr>) (pcb_upd x (\<lambda>b. b\<lparr>pnext := None\<rparr>) s)"
  have hd: "head wq = Some x" "path (pcbs s) (pnext (pcbs s x)) xs None" "x \<notin> set xs" "x \<notin> set zs"
    using wl ring(2) by (auto simp: wait_list_def)
  define wq' where "wq' = (if xs = [] then wq\<lparr>head := None, tail := None\<rparr> else wq\<lparr>head := pnext (pcbs s x)\<rparr>)"
  have emp: "pnext (pcbs s x) = None \<longleftrightarrow> xs = []" using hd(2) by (cases xs) auto
  then have call: "process_wake wq s = (wq', add_to_ready_queue x t)"
    using hd(1) by (simp add: process_wake_def wq'_def t_def Let_def)
  have other: "y \<in> set xs \<Longrightarrow> pcbs (add_to_ready_queue x t) y = pcbs s y" for y
  proof -
    assume y: "y \<in> set xs"
    then have "y \<noteq> x" "ready_queue t \<noteq> Some y" using hd(3) ring by (cases zs; auto simp: t_def)+
    then show ?thesis using add_other [of y x t] by (simp add: t_def)
  qed
  have tring: "ready_ring t zs"
    using ring(1) hd(4) path_cong [of "tl zs" "pcbs t" "pcbs s"] by (cases zs) (auto simp: t_def)
  show thesis
  proof (rule that [OF call])
    show "wait_list (add_to_ready_queue x t) wq' xs"
      using wl hd path_cong [of xs "pcbs (add_to_ready_queue x t)" "pcbs s"] other by (auto simp: wait_list_def wq'_def)
    show "ready_ring (add_to_ready_queue x t) (ring_add x zs)" by (rule add_ready_ring [OF tring hd(4)])
  qed (simp add: t_def)
qed

lemma process_wake_all_run:
  assumes "wait_list s wq xs" and "ready_ring s zs" "set zs \<inter> set xs = {}"
  shows "\<exists>wq' s'. process_wake_all wq s = Some (wq', s') \<and> wait_list s' wq' [] \<and> ready_ring s' (fold ring_add xs zs) \<and>
    (\<forall>y. pstate (pcbs s' y) = (if y \<in> set xs then PROCESS_STATE_READY else pstate (pcbs s y)))"
  using assms
proof (induction xs arbitrary: s wq zs)
  case Nil
  then show ?case by (subst process_wake_all.simps) (simp add: wait_list_def)
next
  case (Cons x xs)
  obtain wq1 s1 where 1: "process_wake wq s = (wq1, s1)" "wait_list s1 wq1 xs" "ready_ring s1 (ring_add x zs)"
      "\<And>y. pstate (pcbs s1 y) = (if y = x then PROCESS_STATE_READY else pstate (pcbs s y))"
    using process_wake_first [OF Cons.prems] by blast
  have "set (ring_add x zs) \<inter> set xs = {}" using Cons.prems by (cases zs) (auto simp: wait_list_def)
  from Cons.IH [OF 1(2,3) this] obtain wq' s' where 2: "process_wake_all wq1 s1 = Some (wq', s')" "wait_list s' wq' []"
      "ready_ring s' (fold ring_add xs (ring_add x zs))"
      "\<forall>y. pstate (pcbs s' y) = (if y \<in> set xs then PROCESS_STATE_READY else pstate (pcbs s1 y))" by blast
  have "head wq = Some x" using Cons.prems(1) by (simp add: wait_list_def)
  then have "process_wake_all wq s = Some (wq', s')" using 1(1) 2(1) by (subst process_wake_all.simps) simp
  with 2 1(4) show ?case by auto
qed

text \<open>
  Waking a whole wait queue ends: when the waiting processes are not in the ready queue,
  \<open>process_wake_all\<close> empties the wait queue, makes exactly the waiting processes ready, and puts
  each behind the head of the ready queue, in the order in which they were waiting.
\<close>

theorem process_wake_all_correct:
  assumes "wait_list s wq xs" and "ready_ring s zs" and "set zs \<inter> set xs = {}"
  shows "\<exists>wq' s'. process_wake_all wq s = Some (wq', s') \<and> wait_list s' wq' [] \<and> ready_ring s' (fold ring_add xs zs) \<and>
    (\<forall>y. pstate (pcbs s' y) = (if y \<in> set xs then PROCESS_STATE_READY else pstate (pcbs s y)))"
  using assms by (rule process_wake_all_run)

definition two_waiting :: procs where
  "two_waiting = procs_base\<lparr>pcbs := (\<lambda>_. pcb_example 0 PROCESS_STATE_ZOMBIE None)
     (1 := pcb_example 1 PROCESS_STATE_BLOCKED (Some 2), 2 := pcb_example 2 PROCESS_STATE_BLOCKED None)\<rparr>"

theorem process_wake_all_correct_witness:
  "\<exists>wq' s'. process_wake_all \<lparr>head = Some 1, tail = Some 2\<rparr> two_waiting = Some (wq', s') \<and> ready_ring s' [1, 2]"
proof -
  have "ready_queue two_waiting = None" by (simp add: two_waiting_def procs_base_def kheap.defs)
  moreover have "wait_list two_waiting \<lparr>head = Some 1, tail = Some 2\<rparr> [1, 2]"
    by (simp add: wait_list_def two_waiting_def pcb_example_def)
  ultimately show ?thesis using process_wake_all_correct [of two_waiting "\<lparr>head = Some 1, tail = Some 2\<rparr>" "[1, 2]" "[]"]
    by auto
qed

section \<open>Removing a process from the ready queue\<close>

lemma unlink_loop_found:
  assumes "path (pcbs s) (pnext (pcbs s c)) ys (Some p)" and "h \<notin> set ys" "p \<notin> set ys" "p \<noteq> h"
  shows "unlink_loop p h c s = Some (Inr (last (c # ys),
    pcb_upd (last (c # ys)) (\<lambda>b. b\<lparr>pnext := pnext (pcbs s p)\<rparr>) s))"
  using assms by (induction ys arbitrary: c) (subst unlink_loop.simps; simp)+

lemma unlink_loop_end:
  assumes "path (pcbs s) (pnext (pcbs s c)) ys (Some h)" and "h \<notin> set ys" "p \<notin> set ys"
  shows "unlink_loop p h c s = Some (Inr (last (c # ys), s))"
  using assms by (induction ys arbitrary: c) (subst unlink_loop.simps; simp)+

lemma path_last: "path b p (xs @ [x]) q \<Longrightarrow> pnext (b x) = q"
  by auto

lemma remove_member:
  assumes ring: "ready_ring s (h # ys @ p # zs)"
  obtains s' where "remove_from_ready_queue p s = Inr s'" and "ready_ring s' (h # ys @ zs)"
    and "\<exists>b. s' = s\<lparr>pcbs := b\<rparr> \<and> (\<forall>x. \<exists>n. b x = (pcbs s x)\<lparr>pnext := n\<rparr>)"
proof -
  let ?l = "last (h # ys)"
  have d: "distinct (h # ys @ p # zs)" "ready_queue s = Some h" "path (pcbs s) (pnext (pcbs s h)) ys (Some p)"
      "path (pcbs s) (pnext (pcbs s p)) zs (Some h)" using ring by auto
  define u where "u = pcb_upd ?l (\<lambda>b. b\<lparr>pnext := pnext (pcbs s p)\<rparr>) s"
  define s' where "s' = pcb_upd p (\<lambda>b. b\<lparr>pnext := None\<rparr>) u"
  have "pnext (pcbs s h) \<noteq> Some h" using d(1,3) by (cases ys) auto
  then have call: "remove_from_ready_queue p s = Inr s'"
    using d(1,2) unlink_loop_found [OF d(3), of h] by (auto simp: remove_from_ready_queue_def returns_def s'_def u_def)
  have "path (pcbs s') (pnext (pcbs s' h)) (ys @ zs) (Some h)"
  proof (cases ys rule: rev_cases)
    case Nil
    then show ?thesis using d by (auto simp: s'_def u_def)
  next
    case (snoc us l)
    then have "path (pcbs s) (pnext (pcbs s h)) us (Some l)" using d(3) by simp
    then show ?thesis using d snoc by (auto simp: s'_def u_def)
  qed
  then have ring': "ready_ring s' (h # ys @ zs)" using d by (simp add: s'_def u_def)
  have "s' = s\<lparr>pcbs := pcbs s'\<rparr>" by (simp add: s'_def u_def pcb_upd_def)
  moreover have "\<exists>n. pcbs s' x = (pcbs s x)\<lparr>pnext := n\<rparr>" for x
    by (rule exI [of _ "pnext (pcbs s' x)"]) (auto simp: s'_def u_def)
  ultimately show thesis using that [OF call ring'] by blast
qed

text \<open>Removing the head leaves the queue broken: its last process still leads to the removed one.\<close>

lemma remove_head_breaks:
  assumes "ready_ring s (p # ys)" and "ys \<noteq> []"
  shows "\<exists>s'. remove_from_ready_queue p s = Inr s' \<and> ready_queue s' = Some (last ys) \<and>
    pnext (pcbs s' (last ys)) = Some p \<and> pnext (pcbs s' p) = None"
proof -
  obtain us l where ys: "ys = us @ [l]" using assms(2) by (cases ys rule: rev_cases) auto
  have d: "ready_queue s = Some p" "path (pcbs s) (pnext (pcbs s p)) ys (Some p)" "p \<notin> set ys" using assms by auto
  have "pnext (pcbs s p) \<noteq> Some p" using d(2,3) ys by (cases us) auto
  then show ?thesis using d ys unlink_loop_end [OF d(2,3,3)] by (auto simp: remove_from_ready_queue_def returns_def)
qed

lemma process_terminate_out_of_bounds:
  assumes "64 \<le> p" and "p < next_pid s" shows "process_terminate p s = Inl Out_of_bounds"
proof -
  have "p \<noteq> 0" "\<not> next_pid s \<le> p" "64 \<le> unat p" using assms by (auto simp: word_le_nat_alt word_less_nat_alt)
  then show ?thesis by (simp add: process_terminate_def)
qed


text \<open>
  C25. \<open>process_terminate\<close> of an issued process number from 1 to 63 whose control block has the index of that
  number, is ready, stands in the ready queue but not as its head, and has a stack that the heap has
  given out: the process leaves the queue, the order of the others is kept, its stack goes back to
  the heap, and its control block becomes a zombie.
\<close>

theorem process_terminate_correct:
  assumes wf: "heap_wf s" and p: "p \<noteq> 0" "p < next_pid s" "unat p < MAX_PROCESSES"
    and ready: "pstate (pcbs s (unat p)) = PROCESS_STATE_READY" "ready_ring s (h # ys @ unat p # zs)"
    and stk: "kernel_stack (pcbs s (unat p)) = k" "live s k = Some m"
  shows "\<exists>s'. process_terminate p s = Inr s' \<and> heap_wf s' \<and> live s' = (live s)(k := None) \<and>
    ready_ring s' (h # ys @ zs) \<and> pstate (pcbs s' (unat p)) = PROCESS_STATE_ZOMBIE \<and>
    (\<forall>x. x \<noteq> unat p \<longrightarrow> pstate (pcbs s' x) = pstate (pcbs s x)) \<and> process_count s' = process_count s - 1"
proof -
  obtain b where r: "remove_from_ready_queue (unat p) s = Inr (s\<lparr>pcbs := b\<rparr>)" "ready_ring (s\<lparr>pcbs := b\<rparr>) (h # ys @ zs)"
      "\<forall>x. \<exists>n. b x = (pcbs s x)\<lparr>pnext := n\<rparr>"
  proof (rule remove_member [OF ready(2)])
    fix s'
    assume h: "remove_from_ready_queue (unat p) s = Inr s'" "ready_ring s' (h # ys @ zs)"
      "\<exists>b. s' = s\<lparr>pcbs := b\<rparr> \<and> (\<forall>x. \<exists>n. b x = (pcbs s x)\<lparr>pnext := n\<rparr>)"
    from h(3) obtain b where b: "s' = s\<lparr>pcbs := b\<rparr>" "\<forall>x. \<exists>n. b x = (pcbs s x)\<lparr>pnext := n\<rparr>" by blast
    from that [OF h(1,2) [unfolded b(1)] b(2)] show thesis .
  qed
  have b: "pid (b x) = pid (pcbs s x)" "pstate (b x) = pstate (pcbs s x)" "kernel_stack (b x) = kernel_stack (pcbs s x)" for x
    using r(3) [rule_format, of x] by auto
  define e where "e = Printk ''scheduler: Removed PID %d from ready queue\<newline>'' [KDec (sint p)]"
  define t where "t = log_event e (s\<lparr>pcbs := b\<rparr>)"
  have t: "heap_mem t = heap_mem s" "heap_start t = heap_start s" "pcbs t = b" "process_count t = process_count s"
      "ready_queue t = ready_queue s"
    by (simp_all add: t_def) (simp_all add: log_event_def)
  have k0: "k \<noteq> 0" using stk(2) kh.null_not_live [OF wf] by auto
  have free: "heap_wf (kfree k t)" "live (kfree k t) = (live s)(k := None)"
    using kfree_effect [of t k m] heap_wf_cong [OF t(1,2)] wf stk(2) by simp_all
  define u where "u = (pcb_upd (unat p) (\<lambda>b. b\<lparr>pstate := PROCESS_STATE_ZOMBIE\<rparr>)
    (pcb_upd (unat p) (\<lambda>b. b\<lparr>kernel_stack := 0\<rparr>) (kfree k t)))\<lparr>process_count := process_count s - 1\<rparr>"
  define s' where "s' = log_event (Printk ''process: Terminated PID %d\<newline>'' [KDec (sint p)]) u"
  have rem: "scheduler_remove_process p s = Inr t"
    using p(3) ready(1) r(1) by (simp add: scheduler_remove_process_def t_def e_def)
  have "\<not> next_pid s \<le> p" using p(2) by simp
  then have call: "process_terminate p s = Inr s'"
    using p(1,3) ready(1) rem stk(1) k0 unfolding s'_def u_def by (simp add: process_terminate_def t b Let_def)
  have u: "heap_mem s' = heap_mem (kfree k t)" "heap_start s' = heap_start (kfree k t)"
    by (simp_all add: s'_def u_def log_event_def)
  have out: "unat p \<notin> set (h # ys @ zs)" using ready(2) by auto
  have "ready_ring s' (h # ys @ zs)"
    using r(2) out path_cong [of "ys @ zs" "pcbs s'" b] by (auto simp: s'_def u_def t)
  then show ?thesis using call free heap_wf_cong [OF u] b by (intro exI [of _ s']) (simp add: s'_def u_def t)
qed

text \<open>Processes 1 and 2 are ready; the stack of process 2 is the block that the heap has given out.\<close>

definition two_ready :: procs where
  "two_ready = kheap.extend kheap_used
     \<lparr>pcbs = (\<lambda>_. pcb_example 0 PROCESS_STATE_ZOMBIE None)(1 := pcb_example 1 PROCESS_STATE_READY (Some 2),
        2 := (pcb_example 2 PROCESS_STATE_READY (Some 1))\<lparr>kernel_stack := 0xE000000C\<rparr>),
      ready_queue = Some 1, current_process = Some 0, next_pid = 3, process_count = 3, stack = (\<lambda>_. 0),
      cpu = \<lparr>r_esp = 0, r_ebp = 0, r_ebx = 0, r_esi = 0, r_edi = 0, r_eip = 0\<rparr>\<rparr>"

theorem process_terminate_correct_witness:
  "\<exists>s'. process_terminate 2 two_ready = Inr s' \<and> ready_ring s' [1] \<and> live s' 0xE000000C = None"
proof -
  have heap: "heap_mem two_ready = heap_mem kheap_used" "heap_start two_ready = heap_start kheap_used"
    by (simp_all add: two_ready_def kheap.defs)
  then have "heap_blocks two_ready = heap_blocks kheap_used" by (simp add: heap_blocks_def)
  then have wf: "heap_wf two_ready" and l: "live two_ready 0xE000000C = Some 112"
    using kheap_used heap by (simp_all add: heap_wf_def live_def)
  have "pstate (pcbs two_ready 2) = PROCESS_STATE_READY" "ready_ring two_ready [1, 2]"
    "kernel_stack (pcbs two_ready 2) = 0xE000000C" "next_pid two_ready = 3"
    by (simp_all add: two_ready_def kheap.defs pcb_example_def)
  then show ?thesis using process_terminate_correct [OF wf, of 2 1 "[]" "[]" "0xE000000C" 112] l by auto
qed

section \<open>A blocked process in the ring\<close>

lemma block_rotating:
  assumes "rotating A H X s" and "pnext (pcbs s X) = Some A" and "pid (pcbs s A) \<noteq> 0" and "tail wq = None"
    and "process_block wq s = (wq', s')"
  shows "head wq' = Some A" "tail wq' = Some A" "current_process s' = Some H" "ready_queue s' = Some X"
    "pnext (pcbs s' X) = Some A" "pstate (pcbs s' A) = PROCESS_STATE_BLOCKED" "pstate (pcbs s' H) = PROCESS_STATE_RUNNING"
    "process_count s' \<noteq> 0"
  using assms by (auto simp: rotating_def process_block_def scheduler_schedule_def pick_next_def Let_def)



definition three_processes :: procs where
  "three_processes = procs_base\<lparr>current_process := Some 1, ready_queue := Some 2, process_count := 3,
     pcbs := (\<lambda>_. pcb_example 0 PROCESS_STATE_ZOMBIE None)
       (0 := pcb_example 0 PROCESS_STATE_READY (Some 1), 1 := pcb_example 1 PROCESS_STATE_RUNNING (Some 2),
        2 := pcb_example 2 PROCESS_STATE_READY (Some 0))\<rparr>"


end
