(* ===== verification/Sync.thy ===== *)
theory Sync
  imports Process_Props
begin

text \<open>
  The synchronisation primitives of \<open>sync.h\<close> and \<open>sync.c\<close>: atomic operations, spinlocks and
  mutexes, with the mutual exclusion both locks give.
\<close>

section \<open>Atomic operations\<close>

text \<open>
  An \<open>atomic_t\<close> is its 32-bit value. An operation maps the value to the result and the new value,
  in one indivisible step; addition wraps.
\<close>

type_synonym atomic_t = u32

definition atomic_set :: "atomic_t \<Rightarrow> u32 \<Rightarrow> atomic_t" where
  "atomic_set a v = v"

definition atomic_get :: "atomic_t \<Rightarrow> u32" where
  "atomic_get a = a"

definition atomic_xchg :: "atomic_t \<Rightarrow> u32 \<Rightarrow> u32 \<times> atomic_t" where
  "atomic_xchg a v = (a, v)"

definition atomic_cmpxchg :: "atomic_t \<Rightarrow> u32 \<Rightarrow> u32 \<Rightarrow> u32 \<times> atomic_t" where
  "atomic_cmpxchg a old new = (a, if a = old then new else a)"

text \<open>\<open>lock xadd\<close>: the old value is returned, the sum is stored.\<close>

definition xadd :: "atomic_t \<Rightarrow> u32 \<Rightarrow> u32 \<times> atomic_t" where
  "xadd a v = (a, a + v)"

definition atomic_inc :: "atomic_t \<Rightarrow> u32 \<times> atomic_t" where
  "atomic_inc a = (let (r, a) = xadd a 1 in (r + 1, a))"

definition atomic_dec :: "atomic_t \<Rightarrow> u32 \<times> atomic_t" where
  "atomic_dec a = (let (r, a) = xadd a (- 1) in (r - 1, a))"

definition atomic_add :: "atomic_t \<Rightarrow> u32 \<Rightarrow> u32 \<times> atomic_t" where
  "atomic_add a v = (let (r, a) = xadd a v in (r + v, a))"

section \<open>Spinlocks\<close>

record spinlock_t =
  locked :: atomic_t

definition spinlock_init :: "spinlock_t \<Rightarrow> spinlock_t" where
  "spinlock_init l = l\<lparr>locked := 0\<rparr>"

definition spinlock_unlock :: "spinlock_t \<Rightarrow> spinlock_t" where
  "spinlock_unlock l = l\<lparr>locked := 0\<rparr>"

definition spinlock_trylock :: "spinlock_t \<Rightarrow> bool \<times> spinlock_t" where
  "spinlock_trylock l = (let (old, v) = atomic_xchg (locked l) 1 in (old = 0, l\<lparr>locked := v\<rparr>))"

text \<open>
  \<open>spinlock_lock\<close> when nobody else changes the lock, as on a single processor with interrupts
  off: the inner loop, then the exchange again.
\<close>

partial_function (option) spin_wait :: "spinlock_t \<Rightarrow> spinlock_t option" where
  "spin_wait l = (if atomic_get (locked l) \<noteq> 0 then spin_wait l else Some l)"

partial_function (option) spinlock_lock :: "spinlock_t \<Rightarrow> spinlock_t option" where
  "spinlock_lock l =
     (let (old, v) = atomic_xchg (locked l) 1; l = l\<lparr>locked := v\<rparr> in
      if old \<noteq> 0 then Option.bind (spin_wait l) spinlock_lock else Some l)"

declare spin_wait.simps [code] spinlock_lock.simps [code]

text \<open>The flags register, of which bit 9 enables interrupts, and \<open>cli\<close>.\<close>

record ksys = procs +
  eflags :: u32

abbreviation IF :: u32 where "IF \<equiv> 0x200"

definition cli :: "'a ksys_scheme \<Rightarrow> 'a ksys_scheme" where
  "cli s = s\<lparr>eflags := eflags s AND NOT IF\<rparr>"

definition spinlock_lock_irqsave ::
  "spinlock_t \<Rightarrow> 'a ksys_scheme \<Rightarrow> (u32 \<times> spinlock_t \<times> 'a ksys_scheme) option" where
  "spinlock_lock_irqsave l s =
     (let fl = eflags s; s = cli s in Option.bind (spinlock_lock l) (\<lambda>l. Some (fl, l, s)))"

definition spinlock_unlock_irqrestore :: "spinlock_t \<Rightarrow> u32 \<Rightarrow> 'a ksys_scheme \<Rightarrow> spinlock_t \<times> 'a ksys_scheme" where
  "spinlock_unlock_irqrestore l fl s = (spinlock_unlock l, s\<lparr>eflags := fl\<rparr>)"

text \<open>
  Several processors or interrupts sharing one spinlock: the position of each agent in
  \<open>spinlock_lock\<close>, and one step per access to the lock.
\<close>

datatype spin_pc = Outside | At_xchg | At_test | Inside

inductive spin_step :: "spinlock_t \<times> (nat \<Rightarrow> spin_pc) \<Rightarrow> spinlock_t \<times> (nat \<Rightarrow> spin_pc) \<Rightarrow> bool" where
  enter: "pc i = Outside \<Longrightarrow> spin_step (l, pc) (l, pc(i := At_xchg))"
| xchg: "pc i = At_xchg \<Longrightarrow> atomic_xchg (locked l) 1 = (old, v) \<Longrightarrow>
    spin_step (l, pc) (l\<lparr>locked := v\<rparr>, pc(i := if old \<noteq> 0 then At_test else Inside))"
| test: "pc i = At_test \<Longrightarrow>
    spin_step (l, pc) (l, pc(i := if atomic_get (locked l) \<noteq> 0 then At_test else At_xchg))"
| attempt: "pc i = Outside \<Longrightarrow> spinlock_trylock l = (ok, l') \<Longrightarrow>
    spin_step (l, pc) (l', pc(i := if ok then Inside else Outside))"
| leave: "pc i = Inside \<Longrightarrow> spin_step (l, pc) (spinlock_unlock l, pc(i := Outside))"

section \<open>Mutexes\<close>

record mutex_t =
  mlocked :: u32
  waiters :: wait_queue_t

definition mutex_init :: "mutex_t \<Rightarrow> mutex_t" where
  "mutex_init m = m\<lparr>mlocked := 0, waiters := wait_queue_init (waiters m)\<rparr>"

text \<open>
  The loop of \<open>mutex_lock\<close>, with interrupts off, until the mutex is acquired (\<open>True\<close>) or
  \<open>process_block\<close> has switched to another process (\<open>False\<close>). When \<open>process_block\<close> comes back to
  the same process, the loop goes on; a process that is switched in again continues the same way.
\<close>

partial_function (option) mutex_loop ::
  "nat \<Rightarrow> u32 \<Rightarrow> mutex_t \<Rightarrow> 'a ksys_scheme \<Rightarrow> (bool \<times> mutex_t \<times> 'a ksys_scheme) option" where
  "mutex_loop spin fl m s =
     (let (old, v) = (if mlocked m = 0 then atomic_xchg (mlocked m) 1 else (1, mlocked m));
          m = m\<lparr>mlocked := v\<rparr> in
      if old = 0 then Some (True, m, s\<lparr>eflags := fl\<rparr>)
      else if spin < 8 then mutex_loop (spin + 1) fl m s
      else let (w, s') = process_block (waiters m) s; m = m\<lparr>waiters := w\<rparr> in
        if current_process s' = current_process s then mutex_loop 1 fl m s'
        else Some (False, m, s'))"

declare mutex_loop.simps [code]

definition mutex_lock :: "mutex_t \<Rightarrow> 'a ksys_scheme \<Rightarrow> (bool \<times> mutex_t \<times> 'a ksys_scheme) option" where
  "mutex_lock m s = (let fl = eflags s; s = cli s in mutex_loop 0 fl m s)"

definition mutex_unlock :: "mutex_t \<Rightarrow> 'a ksys_scheme \<Rightarrow> mutex_t \<times> 'a ksys_scheme" where
  "mutex_unlock m s =
     (let fl = eflags s; s = cli s;
          m = m\<lparr>mlocked := 0\<rparr>;
          (w, s) = process_wake (waiters m) s
      in (m\<lparr>waiters := w\<rparr>, s\<lparr>eflags := fl\<rparr>))"

definition mutex_trylock :: "mutex_t \<Rightarrow> 'a ksys_scheme \<Rightarrow> bool \<times> mutex_t \<times> 'a ksys_scheme" where
  "mutex_trylock m s =
     (let fl = eflags s; s = cli s;
          (old, v) = atomic_xchg (mlocked m) 1
      in (old = 0, m\<lparr>mlocked := v\<rparr>, s\<lparr>eflags := fl\<rparr>))"

text \<open>
  Processes sharing one mutex. The current process acts; between calls it may be preempted, and
  its code changes registers and stacks. \<open>fl i\<close> are the flags that process \<open>i\<close> has saved.
\<close>

datatype mutex_pc = Out | Waiting | Holding

inductive mutex_step ::
  "mutex_t \<times> ksys \<times> (nat \<Rightarrow> mutex_pc) \<times> (nat \<Rightarrow> u32) \<Rightarrow> mutex_t \<times> ksys \<times> (nat \<Rightarrow> mutex_pc) \<times> (nat \<Rightarrow> u32) \<Rightarrow> bool"
where
  lock: "current_process s = Some i \<Longrightarrow> pc i = Out \<Longrightarrow> mutex_lock m s = Some (ok, m', s') \<Longrightarrow>
    mutex_step (m, s, pc, fl) (m', s', pc(i := if ok then Holding else Waiting), fl(i := eflags s))"
| resume: "current_process s = Some i \<Longrightarrow> pc i = Waiting \<Longrightarrow> mutex_loop 1 (fl i) m s = Some (ok, m', s') \<Longrightarrow>
    mutex_step (m, s, pc, fl) (m', s', pc(i := if ok then Holding else Waiting), fl)"
| trylock: "current_process s = Some i \<Longrightarrow> pc i = Out \<Longrightarrow> mutex_trylock m s = (ok, m', s') \<Longrightarrow>
    mutex_step (m, s, pc, fl) (m', s', pc(i := if ok then Holding else Out), fl)"
| unlock: "current_process s = Some i \<Longrightarrow> pc i = Holding \<Longrightarrow> mutex_unlock m s = (m', s') \<Longrightarrow>
    mutex_step (m, s, pc, fl) (m', s', pc(i := Out), fl)"
| preempt: "current_process s = Some i \<Longrightarrow> pc i \<noteq> Waiting \<Longrightarrow>
    mutex_step (m, s, pc, fl) (m, scheduler_schedule s, pc, fl)"
| code: "mutex_step (m, s, pc, fl) (m, s\<lparr>stack := st, cpu := c\<rparr>, pc, fl)"

section \<open>Mutual exclusion\<close>

text \<open>
  Both locks keep the same contract: the lock word is 0 exactly when nobody is inside, and nobody
  but one agent is inside otherwise.
\<close>

definition exclusive :: "u32 \<Rightarrow> (nat \<Rightarrow> bool) \<Rightarrow> bool" where
  "exclusive v ins \<longleftrightarrow> (if v = 0 then \<forall>i. \<not> ins i else v = 1 \<and> (\<exists>i. ins i \<and> (\<forall>j. ins j \<longrightarrow> j = i)))"

lemma exclusive_enter:
  assumes "exclusive 0 ins" and "\<And>j. ins' j \<longleftrightarrow> j = i \<or> ins j" shows "exclusive 1 ins'"
  using assms by (auto simp: exclusive_def)

lemma exclusive_leave:
  assumes "exclusive v ins" and "ins i" and "\<And>j. ins' j \<longleftrightarrow> j \<noteq> i \<and> ins j" shows "exclusive 0 ins'"
  using assms by (auto simp: exclusive_def split: if_splits)

lemma exclusive_stay: "exclusive v ins \<Longrightarrow> (\<And>j. ins' j = ins j) \<Longrightarrow> exclusive v ins'"
  by (simp add: exclusive_def)

locale exclusion =
  fixes step :: "'c \<Rightarrow> 'c \<Rightarrow> bool"
    and lock_word :: "'c \<Rightarrow> u32"
    and inside :: "'c \<Rightarrow> nat \<Rightarrow> bool"
  assumes step_exclusive: "step c c' \<Longrightarrow> exclusive (lock_word c) (inside c) \<Longrightarrow> exclusive (lock_word c') (inside c')"
begin

lemma reachable_exclusive:
  "step\<^sup>*\<^sup>* c c' \<Longrightarrow> exclusive (lock_word c) (inside c) \<Longrightarrow> exclusive (lock_word c') (inside c')"
  by (induction rule: rtranclp_induct) (auto intro: step_exclusive)

lemma at_most_one:
  assumes "lock_word c = 0" and "\<forall>i. \<not> inside c i" and "step\<^sup>*\<^sup>* c c'" and "inside c' i"
  shows "lock_word c' = 1 \<and> (inside c' j \<longrightarrow> j = i)"
proof -
  have "exclusive (lock_word c') (inside c')" using reachable_exclusive [OF assms(3)] assms(1,2) by (simp add: exclusive_def)
  then show ?thesis using assms(4) by (auto simp: exclusive_def split: if_splits)
qed

end

lemma spin_step_exclusive:
  assumes "spin_step c c'" and "exclusive (locked (fst c)) (\<lambda>i. snd c i = Inside)"
  shows "exclusive (locked (fst c')) (\<lambda>i. snd c' i = Inside)"
  using assms
proof cases
  case (xchg pc i l old v)
  show ?thesis
  proof (cases "old = 0")
    case True
    then show ?thesis using xchg assms(2) by (auto simp: atomic_xchg_def intro: exclusive_enter)
  next
    case False
    then have "locked l = 1" using xchg assms(2) by (auto simp: atomic_xchg_def exclusive_def split: if_splits)
    then show ?thesis using xchg assms(2) False by (auto simp: atomic_xchg_def elim: exclusive_stay)
  qed
next
  case (attempt pc i l ok l')
  show ?thesis
  proof (cases ok)
    case True
    then show ?thesis using attempt assms(2) by (auto simp: atomic_xchg_def spinlock_trylock_def intro: exclusive_enter)
  next
    case False
    then have "locked l = 1" using attempt assms(2)
      by (auto simp: atomic_xchg_def spinlock_trylock_def exclusive_def split: if_splits)
    moreover have "snd c' j = Inside \<longleftrightarrow> snd c j = Inside" for j using attempt False by simp
    ultimately have "exclusive (locked (fst c)) (\<lambda>j. snd c' j = Inside)" by (intro exclusive_stay [OF assms(2)]) simp
    moreover have "locked (fst c') = locked (fst c)"
      using attempt \<open>locked l = 1\<close> by (auto simp: atomic_xchg_def spinlock_trylock_def)
    ultimately show ?thesis by simp
  qed
next
  case (leave pc i l)
  then show ?thesis using assms(2) by (auto simp: spinlock_unlock_def intro: exclusive_leave [where i = i])
qed (auto elim: exclusive_stay)

lemma mutex_exclusive_change:
  assumes "exclusive v ins" and "if ok then v = 0 \<and> v' = 1 else v' = v"
    and "\<And>j. ins' j \<longleftrightarrow> (ok \<and> j = i) \<or> ins j"
  shows "exclusive v' ins'"
proof (cases ok)
  case True
  then show ?thesis using assms exclusive_enter [of ins ins' i] by auto
next
  case False
  then show ?thesis using assms exclusive_stay [of v ins ins'] by auto
qed

lemma mutex_loop_effect:
  assumes "mutex_loop spin fl m s = Some r"
  shows "if fst r then mlocked m = 0 \<and> mlocked (fst (snd r)) = 1 else mlocked m \<noteq> 0 \<and> mlocked (fst (snd r)) = mlocked m"
  using assms
  by (rule mutex_loop.raw_induct [rotated, where P = "\<lambda>spin fl m s r. if fst r
        then mlocked m = 0 \<and> mlocked (fst (snd r)) = 1 else mlocked m \<noteq> 0 \<and> mlocked (fst (snd r)) = mlocked m"])
    (fastforce simp: Let_def atomic_xchg_def split: if_splits prod.splits)

interpretation spin: exclusion spin_step "\<lambda>(l, pc). locked l" "\<lambda>(l, pc) i. pc i = Inside"
proof
  fix c c'
  assume "spin_step c c'" "exclusive (case c of (l, pc) \<Rightarrow> locked l) (case c of (l, pc) \<Rightarrow> \<lambda>i. pc i = Inside)"
  then show "exclusive (case c' of (l, pc) \<Rightarrow> locked l) (case c' of (l, pc) \<Rightarrow> \<lambda>i. pc i = Inside)"
    using spin_step_exclusive [of c c'] by (simp add: case_prod_beta)
qed

lemma mutex_step_exclusive:
  assumes "mutex_step c c'" and "exclusive (mlocked (fst c)) (\<lambda>i. fst (snd (snd c)) i = Holding)"
  shows "exclusive (mlocked (fst c')) (\<lambda>i. fst (snd (snd c')) i = Holding)"
  using assms(1)
proof cases
  case (lock s i pc m ok m' s' fl)
  then have "if ok then mlocked m = 0 \<and> mlocked m' = 1 else mlocked m' = mlocked m"
    using mutex_loop_effect [of 0 "eflags s" m "cli s" "(ok, m', s')"] by (simp add: mutex_lock_def Let_def split: if_splits)
  then have "exclusive (mlocked m') (\<lambda>j. (pc(i := if ok then Holding else Waiting)) j = Holding)"
    using lock by (intro mutex_exclusive_change [OF assms(2), where ok = ok and i = i]) auto
  then show ?thesis using lock by simp
next
  case (resume s i pc fl m ok m' s')
  then have "if ok then mlocked m = 0 \<and> mlocked m' = 1 else mlocked m' = mlocked m"
    using mutex_loop_effect [of 1 "fl i" m s "(ok, m', s')"] by (simp split: if_splits)
  then have "exclusive (mlocked m') (\<lambda>j. (pc(i := if ok then Holding else Waiting)) j = Holding)"
    using resume by (intro mutex_exclusive_change [OF assms(2), where ok = ok and i = i]) auto
  then show ?thesis using resume by simp
next
  case (trylock s i pc m ok m' s' fl)
  have "mlocked m = 0 \<or> mlocked m = 1" using assms(2) trylock(1) by (auto simp: exclusive_def split: if_splits)
  then have "if ok then mlocked m = 0 \<and> mlocked m' = 1 else mlocked m' = mlocked m"
    using trylock by (auto simp: mutex_trylock_def Let_def atomic_xchg_def)
  then have "exclusive (mlocked m') (\<lambda>j. (pc(i := if ok then Holding else Out)) j = Holding)"
    using trylock by (intro mutex_exclusive_change [OF assms(2), where ok = ok and i = i]) auto
  then show ?thesis using trylock by simp
next
  case (unlock s i pc m m' s' fl)
  then have "mlocked m' = 0" by (auto simp: mutex_unlock_def Let_def split: prod.splits)
  then show ?thesis using unlock assms(2) by (auto intro: exclusive_leave [where i = i])
qed (use assms(2) in simp_all)

interpretation mutex: exclusion mutex_step "\<lambda>(m, s, pc, fl). mlocked m" "\<lambda>(m, s, pc, fl) i. pc i = Holding"
proof
  fix c c'
  assume "mutex_step c c'" "exclusive (case c of (m, s, pc, fl) \<Rightarrow> mlocked m) (case c of (m, s, pc, fl) \<Rightarrow> \<lambda>i. pc i = Holding)"
  then show "exclusive (case c' of (m, s, pc, fl) \<Rightarrow> mlocked m) (case c' of (m, s, pc, fl) \<Rightarrow> \<lambda>i. pc i = Holding)"
    using mutex_step_exclusive [of c c'] by (simp add: case_prod_beta)
qed

section \<open>Locking on a single processor\<close>

lemma spin_wait_result: "spin_wait l = (if locked l = 0 then Some l else None)"
proof (cases "spin_wait l")
  case None
  then show ?thesis by (subst spin_wait.simps) (auto simp: atomic_get_def spin_wait.simps)
next
  case (Some r)
  then have "locked l = 0 \<and> r = l"
    by (rule spin_wait.raw_induct [rotated, where P = "\<lambda>l r. locked l = 0 \<and> r = l"]) (auto simp: atomic_get_def split: if_splits)
  with Some show ?thesis by simp
qed

text \<open>With nobody to release it, waiting for a held spinlock does not end.\<close>

lemma spinlock_lock_result: "spinlock_lock l = (if locked l = 0 then Some (l\<lparr>locked := 1\<rparr>) else None)"
  by (subst spinlock_lock.simps) (simp add: atomic_xchg_def spin_wait_result)

lemma spinlock_irq_roundtrip:
  assumes "locked l = 0" and "spinlock_lock_irqsave l s = Some (fl, l', s')"
  shows "locked l' = 1" "eflags s' AND IF = 0" "spinlock_unlock_irqrestore l' fl s' = (l, s)"
  using assms
  by (auto simp: spinlock_lock_irqsave_def spinlock_lock_result Let_def cli_def spinlock_unlock_irqrestore_def
      spinlock_unlock_def and.assoc)

lemma mutex_loop_free: "mlocked m = 0 \<Longrightarrow> mutex_loop spin fl m s = Some (True, m\<lparr>mlocked := 1\<rparr>, s\<lparr>eflags := fl\<rparr>)"
  by (subst mutex_loop.simps) (simp add: atomic_xchg_def)

lemma mutex_loop_spins: "mlocked m \<noteq> 0 \<Longrightarrow> spin \<le> 8 \<Longrightarrow> mutex_loop spin fl m s = mutex_loop 8 fl m s"
proof (induction "8 - spin" arbitrary: spin)
  case (Suc n)
  have "spin < 8" using Suc.hyps(2) by simp
  then have "mutex_loop spin fl m s = mutex_loop (Suc spin) fl m s"
    using Suc.prems(1) by (subst mutex_loop.simps) simp
  moreover have "n = 8 - Suc spin" "Suc spin \<le> 8" using Suc.hyps(2) by simp_all
  ultimately show ?case using Suc.hyps(1) [of "Suc spin"] Suc.prems(1) by simp
qed simp

lemma mutex_loop_blocks:
  assumes "mlocked m \<noteq> 0" and "process_block (waiters m) s = (w, s')" and "current_process s' \<noteq> current_process s"
  shows "mutex_loop 8 fl m s = Some (False, m\<lparr>waiters := w\<rparr>, s')"
  using assms by (subst mutex_loop.simps) simp

lemma schedule_switches:
  assumes "current_process s = Some c" "process_count s \<noteq> 0" "pid (pcbs s c) \<noteq> 0" "ready_queue s \<noteq> Some c" "c \<noteq> 0"
  shows "current_process (scheduler_schedule s) \<noteq> Some c"
  using assms by (auto simp: scheduler_schedule_def pick_next_def Let_def split: option.splits)

lemma process_block_switches:
  assumes "current_process s = Some c" "process_count s \<noteq> 0" "pid (pcbs s c) \<noteq> 0" "ready_queue s \<noteq> Some c" "c \<noteq> 0"
    and "process_block wq s = (wq', s')"
  shows "current_process s' \<noteq> Some c"
proof -
  let ?t = "pcb_upd c (\<lambda>b. b\<lparr>pnext := None\<rparr>) (pcb_upd c (\<lambda>b. b\<lparr>pstate := PROCESS_STATE_BLOCKED\<rparr>) s)"
  let ?u = "case tail wq of Some l \<Rightarrow> pcb_upd l (\<lambda>b. b\<lparr>pnext := Some c\<rparr>) ?t | None \<Rightarrow> ?t"
  have "s' = scheduler_schedule ?u" using assms by (auto simp: process_block_def Let_def split: option.splits)
  moreover have "current_process ?u = Some c" "process_count ?u \<noteq> 0" "pid (pcbs ?u c) \<noteq> 0" "ready_queue ?u \<noteq> Some c"
    using assms(1-4) by (simp_all split: option.splits)
  ultimately show ?thesis using schedule_switches assms(5) by blast
qed

definition sync_example :: ksys where
  "sync_example = procs.extend (three_processes\<lparr>pcbs := (pcbs three_processes)(0 := pcb_example 0 PROCESS_STATE_READY None)\<rparr>)
     \<lparr>eflags = 0x202\<rparr>"

lemma sync_example_fields:
  "current_process sync_example = Some 1" "pid (pcbs sync_example 1) \<noteq> 0" "process_count sync_example \<noteq> 0"
  "ready_queue sync_example = Some 2"
  by (simp_all add: sync_example_def procs.defs three_processes_def pcb_example_def)

abbreviation held_mutex :: mutex_t where
  "held_mutex \<equiv> \<lparr>mlocked = 1, waiters = \<lparr>head = None, tail = None\<rparr>\<rparr>"

text \<open>
  The idle process cannot wait: \<open>process_block\<close> returns to it at once, so that \<open>mutex_lock\<close> of a
  held mutex does not return when the current process has number 0, and interrupts stay off.
\<close>

lemma mutex_lock_idle_hangs:
  assumes "current_process s = Some c" and "pid (pcbs s c) = 0" and "mlocked m \<noteq> 0"
  shows "mutex_lock m s = None"
proof -
  have "current_process s = Some c \<and> pid (pcbs s c) = 0 \<longrightarrow> mlocked m = 0"
    if "mutex_loop spin fl m s = Some r" for spin fl m r and s :: "'a ksys_scheme"
    using that
    by (rule mutex_loop.raw_induct [rotated, where P = "\<lambda>spin fl m s r. current_process s = Some c \<and> pid (pcbs s c) = 0 \<longrightarrow> mlocked m = 0"])
      (auto simp: Let_def atomic_xchg_def process_block_def split: if_splits prod.splits)
  then show ?thesis using assms by (cases "mutex_lock m s") (fastforce simp: mutex_lock_def cli_def)+
qed

lemma mutex_lock_blocks:
  assumes cur: "current_process s = Some c" "c \<noteq> 0" "pid (pcbs s c) \<noteq> 0" "process_count s \<noteq> 0" "ready_queue s \<noteq> Some c"
    and wl: "wait_list s (waiters m) xs" "c \<notin> set xs" and held: "mlocked m \<noteq> 0"
  shows "\<exists>m' s'. mutex_lock m s = Some (False, m', s') \<and> mlocked m' = mlocked m \<and> wait_list s' (waiters m') (xs @ [c]) \<and>
      pstate (pcbs s' c) = PROCESS_STATE_BLOCKED \<and> current_process s' \<noteq> Some c"
proof -
  obtain w s' where b: "process_block (waiters m) (cli s) = (w, s')" by fastforce
  have sw: "current_process s' \<noteq> Some c" by (rule process_block_switches [OF _ _ _ _ _ b]) (use cur in \<open>simp_all add: cli_def\<close>)
  have "wait_list (cli s) (waiters m) xs" using wl(1) by (simp add: wait_list_def cli_def)
  from process_block_appends [OF this _ _ wl(2) b] cur
  have "wait_list s' w (xs @ [c])" "pstate (pcbs s' c) = PROCESS_STATE_BLOCKED" by (simp_all add: cli_def)
  moreover have "mutex_lock m s = Some (False, m\<lparr>waiters := w\<rparr>, s')"
    using mutex_loop_blocks [OF held b, of "eflags s"] mutex_loop_spins [OF held, of 0 "eflags s" "cli s"] sw cur(1)
    by (simp add: mutex_lock_def Let_def cli_def)
  ultimately show ?thesis using sw by auto
qed

text \<open>
  C28. \<open>mutex_lock\<close> by any current process. A free mutex is taken at once and the interrupt flag is
  restored. When the mutex is held, a process with number 0 (the idle process, in whose context
  \<open>kernel_main\<close> runs) never gets out of the call. Any other process in a slot other than 0 that is
  neither the head of the ready queue nor waiting already is put at the end of the mutex's wait
  queue, in the state blocked, and another process runs; the mutex stays held.
\<close>

theorem mutex_lock_correct:
  assumes cur: "current_process s = Some c"
  shows "(mlocked m = 0 \<longrightarrow> mutex_lock m s = Some (True, m\<lparr>mlocked := 1\<rparr>, s)) \<and>
    (mlocked m \<noteq> 0 \<and> pid (pcbs s c) = 0 \<longrightarrow> mutex_lock m s = None) \<and>
    (\<forall>xs. mlocked m \<noteq> 0 \<and> c \<noteq> 0 \<and> pid (pcbs s c) \<noteq> 0 \<and> process_count s \<noteq> 0 \<and> ready_queue s \<noteq> Some c \<and>
        wait_list s (waiters m) xs \<and> c \<notin> set xs \<longrightarrow>
      (\<exists>m' s'. mutex_lock m s = Some (False, m', s') \<and> mlocked m' = mlocked m \<and> wait_list s' (waiters m') (xs @ [c]) \<and>
        pstate (pcbs s' c) = PROCESS_STATE_BLOCKED \<and> current_process s' \<noteq> Some c))"
proof -
  have "mutex_lock m s = Some (True, m\<lparr>mlocked := 1\<rparr>, s)" if "mlocked m = 0"
    using mutex_loop_free [OF that, of 0 "eflags s" "cli s"] by (simp add: mutex_lock_def Let_def cli_def)
  then show ?thesis using mutex_lock_idle_hangs [OF cur] mutex_lock_blocks [OF cur] by blast
qed

theorem mutex_lock_correct_witness:
  "(\<exists>m' s'. mutex_lock held_mutex sync_example = Some (False, m', s') \<and> wait_list s' (waiters m') [1]) \<and>
   mutex_lock held_mutex (sync_example\<lparr>current_process := Some 0\<rparr>) = None"
proof
  have "wait_list sync_example (waiters held_mutex) []" by (simp add: wait_list_def)
  then show "\<exists>m' s'. mutex_lock held_mutex sync_example = Some (False, m', s') \<and> wait_list s' (waiters m') [1]"
    using mutex_lock_correct [of sync_example 1 held_mutex] sync_example_fields by fastforce
  have "pid (pcbs (sync_example\<lparr>current_process := Some 0\<rparr>) 0) = 0"
    by (simp add: sync_example_def procs.defs three_processes_def pcb_example_def)
  then show "mutex_lock held_mutex (sync_example\<lparr>current_process := Some 0\<rparr>) = None"
    using mutex_lock_correct [of "sync_example\<lparr>current_process := Some 0\<rparr>" 0 held_mutex] by simp
qed

text \<open>
  C29. \<open>mutex_unlock\<close> frees the mutex and wakes the process that has waited longest: it leaves the
  wait queue, becomes ready and enters the ready queue behind its head. The interrupt flag
  is what it was.
\<close>

theorem mutex_unlock_wakes_first:
  assumes "wait_list s (waiters m) (x # xs)" and "ready_ring s zs" and "set zs \<inter> set (x # xs) = {}"
  shows "\<exists>m' s'. mutex_unlock m s = (m', s') \<and> mlocked m' = 0 \<and> wait_list s' (waiters m') xs \<and>
    ready_ring s' (ring_add x zs) \<and> pstate (pcbs s' x) = PROCESS_STATE_READY \<and> eflags s' = eflags s"
proof -
  have "wait_list (cli s) (waiters m) (x # xs)" "ready_ring (cli s) zs"
    using assms(1,2) by (cases zs; simp add: wait_list_def cli_def)+
  then obtain w t where w: "process_wake (waiters m) (cli s) = (w, t)" "wait_list t w xs" "ready_ring t (ring_add x zs)"
      "\<And>y. pstate (pcbs t y) = (if y = x then PROCESS_STATE_READY else pstate (pcbs (cli s) y))"
    using process_wake_first assms(3) by blast
  then have "mutex_unlock m s = (m\<lparr>mlocked := 0, waiters := w\<rparr>, t\<lparr>eflags := eflags s\<rparr>)"
    by (simp add: mutex_unlock_def Let_def)
  moreover have "wait_list (t\<lparr>eflags := eflags s\<rparr>) w xs" "ready_ring (t\<lparr>eflags := eflags s\<rparr>) (ring_add x zs)"
    using w(2,3) by (cases zs; simp add: wait_list_def)+
  ultimately show ?thesis using w(4) by simp
qed

theorem mutex_unlock_wakes_first_witness:
  "\<exists>m' s'. mutex_unlock \<lparr>mlocked = 1, waiters = \<lparr>head = Some 1, tail = Some 2\<rparr>\<rparr> (procs.extend two_waiting \<lparr>eflags = 0x202\<rparr>) = (m', s') \<and>
     mlocked m' = 0 \<and> ready_ring s' [1] \<and> wait_list s' (waiters m') [2]"
proof -
  let ?s = "procs.extend two_waiting \<lparr>eflags = 0x202\<rparr>"
  have "wait_list ?s \<lparr>head = Some 1, tail = Some 2\<rparr> [1, 2]" "ready_ring ?s []"
    by (simp_all add: wait_list_def two_waiting_def pcb_example_def procs_base_def procs.defs kheap.defs)
  then show ?thesis
    using mutex_unlock_wakes_first [of ?s "\<lparr>mlocked = 1, waiters = \<lparr>head = Some 1, tail = Some 2\<rparr>\<rparr>" 1 "[2]" "[]"] by auto
qed

section \<open>Mutual exclusion of the locks\<close>

text \<open>
  C27. A spinlock gives mutual exclusion however the agents interleave: in every state reached from
  a free lock at most one agent is past \<open>spinlock_lock\<close> or a successful \<open>spinlock_trylock\<close>. And
  when nobody is, an agent at its exchange gets the lock by that step.
\<close>

theorem spinlock_mutual_exclusion:
  assumes "locked l = 0" and "\<forall>i. pc i = Outside" and "spin_step\<^sup>*\<^sup>* (l, pc) (l', pc')"
  shows "(\<forall>i j. pc' i = Inside \<and> pc' j = Inside \<longrightarrow> i = j) \<and>
    ((\<forall>i. pc' i \<noteq> Inside) \<longrightarrow> (\<forall>i. pc' i = At_xchg \<longrightarrow> spin_step (l', pc') (l'\<lparr>locked := 1\<rparr>, pc'(i := Inside))))"
proof -
  have ex: "exclusive (locked l') (\<lambda>i. pc' i = Inside)"
    using spin.reachable_exclusive [OF assms(3)] assms(1,2) by (simp add: exclusive_def)
  have "spin_step (l', pc') (l'\<lparr>locked := 1\<rparr>, pc'(i := Inside))" if "\<forall>i. pc' i \<noteq> Inside" "pc' i = At_xchg" for i
  proof -
    have "locked l' = 0" using ex that(1) by (auto simp: exclusive_def split: if_splits)
    then show ?thesis using spin_step.xchg [of pc' i l' 0 1] that(2) by (simp add: atomic_xchg_def)
  qed
  then show ?thesis using ex by (auto simp: exclusive_def split: if_splits)
qed

theorem spinlock_mutual_exclusion_witness:
  "\<exists>l' pc'. spin_step\<^sup>*\<^sup>* (\<lparr>locked = 0\<rparr>, \<lambda>_. Outside) (l', pc') \<and> pc' 0 = Inside \<and> pc' 1 = At_test \<and> (\<forall>j. pc' j = Inside \<longrightarrow> j = 0)"
proof -
  let ?l = "\<lparr>locked = 0\<rparr>" and ?a = "\<lambda>_. Outside"
  have 1: "spin_step (?l, ?a) (?l, ?a(0 := At_xchg))" by (rule spin_step.enter) simp
  have 2: "spin_step (?l, ?a(0 := At_xchg)) (?l, ?a(0 := At_xchg, 1 := At_xchg))" by (rule spin_step.enter) simp
  have 3: "spin_step (?l, ?a(0 := At_xchg, 1 := At_xchg)) (\<lparr>locked = 1\<rparr>, ?a(0 := Inside, 1 := At_xchg))"
    using spin_step.xchg [of "?a(0 := At_xchg, 1 := At_xchg)" 0 ?l 0 1] by (simp add: atomic_xchg_def fun_upd_twist)
  have 4: "spin_step (\<lparr>locked = 1\<rparr>, ?a(0 := Inside, 1 := At_xchg)) (\<lparr>locked = 1\<rparr>, ?a(0 := Inside, 1 := At_test))"
    using spin_step.xchg [of "?a(0 := Inside, 1 := At_xchg)" 1 "\<lparr>locked = 1\<rparr>" 1 1] by (simp add: atomic_xchg_def)
  have "spin_step\<^sup>*\<^sup>* (?l, ?a) (\<lparr>locked = 1\<rparr>, ?a(0 := Inside, 1 := At_test))"
    by (rule converse_rtranclp_into_rtranclp [where r = spin_step, OF 1],
        rule converse_rtranclp_into_rtranclp [where r = spin_step, OF 2],
        rule converse_rtranclp_into_rtranclp [where r = spin_step, OF 3],
        rule r_into_rtranclp [where r = spin_step, OF 4])
  with spinlock_mutual_exclusion [OF _ _ this] show ?thesis
    by (intro exI [of _ "\<lparr>locked = 1\<rparr>"] exI [of _ "?a(0 := Inside, 1 := At_test)"]) simp
qed

text \<open>
  C3. A mutex gives mutual exclusion: starting with a free mutex, whatever the scheduler does and
  however the processes lock, try, wait, resume and unlock, at most one process holds it.
\<close>

theorem mutex_mutual_exclusion:
  assumes "mlocked m = 0" and "\<forall>i. pc i \<noteq> Holding" and "mutex_step\<^sup>*\<^sup>* (m, s, pc, fl) (m', s', pc', fl')"
    and "pc' i = Holding"
  shows "mlocked m' = 1 \<and> (\<forall>j. pc' j = Holding \<longrightarrow> j = i)"
  using mutex.at_most_one [OF _ _ assms(3), of i] assms(1,2,4) by simp

theorem mutex_mutual_exclusion_witness:
  "\<exists>m' s' pc' fl'. mutex_step\<^sup>*\<^sup>* (mutex_init held_mutex, sync_example, \<lambda>_. Out, \<lambda>_. 0) (m', s', pc', fl') \<and>
     pc' 1 = Holding \<and> mlocked m' = 1"
proof -
  let ?m = "mutex_init held_mutex"
  have lk: "mutex_lock ?m sync_example = Some (True, ?m\<lparr>mlocked := 1\<rparr>, sync_example)"
    using mutex_loop_free [of ?m 0 "eflags sync_example" "cli sync_example"]
    by (simp add: mutex_lock_def Let_def cli_def mutex_init_def)
  let ?fin = "(?m\<lparr>mlocked := 1\<rparr>, sync_example, (\<lambda>_. Out)(1 := Holding), (\<lambda>_. 0 :: u32)(1 := eflags sync_example))"
  from mutex_step.lock [OF sync_example_fields(1), where pc = "\<lambda>_. Out" and fl = "\<lambda>_. 0", OF _ lk]
  have steps: "mutex_step\<^sup>*\<^sup>* (?m, sync_example, \<lambda>_. Out, \<lambda>_. 0) ?fin" by auto
  have "mlocked (?m\<lparr>mlocked := 1\<rparr>) = 1"
    using mutex_mutual_exclusion [OF _ _ steps, of 1] by (simp add: mutex_init_def)
  then show ?thesis
    by (intro exI [of _ "?m\<lparr>mlocked := 1\<rparr>"] exI [of _ sync_example] exI [of _ "(\<lambda>_. Out)(1 := Holding)"]
        exI [of _ "(\<lambda>_. 0)(1 := eflags sync_example)"] conjI steps) simp_all
qed

end
