(* ===== verification/Terminal.thy ===== *)
theory Terminal
  imports Keyboard
begin

text \<open>
  The text console of \<open>kernel.c\<close>: the scrollback buffer and its view on the screen, formatted
  printing, the status line shown while the kernel boots, and the input line.
\<close>

section \<open>State\<close>

abbreviation VGA_ROWS :: nat where "VGA_ROWS \<equiv> 25"
abbreviation VGA_COLS :: nat where "VGA_COLS \<equiv> 80"
abbreviation VGA_ATTR :: u16 where "VGA_ATTR \<equiv> 0x07"
abbreviation SCROLLBACK_SIZE :: nat where "SCROLLBACK_SIZE \<equiv> 100"

text \<open>
  \<open>terminal_history[i][j]\<close> is cell \<open>80 i + j\<close> of \<open>terminal_history\<close>, as C lays out the array;
  \<open>interrupts_on\<close> is bit 9 of the flags register.
\<close>

record terminal = kbd +
  terminal_history :: "nat \<Rightarrow> u16"
  terminal_total_lines :: int
  scroll_view_offset :: int
  cursor_row :: u8
  cursor_col :: u8
  interrupts_on :: bool
  loading_status_active :: bool
  loading_status_line :: int
  loading_status_frame :: u32
  loading_status_label :: string
  loading_status_progress :: int

text \<open>\<open>c | (attr << 8)\<close>, stored in 16 bits: a \<open>char\<close> is signed and is extended to an \<open>int\<close> first.\<close>

definition vga_cell :: "u16 \<Rightarrow> char \<Rightarrow> u16" where
  "vga_cell attr c = scast (of_char c :: u8) OR push_bit 8 attr"

abbreviation blank :: u16 where "blank \<equiv> vga_cell VGA_ATTR (CHR '' '')"

definition set_cell :: "int \<Rightarrow> nat \<Rightarrow> u16 \<Rightarrow> 'a terminal_scheme \<Rightarrow> 'a terminal_scheme" where
  "set_cell line col v s = s\<lparr>terminal_history := (terminal_history s)(nat line * VGA_COLS + col := v)\<rparr>"

section \<open>The screen\<close>

definition start_row :: "'a terminal_scheme \<Rightarrow> int" where
  "start_row s =
     (let r = terminal_total_lines s - int VGA_ROWS - scroll_view_offset s in if r < 0 then 0 else r)"

definition vga_update_hardware_cursor :: "'a terminal_scheme \<Rightarrow> 'a terminal_scheme" where
  "vga_update_hardware_cursor s =
     (let screen_row = (terminal_total_lines s - 1) - start_row s;
          pos = (if 0 \<le> screen_row \<and> screen_row < int VGA_ROWS
                 then word_of_int (screen_row * int VGA_COLS + uint (cursor_col s))
                 else if int VGA_ROWS \<le> screen_row
                 then word_of_int ((int VGA_ROWS - 1) * int VGA_COLS + uint (cursor_col s))
                 else word_of_int (int VGA_ROWS * int VGA_COLS)) :: u16;
          s = io_outb 0x3D4 0x0F s;
          s = io_outb 0x3D5 (ucast (pos AND 0xFF)) s;
          s = io_outb 0x3D4 0x0E s
      in io_outb 0x3D5 (ucast (drop_bit 8 pos AND 0xFF)) s)"

definition refresh_cell :: "int \<Rightarrow> nat \<Rightarrow> nat \<Rightarrow> 'a terminal_scheme \<Rightarrow> 'a terminal_scheme" where
  "refresh_cell start r c s = s\<lparr>vga_buffer := (vga_buffer s)(r * VGA_COLS + c :=
     if start + int r < terminal_total_lines s
     then terminal_history s (nat (start + int r) * VGA_COLS + c) else blank)\<rparr>"

definition vga_refresh :: "'a terminal_scheme \<Rightarrow> 'a terminal_scheme" where
  "vga_refresh s =
     (let start = start_row s;
          s = for_loop 0 VGA_ROWS (\<lambda>r. for_loop 0 VGA_COLS (refresh_cell start r)) s
      in vga_update_hardware_cursor s)"

definition vga_scroll :: "int \<Rightarrow> 'a terminal_scheme \<Rightarrow> 'a terminal_scheme" where
  "vga_scroll delta s =
     (let s = s\<lparr>scroll_view_offset := scroll_view_offset s + delta\<rparr>;
          s = (if scroll_view_offset s < 0 then s\<lparr>scroll_view_offset := 0\<rparr> else s);
          max_offset = terminal_total_lines s - int VGA_ROWS;
          max_offset = (if max_offset < 0 then 0 else max_offset);
          s = (if max_offset < scroll_view_offset s then s\<lparr>scroll_view_offset := max_offset\<rparr> else s)
      in vga_refresh s)"

definition clear_line :: "int \<Rightarrow> 'a terminal_scheme \<Rightarrow> 'a terminal_scheme" where
  "clear_line line = for_loop 0 VGA_COLS (\<lambda>j. set_cell line j blank)"

definition vga_clear :: "'a terminal_scheme \<Rightarrow> 'a terminal_scheme" where
  "vga_clear s =
     (let s = for_loop 0 SCROLLBACK_SIZE (\<lambda>i. clear_line (int i)) s
      in vga_refresh (s\<lparr>terminal_total_lines := 1, scroll_view_offset := 0, cursor_row := 0, cursor_col := 0\<rparr>))"

definition vga_clear_public :: "'a terminal_scheme \<Rightarrow> 'a terminal_scheme" where
  "vga_clear_public s = vga_clear s"

text \<open>The history moved up by one line.\<close>

definition shift_up :: "'a terminal_scheme \<Rightarrow> 'a terminal_scheme" where
  "shift_up = for_loop 0 (SCROLLBACK_SIZE - 1) (\<lambda>i. for_loop 0 VGA_COLS (\<lambda>j s.
     set_cell (int i) j (terminal_history s ((i + 1) * VGA_COLS + j)) s))"

definition vga_putchar_with_scrollback :: "char \<Rightarrow> 'a terminal_scheme \<Rightarrow> 'a terminal_scheme" where
  "vga_putchar_with_scrollback c s =
     (let s = (if c = NEWLINE then s\<lparr>cursor_col := 0, cursor_row := cursor_row s + 1\<rparr>
               else let s = set_cell (terminal_total_lines s - 1) (unat (cursor_col s)) (vga_cell VGA_ATTR c) s;
                        s = s\<lparr>cursor_col := cursor_col s + 1\<rparr>
                    in if of_nat VGA_COLS \<le> cursor_col s
                       then s\<lparr>cursor_col := 0, cursor_row := cursor_row s + 1\<rparr> else s)
      in if 0 < cursor_row s
         then let s = s\<lparr>terminal_total_lines := terminal_total_lines s + 1\<rparr>;
                  s = (if int SCROLLBACK_SIZE < terminal_total_lines s
                       then (clear_line (int SCROLLBACK_SIZE - 1) (shift_up s))
                              \<lparr>terminal_total_lines := int SCROLLBACK_SIZE\<rparr>
                       else s)
              in vga_refresh (s\<lparr>cursor_row := 0\<rparr>)
         else s)"

section \<open>Printing\<close>

text \<open>The characters up to the first NUL, with interrupts off, then one refresh.\<close>

definition print_chars :: "string \<Rightarrow> 'a terminal_scheme \<Rightarrow> 'a terminal_scheme" where
  "print_chars str s =
     (let fl = interrupts_on s; s = s\<lparr>interrupts_on := False\<rparr>;
          s = fold vga_putchar_with_scrollback (takeWhile (\<lambda>c. c \<noteq> NUL) str) s;
          s = vga_refresh s
      in if fl then s\<lparr>interrupts_on := True\<rparr> else s)"

definition puts :: "string \<Rightarrow> 'a terminal_scheme \<Rightarrow> 'a terminal_scheme" where
  "puts str s = print_chars str s"

definition putchar :: "char \<Rightarrow> 'a terminal_scheme \<Rightarrow> 'a terminal_scheme" where
  "putchar c s =
     (let fl = interrupts_on s; s = s\<lparr>interrupts_on := False\<rparr>;
          s = vga_refresh (vga_putchar_with_scrollback c s)
      in if fl then s\<lparr>interrupts_on := True\<rparr> else s)"

text \<open>
  The formatting loop of \<open>printk\<close>. The result is the contents of \<open>buffer\<close>, its length the value
  of \<open>buf_idx\<close>. A conversion whose argument is missing or of another type, a format that ends
  after a percent sign, and a write beyond the buffer have no defined result.
\<close>

datatype print_fault = Bad_argument | Format_overread | Buffer_overflow

fun dec_temp :: "nat \<Rightarrow> string" where
  "dec_temp v = (if v = 0 then [] else char_of (48 + v mod 10) # dec_temp (v div 10))"

declare dec_temp.simps [simp del]

definition append_room :: "string \<Rightarrow> string \<Rightarrow> string" where
  "append_room buf str = buf @ take (511 - length buf) str"

definition put_dec :: "int \<Rightarrow> string \<Rightarrow> string" where
  "put_dec v buf =
     (let buf = (if v < 0 \<and> length buf < 511 then buf @ ''-'' else buf);
          uvalue = nat \<bar>v\<bar>
      in if uvalue = 0 \<and> length buf < 511 then buf @ ''0''
         else append_room buf (rev (dec_temp uvalue)))"

definition hex_digit :: "u32 \<Rightarrow> char" where
  "hex_digit d = ''0123456789abcdef'' ! unat d"

definition put_hex :: "u32 \<Rightarrow> string \<Rightarrow> string" where
  "put_hex v buf = append_room buf (map (\<lambda>i. hex_digit (drop_bit i v AND 0xF)) [28, 24, 20, 16, 12, 8, 4, 0])"

fun format_loop :: "string \<Rightarrow> karg list \<Rightarrow> string \<Rightarrow> print_fault + string" where
  "format_loop [] args buf = Inr buf"
| "format_loop (c # f) args buf =
     (if \<not> length buf < 511 then Inr buf
      else if c = CHR ''%''
      then (case f of
          [] \<Rightarrow> Inl Format_overread
        | d # f \<Rightarrow>
            if d = CHR ''d''
            then (case args of KDec v # args \<Rightarrow> format_loop f args (put_dec v buf) | _ \<Rightarrow> Inl Bad_argument)
            else if d = CHR ''x''
            then (case args of KHex v # args \<Rightarrow> format_loop f args (put_hex v buf) | _ \<Rightarrow> Inl Bad_argument)
            else if d = CHR ''s''
            then (case args of KStr str # args \<Rightarrow> format_loop f args (append_room buf str) | _ \<Rightarrow> Inl Bad_argument)
            else if d = CHR ''%'' then format_loop f args (buf @ ''%'')
            else format_loop f args (buf @ [CHR ''%'', d]))
      else format_loop f args (buf @ [c]))"

definition printk_buffer :: "string \<Rightarrow> karg list \<Rightarrow> print_fault + string" where
  "printk_buffer format args =
     (case format_loop format args [] of
        Inl e \<Rightarrow> Inl e
      | Inr buf \<Rightarrow> if 511 < length buf then Inl Buffer_overflow else Inr buf)"

definition printk :: "string \<Rightarrow> karg list \<Rightarrow> 'a terminal_scheme \<Rightarrow> print_fault + 'a terminal_scheme" where
  "printk format args s =
     (case printk_buffer format args of Inl e \<Rightarrow> Inl e | Inr buf \<Rightarrow> Inr (print_chars buf s))"

section \<open>The status line\<close>

definition write_cells :: "int \<Rightarrow> nat \<Rightarrow> string \<Rightarrow> 'a terminal_scheme \<Rightarrow> 'a terminal_scheme" where
  "write_cells line col str s =
     fold (\<lambda>(j, c). set_cell line (col + j) (vga_cell VGA_ATTR c)) (List.enumerate 0 (take (VGA_COLS - col) str)) s"

definition vga_replace_line_text :: "int \<Rightarrow> string \<Rightarrow> 'a terminal_scheme \<Rightarrow> 'a terminal_scheme" where
  "vga_replace_line_text line str s =
     (if line < 0 \<or> int SCROLLBACK_SIZE \<le> line then s
      else let s = clear_line line s;
               s = write_cells line 0 str s
           in vga_refresh (s\<lparr>cursor_col := of_nat (length (take VGA_COLS str))\<rparr>))"

definition status_line :: "u32 \<Rightarrow> int \<Rightarrow> string \<Rightarrow> string" where
  "status_line frame progress label =
     (let dot_count = unat (frame mod 3) + 1;
          bar_filled = nat (progress * 10 div 100);
          head = ''['' @ replicate dot_count CHR ''.'' @ replicate (3 - dot_count) CHR '' '' @ ''] '' @
            ''['' @ map (\<lambda>i. if i < bar_filled then CHR ''#'' else CHR ''.'') [0..<10] @ ''] '' @
            '' '' @ [char_of (48 + nat (progress div 100 mod 10)), char_of (48 + nat (progress div 10 mod 10)),
                     char_of (48 + nat (progress mod 10))] @ ''% ''
      in head @ take (79 - length head) label)"

definition render_loading_status :: "'a terminal_scheme \<Rightarrow> 'a terminal_scheme" where
  "render_loading_status s =
     (if \<not> loading_status_active s \<or> loading_status_line s < 0 then s
      else vga_replace_line_text (loading_status_line s)
        (status_line (loading_status_frame s) (loading_status_progress s) (loading_status_label s)) s)"

definition loading_status_start :: "string \<Rightarrow> 'a terminal_scheme \<Rightarrow> 'a terminal_scheme" where
  "loading_status_start label s =
     render_loading_status (s\<lparr>loading_status_active := True, loading_status_line := terminal_total_lines s - 1,
       loading_status_frame := 0, loading_status_label := take 47 label\<rparr>)"

definition loading_status_tick :: "'a terminal_scheme \<Rightarrow> 'a terminal_scheme" where
  "loading_status_tick s =
     (if \<not> loading_status_active s then s
      else render_loading_status (s\<lparr>loading_status_frame := loading_status_frame s + 1\<rparr>))"

definition loading_status_set_progress :: "int \<Rightarrow> 'a terminal_scheme \<Rightarrow> 'a terminal_scheme" where
  "loading_status_set_progress percent s =
     (if \<not> loading_status_active s then s
      else let percent = (if percent < 0 then 0 else percent);
               percent = (if 100 < percent then 100 else percent)
           in render_loading_status (s\<lparr>loading_status_progress := percent\<rparr>))"

definition loading_status_done :: "'a terminal_scheme \<Rightarrow> 'a terminal_scheme" where
  "loading_status_done s =
     (if \<not> loading_status_active s then s
      else let s = s\<lparr>loading_status_active := False\<rparr>
           in vga_replace_line_text (loading_status_line s) (''[OK] '' @ take 74 (loading_status_label s)) s)"

text \<open>What an event of the other components' log does on the console.\<close>

fun show_event :: "kevent \<Rightarrow> 'a terminal_scheme \<Rightarrow> print_fault + 'a terminal_scheme" where
  "show_event (Printk format args) s = printk format args s"
| "show_event (Status_start label) s = Inr (loading_status_start label s)"
| "show_event Status_tick s = Inr (loading_status_tick s)"
| "show_event (Status_progress n) s = Inr (loading_status_set_progress n s)"
| "show_event Status_done s = Inr (loading_status_done s)"

definition loading_tick_inline :: "string \<Rightarrow> int \<Rightarrow> 'a terminal_scheme \<Rightarrow> print_fault + int \<times> 'a terminal_scheme" where
  "loading_tick_inline component frame s =
     (let step = frame + 1;
          step = (if 5 < step then 5 else step);
          bar = map (\<lambda>i. if int i < step then CHR ''#'' else CHR ''-'') [0..<5]
      in case printk ''[Loading %d/%d] [%s] %s\<newline>'' [KDec step, KDec 5, KStr bar, KStr component] s of
           Inl e \<Rightarrow> Inl e | Inr s \<Rightarrow> Inr (frame + 1, s))"

section \<open>The input line\<close>

definition vga_reserve_prompt_line :: "'a terminal_scheme \<Rightarrow> 'a terminal_scheme" where
  "vga_reserve_prompt_line s =
     (let s = (if int SCROLLBACK_SIZE \<le> terminal_total_lines s
               then (shift_up s)\<lparr>terminal_total_lines := int SCROLLBACK_SIZE\<rparr>
               else s\<lparr>terminal_total_lines := terminal_total_lines s + 1\<rparr>);
          s = clear_line (terminal_total_lines s - 1) s
      in vga_refresh (s\<lparr>cursor_col := 0, cursor_row := 0, scroll_view_offset := 0\<rparr>))"

text \<open>The input from column \<open>col\<close> on, with the character at the cursor in inverse video.\<close>

definition write_input :: "int \<Rightarrow> nat \<Rightarrow> string \<Rightarrow> nat \<Rightarrow> 'a terminal_scheme \<Rightarrow> 'a terminal_scheme" where
  "write_input line col input cursor_pos s =
     fold (\<lambda>(i, c). set_cell line (col + i) (vga_cell (if i = cursor_pos then 0x70 else VGA_ATTR) c))
       (List.enumerate 0 (take (VGA_COLS - col) input)) s"

definition vga_replace_current_input_line :: "string \<Rightarrow> string \<Rightarrow> nat \<Rightarrow> 'a terminal_scheme \<Rightarrow> 'a terminal_scheme" where
  "vga_replace_current_input_line prompt input cursor_pos s =
     (let line = terminal_total_lines s - 1 in
      if line < 0 then s
      else let s = clear_line line (s\<lparr>cursor_row := 0\<rparr>);
               s = write_cells line 0 prompt s;
               input_start = length (take VGA_COLS prompt);
               s = write_input line input_start input cursor_pos s;
               col = input_start + length (take (VGA_COLS - input_start) input);
               s = (if length input \<le> cursor_pos \<and> col < VGA_COLS
                    then set_cell line col (vga_cell 0x70 (CHR ''_'')) s else s)
           in vga_refresh (s\<lparr>cursor_col := of_nat (input_start + cursor_pos)\<rparr>))"

end
