(* ===== verification/Display.thy ===== *)
theory Display
  imports Terminal Font
begin

text \<open>
  The display driver of \<open>display.c\<close>: the probes for a graphics mode, the saving and restoring of the
  registers of the text mode, and drawing.
\<close>

section \<open>State\<close>

datatype disp_type = DISP_VGA_TEXT | DISP_VGA_GRAPH | DISP_VESA_VBE | DISP_BOCHS_VBE

record display_mode_t =
  width :: u16
  height :: u16
  bpp :: u8
  pitch :: u16
  addr :: u32
  dtype :: disp_type
  available :: bool

record vga_text_state_t =
  misc :: u8
  seq_regs :: "u8 list"
  crtc_regs :: "u8 list"
  gc_regs :: "u8 list"
  ac_regs :: "u8 list"

text \<open>
  \<open>video\<close> is the memory the driver writes to, by address, apart from the 4000 bytes of the text
  screen, which are the cells of \<open>vga_buffer\<close>. A store at an address that no memory backs is lost.
\<close>

record display = terminal +
  current_mode :: display_mode_t
  vga_text_state_saved :: bool
  saved_text_state :: vga_text_state_t
  video :: "u32 \<Rightarrow> u8"
  backed :: "u32 \<Rightarrow> bool"

definition in_text :: "u32 \<Rightarrow> bool" where
  "in_text a \<longleftrightarrow> 0xB8000 \<le> a \<and> a < 0xB8000 + 4000"

definition text_cell :: "u32 \<Rightarrow> nat" where
  "text_cell a = unat (a - 0xB8000) div 2"

text \<open>The low and the high byte of a cell.\<close>

definition cell_get :: "bool \<Rightarrow> u16 \<Rightarrow> u8" where
  "cell_get low c = (if low then ucast c else ucast (drop_bit 8 c))"

definition cell_set :: "bool \<Rightarrow> u16 \<Rightarrow> u8 \<Rightarrow> u16" where
  "cell_set low c v = (if low then c AND 0xFF00 OR ucast v else c AND 0x00FF OR push_bit 8 (ucast v))"

definition load8 :: "u32 \<Rightarrow> 'a display_scheme \<Rightarrow> u8" where
  "load8 a s = (if in_text a then cell_get (even a) (vga_buffer s (text_cell a)) else video s a)"

definition store8 :: "u32 \<Rightarrow> u8 \<Rightarrow> 'a display_scheme \<Rightarrow> 'a display_scheme" where
  "store8 a v s =
     (if \<not> backed s a then s
      else if in_text a
      then s\<lparr>vga_buffer := (vga_buffer s)(text_cell a := cell_set (even a) (vga_buffer s (text_cell a)) v)\<rparr>
      else s\<lparr>video := (video s)(a := v)\<rparr>)"

definition store16 :: "u32 \<Rightarrow> u16 \<Rightarrow> 'a display_scheme \<Rightarrow> 'a display_scheme" where
  "store16 a v s = store8 (a + 1) (ucast (drop_bit 8 v)) (store8 a (ucast v) s)"

definition store32 :: "u32 \<Rightarrow> u32 \<Rightarrow> 'a display_scheme \<Rightarrow> 'a display_scheme" where
  "store32 a v s = store16 (a + 2) (ucast (drop_bit 16 v)) (store16 a (ucast v) s)"

text \<open>The instructions \<open>inw\<close> and \<open>outw\<close>.\<close>

type_synonym device16 = "io_event list \<Rightarrow> u16 \<Rightarrow> u16"

definition io_inw :: "device16 \<Rightarrow> u16 \<Rightarrow> 'a ports_scheme \<Rightarrow> u16 \<times> 'a ports_scheme" where
  "io_inw hw port s = (let v = hw (io_trace s) port in (v, s\<lparr>io_trace := io_trace s @ [In16 port v]\<rparr>))"

definition io_outw :: "u16 \<Rightarrow> u16 \<Rightarrow> 'a ports_scheme \<Rightarrow> 'a ports_scheme" where
  "io_outw port v s = s\<lparr>io_trace := io_trace s @ [Out16 port v]\<rparr>"

section \<open>Colours\<close>

definition display_rgb :: "u8 \<Rightarrow> u8 \<Rightarrow> u8 \<Rightarrow> u32" where
  "display_rgb r g b = push_bit 16 (ucast r) OR push_bit 8 (ucast g) OR ucast b"

definition rgb_to_vga8 :: "u32 \<Rightarrow> u8" where
  "rgb_to_vga8 color =
     (let r = ucast (drop_bit 16 color AND 0xFF) :: u8;
          g = ucast (drop_bit 8 color AND 0xFF) :: u8;
          b = ucast (color AND 0xFF) :: u8
      in if 200 < r \<and> 200 < g \<and> 200 < b then 15
         else if r < 50 \<and> g < 50 \<and> b < 50 then 0
         else if 200 < r \<and> g < 100 \<and> b < 100 then 4
         else if 200 < g \<and> r < 100 \<and> b < 100 then 2
         else if 200 < b \<and> r < 100 \<and> g < 100 then 1
         else push_bit 5 (drop_bit 6 r) OR push_bit 2 (drop_bit 6 g) OR drop_bit 7 b)"

section \<open>Probing\<close>

text \<open>The part of the boot information that describes a framebuffer.\<close>

record multiboot_fb =
  mb_flags :: u32
  framebuffer_addr_low :: u32
  framebuffer_pitch :: u32
  framebuffer_width :: u32
  framebuffer_height :: u32
  framebuffer_bpp :: u8
  framebuffer_type :: u8

definition probe_multiboot_vbe :: "multiboot_fb \<Rightarrow> 'a display_scheme \<Rightarrow> bool \<times> 'a display_scheme" where
  "probe_multiboot_vbe mbd s =
     (if mb_flags mbd AND push_bit 12 1 = 0 then (False, s)
      else if framebuffer_type mbd \<noteq> 1 then (False, s)
      else let bp = framebuffer_bpp mbd in
        if bp \<noteq> 32 \<and> bp \<noteq> 24 \<and> bp \<noteq> 16 then (False, s)
        else let mode = \<lparr>width = ucast (framebuffer_width mbd), height = ucast (framebuffer_height mbd), bpp = bp,
                         pitch = ucast (framebuffer_pitch mbd), addr = framebuffer_addr_low mbd,
                         dtype = DISP_VESA_VBE, available = True\<rparr>;
                 s = s\<lparr>current_mode := mode\<rparr>
             in (True, log_event (Printk ''  [VBE] Multiboot VBE: %dx%d %dbpp\<newline>''
                   [KDec (uint (width mode)), KDec (uint (height mode)), KDec (uint (bpp mode))]) s))"

abbreviation VBE_INDEX_PORT :: u16 where "VBE_INDEX_PORT \<equiv> 0x01CE"
abbreviation VBE_DATA_PORT :: u16 where "VBE_DATA_PORT \<equiv> 0x01CF"
abbreviation VBE_DISPI_INDEX_ID :: u16 where "VBE_DISPI_INDEX_ID \<equiv> 0"
abbreviation VBE_DISPI_INDEX_XRES :: u16 where "VBE_DISPI_INDEX_XRES \<equiv> 1"
abbreviation VBE_DISPI_INDEX_YRES :: u16 where "VBE_DISPI_INDEX_YRES \<equiv> 2"
abbreviation VBE_DISPI_INDEX_BPP :: u16 where "VBE_DISPI_INDEX_BPP \<equiv> 3"
abbreviation VBE_DISPI_INDEX_ENABLE :: u16 where "VBE_DISPI_INDEX_ENABLE \<equiv> 4"
abbreviation VBE_DISPI_DISABLED :: u16 where "VBE_DISPI_DISABLED \<equiv> 0x00"
abbreviation VBE_DISPI_ENABLED :: u16 where "VBE_DISPI_ENABLED \<equiv> 0x01"
abbreviation VBE_DISPI_LFB_ENABLED :: u16 where "VBE_DISPI_LFB_ENABLED \<equiv> 0x40"
abbreviation VBE_DISPI_ID4 :: u16 where "VBE_DISPI_ID4 \<equiv> 0xB0C4"

definition vbe_write :: "u16 \<Rightarrow> u16 \<Rightarrow> 'a ports_scheme \<Rightarrow> 'a ports_scheme" where
  "vbe_write idx val s = io_outw VBE_DATA_PORT val (io_outw VBE_INDEX_PORT idx s)"

definition vbe_read :: "device16 \<Rightarrow> u16 \<Rightarrow> 'a ports_scheme \<Rightarrow> u16 \<times> 'a ports_scheme" where
  "vbe_read hw16 idx s = io_inw hw16 VBE_DATA_PORT (io_outw VBE_INDEX_PORT idx s)"

definition probe_bochs_vbe :: "device16 \<Rightarrow> 'a ports_scheme \<Rightarrow> bool \<times> 'a ports_scheme" where
  "probe_bochs_vbe hw16 s =
     (let s = vbe_write VBE_DISPI_INDEX_ID VBE_DISPI_ID4 s;
          (v, s) = vbe_read hw16 VBE_DISPI_INDEX_ID s
      in if v \<noteq> VBE_DISPI_ID4
         then let s = vbe_write VBE_DISPI_INDEX_ID 0xB0C0 s;
                  (v, s) = vbe_read hw16 VBE_DISPI_INDEX_ID s
              in (v = 0xB0C0, s)
         else (True, s))"

text \<open>The registers in the order of the condition, which stops at the first that differs.\<close>

fun vbe_verify :: "device16 \<Rightarrow> (u16 \<times> u16) list \<Rightarrow> 'a ports_scheme \<Rightarrow> bool \<times> 'a ports_scheme" where
  "vbe_verify hw16 [] s = (True, s)"
| "vbe_verify hw16 ((idx, val) # rs) s =
     (let (v, s) = vbe_read hw16 idx s in if v \<noteq> val then (False, s) else vbe_verify hw16 rs s)"

definition bochs_set_mode :: "device16 \<Rightarrow> u16 \<Rightarrow> u16 \<Rightarrow> u16 \<Rightarrow> 'a display_scheme \<Rightarrow> bool \<times> 'a display_scheme" where
  "bochs_set_mode hw16 w h bp s =
     (let s = vbe_write VBE_DISPI_INDEX_ENABLE VBE_DISPI_DISABLED s;
          s = vbe_write VBE_DISPI_INDEX_XRES w s;
          s = vbe_write VBE_DISPI_INDEX_YRES h s;
          s = vbe_write VBE_DISPI_INDEX_BPP bp s;
          s = vbe_write VBE_DISPI_INDEX_ENABLE (VBE_DISPI_ENABLED OR VBE_DISPI_LFB_ENABLED) s;
          (ok, s) = vbe_verify hw16
            [(VBE_DISPI_INDEX_XRES, w), (VBE_DISPI_INDEX_YRES, h), (VBE_DISPI_INDEX_BPP, bp)] s
      in if \<not> ok then (False, s)
         else (True, s\<lparr>current_mode := \<lparr>width = w, height = h, bpp = ucast bp, pitch = w * (bp div 8),
                 addr = 0xFD000000, dtype = DISP_BOCHS_VBE, available = True\<rparr>\<rparr>))"

text \<open>\<open>for (i = 0; i < n; i++) { outb(index, i); outb(data, regs[i]); }\<close>\<close>

definition write_regs :: "u16 \<Rightarrow> u16 \<Rightarrow> u8 list \<Rightarrow> 'a ports_scheme \<Rightarrow> 'a ports_scheme" where
  "write_regs index data regs =
     fold (\<lambda>(i, v) s. io_outb data v (io_outb index (of_nat i) s)) (List.enumerate 0 regs)"

text \<open>The attribute controller takes index and value on one port, after a read of port \<open>0x3DA\<close>.\<close>

definition write_ac_regs :: "device \<Rightarrow> u8 list \<Rightarrow> 'a ports_scheme \<Rightarrow> 'a ports_scheme" where
  "write_ac_regs hw regs =
     fold (\<lambda>(i, v) s. io_outb 0x3C0 v (io_outb 0x3C0 (of_nat i) (snd (io_inb hw 0x3DA s)))) (List.enumerate 0 regs)"

definition mode13_seq :: "u8 list" where
  "mode13_seq = [0x03, 0x01, 0x0F, 0x00, 0x0E]"

definition mode13_crtc :: "u8 list" where
  "mode13_crtc = [0x5F, 0x4F, 0x50, 0x82, 0x54, 0x80, 0xBF, 0x1F,
    0x00, 0x41, 0x00, 0x00, 0x00, 0x00, 0x00, 0x00,
    0x9C, 0x0E, 0x8F, 0x28, 0x40, 0x96, 0xB9, 0xA3, 0xFF]"

definition mode13_gc :: "u8 list" where
  "mode13_gc = [0x00, 0x00, 0x00, 0x00, 0x00, 0x40, 0x05, 0x0F, 0xFF]"

definition mode13_ac :: "u8 list" where
  "mode13_ac = [0x00, 0x01, 0x02, 0x03, 0x04, 0x05, 0x06, 0x07,
    0x08, 0x09, 0x0A, 0x0B, 0x0C, 0x0D, 0x0E, 0x0F,
    0x41, 0x00, 0x0F, 0x00, 0x00]"

definition mode13_registers :: "device \<Rightarrow> 'a ports_scheme \<Rightarrow> 'a ports_scheme" where
  "mode13_registers hw s =
     (let s = io_outb 0x3C2 0x63 s;
          s = write_regs 0x3C4 0x3C5 mode13_seq s;
          s = io_outb 0x3D4 0x03 s;
          (v, s) = io_inb hw 0x3D5 s;
          s = io_outb 0x3D5 (v OR 0x80) s;
          s = io_outb 0x3D4 0x11 s;
          (v, s) = io_inb hw 0x3D5 s;
          s = io_outb 0x3D5 (v AND NOT 0x80) s;
          s = write_regs 0x3D4 0x3D5 mode13_crtc s;
          s = write_regs 0x3CE 0x3CF mode13_gc s;
          s = write_ac_regs hw mode13_ac s;
          (v, s) = io_inb hw 0x3DA s
      in io_outb 0x3C0 0x20 s)"

definition probe_vga_mode13 :: "device \<Rightarrow> 'a display_scheme \<Rightarrow> bool \<times> 'a display_scheme" where
  "probe_vga_mode13 hw s =
     (let old = load8 0xA0000 s;
          s = store8 0xA0000 0xAA s;
          writable = (load8 0xA0000 s = 0xAA);
          s = store8 0xA0000 old s
      in if \<not> writable then (False, s)
         else let s = mode13_registers hw s;
                  s = s\<lparr>current_mode := \<lparr>width = 320, height = 200, bpp = 8, pitch = 320, addr = 0xA0000,
                        dtype = DISP_VGA_GRAPH, available = True\<rparr>\<rparr>
              in (True, log_event (Printk ''  [VGA] Mode 0x13: 320x200 256 colors (VGA legacy)\<newline>'' []) s))"

definition probe_vga_text :: "'a display_scheme \<Rightarrow> 'a display_scheme" where
  "probe_vga_text s =
     (let s = s\<lparr>current_mode := \<lparr>width = 80, height = 25, bpp = 0, pitch = 160, addr = 0xB8000,
                dtype = DISP_VGA_TEXT, available = True\<rparr>\<rparr>
      in log_event (Printk ''  [VGA] Text mode: 80x25\<newline>'' []) s)"

section \<open>Text mode\<close>

definition vga_set_cursor_visible :: "bool \<Rightarrow> 'a ports_scheme \<Rightarrow> 'a ports_scheme" where
  "vga_set_cursor_visible visible s =
     (let s = io_outb 0x3D4 0x0A s;
          s = (if visible then io_outb 0x3D5 0x0D s else io_outb 0x3D5 0x20 s)
      in if \<not> visible
         then let s = io_outb 0x3D4 0x0E s; s = io_outb 0x3D5 0xFF s; s = io_outb 0x3D4 0x0F s
              in io_outb 0x3D5 0xFF s
         else s)"

definition text_seq :: "u8 list" where
  "text_seq = [0x03, 0x00, 0x03, 0x00, 0x07]"

definition text_crtc :: "u8 list" where
  "text_crtc = [0x5F, 0x4F, 0x50, 0x82, 0x55, 0x81, 0xBF, 0x1F,
    0x00, 0x4F, 0x0D, 0x0E, 0x00, 0x00, 0x00, 0x50,
    0x9C, 0x8E, 0x8F, 0x28, 0x1F, 0x96, 0xB9, 0xA3,
    0xFF]"

definition text_gc :: "u8 list" where
  "text_gc = [0x00, 0x00, 0x00, 0x00, 0x00, 0x10, 0x0E, 0x00, 0xFF]"

definition text_ac :: "u8 list" where
  "text_ac = [0x00, 0x01, 0x02, 0x03, 0x04, 0x05, 0x06, 0x07,
    0x08, 0x09, 0x0A, 0x0B, 0x0C, 0x0D, 0x0E, 0x0F,
    0x0C, 0x00, 0x0F, 0x08, 0x00]"

definition vga_set_text_mode_80x25 :: "device \<Rightarrow> 'a ports_scheme \<Rightarrow> 'a ports_scheme" where
  "vga_set_text_mode_80x25 hw s =
     (let s = io_outb 0x3C2 0x67 s;
          s = io_outb 0x3C5 0x01 (io_outb 0x3C4 0x00 s);
          s = io_outb 0x3C5 0x20 (io_outb 0x3C4 0x01 s);
          s = for_loop 1 5 (\<lambda>i s. io_outb 0x3C5 (text_seq ! i) (io_outb 0x3C4 (of_nat i) s)) s;
          s = io_outb 0x3C5 0x03 (io_outb 0x3C4 0x00 s);
          s = io_outb 0x3D5 0x0E (io_outb 0x3D4 0x11 s);
          s = write_regs 0x3D4 0x3D5 text_crtc s;
          s = write_regs 0x3CE 0x3CF text_gc s;
          s = write_ac_regs hw text_ac s;
          (temp, s) = io_inb hw 0x3DA s
      in io_outb 0x3C0 0x20 s)"

definition dac_palette :: "u8 list list" where
  "dac_palette = [[0x00, 0x00, 0x00], [0x00, 0x00, 0x2A], [0x00, 0x2A, 0x00], [0x00, 0x2A, 0x2A],
    [0x2A, 0x00, 0x00], [0x2A, 0x00, 0x2A], [0x2A, 0x15, 0x00], [0x2A, 0x2A, 0x2A],
    [0x15, 0x15, 0x15], [0x15, 0x15, 0x3F], [0x15, 0x3F, 0x15], [0x15, 0x3F, 0x3F],
    [0x3F, 0x15, 0x15], [0x3F, 0x15, 0x3F], [0x3F, 0x3F, 0x15], [0x3F, 0x3F, 0x3F]]"

definition vga_restore_default_dac_16 :: "'a ports_scheme \<Rightarrow> 'a ports_scheme" where
  "vga_restore_default_dac_16 s =
     for_loop 0 16 (\<lambda>i s. io_outb 0x3C9 (dac_palette ! i ! 2)
       (io_outb 0x3C9 (dac_palette ! i ! 1) (io_outb 0x3C9 (dac_palette ! i ! 0) s))) (io_outb 0x3C8 0x00 s)"

definition vga_read_seq :: "device \<Rightarrow> u8 \<Rightarrow> 'a ports_scheme \<Rightarrow> u8 \<times> 'a ports_scheme" where
  "vga_read_seq hw idx s = io_inb hw 0x3C5 (io_outb 0x3C4 idx s)"

definition vga_read_crtc :: "device \<Rightarrow> u8 \<Rightarrow> 'a ports_scheme \<Rightarrow> u8 \<times> 'a ports_scheme" where
  "vga_read_crtc hw idx s = io_inb hw 0x3D5 (io_outb 0x3D4 idx s)"

definition vga_read_gc :: "device \<Rightarrow> u8 \<Rightarrow> 'a ports_scheme \<Rightarrow> u8 \<times> 'a ports_scheme" where
  "vga_read_gc hw idx s = io_inb hw 0x3CF (io_outb 0x3CE idx s)"

definition vga_read_ac :: "device \<Rightarrow> u8 \<Rightarrow> 'a ports_scheme \<Rightarrow> u8 \<times> 'a ports_scheme" where
  "vga_read_ac hw idx s = (let (tmp, s) = io_inb hw 0x3DA s in io_inb hw 0x3C1 (io_outb 0x3C0 idx s))"

definition vga_write_seq :: "u8 \<Rightarrow> u8 \<Rightarrow> 'a ports_scheme \<Rightarrow> 'a ports_scheme" where
  "vga_write_seq idx val s = io_outb 0x3C5 val (io_outb 0x3C4 idx s)"

definition vga_write_crtc :: "u8 \<Rightarrow> u8 \<Rightarrow> 'a ports_scheme \<Rightarrow> 'a ports_scheme" where
  "vga_write_crtc idx val s = io_outb 0x3D5 val (io_outb 0x3D4 idx s)"

definition vga_write_gc :: "u8 \<Rightarrow> u8 \<Rightarrow> 'a ports_scheme \<Rightarrow> 'a ports_scheme" where
  "vga_write_gc idx val s = io_outb 0x3CF val (io_outb 0x3CE idx s)"

definition vga_write_ac :: "device \<Rightarrow> u8 \<Rightarrow> u8 \<Rightarrow> 'a ports_scheme \<Rightarrow> 'a ports_scheme" where
  "vga_write_ac hw idx val s =
     (let (tmp, s) = io_inb hw 0x3DA s in io_outb 0x3C0 val (io_outb 0x3C0 idx s))"

text \<open>\<open>for (i = 0; i < n; i++) regs[i] = read(i);\<close> and \<open>for (i = 0; i < n; i++) write(i, regs[i]);\<close>\<close>

fun read_all :: "(u8 \<Rightarrow> 's \<Rightarrow> u8 \<times> 's) \<Rightarrow> u8 \<Rightarrow> nat \<Rightarrow> 's \<Rightarrow> u8 list \<times> 's" where
  "read_all rd i 0 s = ([], s)"
| "read_all rd i (Suc n) s = (let (v, s) = rd i s; (vs, s) = read_all rd (i + 1) n s in (v # vs, s))"

fun write_all :: "(u8 \<Rightarrow> u8 \<Rightarrow> 's \<Rightarrow> 's) \<Rightarrow> u8 \<Rightarrow> u8 list \<Rightarrow> 's \<Rightarrow> 's" where
  "write_all wr i [] s = s"
| "write_all wr i (v # vs) s = write_all wr (i + 1) vs (wr i v s)"

definition vga_snapshot_text_state :: "device \<Rightarrow> 'a display_scheme \<Rightarrow> 'a display_scheme" where
  "vga_snapshot_text_state hw s =
     (if vga_text_state_saved s then s
      else let (m, s) = io_inb hw 0x3CC s;
               (sq, s) = read_all (vga_read_seq hw) 0 5 s;
               (cr, s) = read_all (vga_read_crtc hw) 0 25 s;
               (gc, s) = read_all (vga_read_gc hw) 0 9 s;
               (ac, s) = read_all (vga_read_ac hw) 0 21 s
           in s\<lparr>saved_text_state := \<lparr>misc = m, seq_regs = sq, crtc_regs = cr, gc_regs = gc, ac_regs = ac\<rparr>,
                vga_text_state_saved := True\<rparr>)"

definition vga_restore_text_state :: "device \<Rightarrow> 'a display_scheme \<Rightarrow> 'a display_scheme" where
  "vga_restore_text_state hw s =
     (if \<not> vga_text_state_saved s then s
      else let t = saved_text_state s;
               s = io_outb 0x3C2 (misc t) s;
               s = write_all vga_write_seq 0 (seq_regs t) s;
               (v, s) = vga_read_crtc hw 0x11 s;
               s = vga_write_crtc 0x11 (v AND NOT 0x80) s;
               s = write_all vga_write_crtc 0 (crtc_regs t) s;
               s = write_all vga_write_gc 0 (gc_regs t) s;
               s = write_all (vga_write_ac hw) 0 (ac_regs t) s
           in io_outb 0x3C0 0x20 s)"

definition font_byte :: "nat \<Rightarrow> nat \<Rightarrow> u8" where
  "font_byte ch row = (if ch < 128 \<and> row < 8 then font8x8 ! ch ! row else 0x00)"

definition vga_reload_font_plane2 :: "device \<Rightarrow> 'a display_scheme \<Rightarrow> 'a display_scheme" where
  "vga_reload_font_plane2 hw s =
     (let (old_seq2, s) = vga_read_seq hw 0x02 s;
          (old_seq4, s) = vga_read_seq hw 0x04 s;
          (old_gc4, s) = vga_read_gc hw 0x04 s;
          (old_gc5, s) = vga_read_gc hw 0x05 s;
          (old_gc6, s) = vga_read_gc hw 0x06 s;
          s = vga_write_seq 0x02 0x04 s;
          s = vga_write_seq 0x04 0x06 s;
          s = vga_write_gc 0x04 0x02 s;
          s = vga_write_gc 0x05 0x00 s;
          s = vga_write_gc 0x06 0x04 s;
          s = for_loop 0 256 (\<lambda>ch. for_loop 0 32 (\<lambda>row.
                store8 (0xA0000 + of_nat (ch * 32 + row)) (font_byte ch row))) s;
          s = vga_write_seq 0x02 old_seq2 s;
          s = vga_write_seq 0x04 old_seq4 s;
          s = vga_write_gc 0x04 old_gc4 s;
          s = vga_write_gc 0x05 old_gc5 s
      in vga_write_gc 0x06 old_gc6 s)"

section \<open>Choosing a mode\<close>

definition display_disable :: "device \<Rightarrow> 'a display_scheme \<Rightarrow> 'a display_scheme" where
  "display_disable hw s =
     (let s = vbe_write VBE_DISPI_INDEX_ENABLE VBE_DISPI_DISABLED s;
          s = vga_restore_text_state hw s;
          s = vga_set_cursor_visible False s
      in probe_vga_text s)"

definition blank_text_plane :: "device \<Rightarrow> 'a display_scheme \<Rightarrow> 'a display_scheme" where
  "blank_text_plane hw s =
     (let s = io_outb 0x3C5 0x00 (io_outb 0x3C4 0x02 s);
          s = io_outb 0x3CF 0x00 (io_outb 0x3CE 0x05 s);
          s = io_outb 0x3CF 0x05 (io_outb 0x3CE 0x06 s);
          (temp, s) = io_inb hw 0x3DA s;
          s = io_outb 0x3C0 0x01 (io_outb 0x3C0 0x10 s);
          (temp, s) = io_inb hw 0x3DA s;
          s = io_outb 0x3C0 0x20 s;
          s = for_loop 0 (80 * 25) (\<lambda>i. store16 (0xB8000 + 2 * of_nat i) (vga_cell 0x00 (CHR '' ''))) s
      in io_outb 0x3C5 0x00 (io_outb 0x3C4 0x01 s))"

definition display_enter_gfx :: "device \<Rightarrow> device16 \<Rightarrow> 'a display_scheme \<Rightarrow> bool \<times> 'a display_scheme" where
  "display_enter_gfx hw hw16 s =
     (let s = vga_snapshot_text_state hw s;
          s = vga_set_cursor_visible False s;
          s = io_outb 0x3C5 0x20 (io_outb 0x3C4 0x01 s);
          (bochs, s) = probe_bochs_vbe hw16 s;
          (set, s) = (if bochs then bochs_set_mode hw16 800 600 32 s else (False, s))
      in if set then (True, blank_text_plane hw s)
         else let (vga, s) = probe_vga_mode13 hw s
              in if vga then (True, s) else (False, display_disable hw s))"

definition display_init :: "device \<Rightarrow> device16 \<Rightarrow> 'a display_scheme \<Rightarrow> bool \<times> 'a display_scheme" where
  "display_init hw hw16 s =
     (let s = log_event (Printk ''Display: Probing graphics backends...\<newline>'' []) s;
          s = s\<lparr>current_mode := (current_mode s)\<lparr>available := False\<rparr>\<rparr>;
          s = log_event (Printk ''  Probing Bochs VBE...\<newline>'' []) s;
          (bochs, s) = probe_bochs_vbe hw16 s;
          (set, s) = (if bochs
                      then bochs_set_mode hw16 800 600 32 (log_event (Printk ''  Setting 800x600x32...\<newline>'' []) s)
                      else (False, s))
      in if set then (True, s)
         else let s = log_event (Printk ''  Probing VGA mode 0x13...\<newline>'' []) s;
                  (vga, s) = probe_vga_mode13 hw s
              in if vga then (True, s)
                 else (False, probe_vga_text (log_event (Printk ''  Falling back to VGA text mode.\<newline>'' []) s)))"

definition display_init_multiboot :: "multiboot_fb \<Rightarrow> 'a display_scheme \<Rightarrow> bool \<times> 'a display_scheme" where
  "display_init_multiboot mbd s =
     (let s = log_event (Printk ''Display: Trying Multiboot VBE...\<newline>'' []) s;
          (ok, s) = probe_multiboot_vbe mbd s
      in if ok then (True, s)
         else (False, log_event (Printk ''  Multiboot VBE not available.\<newline>'' []) s))"

definition display_get_mode :: "'a display_scheme \<Rightarrow> display_mode_t" where
  "display_get_mode s = current_mode s"

section \<open>Drawing\<close>

definition display_clear :: "u32 \<Rightarrow> 'a display_scheme \<Rightarrow> 'a display_scheme" where
  "display_clear color s =
     (let m = current_mode s in
      if \<not> available m then s
      else if dtype m = DISP_VGA_TEXT
      then for_loop 0 (unat (width m) * unat (height m))
             (\<lambda>i. store16 (addr m + 2 * of_nat i) (vga_cell 0x07 (CHR '' ''))) s
      else if bpp m = 8
      then for_loop 0 (unat (ucast (width m) * ucast (height m) :: u32)) (\<lambda>off. store8 (addr m + of_nat off) (ucast color)) s
      else for_loop 0 (unat (height m)) (\<lambda>y. for_loop 0 (unat (width m)) (\<lambda>x s.
             if bpp m = 32 then store32 (addr m + 4 * (of_nat y * ucast (pitch m div 4) + of_nat x)) color s
             else if bpp m = 16 then store16 (addr m + 2 * (of_nat y * ucast (pitch m div 2) + of_nat x)) (ucast color) s
             else s)) s)"

definition display_putpixel :: "u32 \<Rightarrow> u32 \<Rightarrow> u32 \<Rightarrow> 'a display_scheme \<Rightarrow> 'a display_scheme" where
  "display_putpixel x y color s =
     (let m = current_mode s in
      if \<not> available m then s
      else if ucast (width m) \<le> x \<or> ucast (height m) \<le> y then s
      else if bpp m = 8 then store8 (addr m + (y * ucast (pitch m) + x)) (rgb_to_vga8 color) s
      else if bpp m = 32 then store32 (addr m + y * ucast (pitch m) + x * 4) color s
      else if bpp m = 16
      then let r = ucast (drop_bit 16 color AND 0xFF) :: u16;
               g = ucast (drop_bit 8 color AND 0xFF) :: u16;
               b = ucast (color AND 0xFF) :: u16;
               color16 = push_bit 11 (drop_bit 3 r) OR push_bit 5 (drop_bit 2 g) OR drop_bit 3 b
           in store16 (addr m + y * ucast (pitch m) + x * 2) color16 s
      else s)"

definition display_fill_rect :: "u32 \<Rightarrow> u32 \<Rightarrow> u32 \<Rightarrow> u32 \<Rightarrow> u32 \<Rightarrow> 'a display_scheme \<Rightarrow> 'a display_scheme" where
  "display_fill_rect x y w h color =
     for_loop 0 (unat h) (\<lambda>row. for_loop 0 (unat w) (\<lambda>col.
       display_putpixel (x + of_nat col) (y + of_nat row) color))"

definition display_draw_rect :: "u32 \<Rightarrow> u32 \<Rightarrow> u32 \<Rightarrow> u32 \<Rightarrow> u32 \<Rightarrow> 'a display_scheme \<Rightarrow> 'a display_scheme" where
  "display_draw_rect x y w h color s =
     (let s = for_loop 0 (unat w) (\<lambda>col s.
                display_putpixel (x + of_nat col) (y + h - 1) color (display_putpixel (x + of_nat col) y color s)) s
      in for_loop 0 (unat h) (\<lambda>row s.
           display_putpixel (x + w - 1) (y + of_nat row) color (display_putpixel x (y + of_nat row) color s)) s)"

abbreviation CHAR_SCALE :: nat where "CHAR_SCALE \<equiv> 2"
abbreviation CHAR_W :: u32 where "CHAR_W \<equiv> 16"
abbreviation CHAR_H :: u32 where "CHAR_H \<equiv> 16"

definition select_glyph :: "nat \<Rightarrow> u8 list" where
  "select_glyph c = font8x8 ! (if 97 \<le> c \<and> c \<le> 122 then c - 97 + 65 else c)"

definition display_putchar :: "char \<Rightarrow> u32 \<Rightarrow> u32 \<Rightarrow> u32 \<Rightarrow> 'a display_scheme \<Rightarrow> 'a display_scheme" where
  "display_putchar c x y color s =
     (if \<not> available (current_mode s) then s
      else let code = (of_char c :: nat);
               code = (if code < 32 \<or> 126 < code then 32 else code);
               glyph = select_glyph code
           in for_loop 0 FONT_H (\<lambda>row. for_loop 0 FONT_W (\<lambda>col s.
                if glyph ! row AND drop_bit col 0x80 \<noteq> 0
                then for_loop 0 CHAR_SCALE (\<lambda>sy. for_loop 0 CHAR_SCALE (\<lambda>sx.
                       display_putpixel (x + of_nat (col * CHAR_SCALE) + of_nat sx)
                         (y + of_nat (row * CHAR_SCALE) + of_nat sy) color)) s
                else s)) s)"

fun puts_line_loop :: "string \<Rightarrow> nat \<Rightarrow> u32 \<Rightarrow> u32 \<Rightarrow> u32 \<Rightarrow> 'a display_scheme \<Rightarrow> 'a display_scheme" where
  "puts_line_loop [] max_chars cx y color s = s"
| "puts_line_loop (c # str) max_chars cx y color s =
     (if max_chars = 0 \<or> c = NEWLINE then s
      else puts_line_loop str (max_chars - 1) (cx + CHAR_W) y color (display_putchar c cx y color s))"

definition display_puts_line :: "string \<Rightarrow> u32 \<Rightarrow> u32 \<Rightarrow> u32 \<Rightarrow> 'a display_scheme \<Rightarrow> 'a display_scheme" where
  "display_puts_line str x y color s =
     (let m = current_mode s in
      if \<not> available m \<or> ucast (width m) \<le> x then s
      else let max_chars = (ucast (width m) - x) div CHAR_W in
        if max_chars = 0 then s else puts_line_loop str (unat max_chars) x y color s)"

fun puts_loop :: "string \<Rightarrow> u32 \<Rightarrow> u32 \<Rightarrow> u32 \<Rightarrow> u32 \<Rightarrow> 'a display_scheme \<Rightarrow> 'a display_scheme" where
  "puts_loop [] x cx cy color s = s"
| "puts_loop (c # str) x cx cy color s =
     (if c = NEWLINE
      then (if ucast (height (current_mode s)) < cy + CHAR_H + CHAR_H then s
            else puts_loop str x x (cy + CHAR_H) color s)
      else let s = display_putchar c cx cy color s;
               cx = cx + CHAR_W
           in if ucast (width (current_mode s)) < cx + CHAR_W
              then (if ucast (height (current_mode s)) < cy + CHAR_H + CHAR_H then s
                    else puts_loop str x x (cy + CHAR_H) color s)
              else puts_loop str x cx cy color s)"

definition display_puts :: "string \<Rightarrow> u32 \<Rightarrow> u32 \<Rightarrow> u32 \<Rightarrow> 'a display_scheme \<Rightarrow> 'a display_scheme" where
  "display_puts str x y color s = puts_loop str x x y color s"


end
