(* ===== verification/Terminal_Props.thy ===== *)
theory Terminal_Props
  imports Terminal
begin

text \<open>
  The console as a list of lines: what printing does to the scrollback buffer and to the screen,
  and what \<open>printk\<close> prints for a format and its arguments.
\<close>

section \<open>Loops over cells\<close>

lemma history_eqI: "(\<And>k. f k = g k) \<Longrightarrow> s\<lparr>terminal_history := f\<rparr> = s\<lparr>terminal_history := g\<rparr>"
  by (rule arg_cong [where f = "\<lambda>h. s\<lparr>terminal_history := h\<rparr>"], rule ext)

lemma screen_eqI: "(\<And>k. f k = g k) \<Longrightarrow> s\<lparr>vga_buffer := f\<rparr> = s\<lparr>vga_buffer := g\<rparr>"
  by (rule arg_cong [where f = "\<lambda>h. s\<lparr>vga_buffer := h\<rparr>"], rule ext)

lemma empty_range [simp]: "(a :: nat) \<le> k \<and> k < a \<longleftrightarrow> False"
  by auto

lemmas for_loop_next = for_loop_Suc [OF le0]

lemma cells_loop:
  "for_loop 0 n (\<lambda>j. set_cell line j (v j)) s =
     s\<lparr>terminal_history := (\<lambda>k. if nat line * VGA_COLS \<le> k \<and> k < nat line * VGA_COLS + n
        then v (k - nat line * VGA_COLS) else terminal_history s k)\<rparr>"
proof (induction n)
  case (Suc n)
  show ?case unfolding for_loop_next Suc.IH by (simp add: set_cell_def) (rule history_eqI, auto)
qed simp

lemma clear_line_eq:
  "clear_line (int i) s = s\<lparr>terminal_history := (\<lambda>k. if i * VGA_COLS \<le> k \<and> k < i * VGA_COLS + VGA_COLS
     then blank else terminal_history s k)\<rparr>"
  unfolding clear_line_def cells_loop by simp

lemma copy_row:
  "n \<le> VGA_COLS \<Longrightarrow> for_loop 0 n (\<lambda>j s. set_cell (int i) j (terminal_history s ((i + 1) * VGA_COLS + j)) s) s =
     s\<lparr>terminal_history := (\<lambda>k. if i * VGA_COLS \<le> k \<and> k < i * VGA_COLS + n
        then terminal_history s (k + VGA_COLS) else terminal_history s k)\<rparr>"
proof (induction n)
  case (Suc n)
  have "n \<le> VGA_COLS" using Suc.prems by simp
  note IH = Suc.IH [OF this]
  show ?case unfolding for_loop_next IH using Suc.prems by (simp add: set_cell_def) (rule history_eqI, auto simp: ac_simps)
qed simp

lemma shift_rows:
  "for_loop 0 n (\<lambda>i. for_loop 0 VGA_COLS (\<lambda>j s. set_cell (int i) j (terminal_history s ((i + 1) * VGA_COLS + j)) s)) s =
     s\<lparr>terminal_history := (\<lambda>k. if k < n * VGA_COLS then terminal_history s (k + VGA_COLS) else terminal_history s k)\<rparr>"
proof (induction n)
  case (Suc n)
  show ?case unfolding for_loop_next Suc.IH unfolding copy_row [OF order_refl] by simp (rule history_eqI, auto simp: add.commute)
qed simp

lemma shift_up_eq:
  "shift_up s = s\<lparr>terminal_history := (\<lambda>k. if k < 99 * VGA_COLS then terminal_history s (k + VGA_COLS) else terminal_history s k)\<rparr>"
  unfolding shift_up_def using shift_rows [of 99 s] by simp

text \<open>The cell that line \<open>start + k div 80\<close> shows at screen position \<open>k\<close>.\<close>

definition shown :: "'a terminal_scheme \<Rightarrow> int \<Rightarrow> nat \<Rightarrow> u16" where
  "shown s start k = (if start + int (k div VGA_COLS) < terminal_total_lines s
     then terminal_history s (nat (start + int (k div VGA_COLS)) * VGA_COLS + k mod VGA_COLS) else blank)"

lemma shown_screen [simp]: "shown (s\<lparr>vga_buffer := f\<rparr>) = shown s"
  by (simp add: shown_def fun_eq_iff)

lemma refresh_row:
  "n \<le> VGA_COLS \<Longrightarrow> for_loop 0 n (refresh_cell start r) s =
     s\<lparr>vga_buffer := (\<lambda>k. if r * VGA_COLS \<le> k \<and> k < r * VGA_COLS + n then shown s start k else vga_buffer s k)\<rparr>"
proof (induction n)
  case (Suc n)
  have pos: "(r * VGA_COLS + n) div VGA_COLS = r" "(r * VGA_COLS + n) mod VGA_COLS = n" using Suc.prems by simp_all
  have "n \<le> VGA_COLS" using Suc.prems by simp
  note IH = Suc.IH [OF this]
  have "refresh_cell start r n t = t\<lparr>vga_buffer := (vga_buffer t)(r * VGA_COLS + n := shown t start (r * VGA_COLS + n))\<rparr>"
    for t :: "'a terminal_scheme" unfolding refresh_cell_def shown_def pos by (rule refl)
  then show ?case unfolding for_loop_next IH by simp (rule screen_eqI, auto)
qed simp

lemma refresh_rows:
  "for_loop 0 n (\<lambda>r. for_loop 0 VGA_COLS (refresh_cell start r)) s =
     s\<lparr>vga_buffer := (\<lambda>k. if k < n * VGA_COLS then shown s start k else vga_buffer s k)\<rparr>"
proof (induction n)
  case (Suc n)
  show ?case unfolding for_loop_next Suc.IH unfolding refresh_row [OF order_refl]
    by simp (rule screen_eqI, auto)
qed simp

lemma vga_refresh_effect:
  "vga_buffer (vga_refresh s) = (\<lambda>k. if k < 2000 then shown s (start_row s) k else vga_buffer s k)"
  "terminal_history (vga_refresh s) = terminal_history s" "terminal_total_lines (vga_refresh s) = terminal_total_lines s"
  "scroll_view_offset (vga_refresh s) = scroll_view_offset s" "cursor_row (vga_refresh s) = cursor_row s"
  "cursor_col (vga_refresh s) = cursor_col s" "interrupts_on (vga_refresh s) = interrupts_on s"
  using refresh_rows [of 25 "start_row s" s]
  by (simp_all add: vga_refresh_def vga_update_hardware_cursor_def io_outb_def Let_def)

section \<open>The console as a list of lines\<close>

text \<open>
  At most 100 lines of at most 80 characters; writing goes on at the end of the last one, and a line
  that is full is ended.
\<close>

definition new_line :: "string list \<Rightarrow> string list" where
  "new_line ls = (if length ls < SCROLLBACK_SIZE then ls else tl ls) @ [[]]"

definition put_last :: "char \<Rightarrow> string list \<Rightarrow> string list" where
  "put_last c ls = butlast ls @ [last ls @ [c]]"

definition spec_put :: "char \<Rightarrow> string list \<Rightarrow> string list" where
  "spec_put c ls =
     (if c = NEWLINE then new_line ls
      else if length (last ls) + 1 < VGA_COLS then put_last c ls
      else new_line (put_last c ls))"

definition line_at :: "string list \<Rightarrow> nat \<Rightarrow> string" where
  "line_at ls i = (if i < length ls then ls ! i else [])"

definition cell_of :: "string \<Rightarrow> nat \<Rightarrow> u16" where
  "cell_of l j = (if j < length l then vga_cell VGA_ATTR (l ! j) else blank)"

definition rows :: "'a terminal_scheme \<Rightarrow> string list \<Rightarrow> bool" where
  "rows s ls \<longleftrightarrow> (\<forall>k < SCROLLBACK_SIZE * VGA_COLS.
     terminal_history s k = cell_of (line_at ls (k div VGA_COLS)) (k mod VGA_COLS))"

definition term_rep :: "'a terminal_scheme \<Rightarrow> string list \<Rightarrow> bool" where
  "term_rep s ls \<longleftrightarrow> rows s ls \<and> ls \<noteq> [] \<and> length ls \<le> SCROLLBACK_SIZE \<and>
     terminal_total_lines s = int (length ls) \<and> cursor_row s = 0 \<and>
     length (last ls) < VGA_COLS \<and> cursor_col s = of_nat (length (last ls))"

lemma put_last_length [simp]: "ls \<noteq> [] \<Longrightarrow> length (put_last c ls) = length ls"
  by (simp add: put_last_def)

lemma put_last_ne [simp]: "put_last c ls \<noteq> []"
  by (simp add: put_last_def)

lemma line_at_put_last:
  "ls \<noteq> [] \<Longrightarrow> line_at (put_last c ls) i = (if i = length ls - 1 then last ls @ [c] else line_at ls i)"
  by (auto simp: line_at_def put_last_def nth_append nth_butlast not_less)

lemma rows_write:
  assumes "rows s ls" and "ls \<noteq> []" and "length ls \<le> SCROLLBACK_SIZE" and "length (last ls) < VGA_COLS"
  shows "rows (set_cell (int (length ls) - 1) (length (last ls)) (vga_cell VGA_ATTR c) s) (put_last c ls)"
proof -
  define p where "p = (length ls - 1) * VGA_COLS + length (last ls)"
  have p: "p div VGA_COLS = length ls - 1" "p mod VGA_COLS = length (last ls)" using assms(4) by (simp_all add: p_def)
  have idx: "nat (int (length ls) - 1) * VGA_COLS + length (last ls) = p"
    using assms(2) by (cases ls) (simp_all add: p_def)
  have old: "line_at ls (length ls - 1) = last ls" using assms(2) by (simp add: line_at_def last_conv_nth)
  have "cell_of (line_at (put_last c ls) (k div VGA_COLS)) (k mod VGA_COLS) =
      (if k = p then vga_cell VGA_ATTR c else cell_of (line_at ls (k div VGA_COLS)) (k mod VGA_COLS))" for k
  proof (cases "k = p")
    case True
    then show ?thesis using p assms(2) by (simp add: line_at_put_last cell_of_def)
  next
    case False
    then have "k div VGA_COLS \<noteq> length ls - 1 \<or> k mod VGA_COLS \<noteq> length (last ls)"
      using p by (metis div_mult_mod_eq)
    then show ?thesis using assms(2) old False by (auto simp: line_at_put_last cell_of_def nth_append)
  qed
  then show ?thesis using assms(1) by (simp add: rows_def set_cell_def idx)
qed

lemma rows_feed:
  assumes "rows s ls" and "ls \<noteq> []"
  shows "length ls < SCROLLBACK_SIZE \<Longrightarrow> rows s (new_line ls)"
    and "length ls = SCROLLBACK_SIZE \<Longrightarrow> rows (clear_line (int SCROLLBACK_SIZE - 1) (shift_up s)) (new_line ls)"
proof -
  assume "length ls < SCROLLBACK_SIZE"
  then have "line_at (new_line ls) = line_at ls" by (auto simp: fun_eq_iff line_at_def new_line_def nth_append)
  then show "rows s (new_line ls)" using assms(1) by (simp add: rows_def)
next
  assume len: "length ls = SCROLLBACK_SIZE"
  have lines: "line_at (new_line ls) i = (if i < 99 then line_at ls (i + 1) else [])" for i
    using len by (auto simp: line_at_def new_line_def nth_append nth_tl)
  have eq: "clear_line (int SCROLLBACK_SIZE - 1) t = clear_line (int 99) t" for t :: "'a terminal_scheme" by simp
  have down: "(k + VGA_COLS) div VGA_COLS = Suc (k div VGA_COLS)" for k :: nat by presburger
  show "rows (clear_line (int SCROLLBACK_SIZE - 1) (shift_up s)) (new_line ls)"
    unfolding rows_def eq clear_line_eq shift_up_eq lines
    using assms(1) by (auto simp: rows_def cell_of_def down)
qed


lemma new_line_facts:
  "new_line ls \<noteq> []" "last (new_line ls) = []"
  "length ls \<le> SCROLLBACK_SIZE \<Longrightarrow> length (new_line ls) = (if length ls < SCROLLBACK_SIZE then length ls + 1 else SCROLLBACK_SIZE)"
  by (simp_all add: new_line_def)

lemma vga_refresh_rep: "term_rep (vga_refresh s) ls = term_rep s ls"
  by (simp add: term_rep_def rows_def vga_refresh_effect)

text \<open>The line break of \<open>vga_putchar_with_scrollback\<close>.\<close>

lemma line_break_rep:
  assumes "rows s ls" and "ls \<noteq> []" and "length ls \<le> SCROLLBACK_SIZE" and "terminal_total_lines s = int (length ls)"
    and "cursor_col s = 0"
  shows "term_rep (let s = s\<lparr>terminal_total_lines := terminal_total_lines s + 1\<rparr>;
      s = (if int SCROLLBACK_SIZE < terminal_total_lines s
           then (clear_line (int SCROLLBACK_SIZE - 1) (shift_up s))\<lparr>terminal_total_lines := int SCROLLBACK_SIZE\<rparr> else s)
    in vga_refresh (s\<lparr>cursor_row := 0\<rparr>)) (new_line ls)"
proof (cases "length ls < SCROLLBACK_SIZE")
  case True
  then show ?thesis using rows_feed(1) [OF assms(1,2)] assms(3-5) new_line_facts [of ls]
    by (simp add: Let_def vga_refresh_rep) (simp add: term_rep_def rows_def)
next
  case False
  then have len: "length ls = SCROLLBACK_SIZE" using assms(3) by simp
  let ?t = "s\<lparr>terminal_total_lines := terminal_total_lines s + 1\<rparr>"
  have "rows ?t ls" using assms(1) by (simp add: rows_def)
  from rows_feed(2) [OF this assms(2) len] have r: "rows (clear_line (int SCROLLBACK_SIZE - 1) (shift_up ?t)) (new_line ls)" .
  have c: "cursor_col (clear_line (int SCROLLBACK_SIZE - 1) (shift_up ?t)) = 0"
    using assms(5) clear_line_eq [of 99 "shift_up ?t"] by (simp add: shift_up_eq)
  show ?thesis using r c len assms(4) new_line_facts [of ls]
    by (simp add: Let_def vga_refresh_rep) (simp add: term_rep_def rows_def)
qed

lemma putchar_rep:
  assumes rep: "term_rep s ls"
  shows "term_rep (vga_putchar_with_scrollback c s) (spec_put c ls)"
proof -
  have s: "rows s ls" "ls \<noteq> []" "length ls \<le> SCROLLBACK_SIZE" "terminal_total_lines s = int (length ls)" "cursor_row s = 0"
      "length (last ls) < VGA_COLS" "cursor_col s = of_nat (length (last ls))" using rep by (simp_all add: term_rep_def)
  show ?thesis
  proof (cases "c = NEWLINE")
    case True
    have "term_rep (vga_putchar_with_scrollback c s) (new_line ls)"
      using line_break_rep [of "s\<lparr>cursor_col := 0, cursor_row := 1\<rparr>" ls] s True
      by (simp add: vga_putchar_with_scrollback_def rows_def Let_def)
    then show ?thesis using True by (simp add: spec_put_def)
  next
    case False
    let ?n = "length (last ls)"
    define t where "t = set_cell (int (length ls) - 1) ?n (vga_cell VGA_ATTR c) s"
    have col: "unat (cursor_col s) = ?n" using s(6,7) by (simp add: unat_of_nat)
    have t: "rows t (put_last c ls)" "terminal_total_lines t = int (length ls)" "cursor_row t = 0" "cursor_col t = of_nat ?n"
      using rows_write [OF s(1-3,6)] s(4,5,7) by (simp_all add: t_def set_cell_def)
    have full: "(80 :: u8) \<le> of_nat ?n + 1 \<longleftrightarrow> \<not> ?n + 1 < VGA_COLS"
      using s(6) by (simp add: word_le_nat_alt unat_word_ariths unat_of_nat not_less)
    show ?thesis
    proof (cases "?n + 1 < VGA_COLS")
      case True
      then have "vga_putchar_with_scrollback c s = t\<lparr>cursor_col := cursor_col t + 1\<rparr>"
        using False full col s(4) t(3,4) by (simp add: vga_putchar_with_scrollback_def Let_def flip: t_def)
      moreover have "last (put_last c ls) = last ls @ [c]" by (simp add: put_last_def)
      ultimately show ?thesis
        using True False t s(2,3) by (simp add: spec_put_def term_rep_def rows_def add.commute)
    next
      case wrap: False
      have "term_rep (vga_putchar_with_scrollback c s) (new_line (put_last c ls))"
        using line_break_rep [of "t\<lparr>cursor_col := 0, cursor_row := 1\<rparr>" "put_last c ls"] False wrap full col s(2-4) t
        by (simp add: vga_putchar_with_scrollback_def rows_def Let_def flip: t_def)
      then show ?thesis using False wrap by (simp add: spec_put_def)
    qed
  qed
qed

text \<open>The same layout without a bound on the number of lines.\<close>

definition layout_put :: "char \<Rightarrow> string list \<Rightarrow> string list" where
  "layout_put c ls =
     (if c = NEWLINE then ls @ [[]]
      else if length (last ls) + 1 < VGA_COLS then put_last c ls
      else put_last c ls @ [[]])"

definition keep_last :: "string list \<Rightarrow> string list" where
  "keep_last ls = drop (length ls - SCROLLBACK_SIZE) ls"

lemma keep_last_facts:
  "ls \<noteq> [] \<Longrightarrow> keep_last ls \<noteq> []" "ls \<noteq> [] \<Longrightarrow> last (keep_last ls) = last ls" "length (keep_last ls) = min (length ls) 100"
  "ls \<noteq> [] \<Longrightarrow> keep_last (put_last c ls) = put_last c (keep_last ls)"
  by (cases "length ls"; auto simp: keep_last_def put_last_def last_drop butlast_drop)+

lemma keep_last_new: "ls \<noteq> [] \<Longrightarrow> new_line (keep_last ls) = keep_last (ls @ [[]])"
proof (cases "length ls < SCROLLBACK_SIZE")
  case False
  then have "length ls - 99 = Suc (length ls - SCROLLBACK_SIZE)" by simp
  then show ?thesis using False by (simp add: new_line_def keep_last_def drop_Suc tl_drop)
qed (simp add: new_line_def keep_last_def)

lemma spec_put_keep: "ls \<noteq> [] \<Longrightarrow> spec_put c (keep_last ls) = keep_last (layout_put c ls)"
  using keep_last_new [of ls] keep_last_new [of "put_last c ls"]
  by (simp add: spec_put_def layout_put_def keep_last_facts)

lemma spec_puts_keep:
  "ls \<noteq> [] \<Longrightarrow> fold spec_put cs (keep_last ls) = keep_last (fold layout_put cs ls)"
proof (induction cs arbitrary: ls)
  case (Cons c cs)
  have "layout_put c ls \<noteq> []" by (simp add: layout_put_def)
  then show ?case using Cons by (simp add: spec_put_keep)
qed simp

lemma puts_rep:
  assumes "term_rep s ls"
  shows "term_rep (fold vga_putchar_with_scrollback cs s) (keep_last (fold layout_put cs ls))"
proof -
  have "term_rep (fold vga_putchar_with_scrollback cs s) (fold spec_put cs ls)"
    using assms by (induction cs arbitrary: s ls) (simp_all add: putchar_rep)
  moreover have "keep_last ls = ls" "ls \<noteq> []" using assms by (simp_all add: term_rep_def keep_last_def)
  ultimately show ?thesis using spec_puts_keep [of ls cs] by simp
qed

text \<open>The screen shows 25 lines, from the top one on.\<close>

lemma shown_rep:
  assumes rep: "term_rep s ls" and "r < VGA_ROWS" "c < VGA_COLS"
  shows "shown s (start_row s) (r * VGA_COLS + c) =
    cell_of (line_at ls (nat (int (length ls) - int VGA_ROWS - scroll_view_offset s) + r)) c"
proof -
  define top where "top = nat (int (length ls) - int VGA_ROWS - scroll_view_offset s)"
  have ls: "terminal_total_lines s = int (length ls)" "length ls \<le> SCROLLBACK_SIZE" "rows s ls"
    using rep by (simp_all add: term_rep_def)
  have start: "start_row s = int top" using ls(1) by (simp add: start_row_def top_def Let_def)
  have pos: "(r * VGA_COLS + c) div VGA_COLS = r" "(r * VGA_COLS + c) mod VGA_COLS = c" using assms(3) by simp_all
  show ?thesis
  proof (cases "top + r < length ls")
    case True
    then have "(top + r) * VGA_COLS + c < SCROLLBACK_SIZE * VGA_COLS" using ls(2) assms(3) by simp
    moreover have "(n * VGA_COLS + c) div VGA_COLS = n" "(n * VGA_COLS + c) mod VGA_COLS = c" for n
      using assms(3) by simp_all
    ultimately have "terminal_history s ((top + r) * VGA_COLS + c) = cell_of (line_at ls (top + r)) c"
      using ls(3) unfolding rows_def by metis
    then show ?thesis using True ls(1) start unfolding shown_def pos top_def [symmetric] by (simp add: nat_int_add)
  next
    case False
    then show ?thesis using ls(1) start unfolding shown_def pos top_def [symmetric] by (simp add: line_at_def cell_of_def)
  qed
qed

lemma clear_last_line:
  "clear_line 99 s = s\<lparr>terminal_history := (\<lambda>k. if 7920 \<le> k \<and> k < 8000 then blank else terminal_history s k)\<rparr>"
  using clear_line_eq [of 99 s] by simp

lemma putchar_kept:
  "interrupts_on (vga_putchar_with_scrollback c s) = interrupts_on s"
  "scroll_view_offset (vga_putchar_with_scrollback c s) = scroll_view_offset s"
  by (simp_all add: vga_putchar_with_scrollback_def Let_def set_cell_def vga_refresh_effect shift_up_eq clear_last_line)

lemma putchars_kept:
  "interrupts_on (fold vga_putchar_with_scrollback cs s) = interrupts_on s"
  "scroll_view_offset (fold vga_putchar_with_scrollback cs s) = scroll_view_offset s"
  by (induction cs arbitrary: s) (simp_all add: putchar_kept)

lemma print_chars_rep:
  fixes s :: "'a terminal_scheme" and str :: string
  assumes "term_rep s ls"
  defines "ls' \<equiv> keep_last (fold layout_put (takeWhile (\<lambda>c. c \<noteq> NUL) str) ls)"
  shows "term_rep (print_chars str s) ls'" "interrupts_on (print_chars str s) = interrupts_on s"
    "r < VGA_ROWS \<Longrightarrow> c < VGA_COLS \<Longrightarrow> vga_buffer (print_chars str s) (r * VGA_COLS + c) =
       cell_of (line_at ls' (nat (int (length ls') - int VGA_ROWS - scroll_view_offset (print_chars str s)) + r)) c"
    "scroll_view_offset (print_chars str s) = scroll_view_offset s"
proof -
  define t where "t = fold vga_putchar_with_scrollback (takeWhile (\<lambda>c. c \<noteq> NUL) str) (s\<lparr>interrupts_on := False\<rparr>)"
  have "term_rep (s\<lparr>interrupts_on := False\<rparr>) ls" using assms(1) by (simp add: term_rep_def rows_def)
  then have t: "term_rep t ls'" using puts_rep unfolding t_def ls'_def by blast
  have p: "print_chars str s = (vga_refresh t)\<lparr>interrupts_on := interrupts_on s \<or> interrupts_on (vga_refresh t)\<rparr>"
    by (simp add: print_chars_def Let_def t_def)
  show "term_rep (print_chars str s) ls'" using t by (simp add: p) (simp add: term_rep_def rows_def vga_refresh_effect)
  show "interrupts_on (print_chars str s) = interrupts_on s" by (simp add: p vga_refresh_effect t_def putchars_kept)
  show "scroll_view_offset (print_chars str s) = scroll_view_offset s" by (simp add: p vga_refresh_effect t_def putchars_kept)
  show "vga_buffer (print_chars str s) (r * VGA_COLS + c) =
       cell_of (line_at ls' (nat (int (length ls') - int VGA_ROWS - scroll_view_offset (print_chars str s)) + r)) c"
    if "r < VGA_ROWS" "c < VGA_COLS"
    using shown_rep [OF t that] that by (simp add: p vga_refresh_effect)
qed

section \<open>Formatted printing\<close>

text \<open>What a format and its arguments stand for, with no buffer; \<open>None\<close> when they do not fit together.\<close>

definition dec_text :: "int \<Rightarrow> string" where
  "dec_text v = (if v < 0 then ''-'' else []) @ (if v = 0 then ''0'' else rev (dec_temp (nat \<bar>v\<bar>)))"

definition hex_text :: "u32 \<Rightarrow> string" where
  "hex_text v = map (\<lambda>i. hex_digit (drop_bit i v AND 0xF)) [28, 24, 20, 16, 12, 8, 4, 0]"

fun printf_text :: "string \<Rightarrow> karg list \<Rightarrow> string option" where
  "printf_text [] args = Some []"
| "printf_text [c] args = (if c = CHR ''%'' then None else Some [c])"
| "printf_text (c # d # f) args =
     (if c = CHR ''%''
      then (if d = CHR ''d'' then (case args of KDec v # as \<Rightarrow> map_option ((@) (dec_text v)) (printf_text f as) | _ \<Rightarrow> None)
            else if d = CHR ''x'' then (case args of KHex v # as \<Rightarrow> map_option ((@) (hex_text v)) (printf_text f as) | _ \<Rightarrow> None)
            else if d = CHR ''s'' then (case args of KStr t # as \<Rightarrow> map_option ((@) t) (printf_text f as) | _ \<Rightarrow> None)
            else if d = CHR ''%'' then map_option ((@) ''%'') (printf_text f args)
            else map_option ((@) [CHR ''%'', d]) (printf_text f args))
      else map_option (Cons c) (printf_text (d # f) args))"

text \<open>The buffer holds a beginning of the text, all of it unless the buffer is full.\<close>

definition filled :: "string \<Rightarrow> string \<Rightarrow> bool" where
  "filled r out \<longleftrightarrow> length r \<le> 512 \<and> r = take (length r) out \<and> (length r < 511 \<longrightarrow> r = out) \<and> (length out \<le> 511 \<longrightarrow> r = out)"

lemma put_dec_room: "length buf < 511 \<Longrightarrow> put_dec v buf = append_room buf (dec_text v)"
  by (auto simp: put_dec_def append_room_def dec_text_def Let_def take_Cons' dec_temp.simps [of 0])

lemma put_hex_room: "put_hex v buf = append_room buf (hex_text v)"
  by (simp add: put_hex_def hex_text_def)

lemma format_loop_full: "511 \<le> length buf \<Longrightarrow> format_loop f args buf = Inr buf"
  by (cases f) simp_all

lemma filled_full: "511 \<le> length buf \<Longrightarrow> length buf \<le> 512 \<Longrightarrow> filled buf (buf @ out)"
  by (cases out) (auto simp: filled_def)

lemma format_loop_step:
  assumes "length buf < 511" and "\<And>b. length b \<le> 512 \<Longrightarrow> \<exists>r. format_loop f args b = Inr r \<and> filled r (b @ out)"
  shows "\<exists>r. format_loop f args (append_room buf t) = Inr r \<and> filled r (buf @ t @ out)"
proof (cases "length (buf @ t) \<le> 511")
  case True
  then have "append_room buf t = buf @ t" by (simp add: append_room_def)
  then show ?thesis using assms(2) [of "buf @ t"] True by simp
next
  case False
  then have len: "length (append_room buf t) = 511" "append_room buf t = take 511 (buf @ t)"
    using assms(1) by (simp_all add: append_room_def)
  then have "filled (append_room buf t) (buf @ t @ out)" using False by (auto simp: filled_def)
  then show ?thesis using format_loop_full [of "append_room buf t"] len(1) by simp
qed

lemma format_loop_filled:
  assumes "printf_text f args = Some out" and "length buf \<le> 512"
  shows "\<exists>r. format_loop f args buf = Inr r \<and> filled r (buf @ out)"
  using assms
proof (induction f args arbitrary: buf out rule: printf_text.induct)
  case (3 c d f args)
  show ?case
  proof (cases "length buf < 511")
    case False
    then show ?thesis using format_loop_full [of buf] filled_full [of buf out] "3.prems"(2) by simp
  next
    case room: True
    show ?thesis
    proof (cases "c = CHR ''%''")
      case False
      then obtain out' where "printf_text (d # f) args = Some out'" "out = c # out'" using "3.prems"(1) by auto
      then show ?thesis using "3.IH"(6) [OF False, of out' "buf @ [c]"] False room by simp
    next
      case conv: True
      consider (dec) v as o' where "d = CHR ''d''" "args = KDec v # as" "printf_text f as = Some o'" "out = dec_text v @ o'"
        | (hex) v as o' where "d = CHR ''x''" "args = KHex v # as" "printf_text f as = Some o'" "out = hex_text v @ o'"
        | (str) t as o' where "d = CHR ''s''" "args = KStr t # as" "printf_text f as = Some o'" "out = t @ o'"
        | (percent) o' where "d = CHR ''%''" "printf_text f args = Some o'" "out = ''%'' @ o'"
        | (other) o' where "d \<notin> {CHR ''d'', CHR ''x'', CHR ''s'', CHR ''%''}" "printf_text f args = Some o'" "out = [CHR ''%'', d] @ o'"
        using "3.prems"(1) conv by (auto split: if_splits list.splits karg.splits)
      then show ?thesis
      proof cases
        case dec
        have "\<exists>r. format_loop f as b = Inr r \<and> filled r (b @ o')" if "length b \<le> 512" for b
          using "3.IH"(1) dec conv that by auto
        from format_loop_step [OF room this] show ?thesis using dec conv room by (simp add: put_dec_room)
      next
        case hex
        have "\<exists>r. format_loop f as b = Inr r \<and> filled r (b @ o')" if "length b \<le> 512" for b
          using "3.IH"(2) hex conv that by auto
        from format_loop_step [OF room this] show ?thesis using hex conv room by (simp add: put_hex_room)
      next
        case str
        have "\<exists>r. format_loop f as b = Inr r \<and> filled r (b @ o')" if "length b \<le> 512" for b
          using "3.IH"(3) str conv that by auto
        from format_loop_step [OF room this] show ?thesis using str conv room by simp
      next
        case percent
        then show ?thesis using "3.IH"(4) [of o' "buf @ ''%''"] conv room by simp
      next
        case other
        then show ?thesis using "3.IH"(5) [of o' "buf @ [CHR ''%'', d]"] conv room by simp
      qed
    qed
  qed
qed (auto simp: filled_def split: if_splits)

text \<open>Reading numbers back.\<close>

definition read_nat :: "string \<Rightarrow> nat" where
  "read_nat t = foldl (\<lambda>n c. 10 * n + (of_char c - 48)) 0 t"

definition read_int :: "string \<Rightarrow> int" where
  "read_int t = (if t \<noteq> [] \<and> hd t = CHR ''-'' then - int (read_nat (tl t)) else int (read_nat t))"

definition hex_value :: "char \<Rightarrow> nat" where
  "hex_value c = (let n = of_char c in if n < 58 then n - 48 else n - 87)"

definition read_hex :: "string \<Rightarrow> nat" where
  "read_hex t = foldl (\<lambda>n c. 16 * n + hex_value c) 0 t"

lemma of_char_digit: "k < 10 \<Longrightarrow> (of_char (char_of (48 + k)) :: nat) = 48 + k"
  by (simp add: of_char_of)

lemma read_dec_temp: "read_nat (rev (dec_temp v)) = v"
proof (induction v rule: dec_temp.induct)
  case (1 v)
  then show ?case
    by (subst dec_temp.simps) (auto simp: read_nat_def of_char_digit)
qed

lemma dec_temp_digits: "c \<in> set (dec_temp v) \<Longrightarrow> \<exists>k < 10. c = char_of (48 + k :: nat)"
proof (induction v rule: dec_temp.induct)
  case (1 v)
  show ?case
  proof (cases "v = 0")
    case False
    have "c = char_of (48 + v mod 10) \<or> c \<in> set (dec_temp (v div 10))"
      using "1.prems" False by (subst (asm) dec_temp.simps) auto
    moreover have "v mod 10 < 10" by simp
    ultimately show ?thesis using "1.IH" False by blast
  qed (use "1.prems" in \<open>simp add: dec_temp.simps\<close>)
qed

lemma digit_not_minus: "k < 10 \<Longrightarrow> char_of (48 + k :: nat) \<noteq> CHR ''-''"
proof
  assume "k < 10" and eq: "char_of (48 + k :: nat) = CHR ''-''"
  then show False using of_char_digit [of k] arg_cong [OF eq, of "of_char :: char \<Rightarrow> nat"] by simp
qed

lemma read_dec_text: "read_int (dec_text v) = v"
proof (cases "0 < v")
  case True
  have "rev (dec_temp (nat v)) \<noteq> []" using True by (subst dec_temp.simps) simp
  then have "hd (rev (dec_temp (nat v))) \<in> set (dec_temp (nat v))" by (metis hd_in_set set_rev)
  then obtain k where "k < 10" "hd (rev (dec_temp (nat v))) = char_of (48 + k :: nat)" using dec_temp_digits by blast
  then have "hd (rev (dec_temp (nat v))) \<noteq> CHR ''-''" using digit_not_minus [of k] by simp
  then show ?thesis using True by (simp add: read_int_def dec_text_def read_dec_temp)
next
  case False
  have "read_nat ''0'' = 0" by (simp add: read_nat_def)
  then show ?thesis using False by (cases "v = 0") (simp_all add: read_int_def dec_text_def read_dec_temp)
qed

lemma nibbles:
  fixes v a :: nat
  shows "foldl (\<lambda>n i. 16 * n + v div 16 ^ i mod 16) a (rev [0..<k]) = a * 16 ^ k + v mod 16 ^ k"
proof (induction k arbitrary: a)
  case (Suc k)
  have "rev [0..<Suc k] = k # rev [0..<k]" by simp
  moreover have "v mod 16 ^ Suc k = v div 16 ^ k mod 16 * 16 ^ k + v mod 16 ^ k"
    using mod_mult2_eq [of v "16 ^ k" 16] by (simp add: mult.commute)
  ultimately show ?case unfolding foldl_Cons by (simp only: foldl_Cons Suc.IH) (simp add: algebra_simps)
qed simp

lemma hex_value_digit:
  assumes "unat d < 16" shows "hex_value (hex_digit d) = unat d"
proof -
  have "unat d = 0 \<or> unat d = 1 \<or> unat d = 2 \<or> unat d = 3 \<or> unat d = 4 \<or> unat d = 5 \<or> unat d = 6 \<or> unat d = 7 \<or>
    unat d = 8 \<or> unat d = 9 \<or> unat d = 10 \<or> unat d = 11 \<or> unat d = 12 \<or> unat d = 13 \<or> unat d = 14 \<or> unat d = 15"
    using assms by arith
  then show ?thesis by (elim disjE) (simp_all add: hex_value_def hex_digit_def)
qed

lemma unat_nibble: "unat (drop_bit (4 * i) (v :: u32) AND 0xF) = unat v div 16 ^ i mod 16"
proof -
  have m: "(0xF :: u32) = mask 4" by (simp add: mask_eq_exp_minus_1)
  have "unat (drop_bit (4 * i) v) = unat v div 16 ^ i"
    by (subst unsigned_drop_bit_eq) (simp add: drop_bit_eq_div take_bit_nat_eq_self [OF unat_u32_bound] power_mult)
  then show ?thesis unfolding m by (simp add: unat_mod take_bit_eq_mod flip: take_bit_eq_mask)
qed

lemma read_hex_text: "read_hex (hex_text v) = unat v"
proof -
  have "hex_text v = map (\<lambda>i. hex_digit (drop_bit (4 * i) v AND 0xF)) (rev [0..<8])" by (simp add: hex_text_def upt_rec)
  moreover have "hex_value (hex_digit (drop_bit (4 * i) v AND 0xF)) = unat v div 16 ^ i mod 16" for i
    using hex_value_digit [of "drop_bit (4 * i) v AND 0xF"] unat_nibble [of i v] by simp
  ultimately have "read_hex (hex_text v) = foldl (\<lambda>n i. 16 * n + unat v div 16 ^ i mod 16) 0 (rev [0..<8])"
    by (simp only: read_hex_def foldl_map)
  then show ?thesis using nibbles [of "unat v" 0 8] unat_u32_bound [of v] by simp
qed

section \<open>Properties\<close>

lemma printk_buffer_text:
  assumes "printf_text f args = Some out" and "length out \<le> 511"
  shows "printk_buffer f args = Inr out"
  using format_loop_filled [OF assms(1), of "[]"] assms(2) by (auto simp: printk_buffer_def filled_def)

text \<open>
  C6. \<open>printk\<close> prints the text its format and arguments stand for: when the text has at most 511
  characters and no NUL, the lines of the console become the last 100 lines of the old ones with the
  text written on, wrapped at 80 columns; the scroll position is kept, and the screen shows the 25
  lines at that position, which are the last 25 lines when the view is not scrolled back.
\<close>

theorem printk_prints:
  assumes rep: "term_rep s ls" and tx: "printf_text f args = Some out" "length out \<le> 511" "NUL \<notin> set out"
  defines "ls' \<equiv> keep_last (fold layout_put out ls)"
  shows "\<exists>s'. printk f args s = Inr s' \<and> term_rep s' ls' \<and> interrupts_on s' = interrupts_on s \<and>
    scroll_view_offset s' = scroll_view_offset s \<and>
    (\<forall>r < VGA_ROWS. \<forall>c < VGA_COLS. vga_buffer s' (r * VGA_COLS + c) =
       cell_of (line_at ls' (nat (int (length ls') - int VGA_ROWS - scroll_view_offset s) + r)) c)"
proof -
  have all: "takeWhile (\<lambda>c. c \<noteq> NUL) out = out" using tx(3) by (auto simp: takeWhile_eq_all_conv)
  show ?thesis
    using print_chars_rep [OF rep, where str = out, unfolded all] printk_buffer_text [OF tx(1,2)]
    by (simp add: printk_def ls'_def)
qed

definition terminal_example :: terminal where
  "terminal_example = vga_clear \<lparr>klog = [], io_trace = [], idt_entries = (\<lambda>_. idt_gate 0 0 0), irq_handlers = (\<lambda>_. None),
     idtr = None, gdt_entries = (\<lambda>_. \<lparr>limit_low = 0, gbase_low = 0, base_middle = 0, access = 0, granularity = 0, gbase_high = 0\<rparr>),
     gdtr = None, data_segs = 0, code_seg = 0, vga_buffer = (\<lambda>_. 0), graphics_mode_active = False,
     key_buffer = (\<lambda>_. 0), keybuf_head = 0, keybuf_tail = 0, modifiers = 0, extended_mode = False, keyboard_debug_counter = 0,
     arrow_left_requested = False, arrow_right_requested = False, arrow_up_requested = False, arrow_down_requested = False,
     delete_requested = False, graphics_toggle_requested = False, t_key_pressed = False, current_layout = layouts ! 0,
     terminal_history = (\<lambda>_. 0), terminal_total_lines = 1, scroll_view_offset = 0, cursor_row = 0, cursor_col = 0,
     interrupts_on = True, loading_status_active = False, loading_status_line = -1, loading_status_frame = 0,
     loading_status_label = [], loading_status_progress = 0\<rparr>"

lemma clear_lines:
  "for_loop 0 n (\<lambda>i. clear_line (int i)) s =
     s\<lparr>terminal_history := (\<lambda>k. if k < n * VGA_COLS then blank else terminal_history s k)\<rparr>"
proof (induction n)
  case (Suc n)
  show ?case unfolding for_loop_next Suc.IH unfolding clear_line_eq by simp (rule history_eqI, auto)
qed simp

lemma vga_clear_rep: "term_rep (vga_clear s) [[]]"
  by (simp add: vga_clear_def Let_def vga_refresh_rep clear_lines)
    (simp add: term_rep_def rows_def cell_of_def line_at_def)

theorem printk_prints_witness:
  "\<exists>s'. printk ''Memory: %d KB\<newline>'' [KDec 640] terminal_example = Inr s' \<and>
     term_rep s' [''Memory: 640 KB'', []] \<and> scroll_view_offset s' = 0 \<and>
     (\<forall>c < VGA_COLS. vga_buffer s' c = cell_of ''Memory: 640 KB'' c)"
proof -
  have rep: "term_rep terminal_example [[]]" unfolding terminal_example_def by (rule vga_clear_rep)
  have off: "scroll_view_offset terminal_example = 0"
    unfolding terminal_example_def by (simp add: vga_clear_def Let_def vga_refresh_effect clear_lines)
  have tx: "printf_text ''Memory: %d KB\<newline>'' [KDec 640] = Some (''Memory: 640 KB'' @ [NEWLINE])"
    by code_simp
  have ls: "keep_last (fold layout_put (''Memory: 640 KB'' @ [NEWLINE]) [[]]) = [''Memory: 640 KB'', []]"
    by (simp add: layout_put_def put_last_def keep_last_def)
  obtain s' where s': "printk ''Memory: %d KB\<newline>'' [KDec 640] terminal_example = Inr s'"
      "term_rep s' [''Memory: 640 KB'', []]" "scroll_view_offset s' = 0"
      "\<forall>r < VGA_ROWS. \<forall>c < VGA_COLS. vga_buffer s' (r * VGA_COLS + c) =
         cell_of (line_at [''Memory: 640 KB'', []] (nat (int (length [''Memory: 640 KB'', []]) - int VGA_ROWS - 0) + r)) c"
    using printk_prints [OF rep tx] unfolding ls off by auto
  have "vga_buffer s' c = cell_of ''Memory: 640 KB'' c" if "c < VGA_COLS" for c
    using s'(4) [rule_format, of 0 c] that by (simp add: line_at_def)
  then show ?thesis using s'(1-3) by blast
qed

lemma dec_temp_length: "v < 10 ^ n \<Longrightarrow> length (dec_temp v) \<le> n"
proof (induction n arbitrary: v)
  case (Suc n)
  have "v div 10 < 10 ^ n" using Suc.prems by (simp add: less_mult_imp_div_less mult.commute)
  then show ?case using Suc.IH [of "v div 10"] by (subst dec_temp.simps) simp
qed (simp add: dec_temp.simps)

text \<open>
  C31. The numbers \<open>printk\<close> prints can be read back: \<open>%d\<close> prints every 32-bit integer in decimal with its
  sign, \<open>%x\<close> every 32-bit word in eight hexadecimal digits.
\<close>

theorem printk_numbers_roundtrip:
  "(\<exists>t. printk_buffer ''%d'' [KDec (sint (v :: u32))] = Inr t \<and> read_int t = sint v) \<and>
   (\<exists>t. printk_buffer ''%x'' [KHex w] = Inr t \<and> length t = 8 \<and> read_hex t = unat w)"
proof -
  have "nat \<bar>sint v\<bar> < 10 ^ 10" using sint_lt [of v] sint_ge [of v] by simp
  from dec_temp_length [OF this] have len: "length (dec_text (sint v)) \<le> 511" by (auto simp: dec_text_def abs_if)
  have "printk_buffer ''%d'' [KDec (sint v)] = Inr (dec_text (sint v))"
    by (rule printk_buffer_text) (use len in simp_all)
  moreover have "printk_buffer ''%x'' [KHex w] = Inr (hex_text w)"
    by (rule printk_buffer_text) (simp_all add: hex_text_def)
  ultimately show ?thesis using read_dec_text read_hex_text by (auto simp: hex_text_def)
qed

text \<open>
  C32. \<open>printk\<close> writes one byte beyond its buffer of 512 when an unknown conversion comes after 510
  characters: both of its characters are stored without a check, and the closing zero follows.
\<close>

theorem printk_overflows:
  assumes "length pre = 510" and "CHR ''%'' \<notin> set pre" and "d \<notin> {CHR ''d'', CHR ''x'', CHR ''s'', CHR ''%''}"
  shows "printk_buffer (pre @ [CHR ''%'', d]) args = Inl Buffer_overflow"
proof -
  have "format_loop (p @ f) args buf = format_loop f args (buf @ p)" if "CHR ''%'' \<notin> set p" "length (buf @ p) < 511" for p f buf
    using that by (induction p arbitrary: buf) auto
  from this [OF assms(2), of "[]"] show ?thesis using assms(1,3) by (simp add: printk_buffer_def)
qed

theorem printk_overflows_witness: "printk_buffer (replicate 510 (CHR ''a'') @ ''%c'') [] = Inl Buffer_overflow"
  using printk_overflows [of "replicate 510 (CHR ''a'')" "CHR ''c''" "[]"] by simp

end
