(* ===== verification/Display_Props.thy ===== *)
theory Display_Props
  imports Display Terminal_Props
begin

text \<open>
  Drawing on the display: what each call paints, and that no call writes outside the framebuffer of
  the mode the probes chose.
\<close>

section \<open>Memory\<close>

fun store_bytes :: "(u32 \<Rightarrow> u8 \<Rightarrow> 's \<Rightarrow> 's) \<Rightarrow> u32 \<Rightarrow> u8 list \<Rightarrow> 's \<Rightarrow> 's" where
  "store_bytes poke a [] s = s"
| "store_bytes poke a (v # vs) s = store_bytes poke (a + 1) vs (poke a v s)"

text \<open>What a memory of bytes promises: a load gives the value of the last store that had memory behind it.\<close>

locale byte_memory =
  fixes peek :: "u32 \<Rightarrow> 's \<Rightarrow> u8" and poke :: "u32 \<Rightarrow> u8 \<Rightarrow> 's \<Rightarrow> 's" and present :: "'s \<Rightarrow> u32 \<Rightarrow> bool"
  assumes peek_poke: "peek b (poke a v s) = (if b = a \<and> present s a then v else peek b s)"
    and present_poke: "present (poke a v s) = present s"
begin

lemma present_bytes: "present (store_bytes poke a vs s) = present s"
  by (induction vs arbitrary: a s) (simp_all add: present_poke)

lemma peek_bytes:
  assumes "length vs < 2 ^ 32" and "\<forall>i < length vs. present s (a + of_nat i)"
  shows "peek b (store_bytes poke a vs s) = (if unat (b - a) < length vs then vs ! unat (b - a) else peek b s)"
  using assms
proof (induction vs arbitrary: a s)
  case (Cons v vs)
  from Cons.prems have here: "present s a" using spec [of _ 0] by force
  have there: "present (poke a v s) (a + 1 + of_nat i)" if "i < length vs" for i
    using Cons.prems(2) [rule_format, of "Suc i"] that by (simp add: present_poke ac_simps)
  have IH: "peek b (store_bytes poke (a + 1) vs (poke a v s)) =
      (if unat (b - (a + 1)) < length vs then vs ! unat (b - (a + 1)) else peek b (poke a v s))"
    using Cons.IH [of "poke a v s" "a + 1"] Cons.prems(1) there by simp
  show ?case
  proof (cases "b = a")
    case True
    have "unat (b - (a + 1)) = 2 ^ 32 - 1" using True by (simp add: unsigned_minus_1_eq_mask mask_eq_exp_minus_1)
    then show ?thesis using IH Cons.prems(1) True here by (simp add: peek_poke)
  next
    case False
    then have ne: "b - a \<noteq> 0" by simp
    have "b - (a + 1) = (b - a) - 1" by simp
    moreover have "0 < unat (b - a)" using ne unat_gt_0 by blast
    ultimately have "unat (b - a) = Suc (unat (b - (a + 1)))"
      using unat_minus_one [OF ne] by (simp only: Suc_diff_1)
    then show ?thesis using IH False by (simp add: peek_poke)
  qed
qed simp

end

lemma text_cell_parity:
  assumes "in_text a" and "in_text b" and "text_cell a = text_cell b" and "even a = even b"
  shows "a = b"
proof -
  let ?x = "unat (a - 0xB8000)" and ?y = "unat (b - 0xB8000)"
  have par: "even c \<longleftrightarrow> even (unat (c - 0xB8000))" for c :: u32
  proof -
    have "even c \<longleftrightarrow> even (c - 0xB8000)" by simp
    also have "\<dots> \<longleftrightarrow> even (unat (c - 0xB8000))"
      using bit_unsigned_iff [where 'a = nat and w = "c - 0xB8000" and n = 0] by (simp add: bit_0)
    finally show ?thesis .
  qed
  have "?x div 2 = ?y div 2" using assms(3) by (simp add: text_cell_def)
  moreover have "even ?x = even ?y" using assms(4) par by metis
  ultimately have "?x = ?y" by presburger
  then have "a - 0xB8000 = b - 0xB8000" by (simp only: word_unat_eq_iff)
  then show "a = b" by simp
qed

lemma cell_get_set: "cell_get l (cell_set l' c v) = (if l = l' then v else cell_get l c)"
proof -
  have m: "(0xFF00 :: u16) = push_bit 8 (mask 8)" "(0x00FF :: u16) = mask 8" by (simp_all add: mask_eq_exp_minus_1)
  have big: "bit v (8 + n) = False" for n by (simp add: bit_word.rep_eq)
  show ?thesis
    unfolding cell_get_def cell_set_def m by (cases l; cases l'; rule bit_word_eqI) (auto simp: bit_simps big)
qed

interpretation vmem: byte_memory load8 store8 backed
proof
  fix a b v and s :: "'a display_scheme"
  show "backed (store8 a v s) = backed s" by (simp add: store8_def Let_def)
  show "load8 b (store8 a v s) = (if b = a \<and> backed s a then v else load8 b s)"
  proof (cases "backed s a \<and> in_text a \<and> in_text b \<and> text_cell b = text_cell a")
    case True
    then have "b = a \<longleftrightarrow> even b = even a" using text_cell_parity by metis
    with True show ?thesis by (auto simp: load8_def store8_def cell_get_set)
  next
    case False
    then show ?thesis by (auto simp: load8_def store8_def Let_def)
  qed
qed

section \<open>Canvas\<close>

text \<open>
  A mode is well formed when its lines fit in the pitch and its framebuffer in the address space. A text
  mode is a framebuffer of two-byte cells.
\<close>

definition pixel_bytes :: "display_mode_t \<Rightarrow> nat" where
  "pixel_bytes m = (if dtype m = DISP_VGA_TEXT then 2 else unat (bpp m) div 8)"

definition frame_size :: "display_mode_t \<Rightarrow> nat" where
  "frame_size m = unat (pitch m) * unat (height m)"

definition in_frame :: "display_mode_t \<Rightarrow> u32 \<Rightarrow> bool" where
  "in_frame m a \<longleftrightarrow> unat (addr m) \<le> unat a \<and> unat a < unat (addr m) + frame_size m"

definition mode_wf :: "display_mode_t \<Rightarrow> bool" where
  "mode_wf m \<longleftrightarrow> available m \<and> unat (width m) * pixel_bytes m \<le> unat (pitch m) \<and>
     unat (addr m) + frame_size m \<le> 2 ^ 32 \<and>
     (if dtype m = DISP_VGA_TEXT then bpp m = 0 \<and> unat (pitch m) = 2 * unat (width m) \<and> frame_size m = 4000
      else bpp m \<in> {8, 16, 24, 32})"

text \<open>The bytes of a pixel and of a colour. Nothing is ever drawn with 24 bits for a pixel.\<close>

definition pixel_addr :: "display_mode_t \<Rightarrow> u32 \<Rightarrow> u32 \<Rightarrow> u32" where
  "pixel_addr m x y = addr m + y * ucast (pitch m) + x * of_nat (pixel_bytes m)"

definition pixel :: "'a display_scheme \<Rightarrow> u32 \<Rightarrow> u32 \<Rightarrow> u8 list" where
  "pixel s x y = map (\<lambda>i. load8 (pixel_addr (current_mode s) x y + of_nat i) s) [0..<pixel_bytes (current_mode s)]"

definition rgb565 :: "u32 \<Rightarrow> u16" where
  "rgb565 c = push_bit 11 (drop_bit 3 (ucast (drop_bit 16 c AND 0xFF))) OR
     push_bit 5 (drop_bit 2 (ucast (drop_bit 8 c AND 0xFF))) OR drop_bit 3 (ucast (c AND 0xFF))"

definition encode :: "display_mode_t \<Rightarrow> u32 \<Rightarrow> u8 list" where
  "encode m c =
     (if bpp m = 8 then [rgb_to_vga8 c]
      else if bpp m = 16 then [ucast (rgb565 c), ucast (drop_bit 8 (rgb565 c))]
      else [ucast c, ucast (drop_bit 8 c), ucast (drop_bit 16 c), ucast (drop_bit 24 c)])"

definition on_screen :: "display_mode_t \<Rightarrow> u32 \<Rightarrow> u32 \<Rightarrow> bool" where
  "on_screen m x y \<longleftrightarrow> x < ucast (width m) \<and> y < ucast (height m)"

text \<open>A graphics mode with memory behind its framebuffer, in which the driver draws.\<close>

definition drawable :: "display_mode_t \<Rightarrow> bool" where
  "drawable m \<longleftrightarrow> mode_wf m \<and> bpp m \<in> {8, 16, 32}"

definition canvas :: "display_mode_t \<Rightarrow> 'a display_scheme \<Rightarrow> bool" where
  "canvas m s \<longleftrightarrow> current_mode s = m \<and> drawable m \<and> (\<forall>a. in_frame m a \<longrightarrow> backed s a)"

text \<open>Nothing but video memory, and there nothing outside the framebuffer, differs.\<close>

definition drawn :: "'a display_scheme \<Rightarrow> 'a display_scheme \<Rightarrow> bool" where
  "drawn s s' \<longleftrightarrow> s' = s\<lparr>vga_buffer := vga_buffer s', video := video s'\<rparr> \<and>
     (\<forall>a. \<not> in_frame (current_mode s) a \<longrightarrow> load8 a s' = load8 a s)"

text \<open>Exactly the pixels of a set were given a colour.\<close>

definition painted :: "(u32 \<Rightarrow> u32 \<Rightarrow> bool) \<Rightarrow> u32 \<Rightarrow> 'a display_scheme \<Rightarrow> 'a display_scheme \<Rightarrow> bool" where
  "painted P c s s' \<longleftrightarrow> drawn s s' \<and>
     (\<forall>x y. on_screen (current_mode s) x y \<longrightarrow>
        pixel s' x y = (if P x y then encode (current_mode s) c else pixel s x y))"

lemma drawn_fields:
  assumes "drawn s s'"
  shows "current_mode s' = current_mode s" and "backed s' = backed s" and "klog s' = klog s"
    and "\<not> in_frame (current_mode s) a \<Longrightarrow> load8 a s' = load8 a s"
proof -
  have eq: "s' = s\<lparr>vga_buffer := vga_buffer s', video := video s'\<rparr>" using assms by (simp add: drawn_def)
  show "current_mode s' = current_mode s" by (subst eq) simp
  show "backed s' = backed s" by (subst eq) simp
  show "klog s' = klog s" by (subst eq) simp
  show "\<not> in_frame (current_mode s) a \<Longrightarrow> load8 a s' = load8 a s" using assms by (simp add: drawn_def)
qed

lemma drawn_refl: "drawn s s"
  by (simp add: drawn_def)

lemma drawn_trans: "drawn s t \<Longrightarrow> drawn t u \<Longrightarrow> drawn s u"
proof -
  assume st: "drawn s t" and tu: "drawn t u"
  have "t = s\<lparr>vga_buffer := vga_buffer t, video := video t\<rparr>" using st by (simp add: drawn_def)
  then have "t\<lparr>vga_buffer := vga_buffer u, video := video u\<rparr> =
      s\<lparr>vga_buffer := vga_buffer t, video := video t\<rparr>\<lparr>vga_buffer := vga_buffer u, video := video u\<rparr>" by simp
  moreover have "u = t\<lparr>vga_buffer := vga_buffer u, video := video u\<rparr>" using tu by (simp add: drawn_def)
  ultimately have "u = s\<lparr>vga_buffer := vga_buffer u, video := video u\<rparr>" by simp
  moreover have "load8 a u = load8 a s" if "\<not> in_frame (current_mode s) a" for a
    using that drawn_fields(1,4) [OF st] drawn_fields(4) [OF tu] by metis
  ultimately show "drawn s u" unfolding drawn_def by blast
qed

lemma drawn_loop:
  assumes "\<And>i t. lo \<le> i \<Longrightarrow> i < hi \<Longrightarrow> current_mode t = current_mode s \<Longrightarrow> drawn t (f i t)"
  shows "drawn s (for_loop lo hi f s)"
proof (cases "lo \<le> hi")
  case True
  then show ?thesis
    by (rule for_loop_invariant [where P = "\<lambda>_. drawn s"])
      (use drawn_refl drawn_fields(1) drawn_trans assms in metis)+
qed (simp add: drawn_refl)

lemma canvas_drawn: "canvas m s \<Longrightarrow> drawn s s' \<Longrightarrow> canvas m s'"
  by (simp add: canvas_def drawn_fields)

lemma painted_none: "painted (\<lambda>x y. False) c s s"
  by (simp add: painted_def drawn_refl)

lemma painted_union:
  assumes "painted P c s t" and "painted Q c t u"
  shows "painted (\<lambda>x y. P x y \<or> Q x y) c s u"
proof -
  have st: "drawn s t" and tu: "drawn t u" using assms by (simp_all add: painted_def)
  show ?thesis
    using assms drawn_trans [OF st tu] drawn_fields(1) [OF st] by (simp add: painted_def)
qed

lemma painted_cong: "painted P c s s' \<Longrightarrow> (\<And>x y. on_screen (current_mode s) x y \<Longrightarrow> P x y = Q x y) \<Longrightarrow> painted Q c s s'"
  by (simp add: painted_def)

lemma painted_loop:
  assumes "canvas m s"
    and "\<And>i t. lo \<le> i \<Longrightarrow> i < hi \<Longrightarrow> canvas m t \<Longrightarrow> painted (P i) c t (f i t)"
  shows "painted (\<lambda>x y. \<exists>i. lo \<le> i \<and> i < hi \<and> P i x y) c s (for_loop lo hi f s)"
proof (cases "lo \<le> hi")
  case True
  then have "canvas m (for_loop lo hi f s) \<and> painted (\<lambda>x y. \<exists>i. lo \<le> i \<and> i < hi \<and> P i x y) c s (for_loop lo hi f s)"
  proof (rule for_loop_invariant [where P = "\<lambda>n t. canvas m t \<and> painted (\<lambda>x y. \<exists>i. lo \<le> i \<and> i < n \<and> P i x y) c s t"])
    show "canvas m s \<and> painted (\<lambda>x y. \<exists>i. lo \<le> i \<and> i < lo \<and> P i x y) c s s"
      using assms(1) by (auto simp: painted_def drawn_refl)
  next
    fix n t
    assume n: "lo \<le> n" "n < hi" and t: "canvas m t \<and> painted (\<lambda>x y. \<exists>i. lo \<le> i \<and> i < n \<and> P i x y) c s t"
    have p: "painted (P n) c t (f n t)" using assms(2) n t by blast
    then have "canvas m (f n t)" using t canvas_drawn by (auto simp: painted_def)
    moreover have "painted (\<lambda>x y. \<exists>i. lo \<le> i \<and> i < Suc n \<and> P i x y) c s (f n t)"
      using painted_union [OF conjunct2 [OF t] p] n(1) by (elim painted_cong) (auto simp: less_Suc_eq)
    ultimately show "canvas m (f n t) \<and> painted (\<lambda>x y. \<exists>i. lo \<le> i \<and> i < Suc n \<and> P i x y) c s (f n t)" ..
  qed
  then show ?thesis ..
next
  case False
  then show ?thesis by (auto simp: painted_def drawn_refl)
qed


section \<open>Pixels\<close>

lemma unat_ucast16 [simp]: "unat (ucast (w :: u16) :: u32) = unat w"
  by (simp add: unsigned_ucast_eq take_bit_nat_eq_self less_trans [OF unsigned_less])

lemma store8_drawn: "in_frame (current_mode s) a \<Longrightarrow> drawn s (store8 a v s)"
  by (auto simp: drawn_def vmem.peek_poke) (simp add: store8_def)

lemma store_bytes_drawn:
  assumes "\<forall>i < length vs. in_frame (current_mode s) (a + of_nat i)"
  shows "drawn s (store_bytes store8 a vs s)"
  using assms
proof (induction vs arbitrary: a s)
  case Nil
  then show ?case by (simp add: drawn_refl)
next
  case (Cons v vs)
  have here: "drawn s (store8 a v s)" using Cons.prems spec [of _ 0] by (force intro: store8_drawn)
  have "in_frame (current_mode (store8 a v s)) (a + 1 + of_nat i)" if "i < length vs" for i
    using Cons.prems [rule_format, of "Suc i"] that drawn_fields(1) [OF here] by (simp add: ac_simps)
  then show ?case using drawn_trans [OF here Cons.IH] by simp
qed

lemma store_as_bytes:
  "store8 a b s = store_bytes store8 a [b] s"
  "store16 a v s = store_bytes store8 a [ucast v, ucast (drop_bit 8 v)] s"
  "store32 a w s = store_bytes store8 a [ucast w, ucast (drop_bit 8 w), ucast (drop_bit 16 w), ucast (drop_bit 24 w)] s"
proof -
  show "store8 a b s = store_bytes store8 a [b] s" by simp
  show two: "store16 a v s = store_bytes store8 a [ucast v, ucast (drop_bit 8 v)] s" for a v s
    by (simp add: store16_def)
  have low: "ucast (ucast w :: u16) = (ucast w :: u8)" by (rule bit_word_eqI) (auto simp: bit_simps)
  have mid: "ucast (drop_bit 8 (ucast w :: u16)) = (ucast (drop_bit 8 w) :: u8)"
    by (rule bit_word_eqI) (auto simp: bit_simps)
  have up: "ucast (ucast (drop_bit 16 w) :: u16) = (ucast (drop_bit 16 w) :: u8)"
    by (rule bit_word_eqI) (auto simp: bit_simps)
  have top: "ucast (drop_bit 8 (ucast (drop_bit 16 w) :: u16)) = (ucast (drop_bit 24 w) :: u8)"
    by (rule bit_word_eqI) (auto simp: bit_simps)
  show "store32 a w s = store_bytes store8 a [ucast w, ucast (drop_bit 8 w), ucast (drop_bit 16 w), ucast (drop_bit 24 w)] s"
    unfolding store32_def two low mid up top by (simp add: ac_simps)
qed

lemma drawableD:
  assumes "drawable m"
  shows "mode_wf m" and "available m" and "dtype m \<noteq> DISP_VGA_TEXT" and "bpp m = 8 \<or> bpp m = 16 \<or> bpp m = 32"
    and "pixel_bytes m = unat (bpp m) div 8" and "length (encode m c) = pixel_bytes m" and "pixel_bytes m \<le> 4"
  using assms by (auto simp: drawable_def mode_wf_def encode_def pixel_bytes_def split: if_splits)

lemma putpixel_bytes:
  assumes "current_mode s = m" and "drawable m"
  shows "display_putpixel x y c s =
    (if on_screen m x y then store_bytes store8 (pixel_addr m x y) (encode m c) s else s)"
  using drawableD(4) [OF assms(2)] drawableD(2,5) [OF assms(2)]
  by (auto simp: display_putpixel_def assms(1) Let_def on_screen_def pixel_addr_def encode_def rgb565_def add.assoc
        store_as_bytes(2,3))

text \<open>The bytes of different pixels are different, and no address wraps.\<close>

lemma pixel_offset:
  assumes "mode_wf m" and "on_screen m x y" and "i < pixel_bytes m"
  shows "unat (pixel_addr m x y + of_nat i) = unat (addr m) + unat y * unat (pitch m) + unat x * pixel_bytes m + i"
    and "unat x * pixel_bytes m + i < unat (pitch m)"
    and "in_frame m (pixel_addr m x y + of_nat i)"
proof -
  have x: "unat x < unat (width m)" and y: "unat y < unat (height m)"
    using assms(2) by (simp_all add: on_screen_def unat_less_iff)
  have wf: "unat (width m) * pixel_bytes m \<le> unat (pitch m)" "unat (addr m) + frame_size m \<le> 2 ^ 32"
    using assms(1) by (simp_all add: mode_wf_def)
  have "Suc (unat x) * pixel_bytes m \<le> unat (width m) * pixel_bytes m" using x by (intro mult_le_mono1) simp
  then show line: "unat x * pixel_bytes m + i < unat (pitch m)" using wf(1) assms(3) by simp
  have "Suc (unat y) * unat (pitch m) \<le> frame_size m"
    unfolding frame_size_def using y by (simp only: mult.commute [of "unat (pitch m)"]) (intro mult_le_mono1, simp)
  then have rows: "unat y * unat (pitch m) + unat x * pixel_bytes m + i < frame_size m" using line by simp
  let ?n = "unat (addr m) + unat y * unat (pitch m) + unat x * pixel_bytes m + i"
  have "pixel_addr m x y + of_nat i = of_nat ?n"
    by (simp add: pixel_addr_def)
  moreover have "?n < 2 ^ 32" using rows wf(2) by simp
  ultimately show eq: "unat (pixel_addr m x y + of_nat i) = ?n" by (simp only: unat_of_nat_small)
  show "in_frame m (pixel_addr m x y + of_nat i)" unfolding in_frame_def eq using rows by simp
qed


lemma pixel_apart:
  assumes "mode_wf m" and "on_screen m x y" and "on_screen m x' y'" and "i < pixel_bytes m" and "j < pixel_bytes m"
    and "pixel_addr m x y + of_nat i = pixel_addr m x' y' + of_nat j"
  shows "x = x' \<and> y = y'"
proof -
  let ?p = "unat (pitch m)" and ?b = "pixel_bytes m"
  have eq: "unat y * ?p + (unat x * ?b + i) = unat y' * ?p + (unat x' * ?b + j)"
    using pixel_offset(1) [OF assms(1,2,4)] pixel_offset(1) [OF assms(1,3,5)] assms(6) by simp
  have q: "(n * q + k) div q = n" "(n * q + k) mod q = k" if "k < q" for n q k :: nat
    using that by simp_all
  note l = pixel_offset(2) [OF assms(1,2,4)] and l' = pixel_offset(2) [OF assms(1,3,5)]
  have "unat y = unat y'" using q(1) [OF l, of "unat y"] q(1) [OF l', of "unat y'"] eq by simp
  moreover have "unat x * ?b + i = unat x' * ?b + j"
    using q(2) [OF l, of "unat y"] q(2) [OF l', of "unat y'"] eq by simp
  then have "unat x = unat x'" using q(1) [OF assms(4), of "unat x"] q(1) [OF assms(5), of "unat x'"] by simp
  ultimately show ?thesis by (simp add: word_unat_eq_iff)
qed

lemma putpixel_drawn:
  assumes "mode_wf (current_mode s)"
  shows "drawn s (display_putpixel x y c s)"
proof (cases "drawable (current_mode s) \<and> on_screen (current_mode s) x y")
  case True
  then show ?thesis
    using putpixel_bytes [of s "current_mode s"] pixel_offset(3) [OF assms] drawableD(6) [of "current_mode s"]
    by (auto intro!: store_bytes_drawn)
next
  case False
  have "display_putpixel x y c s = s"
    using False assms by (auto simp: display_putpixel_def Let_def drawable_def on_screen_def mode_wf_def not_less split: if_splits)
  then show ?thesis by (simp add: drawn_refl)
qed

lemma putpixel_painted:
  assumes cv: "canvas m s"
  shows "painted (\<lambda>px py. px = x \<and> py = y) c s (display_putpixel x y c s)"
proof -
  have m: "current_mode s = m" and d: "drawable m" and bk: "\<And>a. in_frame m a \<Longrightarrow> backed s a"
    using cv by (simp_all add: canvas_def)
  note wf = drawableD(1) [OF d] and len = drawableD(6) [OF d, of c]
  have dr: "drawn s (display_putpixel x y c s)" by (rule putpixel_drawn) (simp add: wf m)
  have "pixel (display_putpixel x y c s) px py = (if px = x \<and> py = y then encode m c else pixel s px py)"
    if on: "on_screen m px py" for px py
  proof (cases "on_screen m x y")
    case True
    let ?a = "pixel_addr m x y" and ?b = "pixel_addr m px py"
    have pk: "load8 b (display_putpixel x y c s) = (if unat (b - ?a) < pixel_bytes m then encode m c ! unat (b - ?a) else load8 b s)" for b
      using vmem.peek_bytes [of "encode m c" s ?a b] len drawableD(7) [OF d] bk pixel_offset(3) [OF wf True]
      by (simp add: putpixel_bytes [OF m d] True)
    show ?thesis
    proof (cases "px = x \<and> py = y")
      case here: True
      have "unat (?a + of_nat i - ?a) = i" if "i < pixel_bytes m" for i using that drawableD(7) [OF d] by simp
      then show ?thesis using here len
        by (intro nth_equalityI) (simp_all add: pixel_def drawn_fields(1) [OF dr] m pk)
    next
      case False
      have "\<not> unat (?b + of_nat i - ?a) < pixel_bytes m" if i: "i < pixel_bytes m" for i
      proof
        assume j: "unat (?b + of_nat i - ?a) < pixel_bytes m"
        have "?a + of_nat (unat (?b + of_nat i - ?a)) = ?b + of_nat i" by simp
        from pixel_apart [OF wf True on j i this] False show False by simp
      qed
      then show ?thesis using False by (auto simp: pixel_def drawn_fields(1) [OF dr] m pk)
    qed
  next
    case False
    then have "display_putpixel x y c s = s" by (simp add: putpixel_bytes [OF m d])
    then show ?thesis using False on by auto
  qed
  then show ?thesis using dr m by (simp add: painted_def)
qed


section \<open>Shapes\<close>

lemma word_interval: "(\<exists>i. i < unat w \<and> p = x + of_nat i) \<longleftrightarrow> p - x < (w :: u32)"
proof
  assume "\<exists>i. i < unat w \<and> p = x + of_nat i"
  then obtain i where i: "i < unat w" "p = x + of_nat i" by blast
  have "i < 2 ^ 32" using i(1) unat_u32_bound [of w] by simp
  then show "p - x < w" using i by (simp add: unat_less_iff)
next
  assume "p - x < w"
  then show "\<exists>i. i < unat w \<and> p = x + of_nat i"
    by (intro exI [of _ "unat (p - x)"]) (simp add: unat_less_iff)
qed

lemma fill_rect_painted:
  assumes "canvas m s"
  shows "painted (\<lambda>px py. px - x < w \<and> py - y < h) c s (display_fill_rect x y w h c s)"
proof -
  have row: "painted (\<lambda>px py. \<exists>col. 0 \<le> col \<and> col < unat w \<and> px = x + of_nat col \<and> py = y + of_nat row) c t
      (for_loop 0 (unat w) (\<lambda>col. display_putpixel (x + of_nat col) (y + of_nat row) c) t)" if "canvas m t" for row t
    by (rule painted_loop [OF that]) (rule putpixel_painted)
  have "painted (\<lambda>px py. \<exists>row. 0 \<le> row \<and> row < unat h \<and>
      (\<exists>col. 0 \<le> col \<and> col < unat w \<and> px = x + of_nat col \<and> py = y + of_nat row)) c s (display_fill_rect x y w h c s)"
    unfolding display_fill_rect_def by (rule painted_loop [OF assms]) (rule row)
  then show ?thesis
    by (rule painted_cong) (use word_interval in \<open>auto simp flip: word_interval\<close>)
qed

lemma painted_union2:
  assumes cv: "canvas m s" and st: "painted P c s t" and tu: "canvas m t \<Longrightarrow> painted Q c t u"
    and "\<And>x y. on_screen m x y \<Longrightarrow> (P x y \<or> Q x y) = R x y"
  shows "painted R c s u"
proof -
  have "canvas m t" using cv st canvas_drawn by (auto simp: painted_def)
  from painted_union [OF st tu [OF this]] show ?thesis
    by (rule painted_cong) (use assms(4) cv in \<open>simp add: canvas_def\<close>)
qed

lemma draw_rect_painted:
  assumes "canvas m s"
  shows "painted (\<lambda>px py. px - x < w \<and> (py = y \<or> py = y + h - 1) \<or> py - y < h \<and> (px = x \<or> px = x + w - 1)) c s
    (display_draw_rect x y w h c s)"
proof -
  let ?hor = "for_loop 0 (unat w) (\<lambda>col s.
      display_putpixel (x + of_nat col) (y + h - 1) c (display_putpixel (x + of_nat col) y c s))"
  let ?ver = "for_loop 0 (unat h) (\<lambda>row s.
      display_putpixel (x + w - 1) (y + of_nat row) c (display_putpixel x (y + of_nat row) c s))"
  have two: "painted (\<lambda>px py. px = x1 \<and> py = y1 \<or> px = x2 \<and> py = y2) c t
      (display_putpixel x2 y2 c (display_putpixel x1 y1 c t))" if "canvas m t" for x1 y1 x2 y2 t
    by (rule painted_union2 [OF that putpixel_painted [OF that] putpixel_painted]) auto
  have hor: "painted (\<lambda>px py. px - x < w \<and> (py = y \<or> py = y + h - 1)) c t (?hor t)" if t: "canvas m t" for t
    by (rule painted_cong [OF painted_loop [OF t two]]) (assumption, auto simp flip: word_interval)
  have ver: "painted (\<lambda>px py. py - y < h \<and> (px = x \<or> px = x + w - 1)) c t (?ver t)" if t: "canvas m t" for t
    by (rule painted_cong [OF painted_loop [OF t two]]) (assumption, auto simp flip: word_interval)
  show ?thesis
    unfolding display_draw_rect_def Let_def by (rule painted_union2 [OF assms hor [OF assms] ver]) auto
qed


section \<open>Text\<close>

definition glyph_code :: "char \<Rightarrow> nat" where
  "glyph_code ch = (let code = of_char ch in if code < 32 \<or> 126 < code then 32 else code)"

text \<open>Pixel \<open>(dx, dy)\<close> of the 16 by 16 cell of a character.\<close>

definition lit :: "char \<Rightarrow> nat \<Rightarrow> nat \<Rightarrow> bool" where
  "lit ch dx dy \<longleftrightarrow> dx < 16 \<and> dy < 16 \<and> bit (select_glyph (glyph_code ch) ! (dy div 2)) (7 - dx div 2)"

definition char_at :: "char \<Rightarrow> u32 \<Rightarrow> u32 \<Rightarrow> u32 \<Rightarrow> u32 \<Rightarrow> bool" where
  "char_at ch x y px py \<longleftrightarrow> lit ch (unat (px - x)) (unat (py - y))"

lemma glyph_bit: "col < 8 \<Longrightarrow> (g :: u8) AND drop_bit col 0x80 \<noteq> 0 \<longleftrightarrow> bit g (7 - col)"
proof -
  assume col: "col < 8"
  have "list_all (\<lambda>c. drop_bit c (0x80 :: u8) = 2 ^ (7 - c)) [0..<8]" by code_simp
  then have "drop_bit col (0x80 :: u8) = 2 ^ (7 - col)" using col by (simp only: list_all_iff set_upt) simp
  then show ?thesis by (simp add: and_exp_eq_0_iff_not_bit)
qed

lemma doubled:
  "(\<exists>i. i < 8 \<and> Q i \<and> (\<exists>k. k < 2 \<and> p = x + of_nat (i * 2) + of_nat k)) \<longleftrightarrow>
     unat (p - x :: u32) < 16 \<and> Q (unat (p - x) div 2)"
proof
  assume "\<exists>i. i < 8 \<and> Q i \<and> (\<exists>k. k < 2 \<and> p = x + of_nat (i * 2) + of_nat k)"
  then obtain i k where ik: "i < 8" "Q i" "k < 2" "p = x + of_nat (i * 2) + of_nat k" by blast
  have "p - x = of_nat (i * 2 + k)" using ik(4) by simp
  moreover have "i * 2 + k < 2 ^ 32" using ik by simp
  ultimately have "unat (p - x) = i * 2 + k" by (simp only: unat_of_nat_small)
  then show "unat (p - x) < 16 \<and> Q (unat (p - x) div 2)" using ik by simp
next
  assume a: "unat (p - x) < 16 \<and> Q (unat (p - x) div 2)"
  let ?n = "unat (p - x)"
  have "p = x + of_nat ?n" by simp
  also have "?n = ?n div 2 * 2 + ?n mod 2" by simp
  finally have "p = x + of_nat (?n div 2 * 2) + of_nat (?n mod 2)" by (simp only: of_nat_add add.assoc)
  then show "\<exists>i. i < 8 \<and> Q i \<and> (\<exists>k. k < 2 \<and> p = x + of_nat (i * 2) + of_nat k)"
    using a by (intro exI [of _ "?n div 2"] conjI exI [of _ "?n mod 2"]) auto
qed

lemma putchar_painted:
  assumes cv: "canvas m s"
  shows "painted (char_at ch x y) c s (display_putchar ch x y c s)"
proof -
  let ?g = "select_glyph (glyph_code ch)"
  let ?dot = "\<lambda>row col px py. (\<exists>sy. 0 \<le> sy \<and> sy < CHAR_SCALE \<and> (\<exists>sx. 0 \<le> sx \<and> sx < CHAR_SCALE \<and>
      px = x + of_nat (col * CHAR_SCALE) + of_nat sx \<and> py = y + of_nat (row * CHAR_SCALE) + of_nat sy))"
  have line: "painted (\<lambda>px py. \<exists>sx. 0 \<le> sx \<and> sx < n \<and> px = x' + of_nat sx \<and> py = y') c t
      (for_loop 0 n (\<lambda>sx. display_putpixel (x' + of_nat sx) y' c) t)" if "canvas m t" for n x' y' t
    by (rule painted_loop [OF that]) (rule putpixel_painted)
  have dot: "painted (?dot row col) c t (for_loop 0 CHAR_SCALE (\<lambda>sy. for_loop 0 CHAR_SCALE (\<lambda>sx.
      display_putpixel (x + of_nat (col * CHAR_SCALE) + of_nat sx) (y + of_nat (row * CHAR_SCALE) + of_nat sy) c)) t)"
    if "canvas m t" for row col t
    by (rule painted_loop [OF that line])
  define dots where "dots = (\<lambda>row col (t :: 'a display_scheme). if ?g ! row AND drop_bit col 0x80 \<noteq> 0
    then for_loop 0 CHAR_SCALE (\<lambda>sy. for_loop 0 CHAR_SCALE (\<lambda>sx.
      display_putpixel (x + of_nat (col * CHAR_SCALE) + of_nat sx) (y + of_nat (row * CHAR_SCALE) + of_nat sy) c)) t else t)"
  have dots: "painted (\<lambda>px py. ?g ! row AND drop_bit col 0x80 \<noteq> 0 \<and> ?dot row col px py) c t (dots row col t)"
    if t: "canvas m t" for row col t
    using dot [OF t] painted_none by (auto simp: dots_def)
  have row: "painted (\<lambda>px py. \<exists>col. 0 \<le> col \<and> col < FONT_W \<and> ?g ! row AND drop_bit col 0x80 \<noteq> 0 \<and> ?dot row col px py) c t
      (for_loop 0 FONT_W (dots row) t)" if t: "canvas m t" for row t
    by (rule painted_loop [OF t dots])
  have cell: "painted (\<lambda>px py. \<exists>row. 0 \<le> row \<and> row < FONT_H \<and> (\<exists>col. 0 \<le> col \<and> col < FONT_W \<and>
      ?g ! row AND drop_bit col 0x80 \<noteq> 0 \<and> ?dot row col px py)) c s (for_loop 0 FONT_H (\<lambda>row. for_loop 0 FONT_W (dots row)) s)"
    by (rule painted_loop [OF cv row])
  have eq: "display_putchar ch x y c s = for_loop 0 FONT_H (\<lambda>row. for_loop 0 FONT_W (dots row)) s"
    using cv drawableD(2) by (auto simp: display_putchar_def canvas_def glyph_code_def Let_def dots_def)
  show ?thesis unfolding eq
  proof (rule painted_cong [OF cell])
    fix px py
    have "(\<exists>row. 0 \<le> row \<and> row < FONT_H \<and> (\<exists>col. 0 \<le> col \<and> col < FONT_W \<and>
          ?g ! row AND drop_bit col 0x80 \<noteq> 0 \<and> ?dot row col px py)) \<longleftrightarrow>
        (\<exists>row. row < 8 \<and> (\<exists>col. col < 8 \<and> bit (?g ! row) (7 - col) \<and> (\<exists>k. k < 2 \<and> px = x + of_nat (col * 2) + of_nat k))
          \<and> (\<exists>k. k < 2 \<and> py = y + of_nat (row * 2) + of_nat k))"
      unfolding FONT_W_def FONT_H_def using glyph_bit by blast
    also have "\<dots> \<longleftrightarrow> char_at ch x y px py"
      unfolding doubled char_at_def lit_def by auto
    finally show "(\<exists>row. 0 \<le> row \<and> row < FONT_H \<and> (\<exists>col. 0 \<le> col \<and> col < FONT_W \<and>
          ?g ! row AND drop_bit col 0x80 \<noteq> 0 \<and> ?dot row col px py)) \<longleftrightarrow> char_at ch x y px py" .
  qed
qed


text \<open>A line of text: each character in its cell, side by side.\<close>

definition text_at :: "string \<Rightarrow> u32 \<Rightarrow> u32 \<Rightarrow> u32 \<Rightarrow> u32 \<Rightarrow> bool" where
  "text_at cs x y px py \<longleftrightarrow> (\<exists>k < length cs. char_at (cs ! k) (x + 16 * of_nat k) y px py)"

lemma text_at_Cons: "text_at (ch # cs) x y px py \<longleftrightarrow> char_at ch x y px py \<or> text_at cs (x + CHAR_W) y px py"
  by (auto simp: text_at_def less_Suc_eq_0_disj ex_disj_distrib algebra_simps)

lemma puts_line_painted:
  assumes "canvas m s"
  shows "painted (text_at (take n (takeWhile (\<lambda>ch. ch \<noteq> NEWLINE) str)) x y) c s (puts_line_loop str n x y c s)"
  using assms
proof (induction str arbitrary: n x s)
  case (Cons ch str)
  show ?case
  proof (cases "n = 0 \<or> ch = NEWLINE")
    case False
    then obtain k where n: "n = Suc k" by (cases n) auto
    from painted_union2 [OF Cons.prems putchar_painted [OF Cons.prems] Cons.IH [of _ k "x + CHAR_W"]]
    show ?thesis using False by (simp add: n text_at_Cons)
  qed (auto simp: painted_def drawn_refl text_at_def)
qed (simp add: painted_def drawn_refl text_at_def)

lemma putchar_drawn:
  assumes "mode_wf (current_mode s)"
  shows "drawn s (display_putchar ch x y c s)"
  unfolding display_putchar_def Let_def using assms drawn_refl by (auto intro!: drawn_loop putpixel_drawn)

lemma puts_line_loop_drawn: "mode_wf (current_mode s) \<Longrightarrow> drawn s (puts_line_loop str n x y c s)"
proof (induction str arbitrary: n x s)
  case (Cons ch str)
  note p = putchar_drawn [OF Cons.prems]
  have "drawn (display_putchar ch x y c s) (puts_line_loop str (n - 1) (x + CHAR_W) y c (display_putchar ch x y c s))"
    using Cons.IH drawn_fields(1) [OF p] Cons.prems by simp
  then show ?case using drawn_trans [OF p] by (simp add: drawn_refl)
qed (simp add: drawn_refl)

lemma puts_loop_drawn: "mode_wf (current_mode s) \<Longrightarrow> drawn s (puts_loop str x cx cy c s)"
proof (induction str arbitrary: cx cy s)
  case (Cons ch str)
  note p = putchar_drawn [OF Cons.prems]
  have "drawn (display_putchar ch cx cy c s) (puts_loop str x cx' cy' c (display_putchar ch cx cy c s))" for cx' cy'
    using Cons.IH drawn_fields(1) [OF p] Cons.prems by simp
  then have "drawn s (puts_loop str x cx' cy' c (display_putchar ch cx cy c s))" for cx' cy'
    using drawn_trans [OF p] by blast
  then show ?case using p Cons.IH [OF Cons.prems] by (simp add: drawn_refl Let_def)
qed (simp add: drawn_refl)


section \<open>Clearing\<close>

lemma frame_byte:
  assumes "unat (addr m) + frame_size m \<le> 2 ^ 32" and "n < frame_size m"
  shows "in_frame m (addr m + of_nat n)"
proof -
  have "addr m + of_nat n = of_nat (unat (addr m) + n)" by simp
  moreover have "unat (addr m) + n < 2 ^ 32" using assms by simp
  ultimately have "unat (addr m + of_nat n) = unat (addr m) + n" by (simp only: unat_of_nat_small)
  then show ?thesis using assms(2) by (simp add: in_frame_def)
qed

lemma frame_row:
  assumes "y < unat (height m)" and "k < unat (pitch m)"
  shows "y * unat (pitch m) + k < frame_size m"
proof -
  have "Suc y * unat (pitch m) \<le> unat (height m) * unat (pitch m)" using assms(1) by (intro mult_le_mono1) simp
  then show ?thesis using assms(2) by (simp add: frame_size_def mult.commute)
qed


lemma clear_cell:
  assumes "unat (addr m) + frame_size m \<le> 2 ^ 32" and "y < unat (height m)" and "b * x + j < unat (pitch m)"
  shows "in_frame m (addr m + of_nat (b * (y * (unat (pitch m) div b) + x)) + of_nat j)"
proof -
  have "b * (y * (unat (pitch m) div b)) \<le> y * unat (pitch m)"
    by (simp add: mult.left_commute [of b y])
  then have "b * (y * (unat (pitch m) div b) + x) + j \<le> y * unat (pitch m) + (b * x + j)"
    by (simp add: distrib_left)
  also have "\<dots> < frame_size m" by (rule frame_row [OF assms(2,3)])
  finally have "b * (y * (unat (pitch m) div b) + x) + j < frame_size m" .
  from frame_byte [OF assms(1) this] show ?thesis by (simp only: of_nat_add add.assoc)
qed

lemma store_wide_drawn:
  "(\<And>j. j < 2 \<Longrightarrow> in_frame (current_mode s) (a + of_nat j)) \<Longrightarrow> drawn s (store16 a v s)"
  "(\<And>j. j < 4 \<Longrightarrow> in_frame (current_mode s) (a + of_nat j)) \<Longrightarrow> drawn s (store32 a w s)"
  unfolding store_as_bytes(2,3) by (rule store_bytes_drawn, simp)+

lemma ucast_div:
  "ucast (p div 2 :: u16) = (of_nat (unat p div 2) :: u32)" "ucast (p div 4 :: u16) = (of_nat (unat p div 4) :: u32)"
proof -
  have "unat p div k < 2 ^ 32" for k
    by (rule le_less_trans [OF div_le_dividend]) (use unsigned_less [of p, where 'a = nat] in simp)
  then show "ucast (p div 2 :: u16) = (of_nat (unat p div 2) :: u32)" "ucast (p div 4 :: u16) = (of_nat (unat p div 4) :: u32)"
    by (simp_all only: word_unat_eq_iff unat_ucast16 unat_of_nat_small) (simp_all add: unat_div)
qed

lemma clear_drawn:
  assumes wf: "mode_wf (current_mode s)"
  shows "drawn s (display_clear c s)"
proof -
  let ?m = "current_mode s"
  have fs: "unat (addr ?m) + frame_size ?m \<le> 2 ^ 32" and av: "available ?m" using wf by (simp_all add: mode_wf_def)
  have w: "b * x + j < unat (pitch ?m)" if "x < unat (width ?m)" "j < b" "b = pixel_bytes ?m" for x j b
  proof -
    have "b * Suc x \<le> b * unat (width ?m)" using that(1) by (intro mult_le_mono2) simp
    then show ?thesis using that wf by (simp add: mode_wf_def mult.commute)
  qed
  consider "dtype ?m = DISP_VGA_TEXT" | "dtype ?m \<noteq> DISP_VGA_TEXT" "bpp ?m = 8"
    | "dtype ?m \<noteq> DISP_VGA_TEXT" "bpp ?m = 16" | "dtype ?m \<noteq> DISP_VGA_TEXT" "bpp ?m = 24"
    | "dtype ?m \<noteq> DISP_VGA_TEXT" "bpp ?m = 32"
    using wf by (auto simp: mode_wf_def split: if_splits)
  then show ?thesis
  proof cases
    case 1
    have "2 * i + j < frame_size ?m" if "i < unat (width ?m) * unat (height ?m)" "j < 2" for i j
      using wf 1 that by (simp add: mode_wf_def frame_size_def)
    then have "in_frame ?m (addr ?m + of_nat (2 * i + j))" if "i < unat (width ?m) * unat (height ?m)" "j < 2" for i j
      using that frame_byte [OF fs] by blast
    then show ?thesis using 1 av
      by (auto simp: display_clear_def Let_def add.assoc intro!: drawn_loop store_wide_drawn)
  next
    case 2
    have "unat (width ?m) * unat (height ?m) < 2 ^ 32"
      using mult_strict_mono [of "unat (width ?m)" "2 ^ 16" "unat (height ?m)" "2 ^ 16"] unsigned_less [of "width ?m"] unsigned_less [of "height ?m"]
      by simp
    then have area: "unat (ucast (width ?m) * ucast (height ?m) :: u32) = unat (width ?m) * unat (height ?m)"
      by (simp add: unat_mult_small)
    have "unat (width ?m) * unat (height ?m) \<le> frame_size ?m"
      using wf 2 by (simp add: mode_wf_def pixel_bytes_def frame_size_def)
    then have "in_frame ?m (addr ?m + of_nat i)" if "i < unat (width ?m) * unat (height ?m)" for i
      using that frame_byte [OF fs, of i] by simp
    then show ?thesis using 2 av
      by (auto simp: display_clear_def Let_def area intro!: drawn_loop store8_drawn)
  next
    case 3
    have "in_frame ?m (addr ?m + of_nat (2 * (y * (unat (pitch ?m) div 2) + x)) + of_nat j)"
      if "y < unat (height ?m)" "x < unat (width ?m)" "j < 2" for x y j
      by (rule clear_cell [OF fs that(1) w [OF that(2,3)]]) (use 3 in \<open>simp add: pixel_bytes_def\<close>)
    then show ?thesis using 3 av
      by (auto simp: display_clear_def Let_def ucast_div intro!: drawn_loop store_wide_drawn)
  next
    case 4
    then show ?thesis using av
      by (auto simp: display_clear_def Let_def intro!: drawn_loop drawn_refl)
  next
    case 5
    have "in_frame ?m (addr ?m + of_nat (4 * (y * (unat (pitch ?m) div 4) + x)) + of_nat j)"
      if "y < unat (height ?m)" "x < unat (width ?m)" "j < 4" for x y j
      by (rule clear_cell [OF fs that(1) w [OF that(2,3)]]) (use 5 in \<open>simp add: pixel_bytes_def\<close>)
    then show ?thesis using 5 av
      by (auto simp: display_clear_def Let_def ucast_div intro!: drawn_loop store_wide_drawn)
  qed
qed


lemma clear_fills:
  fixes s :: "'a display_scheme"
  assumes "current_mode s = m" and "drawable m" and "bpp m = 32" and "4 dvd unat (pitch m)"
  shows "display_clear c s = display_fill_rect 0 0 (ucast (width m)) (ucast (height m)) c s"
proof -
  have p4: "4 * (of_nat (unat (pitch m) div 4) :: u32) = ucast (pitch m)"
  proof -
    have "4 * (of_nat (unat (pitch m) div 4) :: u32) = of_nat (4 * (unat (pitch m) div 4))" by simp
    also have "4 * (unat (pitch m) div 4) = unat (pitch m)" using assms(4) by simp
    finally show ?thesis by simp
  qed
  have px: "display_putpixel (of_nat x) (of_nat y) c t = store32 (addr m + 4 * (of_nat y * ucast (pitch m div 4) + of_nat x)) c t"
    if "x < unat (width m)" "y < unat (height m)" "current_mode t = m" for x y and t :: "'a display_scheme"
  proof -
    have "x < 2 ^ 32" "y < 2 ^ 32" using that unsigned_less [of "width m", where 'a = nat] unsigned_less [of "height m", where 'a = nat] by simp_all
    then have "(of_nat x :: u32) < ucast (width m)" "(of_nat y :: u32) < ucast (height m)"
      using that by (simp_all add: unat_less_iff)
    then show ?thesis using that(3) assms drawableD(2) [OF assms(2)]
      by (simp add: display_putpixel_def Let_def not_le ucast_div distrib_left mult.left_commute [of 4] p4 mult.commute [of _ 4] add.assoc)
  qed
  have fields: "current_mode (display_putpixel x y c t) = m" if "current_mode t = m" for x y and t :: "'a display_scheme"
    using drawn_fields(1) [OF putpixel_drawn] drawableD(1) [OF assms(2)] that by metis
  have row: "for_loop 0 (unat (width m)) (\<lambda>x. store32 (addr m + 4 * (of_nat y * ucast (pitch m div 4) + of_nat x)) c) t =
        for_loop 0 (unat (width m)) (\<lambda>x. display_putpixel (of_nat x) (of_nat y) c) t \<and>
      current_mode (for_loop 0 (unat (width m)) (\<lambda>x. display_putpixel (of_nat x) (of_nat y) c) t) = m"
    if "y < unat (height m)" "current_mode t = m" for y and t :: "'a display_scheme"
    by (rule for_loop_cong) (use that px [symmetric] fields in auto)
  have "for_loop 0 (unat (height m)) (\<lambda>y. for_loop 0 (unat (width m)) (\<lambda>x.
          store32 (addr m + 4 * (of_nat y * ucast (pitch m div 4) + of_nat x)) c)) s =
        for_loop 0 (unat (height m)) (\<lambda>y. for_loop 0 (unat (width m)) (\<lambda>x. display_putpixel (of_nat x) (of_nat y) c)) s"
    by (rule conjunct1 [OF for_loop_cong [where P = "\<lambda>t. current_mode t = m"]]) (use row assms(1) in auto)
  then show ?thesis
    using assms drawableD(2,3) [OF assms(2)] by (simp add: display_clear_def display_fill_rect_def Let_def)
qed


section \<open>The modes the probes choose\<close>

definition bochs_mode :: display_mode_t where
  "bochs_mode = \<lparr>width = 800, height = 600, bpp = 32, pitch = 3200, addr = 0xFD000000, dtype = DISP_BOCHS_VBE, available = True\<rparr>"

definition mode13 :: display_mode_t where
  "mode13 = \<lparr>width = 320, height = 200, bpp = 8, pitch = 320, addr = 0xA0000, dtype = DISP_VGA_GRAPH, available = True\<rparr>"

definition text_mode :: display_mode_t where
  "text_mode = \<lparr>width = 80, height = 25, bpp = 0, pitch = 160, addr = 0xB8000, dtype = DISP_VGA_TEXT, available = True\<rparr>"

lemma modes_wf: "drawable bochs_mode" "drawable mode13" "mode_wf text_mode"
  by (simp_all add: drawable_def mode_wf_def bochs_mode_def mode13_def text_mode_def pixel_bytes_def frame_size_def)

text \<open>The driver's port accesses change the trace of ports only.\<close>

definition ports_only :: "'a display_scheme \<Rightarrow> 'a display_scheme \<Rightarrow> bool" where
  "ports_only s s' \<longleftrightarrow> (\<exists>tr. s' = s\<lparr>io_trace := tr\<rparr>)"

lemma ports_only_refl: "ports_only s s"
  unfolding ports_only_def by (rule exI [of _ "io_trace s"]) simp

lemma ports_only_trans: "ports_only s t \<Longrightarrow> ports_only t u \<Longrightarrow> ports_only s u"
  by (auto simp: ports_only_def)

lemma ports_only_access:
  "ports_only s (io_outb p v s)" "ports_only s (snd (io_inb hw p s))"
  "ports_only s (io_outw p w s)" "ports_only s (snd (io_inw hw16 p s))"
  by (auto simp: ports_only_def io_outb_def io_inb_def io_outw_def io_inw_def Let_def)

lemma ports_only_fold: "(\<And>x t. ports_only t (f x t)) \<Longrightarrow> ports_only s (fold f xs s)"
  by (induction xs arbitrary: s) (auto simp: ports_only_refl intro: ports_only_trans)

lemmas ports_chain = ports_only_trans [OF _ ports_only_access(1)] ports_only_trans [OF _ ports_only_access(2)]
  ports_only_trans [OF _ ports_only_access(3)] ports_only_trans [OF _ ports_only_access(4)]

lemma ports_only_vbe:
  "ports_only s (vbe_write i v s)" "ports_only s (snd (vbe_read hw16 i s))"
  by (simp_all add: vbe_write_def vbe_read_def ports_chain ports_only_access)

lemma ports_only_verify: "ports_only s (snd (vbe_verify hw16 rs s))"
proof (induction hw16 rs s rule: vbe_verify.induct)
  case (2 hw16 idx val rs s)
  then show ?case using ports_only_vbe(2) [of s hw16 idx]
    by (auto simp: Let_def split: prod.splits intro: ports_only_trans)
qed (simp add: ports_only_refl)

lemma ports_only_probe: "ports_only s (snd (probe_bochs_vbe hw16 s))"
proof -
  note step = ports_only_trans [OF _ ports_only_vbe(1)] ports_only_trans [OF _ ports_only_vbe(2)]
  show ?thesis by (auto simp: probe_bochs_vbe_def Let_def split_beta intro!: step ports_only_vbe)
qed


lemma ports_only_regs:
  "ports_only s (write_regs i d rs s)" "ports_only s (write_ac_regs hw rs s)"
  "ports_only s (mode13_registers hw s)" "ports_only s (vga_set_cursor_visible v s)"
proof -
  show w: "ports_only s (write_regs i d rs s)" for i d rs and s :: "'a display_scheme"
    unfolding write_regs_def
    by (rule ports_only_fold) (auto simp: split_beta intro!: ports_chain ports_only_access)
  show a: "ports_only s (write_ac_regs hw rs s)" for rs and s :: "'a display_scheme"
    unfolding write_ac_regs_def
    by (rule ports_only_fold) (auto simp: split_beta intro!: ports_chain ports_only_access)
  note step = ports_chain ports_only_trans [OF _ w] ports_only_trans [OF _ a]
  show "ports_only s (mode13_registers hw s)"
    unfolding mode13_registers_def Let_def split_beta by (intro step ports_only_access)
  show "ports_only s (vga_set_cursor_visible v s)"
    unfolding vga_set_cursor_visible_def Let_def by (auto intro!: step ports_only_access)
qed

lemma store8_mode: "current_mode (store8 a v s) = current_mode s" "backed (store8 a v s) = backed s"
  by (simp_all add: store8_def)

lemma probe_mode13_result:
  "probe_vga_mode13 hw s = (ok, s') \<Longrightarrow> (ok \<longrightarrow> current_mode s' = mode13) \<and> (backed s 0xA0000 \<longrightarrow> ok) \<and> backed s' = backed s"
proof -
  assume p: "probe_vga_mode13 hw s = (ok, s')"
  let ?t = "store8 0xA0000 (load8 0xA0000 s) (store8 0xA0000 0xAA s)"
  obtain tr where "mode13_registers hw ?t = ?t\<lparr>io_trace := tr\<rparr>" using ports_only_regs(3) [of ?t hw] by (auto simp: ports_only_def)
  then show ?thesis using p
    by (auto simp: probe_vga_mode13_def Let_def mode13_def vmem.peek_poke log_event_def store8_mode split: if_splits)
qed

lemma bochs_set_mode_result:
  assumes "bochs_set_mode hw16 800 600 32 s = (ok, s')"
  shows "(ok \<longrightarrow> current_mode s' = bochs_mode) \<and> backed s' = backed s"
proof -
  let ?w = "\<lambda>i v s. vbe_write i v s :: 'a display_scheme"
  let ?t = "?w VBE_DISPI_INDEX_ENABLE (VBE_DISPI_ENABLED OR VBE_DISPI_LFB_ENABLED) (?w VBE_DISPI_INDEX_BPP 32
      (?w VBE_DISPI_INDEX_YRES 600 (?w VBE_DISPI_INDEX_XRES 800 (?w VBE_DISPI_INDEX_ENABLE VBE_DISPI_DISABLED s))))"
  let ?v = "vbe_verify hw16 [(VBE_DISPI_INDEX_XRES, 800), (VBE_DISPI_INDEX_YRES, 600), (VBE_DISPI_INDEX_BPP, 32)] ?t"
  have "ports_only s (snd ?v)"
    by (rule ports_only_trans [OF _ ports_only_verify])
      (intro ports_only_trans [OF _ ports_only_vbe(1)] ports_only_vbe(1))
  then obtain tr where v: "snd ?v = s\<lparr>io_trace := tr\<rparr>" by (auto simp: ports_only_def)
  have pair: "?v = (fst ?v, s\<lparr>io_trace := tr\<rparr>)" using v by (metis prod.collapse)
  show ?thesis
    using assms unfolding bochs_set_mode_def Let_def by (subst (asm) pair) (auto simp: bochs_mode_def split: if_splits)
qed


lemma port_fields:
  fixes s :: "'a display_scheme"
  shows "current_mode (io_outb p v s) = current_mode s" "backed (io_outb p v s) = backed s"
    and "current_mode (snd (io_inb hw p s)) = current_mode s" "backed (snd (io_inb hw p s)) = backed s"
  by (simp_all add: io_outb_def io_inb_def Let_def)

lemma store_loop_fields:
  assumes "\<And>i t. current_mode (f i t) = current_mode t \<and> backed (f i t) = backed t"
  shows "current_mode (for_loop lo hi f s) = current_mode s \<and> backed (for_loop lo hi f s) = backed s"
  by (rule for_loop_preserves [where P = "\<lambda>t. current_mode t = current_mode s \<and> backed t = backed s", THEN iffD2])
    (simp_all add: assms)

lemma blank_text_plane_fields:
  "current_mode (blank_text_plane hw s) = current_mode s \<and> backed (blank_text_plane hw s) = backed s"
proof -
  have "current_mode (for_loop 0 2000 (\<lambda>i. store16 (0xB8000 + 2 * of_nat i) v) t) = current_mode t \<and>
      backed (for_loop 0 2000 (\<lambda>i. store16 (0xB8000 + 2 * of_nat i) v) t) = backed t" for v and t :: "'a display_scheme"
    by (rule store_loop_fields) (simp add: store16_def store8_mode)
  then show ?thesis
    unfolding blank_text_plane_def Let_def split_beta by (simp add: port_fields)
qed

lemma read_all_ports:
  assumes "\<And>i (t :: 'a display_scheme). ports_only t (snd (rd i t))"
  shows "ports_only s (snd (read_all rd i n s))"
proof (induction n arbitrary: i s)
  case (Suc n)
  show ?case using assms [of s i] Suc.IH [where i = "i + 1"]
    by (auto simp: split_beta Let_def intro: ports_only_trans)
qed (simp add: ports_only_refl)

lemma snapshot_fields: "backed (vga_snapshot_text_state hw s) = backed s"
proof -
  note step = ports_chain ports_only_access
  have rd: "ports_only t (snd (vga_read_seq hw i t))" "ports_only t (snd (vga_read_crtc hw i t))"
      "ports_only t (snd (vga_read_gc hw i t))" "ports_only t (snd (vga_read_ac hw i t))" for i and t :: "'a display_scheme"
    by (auto simp: vga_read_seq_def vga_read_crtc_def vga_read_gc_def vga_read_ac_def split_beta Let_def intro!: step)
  have all: "backed (snd (read_all rd i n t)) = backed t" if "\<And>i (t :: 'a display_scheme). ports_only t (snd (rd i t))" for rd i n t
    using read_all_ports [where rd = rd and s = t and i = i and n = n, OF that] by (auto simp: ports_only_def)
  show ?thesis
    by (simp add: vga_snapshot_text_state_def Let_def split_beta all rd port_fields)
qed


lemma display_enter_gfx_mode:
  assumes "display_enter_gfx hw hw16 s = (ok, s')"
  shows "current_mode s' \<in> (if ok then {bochs_mode, mode13} else {text_mode})" and "backed s 0xA0000 \<Longrightarrow> ok"
proof -
  define s1 where "s1 = io_outb 0x3C5 0x20 (io_outb 0x3C4 0x01 (vga_set_cursor_visible False (vga_snapshot_text_state hw s)))"
  obtain bochs s2 where p: "probe_bochs_vbe hw16 s1 = (bochs, s2)" by force
  obtain ok3 s3 where b: "(if bochs then bochs_set_mode hw16 800 600 32 s2 else (False, s2)) = (ok3, s3)" by force
  obtain ok4 s4 where v: "probe_vga_mode13 hw s3 = (ok4, s4)" by force
  have eq: "(ok, s') = (if ok3 then (True, blank_text_plane hw s3) else if ok4 then (True, s4) else (False, display_disable hw s4))"
    using assms p b v by (auto simp: display_enter_gfx_def s1_def Let_def split: if_splits)
  have s3: "ok3 \<longrightarrow> current_mode s3 = bochs_mode" "backed s3 = backed s2"
    using b bochs_set_mode_result by (auto split: if_splits)
  have "backed s1 = backed s"
    using ports_only_regs(4) [of "vga_snapshot_text_state hw s" False] by (auto simp: s1_def port_fields snapshot_fields ports_only_def)
  moreover have "backed s2 = backed s1" using ports_only_probe [of s1 hw16] p by (auto simp: ports_only_def)
  ultimately have bk: "backed s3 = backed s" using s3(2) by simp
  note v = probe_mode13_result [OF v]
  show "current_mode s' \<in> (if ok then {bochs_mode, mode13} else {text_mode})"
    using eq s3(1) v blank_text_plane_fields [of hw s3]
    by (auto simp: display_disable_def probe_vga_text_def Let_def log_event_def text_mode_def split: if_splits)
  show "backed s 0xA0000 \<Longrightarrow> ok" using eq v bk by (auto split: if_splits)
qed

lemma display_init_mode:
  assumes "display_init hw hw16 s = (ok, s')"
  shows "current_mode s' \<in> (if ok then {bochs_mode, mode13} else {text_mode})"
proof -
  define s1 where "s1 = log_event (Printk ''Display: Probing graphics backends...\<newline>'' []) s"
  obtain bochs s2 where p: "probe_bochs_vbe hw16 (log_event (Printk ''  Probing Bochs VBE...\<newline>'' [])
      (s1\<lparr>current_mode := (current_mode s1)\<lparr>available := False\<rparr>\<rparr>)) = (bochs, s2)" by force
  obtain ok3 s3 where b: "(if bochs then bochs_set_mode hw16 800 600 32 (log_event (Printk ''  Setting 800x600x32...\<newline>'' []) s2)
      else (False, s2)) = (ok3, s3)" by force
  obtain ok4 s4 where v: "probe_vga_mode13 hw (log_event (Printk ''  Probing VGA mode 0x13...\<newline>'' []) s3) = (ok4, s4)" by force
  have "(ok, s') = (if ok3 then (True, s3) else if ok4 then (True, s4)
      else (False, probe_vga_text (log_event (Printk ''  Falling back to VGA text mode.\<newline>'' []) s4)))"
    using assms p b v by (auto simp: display_init_def Let_def s1_def split: if_splits)
  moreover have "ok3 \<longrightarrow> current_mode s3 = bochs_mode" using b bochs_set_mode_result by (auto split: if_splits)
  ultimately show ?thesis using probe_mode13_result [OF v]
    by (auto simp: probe_vga_text_def Let_def log_event_def text_mode_def split: if_splits)
qed

section \<open>Properties\<close>

datatype draw_op = Clear u32 | Putpixel u32 u32 u32 | Fill_rect u32 u32 u32 u32 u32 | Draw_rect u32 u32 u32 u32 u32
  | Putchar char u32 u32 u32 | Puts_line string u32 u32 u32 | Puts string u32 u32 u32

fun draw :: "draw_op \<Rightarrow> 'a display_scheme \<Rightarrow> 'a display_scheme" where
  "draw (Clear c) = display_clear c"
| "draw (Putpixel x y c) = display_putpixel x y c"
| "draw (Fill_rect x y w h c) = display_fill_rect x y w h c"
| "draw (Draw_rect x y w h c) = display_draw_rect x y w h c"
| "draw (Putchar ch x y c) = display_putchar ch x y c"
| "draw (Puts_line str x y c) = display_puts_line str x y c"
| "draw (Puts str x y c) = display_puts str x y c"

lemma draw_drawn:
  assumes wf: "mode_wf (current_mode s)"
  shows "drawn s (draw op s)"
proof -
  have fill: "drawn s (display_fill_rect x y w h c s)" for x y w h c
    unfolding display_fill_rect_def using wf by (auto intro!: drawn_loop putpixel_drawn)
  have rect: "drawn s (display_draw_rect x y w h c s)" for x y w h c
  proof -
    have two: "drawn t (display_putpixel x2 y2 c (display_putpixel x1 y1 c t))" if t: "current_mode t = current_mode s"
      for x1 y1 x2 y2 and t :: "'a display_scheme"
    proof -
      have a: "drawn t (display_putpixel x1 y1 c t)" by (rule putpixel_drawn) (simp add: t wf)
      show ?thesis by (rule drawn_trans [OF a putpixel_drawn]) (simp add: drawn_fields(1) [OF a] t wf)
    qed
    show ?thesis unfolding display_draw_rect_def Let_def
      by (rule drawn_trans [OF drawn_loop [OF two] drawn_loop [OF two]]) (use drawn_fields(1) [OF drawn_loop [OF two]] in auto)
  qed
  show ?thesis
  proof (cases op)
    case Puts_line
    then show ?thesis using puts_line_loop_drawn [OF wf] by (simp add: display_puts_line_def Let_def drawn_refl)
  next
    case Puts
    then show ?thesis using puts_loop_drawn [OF wf] by (simp add: display_puts_def)
  qed (simp_all add: clear_drawn [OF wf] putpixel_drawn [OF wf] putchar_drawn [OF wf] fill rect)
qed


text \<open>A machine whose video memory is all there, in the 800 by 600 mode.\<close>

definition display_example :: display where
  "display_example = terminal.extend terminal_example
     (display.fields bochs_mode False \<lparr>misc = 0, seq_regs = [], crtc_regs = [], gc_regs = [], ac_regs = []\<rparr> (\<lambda>_. 0) (\<lambda>_. True))"

lemma display_example_fields: "current_mode display_example = bochs_mode" "backed display_example = (\<lambda>_. True)"
  by (simp_all add: display_example_def terminal.defs display.defs)

lemma display_example_canvas: "canvas bochs_mode display_example"
  by (simp add: canvas_def display_example_fields modes_wf)

text \<open>
  C33. \<open>display_fill_rect\<close> gives its colour, in the encoding of the mode, to exactly the pixels of the
  screen inside the rectangle and leaves every other pixel and every byte outside the framebuffer as
  they were. The comparison is that of 32-bit numbers: a rectangle that passes the largest coordinate
  goes on at 0.
\<close>

theorem display_fill_rect_paints:
  assumes "canvas m s" and "on_screen m px py"
  shows "pixel (display_fill_rect x y w h c s) px py = (if px - x < w \<and> py - y < h then encode m c else pixel s px py) \<and>
    (\<forall>a. \<not> in_frame m a \<longrightarrow> load8 a (display_fill_rect x y w h c s) = load8 a s)"
  using fill_rect_painted [OF assms(1), of x w y h c] assms
  by (simp add: painted_def canvas_def drawn_def)

theorem display_fill_rect_paints_witness:
  "pixel (display_fill_rect 30 30 100 100 0xFF0000 display_example) 129 30 = [0, 0, 0xFF, 0] \<and>
   pixel (display_fill_rect 30 30 100 100 0xFF0000 display_example) 130 30 = pixel display_example 130 30"
proof -
  have e: "encode bochs_mode 0xFF0000 = [0, 0, 0xFF, 0]" by code_simp
  have on: "on_screen bochs_mode 129 30" "on_screen bochs_mode 130 30" by (simp_all add: on_screen_def bochs_mode_def)
  show ?thesis
    using display_fill_rect_paints [OF display_example_canvas on(1), of 30 30 100 100 "0xFF0000"]
      display_fill_rect_paints [OF display_example_canvas on(2), of 30 30 100 100 "0xFF0000"] e by simp
qed

text \<open>
  C34. \<open>display_puts_line\<close> draws the characters before the first line feed, as many as fit on the line:
  the pixels that get the colour are exactly the set bits of their glyphs, each doubled in both directions,
  in cells of 16 by 16 side by side, and no cell passes the right edge.
\<close>

theorem display_puts_line_paints:
  fixes str :: string
  assumes "canvas m s" and "x < ucast (width m)"
  defines "cs \<equiv> take (unat ((ucast (width m) - x) div 16)) (takeWhile (\<lambda>ch. ch \<noteq> NEWLINE) str)"
  shows "painted (\<lambda>px py. \<exists>k < length cs. lit (cs ! k) (unat (px - (x + 16 * of_nat k))) (unat (py - y))) c s
      (display_puts_line str x y c s) \<and> unat x + 16 * length cs \<le> unat (width m)"
proof -
  let ?n = "unat ((ucast (width m) - x) div 16)"
  have m: "current_mode s = m" "available m" using assms(1) drawableD(2) by (auto simp: canvas_def)
  have "display_puts_line str x y c s = puts_line_loop str ?n x y c s"
    using assms(2) by (cases str) (simp_all add: display_puts_line_def m Let_def not_le)
  then have "painted (text_at cs x y) c s (display_puts_line str x y c s)"
    using puts_line_painted [OF assms(1)] by (simp add: cs_def)
  moreover have "16 * ?n \<le> unat (width m) - unat x"
    using assms(2) by (simp add: unat_div unat_sub_small unat_less_iff)
  then have "unat x + 16 * length cs \<le> unat (width m)"
    using assms(2) by (simp add: cs_def unat_less_iff)
  ultimately show ?thesis by (simp add: text_at_def [abs_def] char_at_def)
qed

theorem display_puts_line_paints_witness:
  "pixel (display_puts_line ''I'' 20 560 0xFFFF80 display_example) 26 560 = encode bochs_mode 0xFFFF80 \<and>
   pixel (display_puts_line ''I'' 20 560 0xFFFF80 display_example) 36 560 = pixel display_example 36 560"
proof -
  have "glyph_code (CHR ''I'') = 73" by code_simp
  have l: "lit (CHR ''I'') 6 0 \<and> \<not> lit (CHR ''I'') 16 0" by code_simp
  have on: "on_screen bochs_mode 26 560" "on_screen bochs_mode 36 560" by (simp_all add: on_screen_def bochs_mode_def)
  have "(20 :: u32) < ucast (width bochs_mode)" by (simp add: bochs_mode_def)
  from display_puts_line_paints [OF display_example_canvas this, where str = "''I''" and y = 560 and c = "0xFFFF80"]
  show ?thesis using on l by (simp add: painted_def display_example_fields bochs_mode_def)
qed

text \<open>
  C35. Whatever is drawn in a well-formed mode, be it 8, 16, 24 or 32 bits deep or a text mode, at whatever
  coordinates and with whatever text, nothing changes but video memory, and there nothing outside the
  bytes of the framebuffer.
\<close>

theorem display_draws_inside:
  assumes "mode_wf (current_mode s)"
  shows "drawn s (fold draw ops s)"
  using assms
proof (induction ops arbitrary: s)
  case (Cons op ops)
  note d = draw_drawn [OF Cons.prems, of op]
  have "drawn (draw op s) (fold draw ops (draw op s))" using Cons drawn_fields(1) [OF d] by simp
  then show ?case using drawn_trans [OF d] by simp
qed (simp add: drawn_refl)

theorem display_draws_inside_witness:
  "load8 0x1000 (fold draw [Clear 0x40, Draw_rect 510 160 400 0xFFFFFFFF 0xFFFFFF, Puts ''TEST'' 790 590 0xFF] display_example)
     = load8 0x1000 display_example"
proof -
  have wf: "mode_wf (current_mode display_example)" by (simp add: display_example_fields drawableD(1) modes_wf)
  show ?thesis
    by (rule drawn_fields(4) [OF display_draws_inside [OF wf]]) (simp add: display_example_fields in_frame_def bochs_mode_def)
qed

text \<open>
  C36. \<open>display_enter_gfx\<close> and \<open>display_init\<close> end in a well-formed mode whatever the devices answer: they report success
  exactly with the 800 by 600 mode of the emulators or mode 0x13 set, in which the driver draws, and
  failure with the text mode set. With memory behind address 0xA0000 entering graphics never fails.
\<close>

theorem display_modes_wf:
  "(\<lambda>(ok, s'). mode_wf (current_mode s') \<and> (if ok then current_mode s' \<in> {bochs_mode, mode13} else current_mode s' = text_mode) \<and>
      (backed s 0xA0000 \<longrightarrow> ok)) (display_enter_gfx hw hw16 s) \<and>
   (\<lambda>(ok, s'). mode_wf (current_mode s') \<and> (if ok then current_mode s' \<in> {bochs_mode, mode13} else current_mode s' = text_mode))
      (display_init hw hw16 s)"
proof -
  obtain ok s' ok2 s2 where e: "display_enter_gfx hw hw16 s = (ok, s')" "display_init hw hw16 s = (ok2, s2)" by force
  show ?thesis
    using display_enter_gfx_mode [OF e(1)] display_init_mode [OF e(2)] modes_wf drawableD(1)
    by (auto simp: e split: if_splits)
qed

theorem display_modes_wf_witness: "\<forall>hw hw16. fst (display_enter_gfx hw hw16 display_example)"
  using display_modes_wf [of display_example] by (force simp: display_example_fields split_beta)


end
