(* ===== verification/Framebuffer.thy ===== *)
theory Framebuffer
  imports Display_Props
begin

text \<open>
  The older graphics code of the repository, which the kernel's build leaves out: the framebuffer primitives of
  \<open>framebuffer.c\<close>, the bus access of \<open>pci.c\<close> and the mode setting of \<open>vbe.c\<close>. The primitives are shown
  equal to those of \<open>display.c\<close>, and the bus search to find the first matching function.
\<close>

section \<open>Framebuffer\<close>

record fb_info_t =
  fb_address :: u32
  fb_pitch :: u32
  fb_width :: u32
  fb_height :: u32
  fb_bpp :: u8
  fb_type :: u8

record framebuffer = display +
  fb :: fb_info_t
  fb_initialized :: bool

definition fb_init :: "multiboot_fb \<Rightarrow> 'a framebuffer_scheme \<Rightarrow> 'a framebuffer_scheme" where
  "fb_init mbd s =
     (let s = s\<lparr>fb_initialized := False\<rparr> in
      if mb_flags mbd AND push_bit 12 1 = 0 then s
      else let info = \<lparr>fb_address = framebuffer_addr_low mbd, fb_pitch = framebuffer_pitch mbd,
                       fb_width = framebuffer_width mbd, fb_height = framebuffer_height mbd,
                       fb_bpp = framebuffer_bpp mbd, fb_type = framebuffer_type mbd\<rparr>;
               s = s\<lparr>fb := info\<rparr>
           in if fb_type info \<noteq> 1 then s
              else if fb_bpp info \<noteq> 32 then s
              else s\<lparr>fb_initialized := True\<rparr>)"

definition fb_init_direct :: "u32 \<Rightarrow> u32 \<Rightarrow> u32 \<Rightarrow> u16 \<Rightarrow> u8 \<Rightarrow> 'a framebuffer_scheme \<Rightarrow> 'a framebuffer_scheme" where
  "fb_init_direct address w h p bp s =
     s\<lparr>fb := \<lparr>fb_address = address, fb_pitch = ucast p, fb_width = w, fb_height = h, fb_bpp = bp, fb_type = 1\<rparr>,
       fb_initialized := (bp = 32)\<rparr>"

definition fb_available :: "'a framebuffer_scheme \<Rightarrow> bool" where
  "fb_available s = fb_initialized s"

definition fb_get_info :: "'a framebuffer_scheme \<Rightarrow> fb_info_t" where
  "fb_get_info s = fb s"

definition fb_putpixel :: "u32 \<Rightarrow> u32 \<Rightarrow> u32 \<Rightarrow> 'a framebuffer_scheme \<Rightarrow> 'a framebuffer_scheme" where
  "fb_putpixel x y color s =
     (if \<not> fb_initialized s then s
      else if fb_width (fb s) \<le> x \<or> fb_height (fb s) \<le> y then s
      else let offset = y * fb_pitch (fb s) + x * 4 in store32 (fb_address (fb s) + offset) color s)"

definition fb_fill_rect :: "u32 \<Rightarrow> u32 \<Rightarrow> u32 \<Rightarrow> u32 \<Rightarrow> u32 \<Rightarrow> 'a framebuffer_scheme \<Rightarrow> 'a framebuffer_scheme" where
  "fb_fill_rect x y w h color =
     for_loop 0 (unat h) (\<lambda>row. for_loop 0 (unat w) (\<lambda>col.
       fb_putpixel (x + of_nat col) (y + of_nat row) color))"

definition fb_draw_rect :: "u32 \<Rightarrow> u32 \<Rightarrow> u32 \<Rightarrow> u32 \<Rightarrow> u32 \<Rightarrow> 'a framebuffer_scheme \<Rightarrow> 'a framebuffer_scheme" where
  "fb_draw_rect x y w h color s =
     (let s = for_loop 0 (unat w) (\<lambda>col s.
                fb_putpixel (x + of_nat col) (y + h - 1) color (fb_putpixel (x + of_nat col) y color s)) s
      in for_loop 0 (unat h) (\<lambda>row s.
           fb_putpixel (x + w - 1) (y + of_nat row) color (fb_putpixel x (y + of_nat row) color s)) s)"

definition fb_clear :: "u32 \<Rightarrow> 'a framebuffer_scheme \<Rightarrow> 'a framebuffer_scheme" where
  "fb_clear color s = fb_fill_rect 0 0 (fb_width (fb s)) (fb_height (fb s)) color s"

definition fb_color :: "u8 \<Rightarrow> u8 \<Rightarrow> u8 \<Rightarrow> u32" where
  "fb_color r g b = push_bit 16 (ucast r) OR push_bit 8 (ucast g) OR ucast b"

section \<open>The PCI bus\<close>

type_synonym device32 = "io_event list \<Rightarrow> u16 \<Rightarrow> u32"

definition io_inl :: "device32 \<Rightarrow> u16 \<Rightarrow> 'a ports_scheme \<Rightarrow> u32 \<times> 'a ports_scheme" where
  "io_inl hw port s = (let v = hw (io_trace s) port in (v, s\<lparr>io_trace := io_trace s @ [In32 port v]\<rparr>))"

definition io_outl :: "u16 \<Rightarrow> u32 \<Rightarrow> 'a ports_scheme \<Rightarrow> 'a ports_scheme" where
  "io_outl port v s = s\<lparr>io_trace := io_trace s @ [Out32 port v]\<rparr>"

abbreviation PCI_CONFIG_ADDR :: u16 where "PCI_CONFIG_ADDR \<equiv> 0xCF8"
abbreviation PCI_CONFIG_DATA :: u16 where "PCI_CONFIG_DATA \<equiv> 0xCFC"

definition pci_address :: "u8 \<Rightarrow> u8 \<Rightarrow> u8 \<Rightarrow> u8 \<Rightarrow> u32" where
  "pci_address bus slot func offset =
     push_bit 16 (ucast bus) OR push_bit 11 (ucast slot) OR push_bit 8 (ucast func) OR (ucast offset AND 0xFC) OR 0x80000000"

definition pci_config_read :: "device32 \<Rightarrow> u8 \<Rightarrow> u8 \<Rightarrow> u8 \<Rightarrow> u8 \<Rightarrow> 'a ports_scheme \<Rightarrow> u32 \<times> 'a ports_scheme" where
  "pci_config_read hw32 bus slot func offset s =
     io_inl hw32 PCI_CONFIG_DATA (io_outl PCI_CONFIG_ADDR (pci_address bus slot func offset) s)"

definition pci_config_write :: "u8 \<Rightarrow> u8 \<Rightarrow> u8 \<Rightarrow> u8 \<Rightarrow> u32 \<Rightarrow> 'a ports_scheme \<Rightarrow> 'a ports_scheme" where
  "pci_config_write bus slot func offset value s =
     io_outl PCI_CONFIG_DATA value (io_outl PCI_CONFIG_ADDR (pci_address bus slot func offset) s)"

text \<open>The loop over the functions of a slot; \<open>None\<close> when it ends or is left by \<open>break\<close>.\<close>

fun find_func :: "device32 \<Rightarrow> u16 \<Rightarrow> u16 \<Rightarrow> u8 \<Rightarrow> nat list \<Rightarrow> 'a ports_scheme \<Rightarrow> u8 option \<times> 'a ports_scheme" where
  "find_func hw32 vendor_id device_id slot [] s = (None, s)"
| "find_func hw32 vendor_id device_id slot (func # funcs) s =
     (let (idr, s) = pci_config_read hw32 0 slot (of_nat func) 0 s;
          vendor = ucast (idr AND 0xFFFF);
          device = ucast (drop_bit 16 idr AND 0xFFFF)
      in if vendor = 0xFFFF then (None, s)
         else if vendor = vendor_id \<and> device = device_id then (Some (push_bit 3 slot OR of_nat func), s)
         else if func = 0
         then let (header, s) = pci_config_read hw32 0 slot (of_nat func) 0x0C s
              in if header AND 0x800000 = 0 then (None, s) else find_func hw32 vendor_id device_id slot funcs s
         else find_func hw32 vendor_id device_id slot funcs s)"

fun find_slot :: "device32 \<Rightarrow> u16 \<Rightarrow> u16 \<Rightarrow> nat list \<Rightarrow> 'a ports_scheme \<Rightarrow> u8 \<times> 'a ports_scheme" where
  "find_slot hw32 vendor_id device_id [] s = (0xFF, s)"
| "find_slot hw32 vendor_id device_id (slot # slots) s =
     (case find_func hw32 vendor_id device_id (of_nat slot) [0..<8] s of
        (Some r, s) \<Rightarrow> (r, s)
      | (None, s) \<Rightarrow> find_slot hw32 vendor_id device_id slots s)"

definition pci_find_device :: "device32 \<Rightarrow> u16 \<Rightarrow> u16 \<Rightarrow> 'a ports_scheme \<Rightarrow> u8 \<times> 'a ports_scheme" where
  "pci_find_device hw32 vendor_id device_id s = find_slot hw32 vendor_id device_id [0..<32] s"

fun find_vga :: "device32 \<Rightarrow> nat list \<Rightarrow> 'a ports_scheme \<Rightarrow> u8 \<times> 'a ports_scheme" where
  "find_vga hw32 [] s = (0xFF, s)"
| "find_vga hw32 (slot # slots) s =
     (let (idr, s) = pci_config_read hw32 0 (of_nat slot) 0 0 s;
          vendor = ucast (idr AND 0xFFFF) :: u16
      in if vendor = 0xFFFF then find_vga hw32 slots s
         else let (class_reg, s) = pci_config_read hw32 0 (of_nat slot) 0 0x08 s;
                  class_code = ucast (drop_bit 24 class_reg AND 0xFF) :: u8;
                  subclass = ucast (drop_bit 16 class_reg AND 0xFF) :: u8
              in if class_code = 0x03 \<and> subclass = 0x00 then (push_bit 3 (of_nat slot) OR 0, s)
                 else find_vga hw32 slots s)"

definition pci_find_vga :: "device32 \<Rightarrow> 'a ports_scheme \<Rightarrow> u8 \<times> 'a ports_scheme" where
  "pci_find_vga hw32 s = find_vga hw32 [0..<32] s"

section \<open>VBE\<close>

record vbe_mode_t =
  v_width :: u16
  v_height :: u16
  v_bpp :: u16
  v_pitch :: u16
  v_framebuffer :: u32

record vbe = framebuffer +
  vbe_current_mode :: vbe_mode_t

definition vbe_pci_read :: "device32 \<Rightarrow> u8 \<Rightarrow> u8 \<Rightarrow> u8 \<Rightarrow> u8 \<Rightarrow> 'a ports_scheme \<Rightarrow> u32 \<times> 'a ports_scheme" where
  "vbe_pci_read hw32 bus slot func off s =
     (let address = 0x80000000 OR push_bit 16 (ucast bus) OR push_bit 11 (ucast slot AND 0x1F) OR
                    push_bit 8 (ucast func AND 7) OR (ucast off AND 0xFC)
      in io_inl hw32 0xCFC (io_outl 0xCF8 address s))"

text \<open>The search for the memory of the display on the bus, 0 when there is none.\<close>

fun bar_scan :: "device32 \<Rightarrow> nat list \<Rightarrow> 'a ports_scheme \<Rightarrow> u32 \<times> 'a ports_scheme" where
  "bar_scan hw32 [] s = (0, s)"
| "bar_scan hw32 (slot # slots) s =
     (let (idr, s) = vbe_pci_read hw32 0 (of_nat slot) 0 0 s in
      if idr AND 0xFFFF = 0xFFFF then bar_scan hw32 slots s
      else let (cls, s) = vbe_pci_read hw32 0 (of_nat slot) 0 8 s in
        if drop_bit 24 cls AND 0xFF = 0x03 \<and> drop_bit 16 cls AND 0xFF = 0x00
        then let (bar0, s) = vbe_pci_read hw32 0 (of_nat slot) 0 0x10 s in
          if bar0 AND 1 = 0 then (bar0 AND NOT 0xF, s) else bar_scan hw32 slots s
        else bar_scan hw32 slots s)"

definition load32 :: "u32 \<Rightarrow> 'a display_scheme \<Rightarrow> u32" where
  "load32 a s = push_bit 24 (ucast (load8 (a + 3) s)) OR push_bit 16 (ucast (load8 (a + 2) s)) OR
     push_bit 8 (ucast (load8 (a + 1) s)) OR ucast (load8 a s)"

fun probe_memory :: "u32 list \<Rightarrow> 'a display_scheme \<Rightarrow> u32 \<times> 'a display_scheme" where
  "probe_memory [] s = (0, s)"
| "probe_memory (a # as) s =
     (let s = store32 a 0xDEADBEEF s in if load32 a s = 0xDEADBEEF then (a, s) else probe_memory as s)"

definition vbe_init :: "device16 \<Rightarrow> device32 \<Rightarrow> u16 \<Rightarrow> u16 \<Rightarrow> u16 \<Rightarrow> 'a vbe_scheme \<Rightarrow> bool \<times> 'a vbe_scheme" where
  "vbe_init hw16 hw32 w h bp s =
     (let (present, s) = probe_bochs_vbe hw16 s in
      if \<not> present then (False, s)
      else let s = vbe_write VBE_DISPI_INDEX_ENABLE VBE_DISPI_DISABLED s;
               s = vbe_write VBE_DISPI_INDEX_XRES w s;
               s = vbe_write VBE_DISPI_INDEX_YRES h s;
               s = vbe_write VBE_DISPI_INDEX_BPP bp s;
               s = vbe_write VBE_DISPI_INDEX_ENABLE (VBE_DISPI_ENABLED OR VBE_DISPI_LFB_ENABLED) s;
               (ok, s) = vbe_verify hw16
                 [(VBE_DISPI_INDEX_XRES, w), (VBE_DISPI_INDEX_YRES, h), (VBE_DISPI_INDEX_BPP, bp)] s
           in if \<not> ok then (False, s)
              else let (fb_addr, s) = bar_scan hw32 [0..<32] s;
                       (fb_addr, s) = (if fb_addr = 0
                         then probe_memory [0xFC000000, 0xFD000000, 0xE0000000, 0xF0000000] s else (fb_addr, s));
                       fb_addr = (if fb_addr = 0 then 0xFD000000 else fb_addr)
                   in (True, s\<lparr>vbe_current_mode := \<lparr>v_width = w, v_height = h, v_bpp = bp,
                         v_pitch = w * (bp div 8), v_framebuffer = fb_addr\<rparr>\<rparr>))"

definition vbe_get_mode :: "'a vbe_scheme \<Rightarrow> vbe_mode_t" where
  "vbe_get_mode s = vbe_current_mode s"

section \<open>The two sets of drawing primitives agree\<close>

text \<open>Both drivers look at the same framebuffer of 32 bits for a pixel.\<close>

definition same_screen :: "'a framebuffer_scheme \<Rightarrow> bool" where
  "same_screen s \<longleftrightarrow> fb_initialized s \<and> drawable (current_mode s) \<and> bpp (current_mode s) = 32 \<and>
     fb_address (fb s) = addr (current_mode s) \<and> fb_pitch (fb s) = ucast (pitch (current_mode s)) \<and>
     fb_width (fb s) = ucast (width (current_mode s)) \<and> fb_height (fb s) = ucast (height (current_mode s))"

lemma fb_putpixel_same:
  assumes "same_screen s"
  shows "fb_putpixel x y c s = display_putpixel x y c s" and "same_screen (display_putpixel x y c s)"
proof -
  have av: "available (current_mode s)" using assms drawableD(2) by (auto simp: same_screen_def)
  show "fb_putpixel x y c s = display_putpixel x y c s"
    using assms av by (simp add: same_screen_def fb_putpixel_def display_putpixel_def Let_def add.assoc)
  have st: "same_screen (store8 a v t) = same_screen t" for a v and t :: "'a framebuffer_scheme"
    by (simp add: same_screen_def store8_def)
  show "same_screen (display_putpixel x y c s)"
    using assms av by (simp add: display_putpixel_def Let_def store16_def store32_def st)
qed

lemma fb_shapes_same:
  assumes "same_screen s"
  shows "fb_fill_rect x y w h c s = display_fill_rect x y w h c s"
    and "fb_draw_rect x y w h c s = display_draw_rect x y w h c s"
proof -
  note px = fb_putpixel_same
  have row: "for_loop 0 n (\<lambda>col. fb_putpixel (x + of_nat col) y' c) t = for_loop 0 n (\<lambda>col. display_putpixel (x + of_nat col) y' c) t \<and>
      same_screen (for_loop 0 n (\<lambda>col. display_putpixel (x + of_nat col) y' c) t)"
    if "same_screen t" for n y' and t :: "'a framebuffer_scheme"
    by (rule for_loop_cong) (simp_all add: px that)
  show "fb_fill_rect x y w h c s = display_fill_rect x y w h c s"
    unfolding fb_fill_rect_def display_fill_rect_def
    by (rule conjunct1 [OF for_loop_cong [where P = same_screen]]) (use row assms in auto)
  have loop: "for_loop 0 n (\<lambda>i s. fb_putpixel (p i) (q i) c (fb_putpixel (p' i) (q' i) c s)) t =
        for_loop 0 n (\<lambda>i s. display_putpixel (p i) (q i) c (display_putpixel (p' i) (q' i) c s)) t \<and>
      same_screen (for_loop 0 n (\<lambda>i s. display_putpixel (p i) (q i) c (display_putpixel (p' i) (q' i) c s)) t)"
    if "same_screen t" for n p q p' q' and t :: "'a framebuffer_scheme"
    by (rule for_loop_cong) (simp_all add: px that)
  show "fb_draw_rect x y w h c s = display_draw_rect x y w h c s"
    unfolding fb_draw_rect_def display_draw_rect_def Let_def by (simp only: loop assms)
qed

text \<open>
  C37. On a framebuffer of 32 bits for a pixel that both drivers were given, the primitives of \<open>framebuffer.c\<close> do
  the same as those of \<open>display.c\<close>; clearing does when the pitch is a multiple of four, which
  the index computation of \<open>display_clear\<close> takes for granted.
\<close>

theorem fb_equals_display:
  assumes "same_screen s"
  shows "fb_putpixel x y c s = display_putpixel x y c s \<and>
    fb_fill_rect x y w h c s = display_fill_rect x y w h c s \<and>
    fb_draw_rect x y w h c s = display_draw_rect x y w h c s \<and>
    (4 dvd unat (pitch (current_mode s)) \<longrightarrow> fb_clear c s = display_clear c s)"
proof -
  have "fb_clear c s = display_clear c s" if "4 dvd unat (pitch (current_mode s))"
    using clear_fills [OF refl, of s c] fb_shapes_same(1) [OF assms] assms that by (simp add: fb_clear_def same_screen_def)
  then show ?thesis using fb_putpixel_same(1) [OF assms] fb_shapes_same [OF assms] by simp
qed

definition framebuffer_example :: framebuffer where
  "framebuffer_example = fb_init_direct 0xFD000000 800 600 3200 32
     (display.extend display_example (framebuffer.fields \<lparr>fb_address = 0, fb_pitch = 0, fb_width = 0, fb_height = 0, fb_bpp = 0, fb_type = 0\<rparr> False))"

theorem fb_equals_display_witness: "\<forall>c. fb_clear c framebuffer_example = display_clear c framebuffer_example"
proof
  fix c
  have m: "current_mode framebuffer_example = bochs_mode"
    using display_example_fields(1) by (simp add: framebuffer_example_def fb_init_direct_def display.defs framebuffer.defs)
  have "same_screen framebuffer_example"
    unfolding same_screen_def m using modes_wf(1)
    by (simp add: framebuffer_example_def fb_init_direct_def display.defs framebuffer.defs bochs_mode_def)
  from fb_equals_display [OF this, of _ _ c] show "fb_clear c framebuffer_example = display_clear c framebuffer_example"
    by (simp add: m bochs_mode_def)
qed

section \<open>The search of the bus\<close>

text \<open>
  The configuration space of bus 0 as the host bridge shows it: a read of the data port gives the word
  whose address was written last. A function is seen by the search when it and all functions of its slot
  below it answer and, unless it is the first, the first one's header says that there are more.
\<close>

definition bridge :: "device32 \<Rightarrow> (u32 \<Rightarrow> u32) \<Rightarrow> bool" where
  "bridge hw32 cfg \<longleftrightarrow> (\<forall>tr a. hw32 (tr @ [Out32 PCI_CONFIG_ADDR a]) PCI_CONFIG_DATA = cfg a)"

definition vendor_at :: "(u32 \<Rightarrow> u32) \<Rightarrow> nat \<Rightarrow> nat \<Rightarrow> u16" where
  "vendor_at cfg slot func = ucast (cfg (pci_address 0 (of_nat slot) (of_nat func) 0) AND 0xFFFF)"

definition device_at :: "(u32 \<Rightarrow> u32) \<Rightarrow> nat \<Rightarrow> nat \<Rightarrow> u16" where
  "device_at cfg slot func = ucast (drop_bit 16 (cfg (pci_address 0 (of_nat slot) (of_nat func) 0)) AND 0xFFFF)"

definition multi_function :: "(u32 \<Rightarrow> u32) \<Rightarrow> nat \<Rightarrow> bool" where
  "multi_function cfg slot \<longleftrightarrow> cfg (pci_address 0 (of_nat slot) 0 0x0C) AND 0x800000 \<noteq> 0"

definition seen :: "(u32 \<Rightarrow> u32) \<Rightarrow> nat \<Rightarrow> nat \<Rightarrow> bool" where
  "seen cfg slot func \<longleftrightarrow> (\<forall>f \<le> func. vendor_at cfg slot f \<noteq> 0xFFFF) \<and> (func = 0 \<or> multi_function cfg slot)"

definition matches :: "(u32 \<Rightarrow> u32) \<Rightarrow> u16 \<Rightarrow> u16 \<Rightarrow> nat \<Rightarrow> nat \<Rightarrow> bool" where
  "matches cfg v d slot func \<longleftrightarrow> seen cfg slot func \<and> vendor_at cfg slot func = v \<and> device_at cfg slot func = d"

lemma pci_config_read_bridge:
  "bridge hw32 cfg \<Longrightarrow> fst (pci_config_read hw32 bus slot func off s) = cfg (pci_address bus slot func off)"
  by (simp add: bridge_def pci_config_read_def io_inl_def io_outl_def Let_def)

lemma find_func_bridge:
  fixes s :: "'a ports_scheme"
  assumes br: "bridge hw32 cfg" and "\<forall>f < n. vendor_at cfg slot f \<noteq> 0xFFFF" and "n = 0 \<or> multi_function cfg slot" and "n \<le> 8"
  shows "fst (find_func hw32 v d (of_nat slot) [n..<8] s) =
    map_option (\<lambda>f. push_bit 3 (of_nat slot) OR of_nat f) (List.find (matches cfg v d slot) [n..<8])"
  using assms(2-4)
proof (induction "8 - n" arbitrary: n s)
  case (Suc k)
  then have n: "[n..<8] = n # [Suc n..<8]" by (simp add: upt_conv_Cons)
  note rd = pci_config_read_bridge [OF br]
  obtain idr s1 where r1: "pci_config_read hw32 0 (of_nat slot) (of_nat n) 0 s = (idr, s1)" by force
  have idr: "idr = cfg (pci_address 0 (of_nat slot) (of_nat n) 0)" using rd r1 by (metis fst_conv)
  obtain hd s2 where r2: "pci_config_read hw32 0 (of_nat slot) (of_nat n) 0x0C s1 = (hd, s2)" by force
  have hd: "n = 0 \<Longrightarrow> hd AND 0x800000 \<noteq> 0 \<longleftrightarrow> multi_function cfg slot"
    using rd [of 0 "of_nat slot" "of_nat n" "0x0C" s1] r2 by (simp add: multi_function_def)
  have seen: "seen cfg slot n \<longleftrightarrow> vendor_at cfg slot n \<noteq> 0xFFFF"
    using Suc.prems by (auto simp: seen_def le_less)
  have stop: "List.find (matches cfg v d slot) [m..<8] = None" if "\<And>f. n < f \<Longrightarrow> \<not> seen cfg slot f" "n < m" for m
    using that by (auto simp: find_None_iff matches_def)
  have IH: "fst (find_func hw32 v d (of_nat slot) [Suc n..<8] t) =
      map_option (\<lambda>f. push_bit 3 (of_nat slot) OR of_nat f) (List.find (matches cfg v d slot) [Suc n..<8])"
    if "vendor_at cfg slot n \<noteq> 0xFFFF" "multi_function cfg slot" for t :: "'a ports_scheme"
    by (rule Suc.hyps(1)) (use Suc.hyps(2) Suc.prems that in \<open>auto simp: less_Suc_eq\<close>)
  have step: "find_func hw32 v d (of_nat slot) [n..<8] s =
      (if vendor_at cfg slot n = 0xFFFF then (None, s1)
       else if vendor_at cfg slot n = v \<and> device_at cfg slot n = d then (Some (push_bit 3 (of_nat slot) OR of_nat n), s1)
       else if n = 0 \<and> \<not> multi_function cfg slot then (None, s2)
       else find_func hw32 v d (of_nat slot) [Suc n..<8] (if n = 0 then s2 else s1))"
    unfolding n find_func.simps r1
    by (cases "n = 0") (use r2 hd in \<open>auto simp: Let_def idr vendor_at_def device_at_def simp del: upt_Suc\<close>)
  have find: "List.find (matches cfg v d slot) [n..<8] =
      (if matches cfg v d slot n then Some n else List.find (matches cfg v d slot) [Suc n..<8])" by (simp add: n)
  show ?case
  proof (cases "vendor_at cfg slot n = 0xFFFF")
    case True
    then have "\<not> seen cfg slot f" if "n < f" for f using that by (auto simp: seen_def dest: less_imp_le)
    from stop [OF this] show ?thesis unfolding step find using True seen by (simp add: matches_def)
  next
    case False
    show ?thesis
    proof (cases "multi_function cfg slot")
      case True
      show ?thesis unfolding step find using False seen True IH [OF False True] by (simp add: matches_def)
    next
      case single: False
      have "List.find (matches cfg v d slot) [Suc n..<8] = None"
        using single by (intro stop) (auto simp: seen_def)
      then show ?thesis unfolding step find using False seen single Suc.prems(2) by (simp add: matches_def)
    qed
  qed
qed simp


lemma find_append: "List.find P (xs @ ys) = (case List.find P xs of None \<Rightarrow> List.find P ys | Some x \<Rightarrow> Some x)"
  by (induction xs) simp_all

lemma find_map: "List.find P (map f xs) = map_option f (List.find (\<lambda>x. P (f x)) xs)"
  by (induction xs) simp_all

lemma slot_code:
  assumes "slot < 32" and "f < 8"
  shows "push_bit 3 (of_nat slot) OR of_nat f = (of_nat (8 * slot + f) :: u8)"
proof -
  have "list_all (\<lambda>i. list_all (\<lambda>j. push_bit 3 (of_nat i) OR of_nat j = (of_nat (8 * i + j) :: u8)) [0..<8]) [0..<32]"
    by code_simp
  then show ?thesis using assms by (simp only: list_all_iff set_upt) simp
qed

lemma find_slot_bridge:
  assumes br: "bridge hw32 cfg" and "set slots \<subseteq> {0..<32}"
  shows "fst (find_slot hw32 v d slots s) =
    (case List.find (\<lambda>(slot, f). matches cfg v d slot f) (List.product slots [0..<8]) of
       None \<Rightarrow> 0xFF | Some (slot, f) \<Rightarrow> of_nat (8 * slot + f))"
  using assms(2)
proof (induction slots arbitrary: s)
  case (Cons slot slots)
  obtain r s1 where r: "find_func hw32 v d (of_nat slot) [0..<8] s = (r, s1)" by force
  have rv: "r = map_option (\<lambda>f. push_bit 3 (of_nat slot) OR of_nat f) (List.find (matches cfg v d slot) [0..<8])"
    using find_func_bridge [OF br, of 0 slot v d s] r by simp
  show ?case
  proof (cases "List.find (matches cfg v d slot) [0..<8]")
    case None
    then show ?thesis using Cons rv by (simp add: r find_append find_map del: upt_Suc)
  next
    case (Some f)
    then have "f < 8" by (auto simp: find_Some_iff)
    then show ?thesis using Some rv slot_code [of slot f] Cons.prems by (simp add: r find_append find_map del: upt_Suc)
  qed
qed simp

text \<open>
  \<open>pci_find_device\<close> returns the number, eight times the slot plus the function, of the first function of bus 0
  that the search sees and that has the vendor and device asked for, and 0xFF when there is none. A function
  behind a missing one of its slot is not seen, and 0xFF is also the number of the last function of the last slot.
\<close>

theorem pci_find_device_first:
  assumes "bridge hw32 cfg"
  shows "fst (pci_find_device hw32 v d s) =
    (case List.find (\<lambda>(slot, f). matches cfg v d slot f) (List.product [0..<32] [0..<8]) of
       None \<Rightarrow> 0xFF | Some (slot, f) \<Rightarrow> of_nat (8 * slot + f))"
  unfolding pci_find_device_def by (rule find_slot_bridge [OF assms]) simp

text \<open>A bus with a bridge in slot 0 and a display, vendor 0x1234 and device 0x1111, in slot 2.\<close>

definition bus_example :: "u32 \<Rightarrow> u32" where
  "bus_example a =
     (if a = pci_address 0 0 0 0 then 0x12378086 else if a = pci_address 0 2 0 0 then 0x11111234
      else if a = pci_address 0 0 0 0x0C \<or> a = pci_address 0 2 0 0x0C then 0 else 0xFFFFFFFF)"

definition bridge_example :: device32 where
  "bridge_example tr p = (case rev tr of Out32 q a # _ \<Rightarrow> if q = PCI_CONFIG_ADDR then bus_example a else 0 | _ \<Rightarrow> 0)"

theorem pci_find_device_first_witness: "fst (pci_find_device bridge_example 0x1234 0x1111 display_example) = 16"
proof -
  have br: "bridge bridge_example bus_example" by (simp add: bridge_def bridge_example_def)
  have "(case List.find (\<lambda>(slot, f). matches bus_example 0x1234 0x1111 slot f) (List.product [0..<32] [0..<8]) of
      None \<Rightarrow> 0xFF | Some (slot, f) \<Rightarrow> of_nat (8 * slot + f)) = (16 :: u8)" by code_simp
  with pci_find_device_first [OF br] show ?thesis by metis
qed


end
