(* ===== verification/Okfs.thy ===== *)
theory Okfs
  imports Kheap "HOL-Library.Monad_Syntax"
begin

text \<open>
  The in-memory file system of \<open>fs.c\<close>: 128 nodes with parent links, paths and their
  resolution, and file contents kept in buffers of the kernel heap. This theory holds the
  operations; their invariant and properties follow in \<open>Okfs_Inv\<close> and \<open>Okfs_Props\<close>.
\<close>

section \<open>Strings\<close>

text \<open>
  A NUL-terminated C string is the list of its characters before the NUL. A \<open>char *\<close>
  argument is either such a string outside the heap or an address in the heap, read byte by
  byte; the null pointer is \<open>Mem 0\<close>.
\<close>

datatype cbuf = Str string | Mem u32

abbreviation SLASH :: char where "SLASH \<equiv> CHR ''/''"
abbreviation BACKSLASH :: char where "BACKSLASH \<equiv> CHR 0x5C"

abbreviation FS_MAX_PATH :: nat where "FS_MAX_PATH \<equiv> 256"
abbreviation FS_MAX_NAME :: nat where "FS_MAX_NAME \<equiv> 48"
abbreviation FS_MAX_FILE_SIZE :: u32 where "FS_MAX_FILE_SIZE \<equiv> 65536"
abbreviation FS_MAX_NODES :: nat where "FS_MAX_NODES \<equiv> 128"

abbreviation FS_OK :: int where "FS_OK \<equiv> 0"
abbreviation FS_ERR_NOT_FOUND :: int where "FS_ERR_NOT_FOUND \<equiv> -1"
abbreviation FS_ERR_EXISTS :: int where "FS_ERR_EXISTS \<equiv> -2"
abbreviation FS_ERR_NOT_DIR :: int where "FS_ERR_NOT_DIR \<equiv> -3"
abbreviation FS_ERR_NOT_FILE :: int where "FS_ERR_NOT_FILE \<equiv> -4"
abbreviation FS_ERR_NOT_TXT :: int where "FS_ERR_NOT_TXT \<equiv> -5"
abbreviation FS_ERR_NO_SPACE :: int where "FS_ERR_NO_SPACE \<equiv> -6"
abbreviation FS_ERR_INVALID :: int where "FS_ERR_INVALID \<equiv> -7"
abbreviation FS_ERR_FULL :: int where "FS_ERR_FULL \<equiv> -8"
abbreviation FS_ERR_NOT_EMPTY :: int where "FS_ERR_NOT_EMPTY \<equiv> -9"

fun fs_streq :: "string \<Rightarrow> string \<Rightarrow> bool" where
  "fs_streq (a # as) (b # bs) = (if a \<noteq> b then False else fs_streq as bs)"
| "fs_streq as bs = (as = [] \<and> bs = [])"

text \<open>\<open>fs_strncmp\<close> is only compared with 0; characters are compared as unsigned bytes.\<close>

fun fs_strncmp :: "string \<Rightarrow> string \<Rightarrow> nat \<Rightarrow> int" where
  "fs_strncmp a b 0 = 0"
| "fs_strncmp a b (Suc n) =
     (let x = (case a of [] \<Rightarrow> NUL | c # _ \<Rightarrow> c); y = (case b of [] \<Rightarrow> NUL | c # _ \<Rightarrow> c) in
      if x \<noteq> y then of_char x - of_char y
      else if x = NUL then 0 else fs_strncmp (tl a) (tl b) n)"

definition fs_strcpy :: "string \<Rightarrow> nat \<Rightarrow> string" where
  "fs_strcpy src limit = take (limit - 1) src"

definition fs_ends_with_txt :: "string \<Rightarrow> bool" where
  "fs_ends_with_txt name =
     (let len = length name in
      if len < 4 then False
      else name ! (len - 4) = CHR ''.'' \<and> name ! (len - 3) = CHR ''t'' \<and>
           name ! (len - 2) = CHR ''x'' \<and> name ! (len - 1) = CHR ''t'')"

definition fs_is_valid_name :: "string \<Rightarrow> bool" where
  "fs_is_valid_name name =
     (if name = [] then False
      else if fs_streq name ''.'' \<or> fs_streq name ''..'' then False
      else \<not> list_ex (\<lambda>c. c = SLASH \<or> c = BACKSLASH) name)"

definition fs_strerror :: "int \<Rightarrow> string" where
  "fs_strerror err =
     (if err = FS_OK then ''OK''
      else if err = FS_ERR_NOT_FOUND then ''Not found''
      else if err = FS_ERR_EXISTS then ''Already exists''
      else if err = FS_ERR_NOT_DIR then ''Not a directory''
      else if err = FS_ERR_NOT_FILE then ''Not a file''
      else if err = FS_ERR_NOT_TXT then ''Only .txt files are supported''
      else if err = FS_ERR_NO_SPACE then ''Out of memory or file too large''
      else if err = FS_ERR_INVALID then ''Invalid path or name''
      else if err = FS_ERR_FULL then ''Filesystem full''
      else if err = FS_ERR_NOT_EMPTY then ''Directory not empty''
      else ''Unknown error'')"

section \<open>State\<close>

datatype fs_type_t = FS_TYPE_DIR | FS_TYPE_FILE

record fs_node_t =
  used :: bool
  parent :: int
  ftype :: fs_type_t
  name :: string
  data :: u32
  fsize :: u32
  cap :: u32

text \<open>
  \<open>nodes\<close> is the array \<open>nodes[128]\<close>; \<open>ram\<close> the bytes of the heap payloads; \<open>emitted\<close> the
  lines passed to the \<open>emit\<close> callbacks, in order. The last fields are the editor session.
\<close>

record okfs = kheap +
  ram :: "u32 \<Rightarrow> char"
  nodes :: "int \<Rightarrow> fs_node_t"
  cwd :: int
  cwd_path :: string
  emitted :: "string list"
  edit_active :: bool
  edit_path :: string
  edit_buf :: u32
  edit_len :: u32
  edit_cap :: u32
  edit_pending_line :: string
  edit_pending_line_valid :: bool
  edit_target_line :: int

definition emit :: "string \<Rightarrow> 'a okfs_scheme \<Rightarrow> 'a okfs_scheme" where
  "emit line s = s\<lparr>emitted := emitted s @ [line]\<rparr>"

definition node_upd :: "int \<Rightarrow> (fs_node_t \<Rightarrow> fs_node_t) \<Rightarrow> 'a okfs_scheme \<Rightarrow> 'a okfs_scheme" where
  "node_upd i f s = s\<lparr>nodes := (nodes s)(i := f (nodes s i))\<rparr>"

definition write_byte :: "u32 \<Rightarrow> char \<Rightarrow> 'a okfs_scheme \<Rightarrow> 'a okfs_scheme" where
  "write_byte a c s = s\<lparr>ram := (ram s)(a := c)\<rparr>"

definition buf_byte :: "cbuf \<Rightarrow> nat \<Rightarrow> 'a okfs_scheme \<Rightarrow> char" where
  "buf_byte b i s = (case b of Str cs \<Rightarrow> if i < length cs then cs ! i else NUL
                             | Mem p \<Rightarrow> ram s (p + of_nat i))"

text \<open>\<open>for (i = 0; i < len; i++) dst[i] = src[i];\<close>\<close>

definition copy_bytes :: "u32 \<Rightarrow> cbuf \<Rightarrow> u32 \<Rightarrow> 'a okfs_scheme \<Rightarrow> 'a okfs_scheme" where
  "copy_bytes dst src len s =
     for_loop 0 (unat len) (\<lambda>i s. write_byte (dst + of_nat i) (buf_byte src i s) s) s"

partial_function (option) mem_strlen :: "(u32 \<Rightarrow> char) \<Rightarrow> u32 \<Rightarrow> u32 \<Rightarrow> u32 option" where
  "mem_strlen m p n = (if m (p + n) = NUL then Some n else mem_strlen m p (n + 1))"

definition fs_strlen :: "cbuf \<Rightarrow> 'a okfs_scheme \<Rightarrow> u32 option" where
  "fs_strlen b s = (case b of Str cs \<Rightarrow> Some (of_nat (length cs)) | Mem p \<Rightarrow> mem_strlen (ram s) p 0)"

section \<open>Nodes and paths\<close>

definition fs_alloc_node :: "'a okfs_scheme \<Rightarrow> int" where
  "fs_alloc_node s =
     (case scan 1 FS_MAX_NODES (\<lambda>i. \<not> used (nodes s (int i))) of Some i \<Rightarrow> int i | None \<Rightarrow> -1)"

definition fs_find_child :: "int \<Rightarrow> string \<Rightarrow> 'a okfs_scheme \<Rightarrow> int" where
  "fs_find_child p nm s =
     (case scan 1 FS_MAX_NODES (\<lambda>i. used (nodes s (int i)) \<and> parent (nodes s (int i)) = p \<and>
                                     fs_streq (name (nodes s (int i))) nm)
      of Some i \<Rightarrow> int i | None \<Rightarrow> -1)"

text \<open>
  \<open>fs_rebuild_cwd_path\<close>: the stack of node numbers from the working directory up, at most
  \<open>FS_MAX_NODES\<close> of them, then the names joined from the root down until the buffer is full.
\<close>

fun cwd_stack :: "nat \<Rightarrow> (int \<Rightarrow> fs_node_t) \<Rightarrow> int \<Rightarrow> int list" where
  "cwd_stack 0 nd cur = []"
| "cwd_stack (Suc room) nd cur = (if cur > 0 then cur # cwd_stack room nd (parent (nd cur)) else [])"

fun cwd_join :: "string \<Rightarrow> string list \<Rightarrow> string" where
  "cwd_join path [] = path"
| "cwd_join path (nm # nms) =
     (let path = (if path \<noteq> [] \<and> last path \<noteq> SLASH
                  then (if length path < FS_MAX_PATH - 1 then path @ [SLASH] else path)
                  else path)
      in if length path + length nm \<ge> FS_MAX_PATH - 1 then path
         else cwd_join (path @ nm) nms)"

definition fs_rebuild_cwd_path :: "'a okfs_scheme \<Rightarrow> 'a okfs_scheme" where
  "fs_rebuild_cwd_path s =
     (if cwd s = 0 then s\<lparr>cwd_path := ''/''\<rparr>
      else let stack = cwd_stack FS_MAX_NODES (nodes s) (cwd s);
               path = cwd_join [] (map (\<lambda>i. name (nodes s i)) (rev stack))
           in s\<lparr>cwd_path := (if path = [] then ''/'' else path)\<rparr>)"

lemma component_rest_shorter:
  assumes "path \<noteq> []"
  shows "length (dropWhile (\<lambda>c. c = SLASH) (dropWhile (\<lambda>c. c \<noteq> SLASH) path)) < length path"
proof -
  have le: "length (dropWhile P xs) \<le> length xs" for P and xs :: string
    by (rule length_dropWhile_le)
  obtain c cs where "path = c # cs" using assms by (cases path) auto
  then show ?thesis
    using le [of "\<lambda>c. c = SLASH" cs] le [of "\<lambda>c. c \<noteq> SLASH" cs]
      le [of "\<lambda>c. c = SLASH" "dropWhile (\<lambda>c. c \<noteq> SLASH) cs"] by (auto simp: less_Suc_eq_le)
qed

text \<open>
  The loop of \<open>fs_resolve\<close> on the rest of the path: read a component, refuse one longer than
  47 characters, skip the slashes after it, and follow it.
\<close>

function fs_resolve_loop :: "'a okfs_scheme \<Rightarrow> int \<Rightarrow> string \<Rightarrow> int" where
  "fs_resolve_loop s cur path =
     (if path = [] then cur
      else let component = takeWhile (\<lambda>c. c \<noteq> SLASH) path;
               rest = dropWhile (\<lambda>c. c = SLASH) (dropWhile (\<lambda>c. c \<noteq> SLASH) path)
           in if length component > FS_MAX_NAME - 1 then FS_ERR_INVALID
              else if component = [] then fs_resolve_loop s cur rest
              else if fs_streq component ''.'' then fs_resolve_loop s cur rest
              else if fs_streq component ''..''
              then fs_resolve_loop s (if cur = 0 then cur else parent (nodes s cur)) rest
              else let child = fs_find_child cur component s in
                   if child < 0 then FS_ERR_NOT_FOUND else fs_resolve_loop s child rest)"
  by pat_completeness auto

termination
  by (relation "measure (\<lambda>(s, cur, path). length path)") (auto intro: component_rest_shorter)

declare fs_resolve_loop.simps [simp del]

definition fs_resolve :: "int \<Rightarrow> string \<Rightarrow> bool \<Rightarrow> 'a okfs_scheme \<Rightarrow> int" where
  "fs_resolve start path want_dir s =
     (if path = [] then FS_ERR_INVALID
      else let (cur, rest) = (if hd path = SLASH then (0, tl path) else (start, path));
               cur = fs_resolve_loop s cur (dropWhile (\<lambda>c. c = SLASH) rest)
           in if cur < 0 then cur
              else if want_dir \<and> ftype (nodes s cur) \<noteq> FS_TYPE_DIR then FS_ERR_NOT_DIR
              else cur)"

text \<open>\<open>for (i = len; i > 0; i--) if (copy[i-1] == '/') ...\<close>\<close>

fun last_slash :: "string \<Rightarrow> nat \<Rightarrow> nat option" where
  "last_slash copy 0 = None"
| "last_slash copy (Suc i) = (if copy ! i = SLASH then Some i else last_slash copy i)"

text \<open>\<open>Inl\<close> the error code, \<open>Inr\<close> the pair \<open>out_parent\<close>, \<open>out_name\<close>.\<close>

definition fs_resolve_parent :: "string \<Rightarrow> 'a okfs_scheme \<Rightarrow> int + (int \<times> string)" where
  "fs_resolve_parent path s =
     (let len = length path in
      if len \<ge> FS_MAX_PATH then Inl FS_ERR_INVALID
      else let copy = fs_strcpy path FS_MAX_PATH;
               start = (if path \<noteq> [] \<and> hd path = SLASH then 0 else cwd s)
           in case last_slash copy len of
                None \<Rightarrow> Inr (start, fs_strcpy copy FS_MAX_NAME)
              | Some i \<Rightarrow>
                  let parent_path = take i copy;
                      parent_path = (if parent_path = [] then ''/'' else parent_path);
                      p = fs_resolve start parent_path True s
                  in if p < 0 then Inl p
                     else Inr (p, fs_strcpy (drop (i + 1) copy) FS_MAX_NAME))"

section \<open>File contents\<close>

partial_function (option) grow_cap :: "u32 \<Rightarrow> u32 \<Rightarrow> u32 option" where
  "grow_cap new_cap need = (if new_cap < need then grow_cap (new_cap * 2) need else Some new_cap)"

declare grow_cap.simps [code] mem_strlen.simps [code]

text \<open>The growing part of \<open>fs_set_file_data\<close>; \<open>False\<close> when it returns \<open>FS_ERR_NO_SPACE\<close>.\<close>

definition fs_grow_data :: "int \<Rightarrow> u32 \<Rightarrow> bool \<Rightarrow> 'a okfs_scheme \<Rightarrow> (bool \<times> 'a okfs_scheme) option" where
  "fs_grow_data fid new_size appending s =
     (if cap (nodes s fid) < new_size
      then do {
        c \<leftarrow> grow_cap (if cap (nodes s fid) \<noteq> 0 then cap (nodes s fid) else 256) new_size;
        let new_cap = (if FS_MAX_FILE_SIZE < c then FS_MAX_FILE_SIZE else c);
        (nbuf, s) \<leftarrow> kmalloc new_cap s;
        if nbuf = 0 then Some (False, s)
        else do {
          let s = (if appending \<and> data (nodes s fid) \<noteq> 0 \<and> 0 < fsize (nodes s fid)
                   then copy_bytes nbuf (Mem (data (nodes s fid))) (fsize (nodes s fid)) s else s);
          let s = (if data (nodes s fid) \<noteq> 0 then kfree (data (nodes s fid)) s else s);
          Some (True, node_upd fid (\<lambda>n. n\<lparr>data := nbuf, cap := new_cap\<rparr>) s)
        }
      }
      else Some (True, s))"

definition fs_set_file_data ::
  "int \<Rightarrow> cbuf \<Rightarrow> u32 \<Rightarrow> bool \<Rightarrow> 'a okfs_scheme \<Rightarrow> (int \<times> 'a okfs_scheme) option" where
  "fs_set_file_data fid src len appending s =
     (if FS_MAX_FILE_SIZE < len then Some (FS_ERR_NO_SPACE, s)
      else let new_size = (if appending then fsize (nodes s fid) + len else len) in
        if FS_MAX_FILE_SIZE < new_size then Some (FS_ERR_NO_SPACE, s)
        else do {
          (ok, s) \<leftarrow> fs_grow_data fid new_size appending s;
          if \<not> ok then Some (FS_ERR_NO_SPACE, s)
          else if appending
          then let s = copy_bytes (data (nodes s fid) + fsize (nodes s fid)) src len s
               in Some (FS_OK, node_upd fid (\<lambda>n. n\<lparr>fsize := new_size\<rparr>) s)
          else let s = copy_bytes (data (nodes s fid)) src len s
               in Some (FS_OK, node_upd fid (\<lambda>n. n\<lparr>fsize := len\<rparr>) s)
        })"

section \<open>The operations of \<open>fs.h\<close>\<close>

definition fs_create_entry :: "int \<Rightarrow> string \<Rightarrow> fs_type_t \<Rightarrow> 'a okfs_scheme \<Rightarrow> int \<times> 'a okfs_scheme" where
  "fs_create_entry p nm t s =
     (if \<not> fs_is_valid_name nm then (FS_ERR_INVALID, s)
      else if t = FS_TYPE_FILE \<and> \<not> fs_ends_with_txt nm then (FS_ERR_NOT_TXT, s)
      else if 0 \<le> fs_find_child p nm s then (FS_ERR_EXISTS, s)
      else let fid = fs_alloc_node s in
           if fid < 0 then (FS_ERR_FULL, s)
           else (fid, node_upd fid (\<lambda>n. n\<lparr>used := True, parent := p, ftype := t,
                   name := fs_strcpy nm FS_MAX_NAME, data := 0, fsize := 0, cap := 0\<rparr>) s))"

definition fs_pwd :: "'a okfs_scheme \<Rightarrow> string" where
  "fs_pwd s = cwd_path s"

definition fs_cd :: "string \<Rightarrow> 'a okfs_scheme \<Rightarrow> int \<times> 'a okfs_scheme" where
  "fs_cd path s =
     (let target = fs_resolve (cwd s) path True s in
      if target < 0 then (target, s)
      else if ftype (nodes s target) \<noteq> FS_TYPE_DIR then (FS_ERR_NOT_DIR, s)
      else (FS_OK, fs_rebuild_cwd_path (s\<lparr>cwd := target\<rparr>)))"

definition fs_mkdir :: "string \<Rightarrow> 'a okfs_scheme \<Rightarrow> int \<times> 'a okfs_scheme" where
  "fs_mkdir path s =
     (case fs_resolve_parent path s of
        Inl err \<Rightarrow> (err, s)
      | Inr (p, nm) \<Rightarrow>
          if \<not> fs_is_valid_name nm then (FS_ERR_INVALID, s)
          else let (fid, s) = fs_create_entry p nm FS_TYPE_DIR s
               in (if 0 \<le> fid then FS_OK else FS_ERR_FULL, s))"

definition fs_touch :: "string \<Rightarrow> 'a okfs_scheme \<Rightarrow> int \<times> 'a okfs_scheme" where
  "fs_touch path s =
     (case fs_resolve_parent path s of
        Inl err \<Rightarrow> (err, s)
      | Inr (p, nm) \<Rightarrow>
          let existing = fs_find_child p nm s in
          if 0 \<le> existing
          then (if ftype (nodes s existing) \<noteq> FS_TYPE_FILE then (FS_ERR_NOT_FILE, s) else (FS_OK, s))
          else let (fid, s) = fs_create_entry p nm FS_TYPE_FILE s
               in (if 0 \<le> fid then FS_OK else fid, s))"

definition fs_rm :: "string \<Rightarrow> 'a okfs_scheme \<Rightarrow> int \<times> 'a okfs_scheme" where
  "fs_rm path s =
     (let fid = fs_resolve (cwd s) path False s in
      if fid < 0 then (fid, s)
      else if fid = 0 then (FS_ERR_INVALID, s)
      else if ftype (nodes s fid) = FS_TYPE_DIR \<and>
              scan 1 FS_MAX_NODES (\<lambda>i. used (nodes s (int i)) \<and> parent (nodes s (int i)) = fid) \<noteq> None
      then (FS_ERR_NOT_EMPTY, s)
      else let s = (if data (nodes s fid) \<noteq> 0
                    then node_upd fid (\<lambda>n. n\<lparr>data := 0\<rparr>) (kfree (data (nodes s fid)) s) else s);
               s = (if cwd s = fid then fs_rebuild_cwd_path (s\<lparr>cwd := parent (nodes s fid)\<rparr>) else s)
           in (FS_OK, node_upd fid (\<lambda>n. n\<lparr>used := False, fsize := 0, cap := 0\<rparr>) s))"

definition fs_write_file :: "string \<Rightarrow> cbuf \<Rightarrow> u32 \<Rightarrow> 'a okfs_scheme \<Rightarrow> (int \<times> 'a okfs_scheme) option" where
  "fs_write_file path src len s =
     (if src = Mem 0 then Some (FS_ERR_INVALID, s)
      else do {
        len \<leftarrow> (if len = 0 then fs_strlen src s else Some len);
        case fs_resolve_parent path s of
          Inl err \<Rightarrow> Some (err, s)
        | Inr (p, nm) \<Rightarrow>
            let fid = fs_find_child p nm s in
            if fid < 0
            then let (fid, s) = fs_create_entry p nm FS_TYPE_FILE s in
                 if fid < 0 then Some (fid, s) else fs_set_file_data fid src len False s
            else if ftype (nodes s fid) \<noteq> FS_TYPE_FILE then Some (FS_ERR_NOT_FILE, s)
            else fs_set_file_data fid src len False s
      })"

definition fs_append_file :: "string \<Rightarrow> cbuf \<Rightarrow> u32 \<Rightarrow> 'a okfs_scheme \<Rightarrow> (int \<times> 'a okfs_scheme) option" where
  "fs_append_file path src len s =
     (if src = Mem 0 then Some (FS_ERR_INVALID, s)
      else do {
        len \<leftarrow> (if len = 0 then fs_strlen src s else Some len);
        let fid = fs_resolve (cwd s) path False s;
        if fid < 0 then Some (fid, s)
        else if ftype (nodes s fid) \<noteq> FS_TYPE_FILE then Some (FS_ERR_NOT_FILE, s)
        else if \<not> fs_ends_with_txt (name (nodes s fid)) then Some (FS_ERR_NOT_TXT, s)
        else fs_set_file_data fid src len True s
      })"

definition fs_blank_node :: fs_node_t where
  "fs_blank_node = \<lparr>used = False, parent = -1, ftype = FS_TYPE_DIR, name = [], data = 0, fsize = 0, cap = 0\<rparr>"

definition fs_init_tables :: "'a okfs_scheme \<Rightarrow> 'a okfs_scheme" where
  "fs_init_tables s =
     (let s = for_loop 0 FS_MAX_NODES (\<lambda>i. node_upd (int i) (\<lambda>_. fs_blank_node)) s;
          s = node_upd 0 (\<lambda>n. n\<lparr>used := True, parent := -1, ftype := FS_TYPE_DIR, name := []\<rparr>) s
      in s\<lparr>cwd := 0, cwd_path := ''/''\<rparr>)"

definition fs_init :: "'a okfs_scheme \<Rightarrow> 'a okfs_scheme option" where
  "fs_init s =
     do {
       let s = fs_init_tables s;
       let s = snd (fs_mkdir ''/docs'' s);
       (_, s) \<leftarrow> fs_write_file ''/readme.txt'' (Str (''Welcome to openkernel OKFS.\<newline>'' @
         ''Use 'help --fs' for file commands.\<newline>'' @ ''Try: cat readme.txt\<newline>'')) 0 s;
       (_, s) \<leftarrow> fs_write_file ''/docs/about.txt'' (Str (''openkernel educational filesystem.\<newline>'' @
         ''Text files use the .txt extension.\<newline>'')) 0 s;
       Some s
     }"

section \<open>Listing and printing\<close>

text \<open>\<open>while (*src && p < max) line[p++] = *src++;\<close>\<close>

definition append_max :: "nat \<Rightarrow> string \<Rightarrow> string \<Rightarrow> string" where
  "append_max limit line src = line @ take (limit - length line) src"

text \<open>The decimal digits, least significant first, at most \<open>room\<close> of them.\<close>

fun rev_digits :: "nat \<Rightarrow> u32 \<Rightarrow> string" where
  "rev_digits 0 v = []"
| "rev_digits (Suc room) v =
     (if v = 0 then [] else char_of (48 + unat (v mod 10)) # rev_digits room (v div 10))"

definition size_digits :: "u32 \<Rightarrow> string" where
  "size_digits v = (if v = 0 then ''0'' else rev (rev_digits 15 v))"

definition fs_emit_size_line :: "string \<Rightarrow> string \<Rightarrow> u32 \<Rightarrow> 'a okfs_scheme \<Rightarrow> 'a okfs_scheme" where
  "fs_emit_size_line prefix nm sz s =
     (let line = append_max 90 [] prefix;
          line = append_max 90 line nm;
          line = append_max 90 line '' ('';
          line = append_max 90 line (size_digits sz);
          line = append_max 90 line '' bytes)''
      in emit line s)"

definition fs_ls_node :: "int \<Rightarrow> nat \<Rightarrow> bool \<times> 'a okfs_scheme \<Rightarrow> bool \<times> 'a okfs_scheme" where
  "fs_ls_node dir i = (\<lambda>(found, s).
     let n = nodes s (int i) in
     if \<not> used n \<or> parent n \<noteq> dir then (found, s)
     else if ftype n = FS_TYPE_DIR
     then (True, emit (append_max (FS_MAX_NAME + 15) ''[DIR]  '' (name n)) s)
     else (True, fs_emit_size_line ''[FILE] '' (name n) (fsize n) s))"

definition fs_ls :: "string \<Rightarrow> 'a okfs_scheme \<Rightarrow> int \<times> 'a okfs_scheme" where
  "fs_ls path s =
     (let here = (path = [] \<or> fs_streq path ''.'' \<or> fs_streq path ''./'');
          dir = (if here then cwd s else fs_resolve (cwd s) path True s)
      in if \<not> here \<and> dir < 0 then (dir, s)
         else if ftype (nodes s dir) \<noteq> FS_TYPE_DIR then (FS_ERR_NOT_DIR, s)
         else let (found, s) = for_loop 1 FS_MAX_NODES (fs_ls_node dir) (False, s)
              in (FS_OK, if \<not> found then emit ''(empty)'' s else s))"

text \<open>The loop of \<open>fs_cat\<close> over the bytes of the file, with the line collected so far.\<close>

fun cat_loop :: "nat \<Rightarrow> string \<Rightarrow> string \<Rightarrow> 'a okfs_scheme \<Rightarrow> 'a okfs_scheme" where
  "cat_loop width line [] s = (if line \<noteq> [] then emit line s else s)"
| "cat_loop width line (c # cs) s =
     (if c = NEWLINE \<or> length line \<ge> width
      then (if c = NEWLINE then cat_loop width [] cs (emit line s)
            else cat_loop width [c] cs (emit line s))
      else cat_loop width (line @ [c]) cs s)"

definition buf_bytes :: "u32 \<Rightarrow> u32 \<Rightarrow> 'a okfs_scheme \<Rightarrow> string" where
  "buf_bytes p n s = map (\<lambda>i. ram s (p + of_nat i)) [0..<unat n]"

definition fs_cat :: "string \<Rightarrow> 'a okfs_scheme \<Rightarrow> int \<times> 'a okfs_scheme" where
  "fs_cat path s =
     (let fid = fs_resolve (cwd s) path False s in
      if fid < 0 then (fid, s)
      else if ftype (nodes s fid) \<noteq> FS_TYPE_FILE then (FS_ERR_NOT_FILE, s)
      else if \<not> fs_ends_with_txt (name (nodes s fid)) then (FS_ERR_NOT_TXT, s)
      else if fsize (nodes s fid) = 0 then (FS_OK, emit ''(empty file)'' s)
      else (FS_OK, cat_loop 127 [] (buf_bytes (data (nodes s fid)) (fsize (nodes s fid)) s) s))"

end
