(* ===== verification/Okfs_Edit.thy ===== *)
theory Okfs_Edit
  imports Okfs
begin

text \<open>
  The line editor and the command line of the file system: the second half of \<open>fs.c\<close>. The text
  under edit is kept in a heap buffer of its own.
\<close>

section \<open>The edit buffer\<close>

text \<open>The growing part of \<open>edit_buf_append\<close>; \<open>False\<close> when it returns \<open>FS_ERR_NO_SPACE\<close>.\<close>

definition edit_grow :: "u32 \<Rightarrow> 'a okfs_scheme \<Rightarrow> (bool \<times> 'a okfs_scheme) option" where
  "edit_grow need s =
     (if edit_cap s < need
      then do {
        c \<leftarrow> grow_cap (if edit_cap s \<noteq> 0 then edit_cap s else 256) need;
        let new_cap = (if FS_MAX_FILE_SIZE < c then FS_MAX_FILE_SIZE else c);
        (nbuf, s) \<leftarrow> kmalloc new_cap s;
        if nbuf = 0 then Some (False, s)
        else do {
          let s = copy_bytes nbuf (Mem (edit_buf s)) (edit_len s) s;
          let s = (if edit_buf s \<noteq> 0 then kfree (edit_buf s) s else s);
          Some (True, s\<lparr>edit_buf := nbuf, edit_cap := new_cap\<rparr>)
        }
      }
      else Some (True, s))"

definition edit_buf_append :: "cbuf \<Rightarrow> u32 \<Rightarrow> 'a okfs_scheme \<Rightarrow> (int \<times> 'a okfs_scheme) option" where
  "edit_buf_append txt len s =
     (let need = edit_len s + len in
      if FS_MAX_FILE_SIZE < need then Some (FS_ERR_NO_SPACE, s)
      else do {
        (ok, s) \<leftarrow> edit_grow need s;
        if \<not> ok then Some (FS_ERR_NO_SPACE, s)
        else let s = copy_bytes (edit_buf s + edit_len s) txt len s
             in Some (FS_OK, s\<lparr>edit_len := edit_len s + len\<rparr>)
      })"

definition edit_buf_free :: "'a okfs_scheme \<Rightarrow> 'a okfs_scheme" where
  "edit_buf_free s =
     (let s = (if edit_buf s \<noteq> 0 then kfree (edit_buf s) s else s)
      in s\<lparr>edit_buf := 0, edit_len := 0, edit_cap := 0, edit_pending_line_valid := False,
           edit_target_line := 0\<rparr>)"

definition fs_edit_is_active :: "'a okfs_scheme \<Rightarrow> bool" where
  "fs_edit_is_active s = edit_active s"

definition fs_edit_path :: "'a okfs_scheme \<Rightarrow> string" where
  "fs_edit_path s = edit_path s"

definition fs_edit_begin :: "string \<Rightarrow> 'a okfs_scheme \<Rightarrow> (int \<times> 'a okfs_scheme) option" where
  "fs_edit_begin path s =
     (if edit_active s then Some (FS_ERR_INVALID, s)
      else let fid = fs_resolve (cwd s) path False s in
        if fid < 0 then Some (fid, s)
        else if ftype (nodes s fid) \<noteq> FS_TYPE_FILE then Some (FS_ERR_NOT_FILE, s)
        else if \<not> fs_ends_with_txt (name (nodes s fid)) then Some (FS_ERR_NOT_TXT, s)
        else let s = edit_buf_free s;
                 s = s\<lparr>edit_active := True, edit_path := fs_strcpy path FS_MAX_PATH\<rparr>
          in if 0 < fsize (nodes s fid)
             then do {
               (err, s) \<leftarrow> edit_buf_append (Mem (data (nodes s fid))) (fsize (nodes s fid)) s;
               if err \<noteq> FS_OK then Some (err, s\<lparr>edit_active := False, edit_path := []\<rparr>)
               else Some (FS_OK, s)
             }
             else Some (FS_OK, s))"

text \<open>The bytes of the text under edit.\<close>

definition edit_text :: "'a okfs_scheme \<Rightarrow> string" where
  "edit_text s = buf_bytes (edit_buf s) (edit_len s) s"

text \<open>The position after \<open>n - cur\<close> newlines, with the number of the line it is on.\<close>

fun skip_lines :: "int \<Rightarrow> int \<Rightarrow> string \<Rightarrow> int \<times> string" where
  "skip_lines n cur [] = (cur, [])"
| "skip_lines n cur (c # cs) =
     (if cur < n then skip_lines n (if c = NEWLINE then cur + 1 else cur) cs else (cur, c # cs))"

definition edit_fetch_line :: "int \<Rightarrow> nat \<Rightarrow> 'a okfs_scheme \<Rightarrow> string option" where
  "edit_fetch_line n limit s =
     (if edit_len s = 0 \<or> n < 1 then None
      else let (cur, rest) = skip_lines n 1 (edit_text s) in
        if cur \<noteq> n \<or> rest = [] then None
        else Some (take (limit - 1) (takeWhile (\<lambda>c. c \<noteq> NEWLINE) rest)))"

definition fs_edit_get_pending_line :: "'a okfs_scheme \<Rightarrow> string option \<times> 'a okfs_scheme" where
  "fs_edit_get_pending_line s =
     (if edit_pending_line_valid s then (Some (edit_pending_line s), s\<lparr>edit_pending_line_valid := False\<rparr>)
      else (None, s))"

definition fs_edit_display_content :: "'a okfs_scheme \<Rightarrow> 'a okfs_scheme" where
  "fs_edit_display_content s =
     (if \<not> edit_active s then s
      else if edit_len s = 0 then emit ''(empty file)'' s
      else let s = emit ''--- file ---'' s in cat_loop 80 [] (edit_text s) s)"

section \<open>The editor's commands\<close>

text \<open>\<open>do { d = '0' + v % 10; v /= 10; } while (v > 0)\<close>, most significant digit first.\<close>

fun dec_digits :: "nat \<Rightarrow> string" where
  "dec_digits v = (if v < 10 then [char_of (48 + v)] else dec_digits (v div 10) @ [char_of (48 + v mod 10)])"

declare dec_digits.simps [simp del]

text \<open>Command \<open>:p\<close>: each line ended by a newline, cut to 80 characters, with its number.\<close>

fun print_loop :: "nat \<Rightarrow> string \<Rightarrow> string \<Rightarrow> 'a okfs_scheme \<Rightarrow> 'a okfs_scheme" where
  "print_loop n line [] s = s"
| "print_loop n line (c # cs) s =
     (if c = NEWLINE
      then print_loop (n + 1) [] cs
             (emit (append_max 94 (dec_digits n @ '': '') (takeWhile (\<lambda>c. c \<noteq> NUL) line)) s)
      else print_loop n (if length line < 80 then line @ [c] else line) cs s)"

definition edit_print :: "'a okfs_scheme \<Rightarrow> 'a okfs_scheme" where
  "edit_print s = (if edit_len s = 0 then emit ''(empty)'' s else print_loop 1 [] (edit_text s) s)"

definition edit_save :: "'a okfs_scheme \<Rightarrow> (int \<times> 'a okfs_scheme) option" where
  "edit_save s =
     do {
       (err, s) \<leftarrow> fs_write_file (edit_path s) (Mem (edit_buf s)) (edit_len s) s;
       if err \<noteq> FS_OK then Some (err, emit (fs_strerror err) s)
       else Some (FS_OK, edit_buf_free ((emit ''Saved.'' s)\<lparr>edit_active := False, edit_path := []\<rparr>))
     }"

definition edit_quit :: "'a okfs_scheme \<Rightarrow> 'a okfs_scheme" where
  "edit_quit s = edit_buf_free ((emit ''Edit cancelled.'' s)\<lparr>edit_active := False, edit_path := []\<rparr>)"

text \<open>
  The line number of \<open>:e\<close>, accumulated in a C \<open>int\<close>; overflow, undefined in C, is taken to wrap.
\<close>

fun parse_line_number :: "u32 \<Rightarrow> string \<Rightarrow> u32 \<times> string" where
  "parse_line_number ln [] = (ln, [])"
| "parse_line_number ln (c # p) =
     (if (of_char c :: nat) \<ge> 48 \<and> (of_char c :: nat) \<le> 57
      then parse_line_number (ln * 10 + (of_char c - 48)) p else (ln, c # p))"

definition count_lines :: "string \<Rightarrow> int" where
  "count_lines txt = int (count_list txt NEWLINE) + (if last txt \<noteq> NEWLINE then 1 else 0)"

text \<open>\<open>while (pos < old_len && old[pos] != '\n') pos++;\<close>\<close>

definition line_end :: "u32 \<Rightarrow> u32 \<Rightarrow> nat \<Rightarrow> 'a okfs_scheme \<Rightarrow> nat" where
  "line_end old old_len pos s =
     (case scan pos (unat old_len) (\<lambda>i. ram s (old + of_nat i) = NEWLINE) of
        Some i \<Rightarrow> i | None \<Rightarrow> unat old_len)"

text \<open>The loop that copies the old text line by line, with line \<open>idx\<close> replaced by \<open>p\<close>.\<close>

partial_function (option) replace_loop ::
  "string \<Rightarrow> int \<Rightarrow> u32 \<Rightarrow> u32 \<Rightarrow> nat \<Rightarrow> int \<Rightarrow> 'a okfs_scheme \<Rightarrow> 'a okfs_scheme option" where
  "replace_loop p idx old old_len pos cur s =
     (if pos < unat old_len
      then do {
        let e = line_end old old_len pos s;
        (_, s) \<leftarrow> (if cur = idx then edit_buf_append (Str p) (of_nat (length p)) s
                   else edit_buf_append (Mem (old + of_nat pos)) (of_nat (e - pos)) s);
        if e < unat old_len \<and> ram s (old + of_nat e) = NEWLINE
        then do {
          (_, s) \<leftarrow> edit_buf_append (Str [NEWLINE]) 1 s;
          replace_loop p idx old old_len (e + 1) (cur + 1) s
        }
        else replace_loop p idx old old_len e (cur + 1) s
      }
      else Some s)"

declare replace_loop.simps [code]

definition edit_replace :: "string \<Rightarrow> int \<Rightarrow> 'a okfs_scheme \<Rightarrow> (int \<times> 'a okfs_scheme) option" where
  "edit_replace p idx s =
     do {
       let old = edit_buf s;
       let old_len = edit_len s;
       s \<leftarrow> replace_loop p idx old old_len 0 0 (s\<lparr>edit_buf := 0, edit_len := 0, edit_cap := 0\<rparr>);
       Some (FS_OK, emit ''Line updated.'' (kfree old s))
     }"

definition edit_line :: "string \<Rightarrow> 'a okfs_scheme \<Rightarrow> (int \<times> 'a okfs_scheme) option" where
  "edit_line arg s =
     (let (ln, p) = parse_line_number 0 arg;
          idx = sint (ln - 1)
      in if idx < 0 then Some (FS_ERR_INVALID, emit ''Invalid line number'' s)
         else if edit_len s = 0 then Some (FS_ERR_INVALID, emit ''File is empty'' s)
         else if count_lines (edit_text s) \<le> idx
         then Some (FS_ERR_INVALID, emit ''Line number out of range'' s)
         else case p of
           [] \<Rightarrow> (case edit_fetch_line (sint ln) FS_MAX_PATH s of
                    Some l \<Rightarrow> Some (FS_OK, s\<lparr>edit_pending_line := l, edit_pending_line_valid := True,
                                             edit_target_line := sint ln\<rparr>)
                  | None \<Rightarrow> Some (FS_OK, s))
         | c # p \<Rightarrow>
             if c \<noteq> CHR '' '' then Some (FS_ERR_INVALID, emit ''Usage: :e <n> [text]'' s)
             else edit_replace p idx s)"

definition edit_add :: "string \<Rightarrow> 'a okfs_scheme \<Rightarrow> (int \<times> 'a okfs_scheme) option" where
  "edit_add line s =
     do {
       (err, s) \<leftarrow> edit_buf_append (Str line) (of_nat (length line)) s;
       if err \<noteq> FS_OK then Some (err, emit (fs_strerror err) s)
       else do {
         (err, s) \<leftarrow> edit_buf_append (Str [NEWLINE]) 1 s;
         Some (err, if err \<noteq> FS_OK then emit (fs_strerror err) s else s)
       }
     }"

text \<open>\<open>fs_edit_handle_line\<close> after the handling of a target line.\<close>

definition edit_command :: "string \<Rightarrow> 'a okfs_scheme \<Rightarrow> (int \<times> 'a okfs_scheme) option" where
  "edit_command line s =
     (if fs_streq line '':save'' \<or> fs_streq line '':w'' then edit_save s
      else if fs_streq line '':q'' \<or> fs_streq line '':quit'' then Some (FS_OK, edit_quit s)
      else if fs_streq line '':p'' then Some (FS_OK, edit_print s)
      else if take 3 line = '':e '' then edit_line (drop 3 line) s
      else edit_add line s)"

text \<open>The synthetic command \<open>:e <n> <text>\<close>, cut to the 4096 bytes of its buffer.\<close>

definition synthetic :: "int \<Rightarrow> string \<Rightarrow> string" where
  "synthetic target line =
     append_max 4094 (append_max 4094 [] ('':e '' @ dec_digits (nat target) @ '' '')) line"

text \<open>
  The recursive call on the synthetic command finds the session active and no target line, so
  it goes to the commands at once.
\<close>

definition fs_edit_handle_line :: "string \<Rightarrow> 'a okfs_scheme \<Rightarrow> (int \<times> 'a okfs_scheme) option" where
  "fs_edit_handle_line line s =
     (if \<not> edit_active s then Some (FS_ERR_INVALID, s)
      else if 0 < edit_target_line s
      then let target = edit_target_line s; s = s\<lparr>edit_target_line := 0\<rparr> in
           if line = [] \<or> hd line \<noteq> CHR '':''
           then edit_command (synthetic target line) s
           else edit_command line s
      else edit_command line s)"

section \<open>The command line\<close>

definition skip_spaces :: "string \<Rightarrow> string" where
  "skip_spaces p = dropWhile (\<lambda>c. c = CHR '' '') p"

abbreviation QUOTE :: char where "QUOTE \<equiv> CHR 0x22"

definition parse_quoted_tail :: "string \<Rightarrow> nat \<Rightarrow> string option" where
  "parse_quoted_tail cmd limit =
     (let cmd = skip_spaces cmd in
      if cmd = [] \<or> hd cmd \<noteq> QUOTE then None
      else let cmd = tl cmd;
               out = take (limit - 1) (takeWhile (\<lambda>c. c \<noteq> QUOTE) cmd);
               rest = drop (length out) cmd
           in if rest \<noteq> [] \<and> hd rest = QUOTE then Some out else None)"

definition parse_path_and_rest :: "string \<Rightarrow> string \<Rightarrow> nat \<Rightarrow> (string \<times> string) option" where
  "parse_path_and_rest cmd verb limit =
     (if fs_strncmp cmd verb (length verb) \<noteq> 0 then None
      else let cmd = skip_spaces (drop (length verb) cmd);
               path = take (FS_MAX_PATH - 1) (takeWhile (\<lambda>c. c \<noteq> CHR '' '') cmd);
               cmd = drop (length path) cmd
           in if path = [] then None
              else let cmd = skip_spaces cmd in
                if cmd = [] then Some (path, [])
                else map_option (Pair path) (parse_quoted_tail cmd limit))"

definition emit_err :: "int \<Rightarrow> 'a okfs_scheme \<Rightarrow> 'a okfs_scheme" where
  "emit_err err s = emit (append_max 63 (append_max 60 [] ''Error: '') (fs_strerror err)) s"

definition fs_show_help :: "'a okfs_scheme \<Rightarrow> 'a okfs_scheme" where
  "fs_show_help s = fold emit
     [''Filesystem commands:'',
      ''ls <path>              - List directory'',
      ''cd <path>              - Change directory'',
      ''pwd                    - Print working directory'',
      ''mkdir <path>           - Create directory'',
      ''touch <file.txt>       - Create empty text file'',
      ''rm <path>              - Remove file or empty directory'',
      ''cat <file.txt>         - Print file contents'',
      ''write <file.txt> '' @ [QUOTE] @ ''t'' @ [QUOTE] @ ''  - Create/overwrite text file'',
      ''append <file.txt> '' @ [QUOTE] @ ''t'' @ [QUOTE] @ '' - Append text to file'',
      ''edit <file.txt>        - Edit existing .txt file''] s"

text \<open>\<open>report err msg\<close>: the error, or the message of a command that succeeded.\<close>

definition report :: "int \<Rightarrow> string option \<Rightarrow> 'a okfs_scheme \<Rightarrow> 'a okfs_scheme" where
  "report err msg s = (if err \<noteq> FS_OK then emit_err err s
                       else case msg of Some m \<Rightarrow> emit m s | None \<Rightarrow> s)"

abbreviation FS_CMD_TEXT_MAX :: nat where "FS_CMD_TEXT_MAX \<equiv> 4096"

definition fs_handle_command :: "string \<Rightarrow> 'a okfs_scheme \<Rightarrow> (bool \<times> 'a okfs_scheme) option" where
  "fs_handle_command command s =
     (if fs_streq command ''help --fs'' then Some (True, fs_show_help s)
      else if fs_streq command ''pwd'' then Some (True, emit (fs_pwd s) s)
      else if fs_strncmp command ''ls '' 3 = 0
      then let (err, s) = fs_ls (skip_spaces (drop 3 command)) s in Some (True, report err None s)
      else if fs_strncmp command ''dir '' 4 = 0
      then let (err, s) = fs_ls (skip_spaces (drop 4 command)) s in Some (True, report err None s)
      else if fs_strncmp command ''cd '' 3 = 0
      then let (err, s) = fs_cd (drop 3 command) s in Some (True, report err None s)
      else if fs_strncmp command ''mkdir '' 6 = 0
      then let (err, s) = fs_mkdir (drop 6 command) s in Some (True, report err (Some ''Directory created.'') s)
      else if fs_strncmp command ''touch '' 6 = 0
      then let (err, s) = fs_touch (drop 6 command) s in Some (True, report err (Some ''File created.'') s)
      else if fs_strncmp command ''rm '' 3 = 0
      then let (err, s) = fs_rm (drop 3 command) s in Some (True, report err (Some ''Removed.'') s)
      else if fs_strncmp command ''cat '' 4 = 0
      then let (err, s) = fs_cat (drop 4 command) s in Some (True, report err None s)
      else case parse_path_and_rest command ''write'' FS_CMD_TEXT_MAX of
        Some (path, rest) \<Rightarrow> do {
          (err, s) \<leftarrow> fs_write_file path (Str rest) 0 s;
          Some (True, report err (Some ''Written.'') s)
        }
      | None \<Rightarrow> (case parse_path_and_rest command ''append'' FS_CMD_TEXT_MAX of
          Some (path, rest) \<Rightarrow> do {
            (err, s) \<leftarrow> fs_append_file path (Str rest) 0 s;
            Some (True, report err (Some ''Appended.'') s)
          }
        | None \<Rightarrow>
            if fs_strncmp command ''edit '' 5 = 0
            then do {
              (err, s) \<leftarrow> fs_edit_begin (drop 5 command) s;
              Some (True, if err \<noteq> FS_OK then emit_err err s
                else emit (fs_edit_path s)
                  (emit ''Edit mode. Commands: :save/:w, :q, :p, :e <n> [text], :e <n> (load line)'' s))
            }
            else Some (False, s)))"

end
