(* ===== verification/Shell.thy ===== *)
theory Shell
  imports Display Okfs_Edit
begin

text \<open>
  The command line of \<open>kernel.c\<close>, on the text console and in graphics mode: the line the user edits, the
  commands, and the loop of \<open>kernel_main\<close> that takes keys from the keyboard driver.
\<close>

section \<open>State\<close>

abbreviation CMD_BUFFER_SIZE :: nat where "CMD_BUFFER_SIZE \<equiv> 128"
abbreviation PSEUDO_SIZE :: nat where "PSEUDO_SIZE \<equiv> 64"
abbreviation GFX_LOG_LINES :: nat where "GFX_LOG_LINES \<equiv> 24"
abbreviation GFX_LOG_COLS :: nat where "GFX_LOG_COLS \<equiv> 64"

text \<open>A line under edit: \<open>cmd\<close>, \<open>cmd_len\<close>, \<open>cmd_cursor\<close>, and likewise \<open>pseudo_cmd\<close>.\<close>

record line_t =
  chars :: "nat \<Rightarrow> char"
  len :: nat
  cursor :: nat

text \<open>
  \<open>fsys\<close> is the file system with its heap. \<open>halted\<close> says that the processor is in a loop of \<open>hlt\<close>, out of which no
  code of the shell is reached again.
\<close>

record shell = display +
  fsys :: okfs
  cmd_line :: line_t
  pseudo_line :: line_t
  gfx_log :: "nat \<Rightarrow> string"
  gfx_log_count :: nat
  pseudo_text_mode_active :: bool
  saved_magic :: u32
  saved_flags :: u32
  saved_mem_lower :: u32
  saved_mem_upper :: u32
  saved_boot_loader :: string
  saved_boot_loader_valid :: bool
  halted :: bool

text \<open>The C string at the start of an array of \<open>n\<close> characters.\<close>

definition cstr :: "nat \<Rightarrow> (nat \<Rightarrow> char) \<Rightarrow> string" where
  "cstr n f = takeWhile (\<lambda>c. c \<noteq> NUL) (map f [0..<n])"

section \<open>Printing\<close>

text \<open>\<open>None\<close> stands for a call that has no defined result or does not return.\<close>

definition kprint :: "string \<Rightarrow> karg list \<Rightarrow> 'a shell_scheme \<Rightarrow> 'a shell_scheme option" where
  "kprint format args s = (case printk format args s of Inl e \<Rightarrow> None | Inr s \<Rightarrow> Some s)"

fun show_events :: "kevent list \<Rightarrow> 'a shell_scheme \<Rightarrow> 'a shell_scheme option" where
  "show_events [] s = Some s"
| "show_events (e # es) s = (case show_event e s of Inl f \<Rightarrow> None | Inr s \<Rightarrow> show_events es s)"

text \<open>What the drivers printed, brought to the console.\<close>

definition flush_log :: "'a shell_scheme \<Rightarrow> 'a shell_scheme option" where
  "flush_log s = show_events (klog s) (s\<lparr>klog := []\<rparr>)"

fun log_all :: "(string \<Rightarrow> 's \<Rightarrow> 's option) \<Rightarrow> string list \<Rightarrow> 's \<Rightarrow> 's option" where
  "log_all log [] s = Some s"
| "log_all log (l # ls) s = Option.bind (log l s) (log_all log ls)"

text \<open>
  A call of the file system: the messages of the heap first, which it prints before it reports failure to its
  caller, then the lines for the callback.
\<close>

definition run_fs :: "(okfs \<Rightarrow> ('r \<times> okfs) option) \<Rightarrow> (string \<Rightarrow> 'a shell_scheme \<Rightarrow> 'a shell_scheme option) \<Rightarrow>
    'a shell_scheme \<Rightarrow> ('r \<times> 'a shell_scheme) option" where
  "run_fs call log s =
     do {
       (r, f) \<leftarrow> call ((fsys s)\<lparr>klog := [], emitted := []\<rparr>);
       s \<leftarrow> show_events (klog f) (s\<lparr>fsys := f\<rparr>);
       s \<leftarrow> log_all log (emitted f) s;
       Some (r, s)
     }"

section \<open>The console in graphics mode\<close>

definition clear_gfx_log :: "'a shell_scheme \<Rightarrow> 'a shell_scheme" where
  "clear_gfx_log s =
     (for_loop 0 GFX_LOG_LINES (\<lambda>i s. s\<lparr>gfx_log := (gfx_log s)(i := [])\<rparr>) s)\<lparr>gfx_log_count := 0\<rparr>"

definition append_gfx_log :: "string \<Rightarrow> 'a shell_scheme \<Rightarrow> 'a shell_scheme" where
  "append_gfx_log msg s =
     (let slot = gfx_log_count s mod GFX_LOG_LINES in
      s\<lparr>gfx_log := (gfx_log s)(slot := take (GFX_LOG_COLS - 1) msg), gfx_log_count := gfx_log_count s + 1\<rparr>)"

definition append_gfx_prompt_line :: "string \<Rightarrow> 'a shell_scheme \<Rightarrow> 'a shell_scheme" where
  "append_gfx_prompt_line command s = append_gfx_log (''> '' @ take (GFX_LOG_COLS - 3) command) s"

text \<open>
  The loop writes the cursor and the character without looking at the room between the two; \<open>None\<close> when this
  leaves the buffer.
\<close>

definition build_pseudo_prompt :: "nat \<Rightarrow> 'a shell_scheme \<Rightarrow> string option" where
  "build_pseudo_prompt max_len s =
     (let l = pseudo_line s;
          p = take (max_len - 1) ''> '';
          p = for_loop 0 (len l) (\<lambda>i p.
                if length p < max_len - 1
                then (if i = cursor l then p @ ''_'' else p) @ [chars l i] else p) p;
          p = (if len l \<le> cursor l \<and> length p < max_len - 1 then p @ ''_'' else p)
      in if length p < max_len then Some p else None)"

abbreviation GFX_CONSOLE_BG :: u32 where "GFX_CONSOLE_BG \<equiv> display_rgb 0 0 0x40"

definition render_pseudo_text_prompt :: "'a shell_scheme \<Rightarrow> 'a shell_scheme option" where
  "render_pseudo_text_prompt s =
     do {
       prompt \<leftarrow> build_pseudo_prompt 80 s;
       let s = display_fill_rect 0 558 (ucast (width (display_get_mode s))) 24 GFX_CONSOLE_BG s;
       Some (display_puts_line prompt 20 560 (display_rgb 0xFF 0xFF 0x80) s)
     }"

definition gfx_lines :: "'a shell_scheme \<Rightarrow> nat" where
  "gfx_lines s = (if gfx_log_count s < GFX_LOG_LINES then gfx_log_count s else GFX_LOG_LINES)"

definition gfx_line :: "nat \<Rightarrow> 'a shell_scheme \<Rightarrow> string" where
  "gfx_line i s = gfx_log s ((gfx_log_count s - gfx_lines s + i) mod GFX_LOG_LINES)"

definition render_pseudo_text_screen :: "'a shell_scheme \<Rightarrow> 'a shell_scheme option" where
  "render_pseudo_text_screen s =
     (let s = display_clear GFX_CONSOLE_BG s;
          s = display_puts ''openkernel Command Line'' 20 20 (display_rgb 0xFF 0xFF 0xFF) s;
          s = display_puts ''Type 'help' for available commands.'' 20 40 (display_rgb 0xA0 0xA0 0xA0) s;
          s = for_loop 0 (gfx_lines s) (\<lambda>i s.
                display_puts_line (gfx_line i s) 20 (64 + of_nat i * 20) (display_rgb 0xFF 0xFF 0xFF) s) s
      in render_pseudo_text_prompt s)"

definition render_graphics_test_screen :: "'a display_scheme \<Rightarrow> 'a display_scheme" where
  "render_graphics_test_screen s =
     (let s = display_clear (display_rgb 0 0 0x40) s;
          s = display_fill_rect 30 30 100 100 (display_rgb 0xFF 0 0) s;
          s = display_fill_rect 150 30 100 100 (display_rgb 0 0xFF 0) s;
          s = display_fill_rect 270 30 100 100 (display_rgb 0 0 0xFF) s;
          s = display_fill_rect 390 30 100 100 (display_rgb 0xFF 0xFF 0) s;
          s = display_fill_rect 510 30 100 100 (display_rgb 0xFF 0 0xFF) s;
          s = display_draw_rect 30 160 100 100 (display_rgb 0xFF 0xFF 0xFF) s;
          s = display_draw_rect 150 160 100 100 (display_rgb 0xFF 0xFF 0xFF) s;
          s = display_draw_rect 270 160 100 100 (display_rgb 0xFF 0xFF 0xFF) s;
          s = display_draw_rect 390 160 100 100 (display_rgb 0xFF 0xFF 0xFF) s;
          s = display_draw_rect 510 160 100 100 (display_rgb 0xFF 0xFF 0xFF) s;
          s = display_puts ''TEST TEXT! TEST TEXT! TEST TEXT!'' 30 320 (display_rgb 0xFF 0xFF 0xFF) s;
          s = display_puts ''TEST TEXT! TEST TEXT! TEST TEXT!'' 30 340 (display_rgb 0xB0 0xB0 0xB0) s
      in display_puts ''TEST TEXT! TEST TEXT! TEST TEXT!'' 30 360 (display_rgb 0x80 0xFF 0x80) s)"

section \<open>Commands\<close>

fun streq :: "string \<Rightarrow> string \<Rightarrow> bool" where
  "streq (a # as) (b # bs) = (if a \<noteq> b then False else streq as bs)"
| "streq as bs = (as = [] \<and> bs = [])"

definition extract_parenthesis_content :: "string \<Rightarrow> nat \<Rightarrow> string option" where
  "extract_parenthesis_content command max_len =
     (let command = dropWhile (\<lambda>c. c = CHR '' '') command;
          command = dropWhile (\<lambda>c. c \<noteq> CHR ''('') command
      in if command = [] then None
         else let command = dropWhile (\<lambda>c. c = CHR '' '') (tl command);
                  parts = (if command \<noteq> [] \<and> hd command = CHR 0x22
                           then let command = tl command;
                                    out = take (max_len - 1) (takeWhile (\<lambda>c. c \<noteq> CHR 0x22) command);
                                    command = drop (length out) command
                                in if command = [] \<or> hd command \<noteq> CHR 0x22 then None else Some (out, tl command)
                           else let out = take (max_len - 1) (takeWhile (\<lambda>c. c \<noteq> CHR '')'') command)
                                in Some (out, drop (length out) command))
              in case parts of
                   None \<Rightarrow> None
                 | Some (out, command) \<Rightarrow>
                     let command = dropWhile (\<lambda>c. c = CHR '' '') command
                     in if command = [] \<or> hd command \<noteq> CHR '')'' then None else Some out)"

definition reboot_system :: "'a shell_scheme \<Rightarrow> 'a shell_scheme" where
  "reboot_system s = (io_outb 0x64 0xFE s)\<lparr>halted := True\<rparr>"

definition shutdown_system :: "'a shell_scheme \<Rightarrow> 'a shell_scheme" where
  "shutdown_system s =
     (let s = io_outw 0xB004 0x2000 s;
          s = io_outw 0x604 0x2000 s;
          s = io_outw 0x4004 0x3400 s
      in s\<lparr>interrupts_on := False, halted := True\<rparr>)"

definition pseudo_console_log :: "string \<Rightarrow> 'a shell_scheme \<Rightarrow> 'a shell_scheme option" where
  "pseudo_console_log msg s = Some (append_gfx_log msg s)"

definition text_console_log :: "string \<Rightarrow> 'a shell_scheme \<Rightarrow> 'a shell_scheme option" where
  "text_console_log msg s = kprint ''%s\<newline>'' [KStr msg] s"

definition show_help_main :: "(string \<Rightarrow> 's \<Rightarrow> 's option) \<Rightarrow> 's \<Rightarrow> 's option" where
  "show_help_main log_fn = log_all log_fn
     [''Available commands:'',
      ''help                - Show this help'',
      ''help --os           - Show OS-related commands'',
      ''clear               - Clear the console'',
      ''reboot              - Restart the system'',
      ''shutdown            - Power off the system'',
      ''gfx                 - Enter graphics mode'',
      ''layout <code>       - Set keyboard layout'',
      ''                       us, uk, it, fr, de, es, pt'',
      ''                       no, dk, se, fi, nl, be'',
      ''                       pl, cz, sk, hu, ro, tr'',
      ''cmd.print('' @ [CHR 0x22] @ ''msg'' @ [CHR 0x22] @ '')    - Print a message'',
      ''help --fs           - Show filesystem commands'']"

definition show_help_os :: "(string \<Rightarrow> 's \<Rightarrow> 's option) \<Rightarrow> 's \<Rightarrow> 's option" where
  "show_help_os log_fn = log_all log_fn
     [''OS commands:'',
      ''os.version          - Show kernel version'',
      ''os.bootinfo         - Show boot information'']"

definition KERNEL_VERSION_STRING :: string where
  "KERNEL_VERSION_STRING = ''openkernel Kernel v0.3''"

definition hex8 :: "u32 \<Rightarrow> string" where
  "hex8 v = map (\<lambda>si. hex_digit (drop_bit si v AND 0xF)) [28, 24, 20, 16, 12, 8, 4, 0]"

definition decimal :: "u32 \<Rightarrow> string" where
  "decimal v = (if v = 0 then ''0'' else rev (dec_temp (unat v)))"

text \<open>The line with the name of the boot loader is put together in an array of 64 characters.\<close>

definition show_bootinfo :: "(string \<Rightarrow> 'a shell_scheme \<Rightarrow> 'a shell_scheme option) \<Rightarrow> 'a shell_scheme \<Rightarrow> 'a shell_scheme option" where
  "show_bootinfo log_fn s =
     do {
       s \<leftarrow> log_fn ''=== openkernel Boot Info ==='' s;
       s \<leftarrow> log_fn (''Magic: 0x'' @ hex8 (saved_magic s) @ '' Flags: 0x'' @ hex8 (saved_flags s)) s;
       s \<leftarrow> log_fn (''Memory: '' @ decimal (saved_mem_lower s) @ '' KB'' @ '' lower, '' @
                    decimal (saved_mem_upper s) @ '' KB'' @ '' upper'') s;
       if saved_boot_loader_valid s
       then let b = ''Loader: '' @ saved_boot_loader s in if length b < 64 then log_fn b s else None
       else Some s
     }"

text \<open>
  Command \<open>gfx\<close>. What the probes print goes to the text screen, also while a graphics mode is set.
\<close>

definition enter_graphics :: "device \<Rightarrow> device16 \<Rightarrow> 'a shell_scheme \<Rightarrow> (bool \<times> 'a shell_scheme) option" where
  "enter_graphics hw hw16 s =
     do {
       let (ok, s) = display_enter_gfx hw hw16 s;
       s \<leftarrow> flush_log s;
       if ok
       then Some (True, render_graphics_test_screen (s\<lparr>graphics_mode_active := True, pseudo_text_mode_active := False\<rparr>))
       else Some (False, s)
     }"

definition command_layout :: "string \<Rightarrow> 'a shell_scheme \<Rightarrow> 'a shell_scheme" where
  "command_layout code s = keyboard_detect_layout (Some (''layout='' @ take 8 code)) s"

definition command_print :: "(string \<Rightarrow> 's \<Rightarrow> 's option) \<Rightarrow> string \<Rightarrow> 's \<Rightarrow> 's option" where
  "command_print log_fn command s =
     (if length command = 9 then log_fn ''Error: incomplete statement'' s
      else case extract_parenthesis_content (drop 9 command) 128 of
        Some msg \<Rightarrow> if msg = [] then log_fn ''Error: incomplete statement'' s else log_fn msg s
      | None \<Rightarrow> log_fn ''Error: incomplete statement'' s)"

definition execute_console_command ::
  "device \<Rightarrow> device16 \<Rightarrow> string \<Rightarrow> (string \<Rightarrow> 'a shell_scheme \<Rightarrow> 'a shell_scheme option) \<Rightarrow> bool \<Rightarrow>
   'a shell_scheme \<Rightarrow> (bool \<times> 'a shell_scheme) option" where
  "execute_console_command hw hw16 command log_fn graphics_console s =
     (if streq command ''help'' then map_option (Pair True) (show_help_main log_fn s)
      else if streq command ''help --os'' then map_option (Pair True) (show_help_os log_fn s)
      else if streq command ''clear''
      then (if graphics_console then Some (True, clear_gfx_log s)
            else do {
              s \<leftarrow> kprint ''openkernel Command Line\<newline>'' [] (vga_clear_public s);
              s \<leftarrow> kprint ''Type 'help' for available commands.\<newline>'' [] s;
              Some (True, s)
            })
      else if streq command ''reboot''
      then do {
        s \<leftarrow> log_fn ''Rebooting...'' s;
        s \<leftarrow> (if graphics_console then render_pseudo_text_screen s else Some s);
        Some (True, reboot_system s)
      }
      else if streq command ''shutdown''
      then do {
        s \<leftarrow> log_fn ''Shutting down...'' s;
        s \<leftarrow> (if graphics_console then render_pseudo_text_screen s else Some s);
        Some (True, shutdown_system s)
      }
      else if streq command ''gfx''
      then (if graphics_console
            then Some (True, render_graphics_test_screen (s\<lparr>pseudo_text_mode_active := False\<rparr>))
            else do {
              (ok, s) \<leftarrow> enter_graphics hw hw16 s;
              if ok then Some (True, s) else map_option (Pair True) (log_fn ''Failed to enter graphics mode'' s)
            })
      else if 7 \<le> length command \<and> take 7 command = ''layout ''
      then map_option (Pair True) (log_fn ''Layout changed'' (command_layout (drop 7 command) s))
      else if 9 \<le> length command \<and> take 9 command = ''cmd.print''
      then map_option (Pair True) (command_print log_fn command s)
      else if streq command ''os.version'' then map_option (Pair True) (log_fn KERNEL_VERSION_STRING s)
      else if streq command ''os.bootinfo'' then map_option (Pair True) (show_bootinfo log_fn s)
      else if 0 < length command
      then do {
        s \<leftarrow> log_fn ''Unknown command'' s;
        s \<leftarrow> log_fn ''Type 'help' for available commands'' s;
        Some (False, s)
      }
      else Some (True, s))"

definition execute_text_command :: "device \<Rightarrow> device16 \<Rightarrow> string \<Rightarrow> 'a shell_scheme \<Rightarrow> 'a shell_scheme option" where
  "execute_text_command hw hw16 command s =
     (if fs_edit_is_active (fsys s)
      then map_option snd (run_fs (fs_edit_handle_line command) text_console_log s)
      else do {
        (handled, s) \<leftarrow> run_fs (fs_handle_command command) text_console_log s;
        if handled then Some s
        else map_option snd (execute_console_command hw hw16 command text_console_log False s)
      })"

section \<open>The line under edit\<close>

text \<open>The three changes at the cursor, as both lines have them.\<close>

definition line_backspace :: "line_t \<Rightarrow> line_t" where
  "line_backspace l =
     (if 0 < cursor l
      then let cs = for_loop (cursor l - 1) (len l - 1) (\<lambda>i cs. cs(i := cs (i + 1))) (chars l);
               n = len l - 1
           in \<lparr>chars = cs(n := NUL), len = n, cursor = cursor l - 1\<rparr>
      else l)"

definition line_insert :: "char \<Rightarrow> line_t \<Rightarrow> line_t" where
  "line_insert ch l =
     (let cs = fold (\<lambda>i cs. cs(i := cs (i - 1))) (rev [cursor l + 1..<len l + 1]) (chars l);
          cs = cs(cursor l := ch);
          n = len l + 1
      in \<lparr>chars = cs(n := NUL), len = n, cursor = cursor l + 1\<rparr>)"

definition line_delete :: "line_t \<Rightarrow> line_t" where
  "line_delete l =
     (if cursor l < len l
      then let cs = for_loop (cursor l) (len l - 1) (\<lambda>i cs. cs(i := cs (i + 1))) (chars l);
               n = len l - 1
           in l\<lparr>chars := cs(n := NUL), len := n\<rparr>
      else l)"

definition line_reset :: "line_t \<Rightarrow> line_t" where
  "line_reset l = \<lparr>chars = (chars l)(0 := NUL), len = 0, cursor = 0\<rparr>"

text \<open>A pending line up to its NUL, of which the first \<open>n\<close> characters fit.\<close>

definition line_fill :: "nat \<Rightarrow> string \<Rightarrow> line_t \<Rightarrow> line_t" where
  "line_fill n pending l =
     (let plen = length (take n (takeWhile (\<lambda>c. c \<noteq> NUL) pending));
          cs = for_loop 0 plen (\<lambda>i cs. cs(i := pending ! i)) (chars l)
      in \<lparr>chars = cs(plen := NUL), len = plen, cursor = plen\<rparr>)"

definition get_prompt_prefix_len :: "'a shell_scheme \<Rightarrow> int" where
  "get_prompt_prefix_len s =
     (if fs_edit_is_active (fsys s) then 5 + int (length (fs_edit_path (fsys s))) + 2 else 2)"

definition show_text_prompt :: "'a shell_scheme \<Rightarrow> 'a shell_scheme" where
  "show_text_prompt s =
     (let input = cstr CMD_BUFFER_SIZE (chars (cmd_line s)) in
      if fs_edit_is_active (fsys s)
      then let size = FS_MAX_PATH + 8;
               prefix = take (size - 1) ''edit:'';
               prefix = prefix @ take (size - 1 - length prefix) (fs_edit_path (fsys s));
               prefix = (if length prefix < size - 2 then prefix @ ''>'' else prefix);
               prefix = prefix @ '' ''
           in vga_replace_current_input_line prefix input (cursor (cmd_line s)) s
      else vga_replace_current_input_line ''> '' input (cursor (cmd_line s)) s)"

section \<open>Keys on the text console\<close>

text \<open>Enter, after the command has run and unless it halted the machine.\<close>

definition after_command :: "bool \<Rightarrow> 'a shell_scheme \<Rightarrow> 'a shell_scheme option" where
  "after_command was_edit s =
     (let (pending, f) = fs_edit_get_pending_line (fsys s);
          s = s\<lparr>fsys := f\<rparr>
      in case pending of
           Some p \<Rightarrow> Some (show_text_prompt (s\<lparr>cmd_line := line_fill (CMD_BUFFER_SIZE - 2) p (cmd_line s)\<rparr>))
         | None \<Rightarrow> do {
             s \<leftarrow> (if was_edit \<and> fs_edit_is_active (fsys s)
                  then map_option snd (run_fs (\<lambda>f. Some ((), fs_edit_display_content f)) text_console_log s) else Some s);
             let s = s\<lparr>cmd_line := line_reset (cmd_line s)\<rparr>;
             Some (show_text_prompt (vga_reserve_prompt_line s))
           })"

definition text_enter :: "device \<Rightarrow> device16 \<Rightarrow> 'a shell_scheme \<Rightarrow> 'a shell_scheme option" where
  "text_enter hw hw16 s =
     do {
       s \<leftarrow> kprint ''\<newline>'' [] s;
       let l = cmd_line s;
       let s = s\<lparr>cmd_line := l\<lparr>chars := (chars l)(len l := NUL)\<rparr>\<rparr>;
       if 0 < len l
       then do {
         let was_edit = (5 \<le> len l \<and> map (chars l) [0..<5] = ''edit '');
         s \<leftarrow> execute_text_command hw hw16 (cstr CMD_BUFFER_SIZE (chars (cmd_line s))) s;
         if halted s then Some s else after_command was_edit s
       }
       else Some (show_text_prompt (vga_reserve_prompt_line (s\<lparr>cmd_line := line_reset (cmd_line s)\<rparr>)))
     }"

text \<open>
  A line of the editor that has filled the screen: it is cut at its last blank and what comes before
  is given to the editor.
\<close>

definition break_position :: "nat \<Rightarrow> line_t \<Rightarrow> nat" where
  "break_position avail l =
     (case List.find (\<lambda>i. chars l i = CHR '' '') (rev [0..<avail]) of
        Some i \<Rightarrow> if i \<le> 0 then avail - 1 else i
      | None \<Rightarrow> avail - 1)"

definition text_wrap :: "device \<Rightarrow> device16 \<Rightarrow> nat \<Rightarrow> char \<Rightarrow> 'a shell_scheme \<Rightarrow> 'a shell_scheme option" where
  "text_wrap hw hw16 avail ch s =
     do {
       let l = cmd_line s;
       let break_pos = break_position avail l;
       let saved_len = len l - break_pos - 1;
       let s = s\<lparr>cmd_line := l\<lparr>chars := (chars l)(break_pos := NUL)\<rparr>\<rparr>;
       s \<leftarrow> kprint ''\<newline>'' [] s;
       s \<leftarrow> execute_text_command hw hw16 (cstr CMD_BUFFER_SIZE (chars (cmd_line s))) s;
       let cs = for_loop 0 (min saved_len (CMD_BUFFER_SIZE - 2)) (\<lambda>i cs. cs(i := cs (break_pos + 1 + i))) (chars (cmd_line s));
       let cs = cs(saved_len := ch, saved_len + 1 := NUL);
       Some (show_text_prompt (s\<lparr>cmd_line := \<lparr>chars = cs, len = saved_len + 1, cursor = saved_len + 1\<rparr>\<rparr>))
     }"

definition text_type :: "device \<Rightarrow> device16 \<Rightarrow> char \<Rightarrow> 'a shell_scheme \<Rightarrow> 'a shell_scheme option" where
  "text_type hw hw16 ch s =
     (let avail = int VGA_COLS - get_prompt_prefix_len s;
          avail = (if avail \<le> 0 then 1 else avail);
          n = len (cmd_line s)
      in if fs_edit_is_active (fsys s) \<and> avail \<le> int n \<and> n < CMD_BUFFER_SIZE - 1
         then text_wrap hw hw16 (nat avail) ch s
         else if n < CMD_BUFFER_SIZE - 1
         then Some (show_text_prompt (s\<lparr>cmd_line := line_insert ch (cmd_line s)\<rparr>))
         else Some s)"

definition printable :: "char \<Rightarrow> bool" where
  "printable ch \<longleftrightarrow> 32 \<le> (of_char ch :: nat) \<and> (of_char ch :: nat) \<le> 126"

definition text_key :: "device \<Rightarrow> device16 \<Rightarrow> u8 \<Rightarrow> char \<Rightarrow> 'a shell_scheme \<Rightarrow> 'a shell_scheme option" where
  "text_key hw hw16 sc ch s =
     (if sc = 0x1C then text_enter hw hw16 s
      else if sc = 0x0E then Some (show_text_prompt (s\<lparr>cmd_line := line_backspace (cmd_line s)\<rparr>))
      else if printable ch then text_type hw hw16 ch s
      else Some s)"


section \<open>Keys in graphics mode\<close>

definition pseudo_console_execute :: "device \<Rightarrow> device16 \<Rightarrow> 'a shell_scheme \<Rightarrow> 'a shell_scheme option" where
  "pseudo_console_execute hw hw16 s =
     do {
       let l = pseudo_line s;
       let s = s\<lparr>pseudo_line := l\<lparr>chars := (chars l)(len l := NUL)\<rparr>\<rparr>;
       let command = cstr PSEUDO_SIZE (chars (pseudo_line s));
       s \<leftarrow> (if 0 < len l
            then do {
              let s = append_gfx_prompt_line command s;
              if fs_edit_is_active (fsys s)
              then map_option snd (run_fs (fs_edit_handle_line command) pseudo_console_log s)
              else do {
                (handled, s) \<leftarrow> run_fs (fs_handle_command command) pseudo_console_log s;
                if handled then Some s
                else map_option snd (execute_console_command hw hw16 command pseudo_console_log True s)
              }
            }
            else Some s);
       if halted s then Some s
       else let (pending, f) = fs_edit_get_pending_line (fsys s);
                s = s\<lparr>fsys := f\<rparr>
            in case pending of
                 Some p \<Rightarrow> Some (s\<lparr>pseudo_line := line_fill (PSEUDO_SIZE - 2) p (pseudo_line s)\<rparr>)
               | None \<Rightarrow> Some (s\<lparr>pseudo_line := line_reset (pseudo_line s)\<rparr>)
     }"

definition pseudo_enter :: "device \<Rightarrow> device16 \<Rightarrow> 'a shell_scheme \<Rightarrow> 'a shell_scheme option" where
  "pseudo_enter hw hw16 s =
     do {
       let had_input = 0 < len (pseudo_line s);
       s \<leftarrow> pseudo_console_execute hw hw16 s;
       if halted s then Some s
       else let s = s\<lparr>pseudo_line := (pseudo_line s)\<lparr>cursor := 0\<rparr>\<rparr>
            in if had_input then render_pseudo_text_screen s else render_pseudo_text_prompt s
     }"

definition pseudo_key :: "device \<Rightarrow> device16 \<Rightarrow> u8 \<Rightarrow> char \<Rightarrow> 'a shell_scheme \<Rightarrow> 'a shell_scheme option" where
  "pseudo_key hw hw16 sc ch s =
     (let l = pseudo_line s in
      if sc = 0x1C then pseudo_enter hw hw16 s
      else if sc = 0x0E
      then (if 0 < cursor l then render_pseudo_text_prompt (s\<lparr>pseudo_line := line_backspace l\<rparr>) else Some s)
      else if printable ch \<and> len l < PSEUDO_SIZE - 1
      then render_pseudo_text_prompt (s\<lparr>pseudo_line := line_insert ch l\<rparr>)
      else Some s)"

definition gfx_key :: "u8 \<Rightarrow> char \<Rightarrow> 'a shell_scheme \<Rightarrow> 'a shell_scheme option" where
  "gfx_key sc ch s =
     (let l = pseudo_line s in
      if sc = 0x1C
      then render_pseudo_text_screen (s\<lparr>pseudo_text_mode_active := True, pseudo_line := line_reset l\<rparr>)
      else if sc = 0x0E then Some (s\<lparr>pseudo_line := line_backspace l\<rparr>)
      else if printable ch \<and> len l < PSEUDO_SIZE - 1 then Some (s\<lparr>pseudo_line := line_insert ch l\<rparr>)
      else Some s)"

section \<open>The loop of \<open>kernel_main\<close>\<close>

definition toggle_graphics :: "device \<Rightarrow> device16 \<Rightarrow> 'a shell_scheme \<Rightarrow> 'a shell_scheme option" where
  "toggle_graphics hw hw16 s =
     (if graphics_toggle_requested s
      then let s = s\<lparr>graphics_toggle_requested := False\<rparr> in
           if graphics_mode_active s
           then (if pseudo_text_mode_active s
                 then Some (render_graphics_test_screen (s\<lparr>pseudo_text_mode_active := False\<rparr>))
                 else render_pseudo_text_screen (s\<lparr>pseudo_text_mode_active := True\<rparr>))
           else map_option snd (enter_graphics hw hw16 s)
      else Some s)"

text \<open>A scan code taken from the buffer; converting it may read outside the table of the layout.\<close>

definition handle_key :: "device \<Rightarrow> device16 \<Rightarrow> u8 \<Rightarrow> 'a shell_scheme \<Rightarrow> 'a shell_scheme option" where
  "handle_key hw hw16 sc s =
     do {
       key \<leftarrow> keyboard_scancode_to_ascii sc s;
       if \<not> graphics_mode_active s then text_key hw hw16 sc key s
       else if pseudo_text_mode_active s then pseudo_key hw hw16 sc key s
       else gfx_key sc key s
     }"

definition handle_up_down :: "'a shell_scheme \<Rightarrow> 'a shell_scheme" where
  "handle_up_down s =
     (let s = (if arrow_up_requested s
               then let s = s\<lparr>arrow_up_requested := False\<rparr> in if \<not> graphics_mode_active s then vga_scroll 1 s else s
               else s)
      in if arrow_down_requested s
         then let s = s\<lparr>arrow_down_requested := False\<rparr> in if \<not> graphics_mode_active s then vga_scroll (-1) s else s
         else s)"

text \<open>The text line after a change is shown again, and in graphics mode only while its console is shown.\<close>

definition change_line :: "(line_t \<Rightarrow> bool) \<Rightarrow> (line_t \<Rightarrow> line_t) \<Rightarrow> 'a shell_scheme \<Rightarrow> 'a shell_scheme option" where
  "change_line guard change s =
     (if \<not> graphics_mode_active s
      then (if guard (cmd_line s) then Some (show_text_prompt (s\<lparr>cmd_line := change (cmd_line s)\<rparr>)) else Some s)
      else if pseudo_text_mode_active s
      then (if guard (pseudo_line s)
            then render_pseudo_text_prompt (s\<lparr>pseudo_line := change (pseudo_line s)\<rparr>) else Some s)
      else Some s)"

definition handle_requests :: "'a shell_scheme \<Rightarrow> 'a shell_scheme option" where
  "handle_requests s =
     do {
       let s = handle_up_down s;
       s \<leftarrow> (if arrow_left_requested s
            then change_line (\<lambda>l. 0 < cursor l) (\<lambda>l. l\<lparr>cursor := cursor l - 1\<rparr>) (s\<lparr>arrow_left_requested := False\<rparr>)
            else Some s);
       s \<leftarrow> (if arrow_right_requested s
            then change_line (\<lambda>l. cursor l < len l) (\<lambda>l. l\<lparr>cursor := cursor l + 1\<rparr>) (s\<lparr>arrow_right_requested := False\<rparr>)
            else Some s);
       if delete_requested s
       then change_line (\<lambda>l. cursor l < len l) line_delete (s\<lparr>delete_requested := False\<rparr>)
       else Some s
     }"

text \<open>
  The loop as steps: the toggle, the keys one by one until the buffer is empty, the requests. An interrupt of the
  keyboard may come between any two steps. A machine that has halted makes no step.
\<close>

datatype loop_pc = At_toggle | At_keys | At_requests

inductive main_step :: "device \<Rightarrow> device16 \<Rightarrow> loop_pc \<times> 'a shell_scheme \<Rightarrow> loop_pc \<times> 'a shell_scheme \<Rightarrow> bool"
  for hw :: device and hw16 :: device16 where
  toggle: "\<not> halted s \<Longrightarrow> toggle_graphics hw hw16 s = Some s' \<Longrightarrow> main_step hw hw16 (At_toggle, s) (At_keys, s')"
| key: "\<not> halted s \<Longrightarrow> keyboard_get_scancode s = (sc, s1) \<Longrightarrow> sc \<noteq> 0 \<Longrightarrow> handle_key hw hw16 sc s1 = Some s' \<Longrightarrow>
    main_step hw hw16 (At_keys, s) (At_keys, s')"
| no_key: "\<not> halted s \<Longrightarrow> keyboard_get_scancode s = (0, s') \<Longrightarrow> main_step hw hw16 (At_keys, s) (At_requests, s')"
| requests: "\<not> halted s \<Longrightarrow> handle_requests s = Some s' \<Longrightarrow> main_step hw hw16 (At_requests, s) (At_toggle, s')"
| keyboard_irq: "main_step hw hw16 (pc, s) (pc, keyboard_irq_handler hw s)"

inductive_simps main_step_simps: "main_step hw hw16 (pc, s) (pc', s')"

section \<open>Boot information\<close>

text \<open>What \<open>kernel_main\<close> prints and keeps of the boot loader's information before the loop.\<close>

definition keep_boot_info :: "u32 \<Rightarrow> u32 \<Rightarrow> u32 \<Rightarrow> u32 \<Rightarrow> string option \<Rightarrow> 'a shell_scheme \<Rightarrow> 'a shell_scheme" where
  "keep_boot_info magic mflags lower upper loader s =
     (let s = s\<lparr>saved_magic := magic, saved_flags := mflags, saved_mem_lower := lower, saved_mem_upper := upper\<rparr>
      in case loader of
           Some nm \<Rightarrow> s\<lparr>saved_boot_loader := take 63 nm, saved_boot_loader_valid := True\<rparr>
         | None \<Rightarrow> s\<lparr>saved_boot_loader_valid := False\<rparr>)"

definition start_command_line :: "u32 \<Rightarrow> u32 \<Rightarrow> u32 \<Rightarrow> u32 \<Rightarrow> string option \<Rightarrow> 'a shell_scheme \<Rightarrow> 'a shell_scheme option" where
  "start_command_line magic mflags lower upper loader s =
     do {
       s \<leftarrow> kprint ''=== openkernel Boot Info ===\<newline>'' [] s;
       s \<leftarrow> kprint ''Magic: 0x%x  Flags: 0x%x\<newline>'' [KHex magic, KHex mflags] s;
       s \<leftarrow> kprint ''Memory: %d KB lower, %d KB upper (%d MB total)\<newline>''
              [KDec (sint lower), KDec (sint upper), KDec (sint ((upper + lower) div 1024))] s;
       s \<leftarrow> (case loader of Some nm \<Rightarrow> kprint ''Loader: %s\<newline>'' [KStr nm] s | None \<Rightarrow> Some s);
       let s = vga_clear_public (keep_boot_info magic mflags lower upper loader s);
       s \<leftarrow> kprint ''openkernel Command Line\<newline>'' [] s;
       s \<leftarrow> kprint ''Type 'help' for available commands.\<newline>'' [] s;
       Some (show_text_prompt s)
     }"


end
