(* ===== verification/Timer.thy ===== *)
theory Timer
  imports Idt Process_Props
begin

text \<open>
  The interval timer of \<open>timer.c\<close>: its programming, the interrupt handler that counts ticks and
  calls the scheduler, and the busy-waiting sleep.
\<close>

section \<open>The driver\<close>

record timer = interrupts +
  tick_count :: u32

abbreviation PIT_CMD :: u16 where "PIT_CMD \<equiv> 0x43"
abbreviation PIT_CH0 :: u16 where "PIT_CH0 \<equiv> 0x40"
abbreviation TICK_HZ :: u32 where "TICK_HZ \<equiv> 100"

text \<open>
  The handler acts on the driver's state, where the call of \<open>loading_status_tick\<close> is recorded,
  and through the scheduler on the processes.
\<close>

definition timer_irq_handler :: "'a timer_scheme \<times> 'b procs_scheme \<Rightarrow> 'a timer_scheme \<times> 'b procs_scheme" where
  "timer_irq_handler = (\<lambda>(t, p).
     let t = t\<lparr>tick_count := tick_count t + 1\<rparr>;
         t = log_event Status_tick t;
         p = (if tick_count t mod 10 = 0 then scheduler_schedule p else p)
     in (t, p))"

definition timer_init :: "u32 \<Rightarrow> 'a timer_scheme \<Rightarrow> 'a timer_scheme" where
  "timer_init frequency t =
     (let frequency = (if frequency = 0 then TICK_HZ else frequency);
          divisor = 1193182 div frequency;
          t = idt_register_handler 0 Timer_irq_handler t;
          t = io_outb PIT_CMD 0x36 t;
          t = io_outb PIT_CH0 (ucast (divisor AND 0xFF)) t
      in io_outb PIT_CH0 (ucast (drop_bit 8 divisor AND 0xFF)) t)"

definition timer_get_ticks :: "'a timer_scheme \<Rightarrow> u32" where
  "timer_get_ticks t = tick_count t"

text \<open>
  \<open>timer_sleep\<close>: interrupts change \<open>tick_count\<close> while it waits, so \<open>ticks k\<close> is the value of its
  \<open>k\<close>-th read. The result is the number of reads of the loop.
\<close>

definition sleep_target :: "u32 \<Rightarrow> u32 \<Rightarrow> u32" where
  "sleep_target ms now =
     (let ticks_per_ms = TICK_HZ div 1000;
          ticks_per_ms = (if ticks_per_ms = 0 then 1 else ticks_per_ms)
      in now + (ms * ticks_per_ms div 1000) + 1)"

partial_function (option) sleep_loop :: "(nat \<Rightarrow> u32) \<Rightarrow> u32 \<Rightarrow> nat \<Rightarrow> nat option" where
  "sleep_loop ticks target k = (if ticks k < target then sleep_loop ticks target (k + 1) else Some k)"

declare sleep_loop.simps [code]

definition timer_sleep :: "u32 \<Rightarrow> (nat \<Rightarrow> u32) \<Rightarrow> nat option" where
  "timer_sleep ms ticks = sleep_loop ticks (sleep_target ms (ticks 0)) 1"

section \<open>Programming the timer\<close>

lemma byte_pair: "unat (ucast (d AND 0xFF) :: u8) + 256 * unat (ucast (drop_bit 8 d AND 0xFF) :: u8) = unat (d :: u32) mod 65536"
proof -
  have m: "(0xFF :: u32) = mask 8" by (simp add: mask_eq_exp_minus_1)
  have "unat (ucast (d AND 0xFF) :: u8) = unat d mod 256"
    unfolding m by (simp add: unsigned_ucast_eq take_bit_eq_mod flip: take_bit_eq_mask) (simp add: unat_mod)
  moreover have "unat (ucast (drop_bit 8 d AND 0xFF) :: u8) = unat d div 256 mod 256"
    unfolding m by (simp add: unsigned_ucast_eq take_bit_eq_mod flip: take_bit_eq_mask)
      (simp add: unat_mod unat_div drop_bit_eq_div)
  moreover have "n mod 256 + 256 * (n div 256 mod 256) = n mod 65536" for n :: nat
    using mod_mult2_eq [of n 256 256] by simp
  ultimately show ?thesis by simp
qed

text \<open>
  \<open>timer_init\<close> registers the handler on line 0 and programs channel 0 as a rate generator: the two
  bytes it sends are the low and the high byte of the clock rate divided by the frequency,
  100 for a frequency of 0. Only the low 16 bits of the divisor arrive, so that the frequency
  is right from 19 Hz to the clock rate.
\<close>

theorem timer_init_programs:
  "\<exists>lo hi. outs (io_trace (timer_init f t)) = outs (io_trace t) @ [(PIT_CMD, 0x36), (PIT_CH0, lo), (PIT_CH0, hi)] \<and>
    irq_handlers (timer_init f t) = (irq_handlers t)(0 \<mapsto> Timer_irq_handler) \<and>
    unat lo + 256 * unat hi = 1193182 div unat (if f = 0 then 100 else f) mod 65536 \<and>
    (19 \<le> f \<longrightarrow> unat lo + 256 * unat hi = 1193182 div unat f)"
proof -
  define g where "g = (if f = 0 then TICK_HZ else f)"
  define d where "d = (1193182 :: u32) div g"
  have d: "unat d = 1193182 div unat g" by (simp add: d_def unat_div)
  let ?lo = "ucast (d AND 0xFF) :: u8" and ?hi = "ucast (drop_bit 8 d AND 0xFF) :: u8"
  have "outs (io_trace (timer_init f t)) = outs (io_trace t) @ [(PIT_CMD, 0x36), (PIT_CH0, ?lo), (PIT_CH0, ?hi)]"
    by (simp add: timer_init_def Let_def io_outb_def idt_register_handler_def flip: g_def d_def)
  moreover have "irq_handlers (timer_init f t) = (irq_handlers t)(0 \<mapsto> Timer_irq_handler)"
    by (simp add: timer_init_def Let_def io_outb_def idt_register_handler_def)
  moreover have sum: "unat ?lo + 256 * unat ?hi = 1193182 div unat (if f = 0 then 100 else f) mod 65536"
    unfolding byte_pair d by (simp add: g_def)
  moreover have "1193182 div unat f mod 65536 = 1193182 div unat f" "f \<noteq> 0" if "19 \<le> f"
  proof -
    have "19 \<le> unat f" using that by (simp add: word_le_nat_alt)
    then have "1193182 div unat f \<le> 1193182 div 19" by (intro div_le_mono2) simp_all
    then show "1193182 div unat f mod 65536 = 1193182 div unat f" by simp
    show "f \<noteq> 0" using \<open>19 \<le> unat f\<close> by auto
  qed
  ultimately show ?thesis by (intro exI [of _ ?lo] exI [of _ ?hi]) auto
qed

theorem timer_init_programs_witness:
  "\<forall>t :: timer. \<exists>lo hi. outs (io_trace (timer_init 100 t)) =
     outs (io_trace t) @ [(PIT_CMD, 0x36), (PIT_CH0, lo), (PIT_CH0, hi)] \<and> unat lo + 256 * unat hi = 11931"
proof
  fix t :: timer
  show "\<exists>lo hi. outs (io_trace (timer_init 100 t)) =
     outs (io_trace t) @ [(PIT_CMD, 0x36), (PIT_CH0, lo), (PIT_CH0, hi)] \<and> unat lo + 256 * unat hi = 11931"
    using timer_init_programs [of 100 t] by (auto simp: unat_numeral)
qed

section \<open>Preemption\<close>

text \<open>A run of timer interrupts, with code of the processes between them.\<close>

inductive timer_run :: "'a timer_scheme \<times> 'b procs_scheme \<Rightarrow> nat \<Rightarrow> 'a timer_scheme \<times> 'b procs_scheme \<Rightarrow> bool" for c where
  start: "timer_run c 0 c"
| tick: "timer_run c n (t, p) \<Longrightarrow> timer_run c (Suc n) (timer_irq_handler (t, p\<lparr>stack := m, cpu := r\<rparr>))"

lemma timer_run_ticks: "timer_run c n c' \<Longrightarrow> tick_count (fst c') = tick_count (fst c) + of_nat n"
proof (induction rule: timer_run.induct)
  case (tick n t p r m)
  then show ?case by (simp add: timer_irq_handler_def Let_def log_event_def)
qed simp

lemma timer_run_schedules:
  assumes "timer_run (t\<^sub>0, p\<^sub>0) n c" and "unat (tick_count t\<^sub>0) + n < 2 ^ 32"
  shows "\<exists>q m r. sched_run p\<^sub>0 ((unat (tick_count t\<^sub>0) + n) div 10 - unat (tick_count t\<^sub>0) div 10) q \<and> snd c = q\<lparr>stack := m, cpu := r\<rparr>"
  using assms
proof (induction rule: timer_run.induct)
  case start
  show ?case by (intro exI [of _ p\<^sub>0] exI [of _ "stack p\<^sub>0"] exI [of _ "cpu p\<^sub>0"]) (simp add: sched_run.start)
next
  case (tick n t p r m)
  let ?a = "unat (tick_count t\<^sub>0)"
  obtain q m' r' where q: "sched_run p\<^sub>0 ((?a + n) div 10 - ?a div 10) q" "p = q\<lparr>stack := m', cpu := r'\<rparr>"
    using tick.IH tick.prems by auto
  have "tick_count t + 1 = tick_count t\<^sub>0 + of_nat (Suc n)" using timer_run_ticks [OF tick.hyps] by simp
  then have cnt: "unat (tick_count t + 1) = ?a + Suc n"
    using tick.prems by (simp add: unat_word_ariths unat_of_nat)
  show ?case
  proof (cases "(?a + Suc n) mod 10 = 0")
    case True
    then have "tick_count t + 1 = 0 \<or> (tick_count t + 1) mod 10 = 0" using cnt by (simp add: word_unat_eq_iff unat_mod)
    then have z: "(tick_count t + 1) mod 10 = 0" by auto
    have "(?a + Suc n) div 10 = Suc ((?a + n) div 10)" using True by (simp add: div_Suc)
    moreover have "?a div 10 \<le> (?a + n) div 10" by (simp add: div_le_mono)
    ultimately have "(?a + Suc n) div 10 - ?a div 10 = Suc ((?a + n) div 10 - ?a div 10)" by (simp add: Suc_diff_le)
    then have "sched_run p\<^sub>0 ((?a + Suc n) div 10 - ?a div 10) (scheduler_schedule (q\<lparr>stack := m, cpu := r\<rparr>))"
      using sched_run.step [OF q(1)] by simp
    moreover have "snd (timer_irq_handler (t, p\<lparr>stack := m, cpu := r\<rparr>)) = scheduler_schedule (q\<lparr>stack := m, cpu := r\<rparr>)"
      using z q(2) by (simp add: timer_irq_handler_def Let_def log_event_def)
    moreover have "u = u\<lparr>stack := stack u, cpu := cpu u\<rparr>" for u :: "'b procs_scheme" by simp
    ultimately show ?thesis by metis
  next
    case False
    then have "(tick_count t + 1) mod 10 \<noteq> 0" using cnt by (simp add: word_unat_eq_iff unat_mod)
    then have "snd (timer_irq_handler (t, p\<lparr>stack := m, cpu := r\<rparr>)) = q\<lparr>stack := m, cpu := r\<rparr>"
      using q(2) by (simp add: timer_irq_handler_def Let_def log_event_def)
    moreover have "(?a + Suc n) div 10 = (?a + n) div 10" using False by (simp add: div_Suc)
    ultimately show ?thesis using q(1) by auto
  qed
qed


text \<open>
  C30. Preemptive rotation: with a process running and at least two in the ready queue, after \<open>n\<close> timer
  interrupts since a multiple of ten the processor has changed hands \<open>n div 10\<close> times, in turn
  between these three processes, as long as the 32-bit tick counter does not wrap.
\<close>

theorem timer_preempts:
  assumes rot: "rotating A H X p\<^sub>0" and run: "timer_run (t\<^sub>0, p\<^sub>0) n (t, p)"
    and ticks: "unat (tick_count t\<^sub>0) mod 10 = 0" "unat (tick_count t\<^sub>0) + n < 2 ^ 32"
  shows "unat (tick_count t) = unat (tick_count t\<^sub>0) + n \<and> current_process p = Some ([A, H, X] ! (n div 10 mod 3))"
proof -
  have "(unat (tick_count t\<^sub>0) + n) div 10 - unat (tick_count t\<^sub>0) div 10 = n div 10"
    using div_plus_div_distrib_dvd_left [of 10 "unat (tick_count t\<^sub>0)" n] ticks(1) by (simp add: mod_eq_0_iff_dvd)
  then obtain q m r where q: "sched_run p\<^sub>0 (n div 10) q" "p = q\<lparr>stack := m, cpu := r\<rparr>"
    using timer_run_schedules [OF run ticks(2)] by auto
  have "current_process q = Some ([A, H, X] ! (n div 10 mod 3))"
    using rotating_run [OF rot q(1)] by (simp add: rotating_def)
  moreover have "unat (tick_count t) = unat (tick_count t\<^sub>0) + n"
    using timer_run_ticks [OF run] ticks(2) by (simp add: unat_word_ariths unat_of_nat)
  ultimately show ?thesis using q(2) by simp
qed

lemma timer_run_exists: "\<exists>t p. timer_run c n (t, p)"
proof (induction n)
  case 0
  then show ?case using timer_run.start by (metis surj_pair)
next
  case (Suc n)
  then show ?case using timer_run.tick by (metis surj_pair)
qed

definition timer_example :: timer where
  "timer_example = \<lparr>klog = [], io_trace = [], idt_entries = (\<lambda>_. idt_gate 0 0 0), irq_handlers = (\<lambda>_. None),
     idtr = None, gdt_entries = (\<lambda>_. \<lparr>limit_low = 0, gbase_low = 0, base_middle = 0, access = 0, granularity = 0, gbase_high = 0\<rparr>),
     gdtr = None, data_segs = 0, code_seg = 0, vga_buffer = (\<lambda>_. 0), graphics_mode_active = False, tick_count = 0\<rparr>"

theorem timer_preempts_witness:
  "\<exists>t p. timer_run (timer_example, four_processes) 25 (t, p) \<and> tick_count t = 25 \<and> current_process p = Some 3"
proof -
  obtain t p where run: "timer_run (timer_example, four_processes) 25 (t, p)" using timer_run_exists by blast
  from timer_preempts [OF four_rotating run] have "unat (tick_count t) = 25" "current_process p = Some 3"
    by (simp_all add: timer_example_def)
  then show ?thesis using run by (auto simp: word_unat_eq_iff)
qed

section \<open>Sleeping\<close>

lemma sleep_loop_ends:
  assumes "\<forall>j. k \<le> j \<and> j < n \<longrightarrow> ticks j < target" and "\<not> ticks n < target" and "k \<le> n"
  shows "sleep_loop ticks target k = Some n"
  using assms
proof (induction "n - k" arbitrary: k)
  case 0
  then show ?case by (subst sleep_loop.simps) simp
next
  case (Suc d)
  then have "k < n" by simp
  then have "sleep_loop ticks target k = sleep_loop ticks target (Suc k)"
    using Suc.prems(1) by (subst sleep_loop.simps) simp
  then show ?case using Suc.hyps(1) [of "Suc k"] Suc.hyps(2) Suc.prems \<open>k < n\<close> by simp
qed

text \<open>
  \<open>timer_sleep ms\<close> returns as soon as it sees \<open>ms div 1000 + 1\<close> ticks passed since its first
  read of the counter. At the 100 ticks per second of the kernel this is about a hundredth of the
  \<open>ms\<close> milliseconds the header promises.
\<close>

theorem timer_sleep_returns:
  assumes "unat (ticks 0) + unat ms div 1000 + 1 < 2 ^ 32"
    and "\<forall>j. 1 \<le> j \<and> j < n \<longrightarrow> unat (ticks j) < unat (ticks 0) + unat ms div 1000 + 1"
    and "unat (ticks 0) + unat ms div 1000 + 1 \<le> unat (ticks n)" and "1 \<le> n"
  shows "timer_sleep ms ticks = Some n"
proof -
  have "unat (sleep_target ms (ticks 0)) = unat (ticks 0) + unat ms div 1000 + 1"
    using assms(1) by (simp add: sleep_target_def unat_word_ariths unat_div)
  then show ?thesis
    using sleep_loop_ends [of 1 n ticks "sleep_target ms (ticks 0)"] assms(2-4)
    by (simp add: timer_sleep_def word_less_nat_alt)
qed

theorem timer_sleep_returns_witness: "timer_sleep 5000 (\<lambda>k. of_nat k) = Some 6"
proof (rule timer_sleep_returns)
  show "\<forall>j. 1 \<le> j \<and> j < 6 \<longrightarrow> unat (of_nat j :: u32) < unat (of_nat 0 :: u32) + unat (5000 :: u32) div 1000 + 1"
    by (auto simp: unat_of_nat)
qed (simp_all add: unat_of_nat)

end
