(* ===== verification/Boot.thy ===== *)
theory Boot
  imports Shell Timer
begin

text \<open>
  The start of the kernel in \<open>kernel.c\<close>: \<open>kernel_init\<close> and the part of \<open>kernel_main\<close> before its loop, which
  initialise the components one after the other and bring what they print to the console.
\<close>

section \<open>The machine\<close>

text \<open>
  The shell's state, the counter of the timer and the process table. The heap belongs to the file system's record;
  \<open>on_heap_of\<close> lends it to the processes. What the linker and the compiler fill in is a record of parameters: the
  end of the kernel, the addresses of the two tables and of the interrupt stubs, and the date and time of the build.
\<close>

record machine = shell +
  ticks :: u32
  process_table :: procs

record link_info =
  kernel_end :: u32
  gdt_address :: u32
  idt_address :: u32
  isr_stub :: "nat \<Rightarrow> u32"
  irq_stub :: "nat \<Rightarrow> u32"
  build_stamp :: string

text \<open>The fields of \<open>multiboot_info_t\<close> that are read here; \<open>None\<close> is a null pointer.\<close>

record boot_info =
  mb_info_flags :: u32
  mem_lower :: u32
  mem_upper :: u32
  cmdline :: "string option"
  boot_loader_name :: "string option"

definition on_timer :: "(timer \<Rightarrow> timer) \<Rightarrow> 'a machine_scheme \<Rightarrow> 'a machine_scheme" where
  "on_timer f m =
     (let t = f (interrupts.extend (interrupts.truncate m) (timer.fields (ticks m)))
      in (interrupts.extend (interrupts.truncate t) (interrupts.more m))\<lparr>ticks := tick_count t\<rparr>)"

definition on_heap_of :: "'b kheap_scheme \<Rightarrow> 'a kheap_scheme \<Rightarrow> 'a kheap_scheme" where
  "on_heap_of h s = kheap.extend (kheap.truncate h) (kheap.more s)"

text \<open>What the components on the heap printed.\<close>

definition flush_fs :: "'a shell_scheme \<Rightarrow> 'a shell_scheme option" where
  "flush_fs s = show_events (klog (fsys s)) (s\<lparr>fsys := (fsys s)\<lparr>klog := []\<rparr>\<rparr>)"

section \<open>\<open>kernel_init\<close>\<close>

definition loading_step :: "string \<Rightarrow> int \<Rightarrow> 'a shell_scheme \<Rightarrow> (int \<times> 'a shell_scheme) option" where
  "loading_step component load_frame s =
     (case loading_tick_inline component load_frame s of Inl e \<Rightarrow> None | Inr r \<Rightarrow> Some r)"

definition kernel_init :: "device \<Rightarrow> link_info \<Rightarrow> 'a machine_scheme \<Rightarrow> 'a machine_scheme option" where
  "kernel_init hw lk m =
     do {
       let m = vga_clear m;
       let m = io_outb 0x3D4 0x0A m;
       let m = io_outb 0x3D5 0x20 m;
       m \<leftarrow> kprint (KERNEL_VERSION_STRING @ ''\<newline>'') [] m;
       m \<leftarrow> kprint (''Built: '' @ build_stamp lk @ ''\<newline>\<newline>'') [] m;
       (load_frame, m) \<leftarrow> loading_step ''GDT'' 0 m;
       let m = gdt_init (gdt_address lk) m;
       (load_frame, m) \<leftarrow> loading_step ''IDT/PIC'' load_frame m;
       let m = idt_init (idt_address lk) m;
       (load_frame, m) \<leftarrow> loading_step ''ISRs'' load_frame m;
       let m = isr_install_all (isr_stub lk) (irq_stub lk) m;
       (load_frame, m) \<leftarrow> loading_step ''PIT Timer'' load_frame m;
       let m = on_timer (timer_init 100) m;
       (load_frame, m) \<leftarrow> loading_step ''PS/2 Keyboard'' load_frame m;
       flush_log (keyboard_init hw m)
     }"

section \<open>\<open>kernel_main\<close> up to its loop\<close>

definition boot_memory :: "link_info \<Rightarrow> boot_info \<Rightarrow> 'a machine_scheme \<Rightarrow> 'a machine_scheme option" where
  "boot_memory lk mbd m =
     do {
       m \<leftarrow> flush_fs (m\<lparr>fsys := memory_init (kernel_end lk) (mem_lower mbd) (mem_upper mbd) (fsys m)\<rparr>);
       kprint ''  [OK]\<newline>\<newline>'' [] m
     }"

definition boot_fs :: "'a machine_scheme \<Rightarrow> 'a machine_scheme option" where
  "boot_fs m =
     do {
       m \<leftarrow> kprint ''Initializing filesystem...\<newline>'' [] m;
       f \<leftarrow> fs_init (fsys m);
       m \<leftarrow> flush_fs (m\<lparr>fsys := f\<rparr>);
       kprint ''  [OK] OKFS ready\<newline>\<newline>'' [] m
     }"

definition boot_processes :: "'a machine_scheme \<Rightarrow> 'a machine_scheme option" where
  "boot_processes m =
     do {
       m \<leftarrow> kprint ''Initializing process management...\<newline>'' [] m;
       p \<leftarrow> (case process_init (on_heap_of (fsys m) (process_table m)) of Inl e \<Rightarrow> None | Inr p \<Rightarrow> Some p);
       m \<leftarrow> flush_fs (m\<lparr>process_table := p, fsys := on_heap_of p (fsys m)\<rparr>);
       kprint ''  [OK]\<newline>\<newline>'' [] m
     }"

text \<open>\<open>eflags\<close> are the flags of the processor apart from the interrupt flag, bit 9.\<close>

definition asm_get_eflags :: "u32 \<Rightarrow> 'a machine_scheme \<Rightarrow> u32" where
  "asm_get_eflags eflags m = (if interrupts_on m then eflags OR 0x200 else eflags AND NOT 0x200)"

text \<open>
  Up to the first prompt. An interrupt that comes after \<open>enable_interrupts\<close> and before the loop is not part of this
  function. A magic number of another loader stops the processor.
\<close>

definition kernel_boot :: "device \<Rightarrow> link_info \<Rightarrow> u32 \<Rightarrow> u32 \<Rightarrow> boot_info \<Rightarrow> 'a machine_scheme \<Rightarrow> 'a machine_scheme option" where
  "kernel_boot hw lk eflags magic mbd m =
     (if magic \<noteq> 0x2BADB002 then Some (m\<lparr>halted := True\<rparr>)
      else do {
        m \<leftarrow> kernel_init hw lk m;
        let m = (if mb_info_flags mbd AND 4 \<noteq> 0 then keyboard_detect_layout (cmdline mbd) m else m);
        m \<leftarrow> boot_memory lk mbd m;
        m \<leftarrow> boot_fs m;
        let m = m\<lparr>interrupts_on := True\<rparr>;
        m \<leftarrow> boot_processes m;
        m \<leftarrow> (if asm_get_eflags eflags m AND 0x200 \<noteq> 0
             then kprint ''  [OK] System Ready (EFLAGS: 0x%x)\<newline>\<newline>'' [KHex (asm_get_eflags eflags m)] m
             else kprint ''  [FAIL] Interrupts did not enable!\<newline>\<newline>'' [] m);
        start_command_line magic (mb_info_flags mbd) (mem_lower mbd) (mem_upper mbd) (boot_loader_name mbd) m
      })"

definition show_text_home_screen :: "string \<Rightarrow> 'a shell_scheme \<Rightarrow> 'a shell_scheme option" where
  "show_text_home_screen stamp s =
     do {
       s \<leftarrow> kprint (KERNEL_VERSION_STRING @ ''\<newline>'') [] (vga_clear s);
       s \<leftarrow> kprint (''Built: '' @ stamp @ ''\<newline>\<newline>'') [] s;
       s \<leftarrow> kprint ''=== System Ready ===\<newline>'' [] s;
       kprint ''Press Ctrl+T to toggle graphics test mode.\<newline>'' [] s
     }"

end
