(* ===== verification/Okfs_Buf.thy ===== *)
theory Okfs_Buf
  imports Okfs
begin

text \<open>
  Buffers of the file system and the editor: copying bytes, growing the capacity, and the
  replacement of a buffer by a larger one in the kernel heap. The lemmas here rest on the
  interface \<open>heap_allocator\<close> of the heap only.
\<close>

section \<open>Copying bytes\<close>

definition region :: "u32 \<Rightarrow> nat \<Rightarrow> u32 set" where
  "region p n = {a. unat p \<le> unat a \<and> unat a < unat p + n}"

lemma region_empty [simp]: "region p 0 = {}"
  by (simp add: region_def)

lemma region_mono: "m \<le> n \<Longrightarrow> region p m \<subseteq> region p n"
  by (auto simp: region_def)

lemma region_offset: "i < n \<Longrightarrow> unat p + n \<le> 2 ^ 32 \<Longrightarrow> p + of_nat i \<in> region p n"
  by (simp add: region_def unat_add_small)

lemma region_disjointI:
  "unat p + m \<le> unat q \<or> unat q + n \<le> unat p \<Longrightarrow> region p m \<inter> region q n = {}"
  by (auto simp: region_def)

definition src_bytes :: "cbuf \<Rightarrow> u32 \<Rightarrow> 'a okfs_scheme \<Rightarrow> string" where
  "src_bytes src n s = map (\<lambda>i. buf_byte src i s) [0..<unat n]"

lemma buf_bytes_src: "buf_bytes p n s = src_bytes (Mem p) n s"
  by (simp add: buf_bytes_def src_bytes_def buf_byte_def)

lemma length_src_bytes [simp]: "length (src_bytes src n s) = unat n"
  by (simp add: src_bytes_def)

lemma src_bytes_Str: "length cs < 2 ^ 32 \<Longrightarrow> src_bytes (Str cs) (of_nat (length cs)) s = cs"
  by (rule nth_equalityI) (simp_all add: src_bytes_def buf_byte_def)

text \<open>The bytes a copy reads do not overlap the bytes it writes.\<close>

definition src_apart :: "cbuf \<Rightarrow> nat \<Rightarrow> u32 set \<Rightarrow> bool" where
  "src_apart src n R = (case src of Str _ \<Rightarrow> True
     | Mem p \<Rightarrow> unat p + n \<le> 2 ^ 32 \<and> region p n \<inter> R = {})"

lemma src_apart_Str [simp]: "src_apart (Str cs) n R"
  by (simp add: src_apart_def)

lemma src_bytes_cong:
  assumes "src_apart src (unat n) R" and "\<And>a. a \<notin> R \<Longrightarrow> ram s' a = ram s a"
  shows "src_bytes src n s' = src_bytes src n s"
proof -
  have "buf_byte src i s' = buf_byte src i s" if "i < unat n" for i
    using assms that region_offset [OF that] by (cases src) (auto simp: src_apart_def buf_byte_def)
  then show ?thesis by (simp add: src_bytes_def)
qed

definition ram_put :: "u32 \<Rightarrow> string \<Rightarrow> 'a okfs_scheme \<Rightarrow> 'a okfs_scheme" where
  "ram_put p cs s = s\<lparr>ram := (\<lambda>a. if a \<in> region p (length cs) then cs ! (unat a - unat p) else ram s a)\<rparr>"

lemma copy_bytes_put:
  assumes "unat dst + unat len \<le> 2 ^ 32" and "src_apart src (unat len) (region dst (unat len))"
  shows "copy_bytes dst src len s = ram_put dst (src_bytes src len s) s"
proof -
  define put where "put n = ram_put dst (map (\<lambda>i. buf_byte src i s) [0..<n]) s" for n
  have "for_loop 0 n (\<lambda>i s. write_byte (dst + of_nat i) (buf_byte src i s) s) s = put n"
    if "n \<le> unat len" for n
    using that
  proof (induction n)
    case 0
    show ?case by (simp add: put_def ram_put_def)
  next
    case (Suc n)
    have n: "unat (dst + of_nat n) = unat dst + n"
      using Suc.prems assms(1) by (simp add: unat_add_small)
    have off: "a = dst + of_nat n \<longleftrightarrow> unat a = unat dst + n" for a
      using n by (metis word_unat_eq_iff)
    have "buf_byte src n (put n) = buf_byte src n s"
    proof (cases src)
      case (Mem p)
      have "p + of_nat n \<in> region p (unat len)"
        using Suc.prems assms(2) Mem by (intro region_offset) (auto simp: src_apart_def)
      then have "p + of_nat n \<notin> region dst n"
        using assms(2) Mem Suc.prems region_mono [of n "unat len" dst] by (auto simp: src_apart_def)
      then show ?thesis using Mem by (simp add: put_def ram_put_def buf_byte_def)
    qed (simp add: buf_byte_def)
    moreover have "write_byte (dst + of_nat n) (buf_byte src n s) (put n) = put (Suc n)"
    proof -
      have upd: "(ram (put n))(dst + of_nat n := buf_byte src n s) = ram (put (Suc n))"
        by (auto simp: put_def ram_put_def region_def off nth_append fun_eq_iff)
      have "write_byte (dst + of_nat n) (buf_byte src n s) (put n) =
          s\<lparr>ram := (ram (put n))(dst + of_nat n := buf_byte src n s)\<rparr>"
        by (simp add: write_byte_def put_def ram_put_def)
      also have "\<dots> = put (Suc n)" unfolding upd by (simp add: put_def ram_put_def)
      finally show ?thesis .
    qed
    ultimately show ?case using Suc by (simp add: for_loop_Suc)
  qed
  then show ?thesis by (simp add: copy_bytes_def put_def src_bytes_def)
qed

lemma ram_put_outside [simp]: "a \<notin> region p (length cs) \<Longrightarrow> ram (ram_put p cs s) a = ram s a"
  by (simp add: ram_put_def)

lemma ram_put_fields [simp]:
  "nodes (ram_put p cs s) = nodes s" "cwd (ram_put p cs s) = cwd s" "cwd_path (ram_put p cs s) = cwd_path s"
  "emitted (ram_put p cs s) = emitted s" "heap_wf (ram_put p cs s) = heap_wf s"
  "live (ram_put p cs s) = live s" "edit_buf (ram_put p cs s) = edit_buf s"
  "edit_len (ram_put p cs s) = edit_len s" "edit_cap (ram_put p cs s) = edit_cap s"
  "edit_active (ram_put p cs s) = edit_active s"
  "edit_path (ram_put p cs s) = edit_path s"
  by (simp_all add: ram_put_def heap_wf_def live_def heap_blocks_def)

lemma buf_bytes_put:
  assumes "unat p + length cs \<le> 2 ^ 32" and "unat n = length cs"
  shows "buf_bytes p n (ram_put p cs s) = cs"
proof (rule nth_equalityI)
  show "length (buf_bytes p n (ram_put p cs s)) = length cs" using assms(2) by (simp add: buf_bytes_def)
  fix i assume "i < length (buf_bytes p n (ram_put p cs s))"
  then have i: "i < length cs" using assms(2) by (simp add: buf_bytes_def)
  then have "p + of_nat i \<in> region p (length cs)" and "unat (p + of_nat i) = unat p + i"
    using assms(1) region_offset unat_add_small [of p "of_nat i"] by (auto simp: region_offset)
  then show "buf_bytes p n (ram_put p cs s) ! i = cs ! i"
    using i assms(2) by (simp add: buf_bytes_def ram_put_def)
qed

text \<open>Writing behind the first \<open>n\<close> bytes appends to them.\<close>

lemma buf_bytes_append:
  assumes "unat p + unat n + length cs \<le> 2 ^ 32" and "unat m = unat n + length cs"
  shows "buf_bytes p m (ram_put (p + n) cs s) = buf_bytes p n s @ cs"
proof (rule nth_equalityI)
  show "length (buf_bytes p m (ram_put (p + n) cs s)) = length (buf_bytes p n s @ cs)"
    using assms(2) by (simp add: buf_bytes_def)
  fix i assume "i < length (buf_bytes p m (ram_put (p + n) cs s))"
  then have i: "i < unat n + length cs" using assms(2) by (simp add: buf_bytes_def)
  have pi: "unat (p + of_nat i) = unat p + i" using i assms(1) by (simp add: unat_add_small)
  show "buf_bytes p m (ram_put (p + n) cs s) ! i = (buf_bytes p n s @ cs) ! i"
  proof (cases "cs = []")
    case True
    then show ?thesis using assms(2) i by (simp add: buf_bytes_def ram_put_def)
  next
    case False
    then have pn: "unat (p + n) = unat p + unat n" using assms(1) by (intro unat_add_small) (cases cs; simp)
    show ?thesis
      using i assms(2) by (auto simp: buf_bytes_def ram_put_def region_def pi pn nth_append)
  qed
qed

lemma buf_bytes_outside:
  assumes "region p (unat n) \<inter> R = {}" and "unat p + unat n \<le> 2 ^ 32"
    and "\<And>a. a \<notin> R \<Longrightarrow> ram s' a = ram s a"
  shows "buf_bytes p n s' = buf_bytes p n s"
  unfolding buf_bytes_src
  by (rule src_bytes_cong [where R = R]) (use assms in \<open>auto simp: src_apart_def\<close>)

section \<open>Growing a buffer\<close>

lemma grow_cap_returns:
  assumes "0 < unat c" and "unat c \<le> 65536" and "unat need \<le> 65536"
  obtains c' where "grow_cap c need = Some c'" and "unat need \<le> unat c'" and "unat c \<le> unat c'"
proof -
  have "\<exists>c'. grow_cap c need = Some c' \<and> unat need \<le> unat c' \<and> unat c \<le> unat c'"
    using assms
  proof (induction "65536 - unat c" arbitrary: c rule: less_induct)
    case less
    show ?case
    proof (cases "c < need")
      case True
      then have "unat c < unat need" by (simp add: unat_less_iff)
      moreover have dbl: "unat (c * 2) = unat c * 2" using less.prems by (simp add: unat_mult_small)
      ultimately show ?thesis
      proof (cases "unat c * 2 \<le> 65536")
        case True
        then have "\<exists>c'. grow_cap (c * 2) need = Some c' \<and> unat need \<le> unat c' \<and> unat (c * 2) \<le> unat c'"
          using less.hyps [of "c * 2"] less.prems dbl \<open>unat c < unat need\<close> by simp
        then show ?thesis
          using \<open>c < need\<close> dbl by (auto simp: grow_cap.simps [of c])
      next
        case False
        then have "\<not> c * 2 < need" using dbl less.prems(3) by (simp add: unat_less_iff)
        then have "grow_cap (c * 2) need = Some (c * 2)" by (simp add: grow_cap.simps [of "c * 2"])
        then show ?thesis
          using \<open>c < need\<close> dbl False less.prems(3) by (auto simp: grow_cap.simps [of c])
      qed
    next
      case False
      then show ?thesis by (auto simp: grow_cap.simps [of c] unat_less_iff)
    qed
  qed
  then show thesis using that by blast
qed

text \<open>
  The capacity both the file system and the editor ask for: at least what is needed, never
  more than the largest file.
\<close>

lemma new_capacity:
  assumes "unat c \<le> 65536" and "unat need \<le> 65536"
  obtains c' where "grow_cap (if c \<noteq> 0 then c else 256) need = Some c'"
    and "unat need \<le> unat (if FS_MAX_FILE_SIZE < c' then FS_MAX_FILE_SIZE else c')"
    and "0 < unat (if FS_MAX_FILE_SIZE < c' then FS_MAX_FILE_SIZE else c')"
    and "unat (if FS_MAX_FILE_SIZE < c' then FS_MAX_FILE_SIZE else c') \<le> 65536"
proof -
  define c0 where "c0 = (if c \<noteq> 0 then c else 256)"
  have "0 < unat c0" "unat c0 \<le> 65536"
    using assms(1) by (auto simp: c0_def unat_gt_0)
  then obtain c' where "grow_cap c0 need = Some c'" "unat need \<le> unat c'" "unat c0 \<le> unat c'"
    using grow_cap_returns assms(2) by blast
  with \<open>0 < unat c0\<close> assms(2) that [of c'] show thesis
    by (auto simp: c0_def unat_less_iff split: if_splits)
qed

section \<open>Buffers in the heap\<close>

lemma kmalloc_okfs:
  assumes "kmalloc n s = Some (p, s')"
  obtains h l where "s' = s\<lparr>heap_mem := h, klog := l\<rparr>"
proof -
  consider "s' = s" | e where "s' = log_event e s" | h where "s' = s\<lparr>heap_mem := h\<rparr>"
    using assms by (auto simp: kmalloc_def Let_def split: if_splits option.splits)
  then show thesis
  proof cases
    case 1
    then show thesis using that [where h = "heap_mem s" and l = "klog s"] by simp
  next
    case 2
    then show thesis using that [where h = "heap_mem s" and l = "klog s @ [e]"] by (simp add: log_event_def)
  next
    case 3
    then show thesis using that [where h = h and l = "klog s"] by simp
  qed
qed

definition kfree_heap :: "u32 \<Rightarrow> (u32 \<Rightarrow> heap_block) \<Rightarrow> (u32 \<Rightarrow> heap_block)" where
  "kfree_heap p h = (if p = 0 then h
     else merge_next (p - HDR) (h(p - HDR := (h (p - HDR))\<lparr>hb_free := True\<rparr>)))"

lemma kfree_okfs: "kfree p s = s\<lparr>heap_mem := kfree_heap p (heap_mem s)\<rparr>"
proof (cases "p = 0")
  case False
  then show ?thesis by (simp only: kfree_def kfree_heap_def Let_def if_False)
qed (simp add: kfree_def kfree_heap_def)

lemma kfree_ram_put [simp]: "kfree p (ram_put q cs s) = ram_put q cs (kfree p s)"
  by (simp add: kfree_okfs ram_put_def cong: if_cong)

text \<open>A buffer: its pointer, the bytes in use and its capacity.\<close>

definition buf_ok :: "'a okfs_scheme \<Rightarrow> u32 \<Rightarrow> u32 \<Rightarrow> u32 \<Rightarrow> bool" where
  "buf_ok s p n c \<longleftrightarrow>
     (if p = 0 then n = 0 \<and> c = 0
      else \<exists>m. live s p = Some m \<and> unat c \<le> m \<and> unat n \<le> unat c \<and> 0 < unat c \<and> unat c \<le> 65536)"

lemma buf_ok_cap: "buf_ok s p n c \<Longrightarrow> unat c \<le> 65536 \<and> unat n \<le> unat c"
  by (auto simp: buf_ok_def split: if_splits)

lemma buf_ok_live: "buf_ok s p n c \<Longrightarrow> p = 0 \<or> live s p \<noteq> None"
  by (auto simp: buf_ok_def split: if_splits)

lemma live_region_bound: "heap_wf s \<Longrightarrow> live s p = Some m \<Longrightarrow> unat p + m \<le> 2 ^ 32"
  using live_region(2) by fastforce

lemma live_regions_apart:
  assumes "heap_wf s" "live s p = Some m" "live s q = Some k" "p \<noteq> q"
  shows "region p m \<inter> region q k = {}"
  by (rule region_disjointI) (rule kh.regions_disjoint [OF assms])

text \<open>
  Where a copy may read from when the buffer \<open>avoid\<close> is written or released: a string
  outside the heap, or part of another allocated region.
\<close>

definition src_ok :: "'a okfs_scheme \<Rightarrow> u32 \<Rightarrow> cbuf \<Rightarrow> u32 \<Rightarrow> bool" where
  "src_ok s avoid src len = (case src of Str _ \<Rightarrow> True
     | Mem p \<Rightarrow> unat p + unat len \<le> 2 ^ 32 \<and>
         (\<exists>b m. live s b = Some m \<and> b \<noteq> avoid \<and> region p (unat len) \<subseteq> region b m))"

lemma src_ok_Str [simp]: "src_ok s avoid (Str cs) len"
  by (simp add: src_ok_def)

lemma src_ok_apart:
  assumes "heap_wf s" and "src_ok s q src len" and "live s q = Some m" and "R \<subseteq> region q m"
  shows "src_apart src (unat len) R"
  using assms live_regions_apart [OF assms(1) assms(3)]
  by (cases src) (fastforce simp: src_ok_def src_apart_def)+

text \<open>
  Allocating a new buffer, copying the bytes in use when the code does so, and releasing the
  old one.
\<close>

lemma replace_buf:
  fixes keep :: bool
  assumes wf: "heap_wf s" and old: "buf_ok s p n c" and alloc: "kmalloc k s = Some (q, s1)"
    and q: "q \<noteq> 0" and k: "unat n \<le> unat k" "0 < unat k" "unat k \<le> 65536"
  defines "s2 \<equiv> if keep then copy_bytes q (Mem p) n s1 else s1"
  defines "s3 \<equiv> if p \<noteq> 0 then kfree p s2 else s2"
  obtains m where "heap_wf s3" and "unat k \<le> m" and "live s q = None" and "q \<noteq> p"
    and "live s3 = (live s)(p := None, q \<mapsto> m)"
    and "\<And>a. a \<notin> region q m \<Longrightarrow> ram s3 a = ram s a"
    and "keep \<Longrightarrow> p \<noteq> 0 \<Longrightarrow> buf_bytes q n s3 = buf_bytes p n s"
    and "\<exists>h l r. s3 = s\<lparr>heap_mem := h, klog := l, ram := r\<rparr>"
proof -
  obtain h l where s1: "s1 = s\<lparr>heap_mem := h, klog := l\<rparr>" using kmalloc_okfs [OF alloc] .
  have s3': "s3 = kfree p s2" using kh.release_null [of s2] by (simp add: s3_def)
  have p: "p = 0 \<or> live s p \<noteq> None" using buf_ok_live [OF old] .
  have k': "unat k \<le> 0xFFFFFFF0" using k(3) by simp
  obtain m where rb: "unat k \<le> m" "heap_wf (kfree p s1)" "live (kfree p s1) = (live s)(p := None, q \<mapsto> m)"
      "q \<noteq> p"
    using kh.replace_buffer [OF wf alloc q k' p] .
  have new: "live s q = None" "heap_wf s1" using kh.alloc_new [OF wf alloc q k'] kh.alloc_ok [OF wf alloc] by auto
  obtain m0 where s1_live: "live s1 = (live s)(q \<mapsto> m0)" using kh.alloc_new [OF wf alloc q k'] by auto
  have m': "live s1 q = Some m"
  proof (cases "p = 0")
    case True
    then show ?thesis using rb(3) kh.release_null [of s1] by simp
  next
    case False
    then have "live s1 p \<noteq> None" using p s1_live by auto
    then have "live (kfree p s1) q = live s1 q" using kh.release_regions [OF new(2)] rb(4) by simp
    then show ?thesis using rb(3) by simp
  qed
  have small: "unat q + m \<le> 2 ^ 32" using live_region_bound [OF new(2) m'] .
  have n0: "p = 0 \<Longrightarrow> n = 0" using old by (simp add: buf_ok_def)
  have apart: "src_apart (Mem p) (unat n) (region q m)"
  proof (cases "p = 0")
    case True
    then show ?thesis using n0 by (simp add: src_apart_def)
  next
    case False
    then obtain mp where mp: "live s p = Some mp" "unat n \<le> mp" using old by (auto simp: buf_ok_def)
    then have "live s1 p = Some mp"
      using kh.alloc_new [OF wf alloc q k'] rb(4) by auto
    then have "region p mp \<inter> region q m = {}" "unat p + mp \<le> 2 ^ 32"
      using live_regions_apart [OF new(2)] m' rb(4) live_region_bound [OF new(2)] by blast+
    then show ?thesis using mp(2) region_mono [of "unat n" mp p] by (auto simp: src_apart_def)
  qed
  have sub: "region q (unat n) \<subseteq> region q m" using k(1) rb(1) by (intro region_mono) simp
  have copy: "copy_bytes q (Mem p) n s1 = ram_put q (buf_bytes p n s) s1"
  proof -
    have "src_apart (Mem p) (unat n) (region q (unat n))" using apart sub by (auto simp: src_apart_def)
    then have "copy_bytes q (Mem p) n s1 = ram_put q (src_bytes (Mem p) n s1) s1"
      using small k(1) rb(1) by (intro copy_bytes_put) auto
    then show ?thesis by (simp add: buf_bytes_src src_bytes_def buf_byte_def s1)
  qed
  define h' where "h' = kfree_heap p h"
  have fr: "kfree p s1 = s\<lparr>heap_mem := h', klog := l\<rparr>" by (simp add: s1 kfree_okfs h'_def)
  have s3: "s3 = (if keep then ram_put q (buf_bytes p n s) (kfree p s1) else kfree p s1)"
    by (simp add: s3' s2_def copy)
  show thesis
  proof (rule that [OF _ rb(1) new(1) rb(4)])
    show "heap_wf s3" "live s3 = (live s)(p := None, q \<mapsto> m)" using rb by (simp_all add: s3)
    have "length (buf_bytes p n s) = unat n" by (simp add: buf_bytes_def)
    then show "ram s3 a = ram s a" if "a \<notin> region q m" for a
      using that sub by (auto simp: s3 fr ram_put_def)
    show "buf_bytes q n s3 = buf_bytes p n s" if "keep" "p \<noteq> 0"
      using that small k(1) rb(1)
      by (simp add: s3) (rule buf_bytes_put; simp add: buf_bytes_def)
    have "s3 = s\<lparr>heap_mem := h', klog := l, ram := ram s3\<rparr>"
      by (cases keep) (simp_all add: s3 fr ram_put_def)
    then show "\<exists>h l r. s3 = s\<lparr>heap_mem := h, klog := l, ram := r\<rparr>" by blast
  qed
qed

end
