(* ===== verification/Okfs_Inv.thy ===== *)
theory Okfs_Inv
  imports Okfs_Buf
begin

text \<open>
  The invariant of the file system: the nodes form a tree with unique valid names, every
  file owns at most one buffer of the heap and the editor another, all distinct and large
  enough, and the working directory is a directory. Every operation of \<open>fs.c\<close> keeps it and
  leaves the heap regions of other components alone.
\<close>

section \<open>The owners of buffers\<close>

text \<open>Owner \<open>-1\<close> is the editor, owners 0 to 127 are the nodes.\<close>

definition buf_ptr :: "'a okfs_scheme \<Rightarrow> int \<Rightarrow> u32" where
  "buf_ptr s i = (if i = -1 then edit_buf s else data (nodes s i))"

definition buf_len :: "'a okfs_scheme \<Rightarrow> int \<Rightarrow> u32" where
  "buf_len s i = (if i = -1 then edit_len s else fsize (nodes s i))"

definition buf_cap :: "'a okfs_scheme \<Rightarrow> int \<Rightarrow> u32" where
  "buf_cap s i = (if i = -1 then edit_cap s else cap (nodes s i))"

definition content :: "'a okfs_scheme \<Rightarrow> int \<Rightarrow> string" where
  "content s i = buf_bytes (buf_ptr s i) (buf_len s i) s"

definition bufs_wf :: "'a okfs_scheme \<Rightarrow> bool" where
  "bufs_wf s \<longleftrightarrow> heap_wf s \<and>
     (\<forall>i \<in> {-1..<128}. buf_ok s (buf_ptr s i) (buf_len s i) (buf_cap s i)) \<and>
     (\<forall>i \<in> {-1..<128}. \<forall>j \<in> {-1..<128}. i \<noteq> j \<and> buf_ptr s i \<noteq> 0 \<longrightarrow> buf_ptr s i \<noteq> buf_ptr s j)"

text \<open>
  A step that replaces buffer \<open>p\<close> by \<open>q\<close> (or writes into it): every other allocated region
  stays allocated and keeps its bytes.
\<close>

definition buf_step :: "u32 \<Rightarrow> u32 \<Rightarrow> 'a okfs_scheme \<Rightarrow> 'a okfs_scheme \<Rightarrow> bool" where
  "buf_step p q s s' \<longleftrightarrow> heap_wf s' \<and> (q = p \<or> live s q = None) \<and>
     (\<forall>b m. b \<noteq> p \<and> live s b = Some m \<longrightarrow>
        live s' b = Some m \<and> (\<forall>a \<in> region b m. ram s' a = ram s a))"

lemma buf_stepD:
  assumes "buf_step p q s s'" and "b \<noteq> p" and "live s b = Some m"
  shows "live s' b = Some m" and "\<And>a. a \<in> region b m \<Longrightarrow> ram s' a = ram s a"
  using assms by (auto simp: buf_step_def)

lemma buf_step_refl: "heap_wf s \<Longrightarrow> buf_step p p s s"
  by (simp add: buf_step_def)

lemma buf_step_trans:
  assumes "buf_step p q s t" and "buf_step q r t u"
  shows "buf_step p r s u"
proof -
  have new: "live s r = None" if "r \<noteq> p"
  proof (rule ccontr)
    assume "live s r \<noteq> None"
    with that assms(1) have "live t r \<noteq> None" by (auto simp: buf_step_def)
    with assms have "r = q" by (auto simp: buf_step_def)
    with assms(1) that \<open>live s r \<noteq> None\<close> show False by (simp add: buf_step_def)
  qed
  have keep: "live u b = Some m \<and> (\<forall>a \<in> region b m. ram u a = ram s a)"
    if "b \<noteq> p" "live s b = Some m" for b m
  proof -
    have "b \<noteq> q" using that assms(1) by (auto simp: buf_step_def)
    then show ?thesis using buf_stepD [OF assms(1) that] buf_stepD [OF assms(2)] by simp
  qed
  show ?thesis
    unfolding buf_step_def
  proof (intro conjI allI impI)
    show "heap_wf u" using assms(2) by (simp add: buf_step_def)
    show "r = p \<or> live s r = None" using new by (cases "r = p") simp_all
    fix b m assume "b \<noteq> p \<and> live s b = Some m"
    then show "live u b = Some m" "\<forall>a \<in> region b m. ram u a = ram s a" using keep [of b m] by simp_all
  qed
qed

lemma buf_ok_bytes:
  assumes "heap_wf s" and "buf_ok s p n c" and "buf_step q r s s'" and "p \<noteq> q"
  shows "buf_ok s' p n c" and "buf_bytes p n s' = buf_bytes p n s"
proof -
  show "buf_ok s' p n c" using assms by (auto simp: buf_ok_def buf_step_def split: if_splits)
  show "buf_bytes p n s' = buf_bytes p n s"
  proof (cases "p = 0")
    case True
    then show ?thesis using assms(2) by (simp add: buf_ok_def buf_bytes_def)
  next
    case False
    then obtain m where m: "live s p = Some m" "unat n \<le> m" using assms(2) by (auto simp: buf_ok_def)
    have "unat p + unat n \<le> 2 ^ 32" using live_region_bound [OF assms(1) m(1)] m(2) by simp
    then show ?thesis
      using buf_stepD(2) [OF assms(3,4) m(1)] region_mono [OF m(2), of p]
      by (intro buf_bytes_outside [where R = "- region p m"]) auto
  qed
qed

lemma bufs_wfD:
  assumes "bufs_wf s" and "i \<in> {-1..<128}"
  shows "buf_ok s (buf_ptr s i) (buf_len s i) (buf_cap s i)"
    and "\<And>j. j \<in> {-1..<128} \<Longrightarrow> j \<noteq> i \<Longrightarrow> buf_ptr s i \<noteq> 0 \<Longrightarrow> buf_ptr s j \<noteq> buf_ptr s i"
  using assms unfolding bufs_wf_def by (blast, metis)

text \<open>One owner changes its buffer: the others keep theirs, with the same contents.\<close>

lemma bufs_wf_step:
  assumes wf: "bufs_wf s" and k: "k \<in> {-1..<128}"
    and step: "buf_step (buf_ptr s k) (buf_ptr s' k) s s'"
    and own: "buf_ok s' (buf_ptr s' k) (buf_len s' k) (buf_cap s' k)"
    and others: "\<And>i. i \<in> {-1..<128} \<Longrightarrow> i \<noteq> k \<Longrightarrow>
      buf_ptr s' i = buf_ptr s i \<and> buf_len s' i = buf_len s i \<and> buf_cap s' i = buf_cap s i"
  shows "bufs_wf s'" and "\<And>i. i \<in> {-1..<128} \<Longrightarrow> i \<noteq> k \<Longrightarrow> content s' i = content s i"
proof -
  have hw: "heap_wf s" using wf by (simp add: bufs_wf_def)
  have apart: "buf_ptr s i \<noteq> buf_ptr s k \<or> buf_ptr s i = 0" if "i \<in> {-1..<128}" "i \<noteq> k" for i
    using bufs_wfD(2) [OF wf that(1) k] that by metis
  have keep: "buf_ok s' (buf_ptr s i) (buf_len s i) (buf_cap s i) \<and>
      buf_bytes (buf_ptr s i) (buf_len s i) s' = buf_bytes (buf_ptr s i) (buf_len s i) s"
    if i: "i \<in> {-1..<128}" "i \<noteq> k" for i
  proof (cases "buf_ptr s i = 0")
    case True
    then show ?thesis using bufs_wfD(1) [OF wf i(1)] by (simp add: buf_ok_def buf_bytes_def)
  next
    case False
    then show ?thesis using buf_ok_bytes [OF hw bufs_wfD(1) [OF wf i(1)] step] apart [OF i] by auto
  qed
  then show "content s' i = content s i" if "i \<in> {-1..<128}" "i \<noteq> k" for i
    using that others by (simp add: content_def)
  have new: "buf_ptr s i \<noteq> buf_ptr s' k \<or> buf_ptr s i = 0" if i: "i \<in> {-1..<128}" "i \<noteq> k" for i
  proof (cases "buf_ptr s i = 0")
    case False
    then have "live s (buf_ptr s i) \<noteq> None" using bufs_wfD(1) [OF wf i(1)] by (auto simp: buf_ok_def)
    then show ?thesis using step apart [OF i] by (auto simp: buf_step_def)
  qed simp
  show "bufs_wf s'"
    unfolding bufs_wf_def
  proof (intro conjI ballI impI)
    show "heap_wf s'" using step by (simp add: buf_step_def)
    show "buf_ok s' (buf_ptr s' i) (buf_len s' i) (buf_cap s' i)" if "i \<in> {-1..<128}" for i
      using own keep [OF that] others [OF that] by (cases "i = k") auto
    show "buf_ptr s' i \<noteq> buf_ptr s' j"
      if "i \<in> {-1..<128}" "j \<in> {-1..<128}" "i \<noteq> j \<and> buf_ptr s' i \<noteq> 0" for i j
      using that new others bufs_wfD(2) [OF wf, of i j] by (cases "i = k"; cases "j = k") metis+
  qed
qed

section \<open>Growing the buffer of an owner\<close>

lemma grow_step:
  fixes keep :: bool
  assumes wf: "heap_wf s" and old: "buf_ok s p n c" and alloc: "kmalloc k s = Some (q, s1)"
    and q: "q \<noteq> 0" and k: "unat n \<le> unat k" "0 < unat k" "unat k \<le> 65536"
  defines "s2 \<equiv> if keep then copy_bytes q (Mem p) n s1 else s1"
  defines "s3 \<equiv> if p \<noteq> 0 then kfree p s2 else s2"
  shows "buf_step p q s s3" and "buf_ok s3 q n k" and "live s q = None"
    and "keep \<or> n = 0 \<Longrightarrow> buf_bytes q n s3 = buf_bytes p n s"
    and "\<exists>h l r. s3 = s\<lparr>heap_mem := h, klog := l, ram := r\<rparr>"
proof -
  obtain m where rb: "heap_wf s3" "unat k \<le> m" "live s q = None" "q \<noteq> p"
      "live s3 = (live s)(p := None, q \<mapsto> m)" "\<And>a. a \<notin> region q m \<Longrightarrow> ram s3 a = ram s a"
      "keep \<Longrightarrow> p \<noteq> 0 \<Longrightarrow> buf_bytes q n s3 = buf_bytes p n s"
      "\<exists>h l r. s3 = s\<lparr>heap_mem := h, klog := l, ram := r\<rparr>"
    using replace_buf [OF wf old alloc q k, of keep, folded s2_def, folded s3_def] by metis
  have "region b mb \<inter> region q m = {}" if "live s b = Some mb" "b \<noteq> p" for b mb
  proof -
    have "live s3 b = Some mb" "live s3 q = Some m" "b \<noteq> q" using that rb(3,5) by auto
    then show ?thesis using live_regions_apart [OF rb(1)] by blast
  qed
  then show "buf_step p q s s3"
    unfolding buf_step_def using rb by auto
  show "buf_ok s3 q n k" using q k rb(2,5) by (simp add: buf_ok_def)
  show "live s q = None" by (fact rb)
  show "buf_bytes q n s3 = buf_bytes p n s" if "keep \<or> n = 0"
    using that rb(7) old by (cases "p = 0") (auto simp: buf_ok_def buf_bytes_def)
  show "\<exists>h l r. s3 = s\<lparr>heap_mem := h, klog := l, ram := r\<rparr>" by (fact rb)
qed

text \<open>Writing into a buffer that is large enough.\<close>

lemma put_step:
  assumes wf: "heap_wf s" and m: "live s p = Some m" and sub: "region d (length cs) \<subseteq> region p m"
  shows "buf_step p p s (ram_put d cs s)"
  using live_regions_apart [OF wf m] wf sub
  by (auto simp: buf_step_def intro!: ram_put_outside)

lemma copy_bytes_0 [simp]: "copy_bytes dst src 0 s = s"
  by (simp add: copy_bytes_def)

lemma copy_bytes_nodes [simp]: "nodes (copy_bytes dst src len s) = nodes s"
  unfolding copy_bytes_def by (rule for_loop_preserves) (simp add: write_byte_def)

lemma buf_ok_shrink: "buf_ok s p n c \<Longrightarrow> unat k \<le> unat n \<Longrightarrow> buf_ok s p k c"
  by (auto simp: buf_ok_def unat_eq_0 split: if_splits)

lemma put_buf:
  assumes wf: "heap_wf s" and ok: "buf_ok s p n c" and room: "unat n + unat len \<le> unat c"
    and src: "src_ok s p src len"
  defines "s' \<equiv> copy_bytes (p + n) src len s"
  shows "buf_step p p s s'" and "buf_ok s' p (n + len) c"
    and "buf_bytes p (n + len) s' = buf_bytes p n s @ src_bytes src len s"
    and "\<exists>r. s' = s\<lparr>ram := r\<rparr>"
proof -
  have nl: "unat (n + len) = unat n + unat len"
    using room unat_u32_bound [of c] by (intro unat_add_small) simp
  consider "p = 0" "len = 0" "n = 0" | m where "p \<noteq> 0" "live s p = Some m" "unat c \<le> m" "unat c \<le> 65536" "0 < unat c"
    using ok room by (auto simp: buf_ok_def unat_eq_0 split: if_splits)
  then have "buf_step p p s s' \<and> buf_ok s' p (n + len) c \<and>
      buf_bytes p (n + len) s' = buf_bytes p n s @ src_bytes src len s \<and> (\<exists>r. s' = s\<lparr>ram := r\<rparr>)"
  proof cases
    case 1
    then have "s' = s\<lparr>ram := ram s\<rparr>" by (simp add: s'_def)
    then have "\<exists>r. s' = s\<lparr>ram := r\<rparr>" by blast
    with 1 show ?thesis
      using buf_step_refl [OF wf] ok by (simp add: s'_def buf_bytes_def src_bytes_def)
  next
    case (2 m)
    have b: "unat p + m \<le> 2 ^ 32" using live_region_bound [OF wf 2(2)] .
    show ?thesis
    proof (cases "len = 0")
      case True
      then have "s' = s\<lparr>ram := ram s\<rparr>" by (simp add: s'_def)
      then have "\<exists>r. s' = s\<lparr>ram := r\<rparr>" by blast
      with True show ?thesis using buf_step_refl [OF wf] ok by (simp add: s'_def src_bytes_def)
    next
      case False
      then have len: "0 < unat len" by (simp add: unat_gt_0)
      have pn: "unat (p + n) = unat p + unat n" using b 2(3) room len by (intro unat_add_small) simp
      have sub: "region (p + n) (unat len) \<subseteq> region p m" using pn room 2(3) by (auto simp: region_def)
      have put: "s' = ram_put (p + n) (src_bytes src len s) s"
        unfolding s'_def using b room 2(3) pn src_ok_apart [OF wf src 2(2) sub]
        by (intro copy_bytes_put) auto
      have "buf_step p p s s'" unfolding put by (rule put_step [OF wf 2(2)]) (simp add: sub)
      moreover have "buf_bytes p (n + len) s' = buf_bytes p n s @ src_bytes src len s"
        unfolding put by (rule buf_bytes_append) (use b room 2(3) nl in auto)
      moreover have "buf_ok s' p (n + len) c" using 2 nl room by (simp add: buf_ok_def put)
      ultimately show ?thesis by (auto simp: put ram_put_def)
    qed
  qed
  then show "buf_step p p s s'" and "buf_ok s' p (n + len) c"
    and "buf_bytes p (n + len) s' = buf_bytes p n s @ src_bytes src len s"
    and "\<exists>r. s' = s\<lparr>ram := r\<rparr>"
    by blast+
qed

lemma src_ok_step:
  assumes wf: "heap_wf s" and src: "src_ok s p src len" and step: "buf_step p q s s'"
  shows "src_ok s' q src len" and "src_bytes src len s' = src_bytes src len s"
proof -
  have *: "src_ok s' q (Mem a) len \<and> src_bytes (Mem a) len s' = src_bytes (Mem a) len s"
    if a: "src = Mem a" for a
  proof -
    obtain b m where b: "live s b = Some m" "b \<noteq> p" "region a (unat len) \<subseteq> region b m"
        "unat a + unat len \<le> 2 ^ 32"
      using src a by (auto simp: src_ok_def)
    then have "b \<noteq> q" "live s' b = Some m" using step by (auto simp: buf_step_def)
    moreover have "src_bytes (Mem a) len s' = src_bytes (Mem a) len s"
      using buf_stepD(2) [OF step b(2,1)] b(3,4)
      by (intro src_bytes_cong [where R = "- region b m"]) (auto simp: src_apart_def)
    ultimately show ?thesis using b by (auto simp: src_ok_def)
  qed
  show "src_ok s' q src len" using * by (cases src) auto
  show "src_bytes src len s' = src_bytes src len s"
    using * by (cases src) (auto simp: src_bytes_def buf_byte_def)
qed

section \<open>Writing a file\<close>

lemma kmalloc_null_same:
  assumes "heap_wf s" and "kmalloc k s = Some (0, s')"
  shows "heap_wf s'" and "live s' = live s" and "\<exists>h l. s' = s\<lparr>heap_mem := h, klog := l\<rparr>"
  using kh.alloc_ok [OF assms] kh.alloc_null [OF assms] kmalloc_okfs [OF assms(2)] by (simp, simp, metis)

lemma fs_grow_data_effect:
  fixes s :: "'a okfs_scheme"
  assumes wf: "bufs_wf s" and fid: "fid \<in> {0..<128}" and need: "unat need \<le> 65536"
  defines "n \<equiv> nodes s fid"
  obtains (fail) s' where "fs_grow_data fid need appending s = Some (False, s')" and "heap_wf s'"
      and "live s' = live s" and "\<exists>h l. s' = s\<lparr>heap_mem := h, klog := l\<rparr>" and "cap n < need"
  | (ok) s' q c where "fs_grow_data fid need appending s = Some (True, s')"
      and "buf_step (data n) q s s'" and "unat need \<le> unat c" and "buf_ok s' q (fsize n) c"
      and "appending \<Longrightarrow> buf_bytes q (fsize n) s' = buf_bytes (data n) (fsize n) s"
      and "\<exists>h l r. s' = s\<lparr>heap_mem := h, klog := l, ram := r, nodes := (nodes s)(fid := n\<lparr>data := q, cap := c\<rparr>)\<rparr>"
proof -
  have hw: "heap_wf s" using wf by (simp add: bufs_wf_def)
  have bo: "buf_ok s (data n) (fsize n) (cap n)"
    using bufs_wfD(1) [OF wf, of fid] fid by (simp add: n_def buf_ptr_def buf_len_def buf_cap_def)
  show thesis
  proof (cases "cap n < need")
    case False
    have "\<exists>h l r. s = s\<lparr>heap_mem := h, klog := l, ram := r, nodes := (nodes s)(fid := n\<lparr>data := data n, cap := cap n\<rparr>)\<rparr>"
      by (intro exI [of _ "heap_mem s"] exI [of _ "klog s"] exI [of _ "ram s"]) (simp add: n_def)
    with False show thesis
      using ok [of s "data n" "cap n"] buf_step_refl [OF hw] bo
      by (simp add: fs_grow_data_def n_def unat_less_iff)
  next
    case True
    define ic where "ic = (if cap n \<noteq> 0 then cap n else 256)"
    have "unat (cap n) \<le> 65536" using buf_ok_cap [OF bo] by simp
    then obtain c0 where c0: "grow_cap ic need = Some c0"
        "unat need \<le> unat (if FS_MAX_FILE_SIZE < c0 then FS_MAX_FILE_SIZE else c0)"
        "0 < unat (if FS_MAX_FILE_SIZE < c0 then FS_MAX_FILE_SIZE else c0)"
        "unat (if FS_MAX_FILE_SIZE < c0 then FS_MAX_FILE_SIZE else c0) \<le> 65536"
      unfolding ic_def using new_capacity need by metis
    define k where "k = (if FS_MAX_FILE_SIZE < c0 then FS_MAX_FILE_SIZE else c0)"
    obtain q s1 where al: "kmalloc k s = Some (q, s1)" using kh.alloc_returns [OF hw] by blast
    obtain h l where s1: "s1 = s\<lparr>heap_mem := h, klog := l\<rparr>" using kmalloc_okfs [OF al] .
    then have n1: "nodes s1 = nodes s" by simp
    show thesis
    proof (cases "q = 0")
      case q: True
      have "fs_grow_data fid need appending s = Some (False, s1)"
        unfolding fs_grow_data_def n_def [symmetric] ic_def [symmetric]
        using True q al by (simp add: c0(1) Let_def flip: k_def)
      then show thesis using fail [of s1] kmalloc_null_same [OF hw, of k s1] al q True by simp
    next
      case q: False
      define keep where "keep \<longleftrightarrow> appending \<and> data n \<noteq> 0 \<and> 0 < fsize n"
      define s2 where "s2 = (if keep then copy_bytes q (Mem (data n)) (fsize n) s1 else s1)"
      define s3 where "s3 = (if data n \<noteq> 0 then kfree (data n) s2 else s2)"
      have sz: "unat (fsize n) \<le> unat k" using buf_ok_cap [OF bo] True c0(2) by (simp add: k_def unat_less_iff)
      note gs = grow_step(1,2,4,5) [OF hw bo al q sz c0(3,4) [folded k_def], of keep, folded s2_def, folded s3_def]
      obtain h' l' r' where s3: "s3 = s\<lparr>heap_mem := h', klog := l', ram := r'\<rparr>" using gs(4) by blast
      have call: "fs_grow_data fid need appending s =
          Some (True, node_upd fid (\<lambda>n. n\<lparr>data := q, cap := k\<rparr>) s3)"
        unfolding fs_grow_data_def n_def [symmetric] ic_def [symmetric]
        using True q al by (simp add: c0(1) Let_def n1 s3_def s2_def keep_def flip: k_def n_def)
      have upd: "node_upd fid (\<lambda>n. n\<lparr>data := q, cap := k\<rparr>) s3 =
          s\<lparr>heap_mem := h', klog := l', ram := r', nodes := (nodes s)(fid := n\<lparr>data := q, cap := k\<rparr>)\<rparr>"
        by (simp add: node_upd_def s3 n_def)
      have same: "ram (node_upd fid f s3) = ram s3" "live (node_upd fid f s3) = live s3" "heap_wf (node_upd fid f s3) = heap_wf s3" for f
        by (simp_all add: node_upd_def live_def heap_wf_def heap_blocks_def)
      have "buf_step (data n) q s (node_upd fid (\<lambda>n. n\<lparr>data := q, cap := k\<rparr>) s3)"
        using gs(1) by (simp add: buf_step_def same)
      moreover have "buf_ok (node_upd fid (\<lambda>n. n\<lparr>data := q, cap := k\<rparr>) s3) q (fsize n) k"
        using gs(2) by (simp add: buf_ok_def same)
      moreover have "appending \<Longrightarrow> buf_bytes q (fsize n) (node_upd fid (\<lambda>n. n\<lparr>data := q, cap := k\<rparr>) s3)
          = buf_bytes (data n) (fsize n) s"
        using gs(3) bo by (cases "data n = 0")
          (auto simp: keep_def buf_bytes_def same buf_ok_def unat_gt_0 word_gt_0)
      ultimately show thesis using ok [OF call] c0(2) upd unfolding k_def [symmetric] by blast
    qed
  qed
qed

lemma heap_upd_same:
  assumes "s' = s\<lparr>heap_mem := h, klog := l\<rparr>" and "live s' = live s"
  shows "buf_ok s' p n c = buf_ok s p n c" and "buf_bytes p n s' = buf_bytes p n s"
    and "buf_ptr s' = buf_ptr s" and "buf_len s' = buf_len s" and "buf_cap s' = buf_cap s"
proof -
  show "buf_ok s' p n c = buf_ok s p n c" using assms(2) by (simp add: buf_ok_def)
  show "buf_bytes p n s' = buf_bytes p n s" by (simp add: assms(1) buf_bytes_def)
  show "buf_ptr s' = buf_ptr s" "buf_len s' = buf_len s" "buf_cap s' = buf_cap s"
    by (simp_all add: assms(1) buf_ptr_def buf_len_def buf_cap_def fun_eq_iff)
qed

lemma bufs_wf_same:
  assumes "bufs_wf s" and "heap_wf s'" and "live s' = live s" and "s' = s\<lparr>heap_mem := h, klog := l\<rparr>"
  shows "bufs_wf s'" and "content s' i = content s i"
  using assms(1,2) heap_upd_same [OF assms(4,3)] by (auto simp: bufs_wf_def content_def)

lemma fs_set_file_data_effect:
  fixes s :: "'a okfs_scheme" and appending :: bool
  assumes wf: "bufs_wf s" and fid: "fid \<in> {0..<128}"
    and src: "src_ok s (data (nodes s fid)) src len"
  defines "n \<equiv> nodes s fid"
  defines "old \<equiv> if appending then content s fid else []"
  obtains (fail) s' where "fs_set_file_data fid src len appending s = Some (FS_ERR_NO_SPACE, s')"
      and "bufs_wf s'" and "live s' = live s" and "\<And>i. content s' i = content s i"
      and "\<exists>h l. s' = s\<lparr>heap_mem := h, klog := l\<rparr>"
      and "65536 < length old + unat len \<or> cap n < of_nat (length old + unat len)"
  | (ok) s' q c where "fs_set_file_data fid src len appending s = Some (FS_OK, s')"
      and "bufs_wf s'" and "length old + unat len \<le> 65536"
      and "content s' fid = old @ src_bytes src len s"
      and "\<And>i. i \<in> {-1..<128} \<Longrightarrow> i \<noteq> fid \<Longrightarrow> content s' i = content s i"
      and "buf_step (data n) q s s'"
      and "\<exists>h l r. s' = s\<lparr>heap_mem := h, klog := l, ram := r,
             nodes := (nodes s)(fid := n\<lparr>data := q, cap := c, fsize := of_nat (length old + unat len)\<rparr>)\<rparr>"
proof -
  have hw: "heap_wf s" using wf by (simp add: bufs_wf_def)
  have own: "buf_ptr s fid = data n" "buf_len s fid = fsize n" "buf_cap s fid = cap n"
    using fid by (simp_all add: buf_ptr_def buf_len_def buf_cap_def n_def)
  have bo: "buf_ok s (data n) (fsize n) (cap n)"
    using bufs_wfD(1) [OF wf, of fid] fid by (simp add: own)
  have lo: "length old = (if appending then unat (fsize n) else 0)"
    by (simp add: old_def content_def buf_bytes_def own)
  have so: "unat (fsize n) \<le> 65536" using buf_ok_cap [OF bo] by simp
  define new where "new = (if appending then fsize n + len else len)"
  have s_same: "\<exists>h l. s = s\<lparr>heap_mem := h, klog := l\<rparr>"
    by (intro exI [of _ "heap_mem s"] exI [of _ "klog s"]) simp
  show thesis
  proof (cases "FS_MAX_FILE_SIZE < len \<or> FS_MAX_FILE_SIZE < new")
    case True
    then have "65536 < length old + unat len"
    proof (cases "FS_MAX_FILE_SIZE < len")
      case True
      then show ?thesis by (simp add: unat_less_iff)
    next
      case False
      then show ?thesis using True so lo by (auto simp: new_def unat_less_iff unat_add_small split: if_splits)
    qed
    moreover have "fs_set_file_data fid src len appending s = Some (FS_ERR_NO_SPACE, s)"
      using True by (auto simp: fs_set_file_data_def new_def n_def Let_def)
    ultimately show thesis using fail [of s] wf s_same by simp
  next
    case False
    then have len: "unat len \<le> 65536" "unat new \<le> 65536" by (auto simp: unat_less_iff)
    have un: "unat new = length old + unat len"
      using len(1) so by (simp add: new_def lo unat_add_small)
    have new': "new = of_nat (length old + unat len)"
      using un len(2) by (metis unat_of_nat_small word_unat_eq_iff le_less_trans less_numeral_extra(1)
          numeral_less_iff of_nat_unat ucast_id)
    have call: "fs_set_file_data fid src len appending s =
        Option.bind (fs_grow_data fid new appending s) (\<lambda>(ok, s).
          if \<not> ok then Some (FS_ERR_NO_SPACE, s)
          else let d = data (nodes s fid) + (if appending then fsize (nodes s fid) else 0)
               in Some (FS_OK, node_upd fid (\<lambda>n. n\<lparr>fsize := new\<rparr>) (copy_bytes d src len s)))"
      using False unfolding fs_set_file_data_def new_def n_def
      by (cases appending) (simp_all add: Let_def cong: if_cong)
    from wf fid len(2) show thesis
    proof (cases rule: fs_grow_data_effect [where appending = appending])
      case (fail s')
      then obtain h l where s': "s' = s\<lparr>heap_mem := h, klog := l\<rparr>" by blast
      show thesis
        using that(1) [of s'] fail bufs_wf_same [OF wf fail(2,3) s'] call new' s' by (simp add: n_def)
    next
      case (ok t q c)
      note ok = ok [folded n_def]
      obtain h l r where t: "t = s\<lparr>heap_mem := h, klog := l, ram := r,
          nodes := (nodes s)(fid := n\<lparr>data := q, cap := c\<rparr>)\<rparr>" using ok(6) by blast
      have hwt: "heap_wf t" using ok(2) by (simp add: buf_step_def)
      have nt: "data (nodes t fid) = q" "fsize (nodes t fid) = fsize n" by (simp_all add: t)
      define off where "off = (if appending then fsize n else 0)"
      have offl: "unat off = length old" "off + len = new" by (simp_all add: off_def lo new_def)
      have bt: "buf_ok t q off c" using buf_ok_shrink [OF ok(4), of off] by (simp add: off_def)
      have st: "src_ok t q src len" "src_bytes src len t = src_bytes src len s"
        using src_ok_step [OF hw _ ok(2)] src by (simp_all add: n_def)
      define u where "u = copy_bytes (q + off) src len t"
      have room: "unat off + unat len \<le> unat c" using ok(3) un offl(1) by simp
      note pb = put_buf [OF hwt bt room st(1), folded u_def, unfolded offl(2)]
      obtain r' where u: "u = t\<lparr>ram := r'\<rparr>" using pb(4) by blast
      define s' where "s' = node_upd fid (\<lambda>n. n\<lparr>fsize := new\<rparr>) u"
      have s'_eq: "s' = s\<lparr>heap_mem := h, klog := l, ram := r',
          nodes := (nodes s)(fid := n\<lparr>data := q, cap := c, fsize := new\<rparr>)\<rparr>"
        by (simp add: s'_def node_upd_def u t)
      have same: "ram s' = ram u" "live s' = live u" "heap_wf s' = heap_wf u"
        by (simp_all add: s'_def node_upd_def live_def heap_wf_def heap_blocks_def)
      have r: "fs_set_file_data fid src len appending s = Some (FS_OK, s')"
        using ok(1) by (simp add: call Let_def s'_def u_def nt off_def)
      have step: "buf_step (data n) q s s'"
        using buf_step_trans [OF ok(2) pb(1)] by (simp add: buf_step_def same)
      have own': "buf_ptr s' fid = q" "buf_len s' fid = new" "buf_cap s' fid = c"
        using fid by (simp_all add: buf_ptr_def buf_len_def buf_cap_def s'_eq)
      have bo': "buf_ok s' q new c" using pb(2) by (simp add: buf_ok_def same)
      have bytes: "buf_bytes q new s' = old @ src_bytes src len s"
      proof -
        have "buf_bytes q off t = old"
          using ok(5) by (simp add: off_def old_def content_def own) (simp add: buf_bytes_def)
        then show ?thesis using pb(3) st(2) by (simp add: buf_bytes_def same)
      qed
      have others: "buf_ptr s' i = buf_ptr s i \<and> buf_len s' i = buf_len s i \<and> buf_cap s' i = buf_cap s i"
        if "i \<noteq> fid" for i
        using that by (simp add: buf_ptr_def buf_len_def buf_cap_def s'_eq)
      have k: "fid \<in> {-1..<128}" using fid by simp
      note bw = bufs_wf_step [OF wf k step [folded own own'] bo' [folded own'] others]
      show thesis
        by (rule that(2) [OF r bw(1)])
          (use bytes bw(2) step s'_eq un len(2) new' own' in \<open>auto simp: content_def\<close>)
    qed
  qed
qed

end
