(* ===== verification/Okfs_Tree.thy ===== *)
theory Okfs_Tree
  imports Okfs_Inv
begin

text \<open>
  The nodes of the file system as a tree: well-formedness, the node an absolute list of names
  leads to, and the effect on it of adding and removing a leaf.
\<close>

section \<open>Strings\<close>

lemma fs_streq_iff [simp]: "fs_streq a b \<longleftrightarrow> a = b"
  by (induction a b rule: fs_streq.induct) auto

section \<open>Well-formed trees\<close>

definition tree_wf :: "(int \<Rightarrow> fs_node_t) \<Rightarrow> bool" where
  "tree_wf nd \<longleftrightarrow>
     used (nd 0) \<and> ftype (nd 0) = FS_TYPE_DIR \<and> parent (nd 0) = -1 \<and>
     (\<forall>i \<in> {1..<128}. used (nd i) \<longrightarrow>
        fs_is_valid_name (name (nd i)) \<and> length (name (nd i)) < FS_MAX_NAME \<and>
        (ftype (nd i) = FS_TYPE_FILE \<longrightarrow> fs_ends_with_txt (name (nd i))) \<and>
        parent (nd i) \<in> {0..<128} \<and> used (nd (parent (nd i))) \<and>
        ftype (nd (parent (nd i))) = FS_TYPE_DIR) \<and>
     (\<forall>i \<in> {1..<128}. \<forall>j \<in> {1..<128}. used (nd i) \<and> used (nd j) \<and>
        parent (nd i) = parent (nd j) \<and> name (nd i) = name (nd j) \<longrightarrow> i = j) \<and>
     (\<exists>depth :: int \<Rightarrow> nat. depth 0 = 0 \<and>
        (\<forall>i \<in> {1..<128}. used (nd i) \<longrightarrow> depth i = Suc (depth (parent (nd i)))))"

lemma tree_wf_root: "tree_wf nd \<Longrightarrow> used (nd 0) \<and> ftype (nd 0) = FS_TYPE_DIR \<and> parent (nd 0) = -1"
  by (simp add: tree_wf_def)

lemma tree_wf_node:
  assumes "tree_wf nd" and "i \<in> {1..<128}" and "used (nd i)"
  shows "fs_is_valid_name (name (nd i))" and "length (name (nd i)) < FS_MAX_NAME"
    and "ftype (nd i) = FS_TYPE_FILE \<Longrightarrow> fs_ends_with_txt (name (nd i))"
    and "parent (nd i) \<in> {0..<128}" and "used (nd (parent (nd i)))"
    and "ftype (nd (parent (nd i))) = FS_TYPE_DIR"
  using assms unfolding tree_wf_def by blast+

lemma tree_wf_unique:
  assumes "tree_wf nd" and "i \<in> {1..<128}" "used (nd i)" and "j \<in> {1..<128}" "used (nd j)"
    and "parent (nd i) = parent (nd j)" "name (nd i) = name (nd j)"
  shows "i = j"
  using assms unfolding tree_wf_def by blast

lemma tree_wf_depth:
  assumes "tree_wf nd"
  obtains depth :: "int \<Rightarrow> nat" where "depth 0 = 0"
    and "\<And>i. i \<in> {1..<128} \<Longrightarrow> used (nd i) \<Longrightarrow> depth i = Suc (depth (parent (nd i)))"
  using assms unfolding tree_wf_def by blast

definition is_child :: "(int \<Rightarrow> fs_node_t) \<Rightarrow> int \<Rightarrow> string \<Rightarrow> int \<Rightarrow> bool" where
  "is_child nd p nm i \<longleftrightarrow> i \<in> {1..<128} \<and> used (nd i) \<and> parent (nd i) = p \<and> name (nd i) = nm"

lemma is_child_unique: "tree_wf nd \<Longrightarrow> is_child nd p nm i \<Longrightarrow> is_child nd p nm j \<Longrightarrow> i = j"
  unfolding is_child_def by (metis tree_wf_unique)

lemma fs_find_child_none: "fs_find_child p nm s = -1 \<longleftrightarrow> (\<forall>i. \<not> is_child (nodes s) p nm i)"
proof -
  have "(\<exists>i. is_child (nodes s) p nm i) \<longleftrightarrow>
      (\<exists>k. 1 \<le> k \<and> k < 128 \<and> is_child (nodes s) p nm (int k))"
  proof
    assume "\<exists>i. is_child (nodes s) p nm i"
    then obtain i where "is_child (nodes s) p nm i" by blast
    then show "\<exists>k. 1 \<le> k \<and> k < 128 \<and> is_child (nodes s) p nm (int k)"
      by (intro exI [of _ "nat i"]) (auto simp: is_child_def)
  qed blast
  then show ?thesis
    by (auto simp: fs_find_child_def is_child_def scan_None_iff dest: scan_SomeD split: option.split)
qed

lemma fs_find_child_is_child:
  assumes "fs_find_child p nm s \<noteq> -1" shows "is_child (nodes s) p nm (fs_find_child p nm s)"
  using assms
  by (auto simp: fs_find_child_def is_child_def dest: scan_SomeD split: option.splits)

lemma fs_find_child_neg: "fs_find_child p nm s < 0 \<longleftrightarrow> fs_find_child p nm s = -1"
  by (auto simp: fs_find_child_def split: option.split)

lemma fs_find_child_eq:
  assumes "tree_wf (nodes s)" and "is_child (nodes s) p nm i"
  shows "fs_find_child p nm s = i"
  using assms fs_find_child_none fs_find_child_is_child is_child_unique by metis

section \<open>The node at an absolute path\<close>

fun walk :: "'a okfs_scheme \<Rightarrow> int \<Rightarrow> string list \<Rightarrow> int option" where
  "walk s i [] = Some i"
| "walk s i (c # cs) = (let k = fs_find_child i c s in if k < 0 then None else walk s k cs)"

definition node_at :: "'a okfs_scheme \<Rightarrow> string list \<Rightarrow> int option" where
  "node_at s path = walk s 0 path"

lemma walk_append: "walk s i (xs @ ys) = Option.bind (walk s i xs) (\<lambda>j. walk s j ys)"
  by (induction xs arbitrary: i) (auto simp: Let_def)

lemma node_at_Nil [simp]: "node_at s [] = Some 0"
  by (simp add: node_at_def)

lemma node_at_snoc:
  "node_at s (path @ [c]) = (case node_at s path of None \<Rightarrow> None
     | Some i \<Rightarrow> if fs_find_child i c s < 0 then None else Some (fs_find_child i c s))"
  by (simp add: node_at_def walk_append Let_def split: option.split)

lemma node_at_snoc_iff:
  assumes "tree_wf (nodes s)"
  shows "node_at s (path @ [c]) = Some j \<longleftrightarrow> (\<exists>i. node_at s path = Some i \<and> is_child (nodes s) i c j)"
  using fs_find_child_eq [OF assms] fs_find_child_is_child
  by (fastforce simp: node_at_snoc fs_find_child_neg is_child_def split: option.splits if_splits)

lemma node_at_used:
  assumes "tree_wf (nodes s)" and "node_at s path = Some i"
  shows "i \<in> {0..<128}" and "used (nodes s i)" and "i = 0 \<longleftrightarrow> path = []"
proof -
  have "i \<in> {0..<128} \<and> used (nodes s i) \<and> (i = 0 \<longleftrightarrow> path = [])"
    using assms(2)
  proof (induction path arbitrary: i rule: rev_induct)
    case Nil
    then show ?case using tree_wf_root [OF assms(1)] by simp
  next
    case (snoc c path)
    then show ?case by (auto simp: node_at_snoc_iff [OF assms(1)] is_child_def)
  qed
  then show "i \<in> {0..<128}" "used (nodes s i)" "i = 0 \<longleftrightarrow> path = []" by auto
qed

lemma node_at_inj:
  assumes wf: "tree_wf (nodes s)"
  shows "node_at s p = Some i \<Longrightarrow> node_at s q = Some i \<Longrightarrow> p = q"
proof (induction p arbitrary: q i rule: rev_induct)
  case Nil
  then show ?case using node_at_used(3) [OF wf, of q i] by simp
next
  case (snoc c p)
  have "i \<noteq> 0" using node_at_used(3) [OF wf snoc.prems(1)] by simp
  then obtain d q' where q: "q = q' @ [d]"
    using node_at_used(3) [OF wf snoc.prems(2)] by (cases q rule: rev_cases) auto
  show ?case
    using snoc.prems snoc.IH unfolding q
    by (auto simp: node_at_snoc_iff [OF wf] is_child_def)
qed

lemma node_at_exists:
  assumes wf: "tree_wf (nodes s)"
  shows "i \<in> {0..<128} \<Longrightarrow> used (nodes s i) \<Longrightarrow> \<exists>path. node_at s path = Some i"
proof -
  obtain depth :: "int \<Rightarrow> nat" where depth:
    "\<And>i. i \<in> {1..<128} \<Longrightarrow> used (nodes s i) \<Longrightarrow> depth i = Suc (depth (parent (nodes s i)))"
    using tree_wf_depth [OF wf] by metis
  show "i \<in> {0..<128} \<Longrightarrow> used (nodes s i) \<Longrightarrow> \<exists>path. node_at s path = Some i"
  proof (induction "depth i" arbitrary: i)
    case 0
    then have "i = 0" using depth [of i] by (cases "i = 0") auto
    then show ?case by (intro exI [of _ "[]"]) simp
  next
    case (Suc n)
    show ?case
    proof (cases "i = 0")
      case True
      then show ?thesis by (intro exI [of _ "[]"]) simp
    next
      case False
      then have i: "i \<in> {1..<128}" using Suc.prems by simp
      then obtain path where "node_at s path = Some (parent (nodes s i))"
        using Suc.hyps depth [OF i] tree_wf_node(4,5) [OF wf i] Suc.prems by fastforce
      then have "node_at s (path @ [name (nodes s i)]) = Some i"
        using i Suc.prems by (auto simp: node_at_snoc_iff [OF wf] is_child_def)
      then show ?thesis by blast
    qed
  qed
qed

lemma node_at_dir_prefix:
  assumes wf: "tree_wf (nodes s)" and "node_at s (path @ [c]) = Some j"
  obtains i where "node_at s path = Some i" and "ftype (nodes s i) = FS_TYPE_DIR"
    and "is_child (nodes s) i c j"
  using assms tree_wf_node(6) [OF wf] by (auto simp: node_at_snoc_iff is_child_def)

section \<open>Adding and removing a leaf\<close>

lemma add_leaf_is_child:
  assumes "\<not> used (nd k)" and "k \<in> {1..<128}" and "used n" "parent n = p" "name n = nm"
  shows "is_child (nd(k := n)) q c i \<longleftrightarrow> (q = p \<and> c = nm \<and> i = k) \<or> is_child nd q c i"
  using assms by (auto simp: is_child_def)

lemma add_leaf_wf:
  assumes wf: "tree_wf nd" and k: "k \<in> {1..<128}" "\<not> used (nd k)"
    and p: "p \<in> {0..<128}" "used (nd p)" "ftype (nd p) = FS_TYPE_DIR"
    and n: "used n" "parent n = p" "name n = nm"
    and nm: "fs_is_valid_name nm" "length nm < FS_MAX_NAME" "ftype n = FS_TYPE_FILE \<Longrightarrow> fs_ends_with_txt nm"
    and fresh: "\<forall>i. \<not> is_child nd p nm i"
  shows "tree_wf (nd(k := n))"
proof -
  obtain depth :: "int \<Rightarrow> nat" where d: "depth 0 = 0"
      "\<And>i. i \<in> {1..<128} \<Longrightarrow> used (nd i) \<Longrightarrow> depth i = Suc (depth (parent (nd i)))"
    using tree_wf_depth [OF wf] by metis
  have ne: "p \<noteq> k" "k \<noteq> 0" using k p by auto
  have old: "parent (nd i) \<noteq> k" if "i \<in> {1..<128}" "used (nd i)" for i
    using tree_wf_node(5) [OF wf that] k by auto
  have "\<exists>depth' :: int \<Rightarrow> nat. depth' 0 = 0 \<and> (\<forall>i \<in> {1..<128}. used ((nd(k := n)) i) \<longrightarrow>
      depth' i = Suc (depth' (parent ((nd(k := n)) i))))"
    using d ne n old by (intro exI [of _ "depth(k := Suc (depth p))"]) auto
  moreover have "\<forall>i \<in> {1..<128}. used ((nd(k := n)) i) \<longrightarrow>
        fs_is_valid_name (name ((nd(k := n)) i)) \<and> length (name ((nd(k := n)) i)) < FS_MAX_NAME \<and>
        (ftype ((nd(k := n)) i) = FS_TYPE_FILE \<longrightarrow> fs_ends_with_txt (name ((nd(k := n)) i))) \<and>
        parent ((nd(k := n)) i) \<in> {0..<128} \<and> used ((nd(k := n)) (parent ((nd(k := n)) i))) \<and>
        ftype ((nd(k := n)) (parent ((nd(k := n)) i))) = FS_TYPE_DIR"
  proof (intro ballI impI)
    fix i assume i: "i \<in> {1..<128}" "used ((nd(k := n)) i)"
    show "fs_is_valid_name (name ((nd(k := n)) i)) \<and> length (name ((nd(k := n)) i)) < FS_MAX_NAME \<and>
        (ftype ((nd(k := n)) i) = FS_TYPE_FILE \<longrightarrow> fs_ends_with_txt (name ((nd(k := n)) i))) \<and>
        parent ((nd(k := n)) i) \<in> {0..<128} \<and> used ((nd(k := n)) (parent ((nd(k := n)) i))) \<and>
        ftype ((nd(k := n)) (parent ((nd(k := n)) i))) = FS_TYPE_DIR"
    proof (cases "i = k")
      case True
      then show ?thesis using n nm p ne by simp
    next
      case False
      with i have u: "used (nd i)" by simp
      show ?thesis using False tree_wf_node [OF wf i(1) u] old [OF i(1) u] by simp
    qed
  qed
  moreover have "\<forall>i \<in> {1..<128}. \<forall>j \<in> {1..<128}. used ((nd(k := n)) i) \<and> used ((nd(k := n)) j) \<and>
        parent ((nd(k := n)) i) = parent ((nd(k := n)) j) \<and> name ((nd(k := n)) i) = name ((nd(k := n)) j)
        \<longrightarrow> i = j"
    using n fresh tree_wf_unique [OF wf] by (auto simp: is_child_def)
  ultimately show ?thesis
    using tree_wf_root [OF wf] ne unfolding tree_wf_def by simp
qed

lemma remove_leaf_is_child:
  assumes "\<not> used n" shows "is_child (nd(k := n)) q c i \<longleftrightarrow> i \<noteq> k \<and> is_child nd q c i"
  using assms by (auto simp: is_child_def)

lemma remove_leaf_wf:
  assumes wf: "tree_wf nd" and k: "k \<in> {1..<128}" and n: "\<not> used n"
    and leaf: "\<And>i. i \<in> {1..<128} \<Longrightarrow> used (nd i) \<Longrightarrow> parent (nd i) \<noteq> k"
  shows "tree_wf (nd(k := n))"
proof -
  obtain depth :: "int \<Rightarrow> nat" where d: "depth 0 = 0"
      "\<And>i. i \<in> {1..<128} \<Longrightarrow> used (nd i) \<Longrightarrow> depth i = Suc (depth (parent (nd i)))"
    using tree_wf_depth [OF wf] by metis
  have "k \<noteq> 0" using k by auto
  then show ?thesis
    unfolding tree_wf_def
    using tree_wf_root [OF wf] tree_wf_node [OF wf] tree_wf_unique [OF wf] d leaf n
    by (intro conjI ballI impI exI [of _ depth]) (auto split: if_splits)
qed

text \<open>Changes to the contents only.\<close>

lemma same_shape:
  assumes "\<And>i. used (nd' i) = used (nd i) \<and> parent (nd' i) = parent (nd i) \<and>
      ftype (nd' i) = ftype (nd i) \<and> name (nd' i) = name (nd i)"
  shows "tree_wf nd' = tree_wf nd" and "is_child nd' = is_child nd"
  using assms by (simp_all add: tree_wf_def is_child_def fun_eq_iff)

lemma node_at_cong:
  assumes "is_child (nodes s') = is_child (nodes s)" and "tree_wf (nodes s)" and "tree_wf (nodes s')"
  shows "node_at s' path = node_at s path"
proof (induction path rule: rev_induct)
  case (snoc c path)
  have "node_at s' (path @ [c]) = Some j \<longleftrightarrow> node_at s (path @ [c]) = Some j" for j
    using snoc by (simp add: node_at_snoc_iff assms)
  then show ?case by (metis not_Some_eq)
qed simp

lemma node_at_add:
  assumes wf: "tree_wf (nodes s)" "tree_wf (nodes s')"
    and nd: "nodes s' = (nodes s)(k := n)" and k: "k \<in> {1..<128}" "\<not> used (nodes s k)"
    and n: "used n" "parent n = p" "name n = nm" and P: "node_at s P = Some p"
    and fresh: "\<forall>i. \<not> is_child (nodes s) p nm i"
  shows "node_at s' path = (if path = P @ [nm] then Some k else node_at s path)"
proof (induction path rule: rev_induct)
  case (snoc c path)
  note child = add_leaf_is_child [of "nodes s" k n p nm, OF k(2,1) n, folded nd]
  have new: "node_at s (P @ [nm]) = None"
    using fresh P by (metis node_at_snoc_iff [OF wf(1)] not_None_eq option.inject)
  have leaf: "\<not> is_child (nodes s) k c j" for c j
    using k(2) tree_wf_node(5) [OF wf(1)] by (auto simp: is_child_def)
  have "p \<noteq> k" using node_at_used(2) [OF wf(1) P] k(2) by auto
  have at_p: "node_at s path = Some p \<longleftrightarrow> path = P" using node_at_inj [OF wf(1)] P by blast
  have "node_at s' (path @ [c]) = Some j \<longleftrightarrow>
      (if path @ [c] = P @ [nm] then j = k else node_at s (path @ [c]) = Some j)" for j
  proof (cases "path = P @ [nm]")
    case True
    then have "node_at s path = None" "node_at s' path = Some k" "path @ [c] \<noteq> P @ [nm]"
      using new snoc by auto
    then show ?thesis
      using leaf \<open>p \<noteq> k\<close> by (auto simp: node_at_snoc_iff [OF wf(1)] node_at_snoc_iff [OF wf(2)] child)
  next
    case False
    then show ?thesis
      using snoc P fresh at_p by (auto simp: node_at_snoc_iff [OF wf(1)] node_at_snoc_iff [OF wf(2)] child)
  qed
  then show ?case by (metis not_Some_eq)
qed (simp add: P)

lemma node_at_remove:
  assumes wf: "tree_wf (nodes s)" "tree_wf (nodes s')"
    and nd: "nodes s' = (nodes s)(k := n)" and n: "\<not> used n" and P: "node_at s P = Some k" "P \<noteq> []"
    and leaf: "\<And>i. i \<in> {1..<128} \<Longrightarrow> used (nodes s i) \<Longrightarrow> parent (nodes s i) \<noteq> k"
  shows "node_at s' path = (if path = P then None else node_at s path)"
proof (induction path rule: rev_induct)
  case (snoc c path)
  have "node_at s' (path @ [c]) = Some j \<longleftrightarrow> path @ [c] \<noteq> P \<and> node_at s (path @ [c]) = Some j" for j
  proof -
    have "node_at s' (path @ [c]) = Some j \<longleftrightarrow> (\<exists>i. path \<noteq> P \<and> node_at s path = Some i \<and> j \<noteq> k \<and> is_child (nodes s) i c j)"
      using snoc by (auto simp: node_at_snoc_iff [OF wf(2)] remove_leaf_is_child [OF n] nd)
    also have "\<dots> \<longleftrightarrow> path @ [c] \<noteq> P \<and> node_at s (path @ [c]) = Some j"
    proof (intro iffI conjI)
      assume "\<exists>i. path \<noteq> P \<and> node_at s path = Some i \<and> j \<noteq> k \<and> is_child (nodes s) i c j"
      then have at: "node_at s (path @ [c]) = Some j" and "j \<noteq> k"
        by (auto simp: node_at_snoc_iff [OF wf(1)])
      then show "node_at s (path @ [c]) = Some j" "path @ [c] \<noteq> P" using P(1) by auto
    next
      assume a: "path @ [c] \<noteq> P \<and> node_at s (path @ [c]) = Some j"
      then obtain i where i: "node_at s path = Some i" "is_child (nodes s) i c j"
        by (auto simp: node_at_snoc_iff [OF wf(1)])
      have "j \<noteq> k" using a P(1) node_at_inj [OF wf(1)] by blast
      moreover have "path \<noteq> P" using i P(1) leaf [of j] by (auto simp: is_child_def)
      ultimately show "\<exists>i. path \<noteq> P \<and> node_at s path = Some i \<and> j \<noteq> k \<and> is_child (nodes s) i c j"
        using i by blast
    qed
    finally show ?thesis .
  qed
  then show ?case by (metis not_Some_eq)
qed (use P in auto)

end
