(* ===== verification/Okfs_Path.thy ===== *)
theory Okfs_Path
  imports Okfs_Tree
begin

text \<open>
  Paths: the specification of path resolution on lists of names, and that the character
  loops of \<open>fs_resolve\<close> and \<open>fs_resolve_parent\<close> implement it.
\<close>

section \<open>Components of a path\<close>

fun split_slash :: "string \<Rightarrow> string list" where
  "split_slash [] = [[]]"
| "split_slash (c # cs) =
     (if c = SLASH then [] # split_slash cs
      else (c # hd (split_slash cs)) # tl (split_slash cs))"

definition components :: "string \<Rightarrow> string list" where
  "components path = filter (\<lambda>w. w \<noteq> []) (split_slash path)"

lemma split_slash_ne [simp]: "split_slash p \<noteq> []"
  by (cases p) auto

lemma split_slash_append:
  "split_slash (xs @ SLASH # ys) = split_slash xs @ split_slash ys"
  by (induction xs) (auto simp: hd_append tl_append split: list.split)

lemma split_slash_word: "SLASH \<notin> set w \<Longrightarrow> split_slash w = [w]"
  by (induction w) auto

lemma components_Nil [simp]: "components [] = []"
  by (simp add: components_def)

lemma components_append: "components (xs @ SLASH # ys) = components xs @ components ys"
  by (simp add: components_def split_slash_append)

lemma components_word: "SLASH \<notin> set w \<Longrightarrow> w \<noteq> [] \<Longrightarrow> components w = [w]"
  by (simp add: components_def split_slash_word)

lemma components_slash [simp]: "components (SLASH # p) = components p"
  using components_append [of "[]" p] by simp

lemma components_skip: "components (dropWhile (\<lambda>c. c = SLASH) p) = components p"
  by (induction p) auto

lemma components_step:
  assumes "path \<noteq> []"
  defines "c \<equiv> takeWhile (\<lambda>c. c \<noteq> SLASH) path"
  defines "rest \<equiv> dropWhile (\<lambda>c. c = SLASH) (dropWhile (\<lambda>c. c \<noteq> SLASH) path)"
  shows "components path = (if c = [] then components rest else c # components rest)"
proof -
  define d where "d = dropWhile (\<lambda>c. c \<noteq> SLASH) path"
  have path: "path = c @ d" by (simp add: c_def d_def)
  have c: "SLASH \<notin> set c" using set_takeWhileD by (fastforce simp: c_def)
  have rest: "components rest = components d" unfolding rest_def d_def [symmetric] by (rule components_skip)
  show ?thesis
  proof (cases d)
    case Nil
    then show ?thesis using path assms(1) c components_word by (auto simp: rest)
  next
    case (Cons x d')
    then have "x = SLASH" using hd_dropWhile [of "\<lambda>c. c \<noteq> SLASH" path] by (simp add: d_def)
    then have "components path = components c @ components d"
      unfolding path Cons by (simp add: components_append)
    then show ?thesis using c components_word [OF c] by (auto simp: rest)
  qed
qed

section \<open>Resolving a list of components\<close>

text \<open>
  The specification: from directory \<open>P\<close> follow the components, an error being the first
  component that is too long or does not exist.
\<close>

fun canon :: "(string list \<rightharpoonup> 'e) \<Rightarrow> string list \<Rightarrow> string list \<Rightarrow> int + string list" where
  "canon t P [] = Inr P"
| "canon t P (c # cs) =
     (if length c > FS_MAX_NAME - 1 then Inl FS_ERR_INVALID
      else if c = ''.'' then canon t P cs
      else if c = ''..'' then canon t (butlast P) cs
      else if t (P @ [c]) = None then Inl FS_ERR_NOT_FOUND
      else canon t (P @ [c]) cs)"

lemma canon_append:
  "canon t P (xs @ ys) = (case canon t P xs of Inl e \<Rightarrow> Inl e | Inr Q \<Rightarrow> canon t Q ys)"
  by (induction t P xs rule: canon.induct) auto

lemma canon_error: "canon t P cs = Inl e \<Longrightarrow> e = FS_ERR_INVALID \<or> e = FS_ERR_NOT_FOUND"
  by (induction t P cs rule: canon.induct) (auto split: if_splits)

lemma canon_exists:
  assumes wf: "tree_wf (nodes s)" and "node_at s P = Some i" and "canon (node_at s) P cs = Inr Q"
  shows "\<exists>j. node_at s Q = Some j"
  using assms(2,3)
proof (induction cs arbitrary: P i)
  case (Cons c cs)
  have up: "\<exists>j. node_at s (butlast P) = Some j"
    using Cons.prems(1) by (cases P rule: rev_cases) (auto simp: node_at_snoc_iff [OF wf])
  show ?case
    using Cons.prems Cons.IH up by (auto split: if_splits)
qed simp

lemma node_at_parent:
  assumes wf: "tree_wf (nodes s)" and "node_at s P = Some cur"
  shows "node_at s (butlast P) = Some (if cur = 0 then cur else parent (nodes s cur))"
proof (cases P rule: rev_cases)
  case Nil
  then show ?thesis using assms(2) by simp
next
  case (snoc Q c)
  then show ?thesis
    using assms(2) by (auto simp: node_at_snoc_iff [OF wf] is_child_def)
qed

lemma fs_resolve_loop_canon:
  assumes wf: "tree_wf (nodes s)" and "node_at s P = Some cur"
  shows "case canon (node_at s) P (components path) of
       Inl e \<Rightarrow> fs_resolve_loop s cur path = e
     | Inr Q \<Rightarrow> node_at s Q = Some (fs_resolve_loop s cur path)"
  using assms(2)
proof (induction "length path" arbitrary: path cur P rule: less_induct)
  case less
  show ?case
  proof (cases "path = []")
    case True
    then show ?thesis using less.prems by (simp add: fs_resolve_loop.simps)
  next
    case False
    define c where "c = takeWhile (\<lambda>c. c \<noteq> SLASH) path"
    define rest where "rest = dropWhile (\<lambda>c. c = SLASH) (dropWhile (\<lambda>c. c \<noteq> SLASH) path)"
    note step = components_step [OF False, folded c_def rest_def]
    have IH: "node_at s Q = Some i \<Longrightarrow> case canon (node_at s) Q (components rest) of
        Inl e \<Rightarrow> fs_resolve_loop s i rest = e | Inr Q \<Rightarrow> node_at s Q = Some (fs_resolve_loop s i rest)" for Q i
      by (rule less.hyps) (use False component_rest_shorter in \<open>simp_all add: rest_def\<close>)
    have loop: "fs_resolve_loop s cur path =
        (if length c > FS_MAX_NAME - 1 then FS_ERR_INVALID
         else if c = [] then fs_resolve_loop s cur rest
         else if c = ''.'' then fs_resolve_loop s cur rest
         else if c = ''..'' then fs_resolve_loop s (if cur = 0 then cur else parent (nodes s cur)) rest
         else if fs_find_child cur c s < 0 then FS_ERR_NOT_FOUND
         else fs_resolve_loop s (fs_find_child cur c s) rest)"
      using False by (subst fs_resolve_loop.simps) (simp only: Let_def fs_streq_iff if_False flip: c_def rest_def)
    consider "length c > FS_MAX_NAME - 1" | "c = []"
      | "c \<noteq> []" "\<not> length c > FS_MAX_NAME - 1" "c = ''.''"
      | "c \<noteq> []" "\<not> length c > FS_MAX_NAME - 1" "c \<noteq> ''.''" "c = ''..''"
      | "c \<noteq> []" "\<not> length c > FS_MAX_NAME - 1" "c \<noteq> ''.''" "c \<noteq> ''..''" "fs_find_child cur c s < 0"
      | "c \<noteq> []" "\<not> length c > FS_MAX_NAME - 1" "c \<noteq> ''.''" "c \<noteq> ''..''" "\<not> fs_find_child cur c s < 0"
      by blast
    then show ?thesis
    proof cases
      case 1
      then have "c \<noteq> []" by auto
      then show ?thesis using 1 step loop by simp
    next
      case 4
      then have eq: "fs_resolve_loop s cur path =
          fs_resolve_loop s (if cur = 0 then cur else parent (nodes s cur)) rest"
        using loop by simp
      show ?thesis unfolding eq using 4 IH [OF node_at_parent [OF wf less.prems]] step by simp
    next
      case 6
      then have "node_at s (P @ [c]) = Some (fs_find_child cur c s)"
        using less.prems by (simp add: node_at_snoc)
      moreover have eq: "fs_resolve_loop s cur path = fs_resolve_loop s (fs_find_child cur c s) rest"
        using 6 loop by simp
      ultimately show ?thesis unfolding eq using 6 IH step by simp
    qed (use IH [OF less.prems] less.prems step loop in \<open>simp_all add: node_at_snoc cong: sum.case_cong\<close>)
  qed
qed

lemma fs_resolve_canon:
  assumes wf: "tree_wf (nodes s)" and C: "node_at s C = Some start" and "path \<noteq> []"
  shows "case canon (node_at s) (if hd path = SLASH then [] else C) (components path) of
       Inl e \<Rightarrow> fs_resolve start path want_dir s = e \<and> e < 0
     | Inr Q \<Rightarrow> \<exists>i. node_at s Q = Some i \<and> fs_resolve start path want_dir s =
         (if want_dir \<and> ftype (nodes s i) \<noteq> FS_TYPE_DIR then FS_ERR_NOT_DIR else i)"
proof -
  define cur rest where "cur = (if hd path = SLASH then 0 else start)"
    and "rest = (if hd path = SLASH then tl path else path)"
  define P where "P = (if hd path = SLASH then [] else C)"
  have P: "node_at s P = Some cur" using C by (simp add: P_def cur_def)
  have comps: "components (dropWhile (\<lambda>c. c = SLASH) rest) = components path"
    unfolding components_skip using assms(3) by (cases path) (auto simp: rest_def)
  have res: "fs_resolve start path want_dir s =
      (let k = fs_resolve_loop s cur (dropWhile (\<lambda>c. c = SLASH) rest) in
       if k < 0 then k else if want_dir \<and> ftype (nodes s k) \<noteq> FS_TYPE_DIR then FS_ERR_NOT_DIR else k)"
    using assms(3) by (simp add: fs_resolve_def cur_def rest_def Let_def split: if_split)
  note loop = fs_resolve_loop_canon [OF wf P, of "dropWhile (\<lambda>c. c = SLASH) rest", unfolded comps]
  show ?thesis
  proof (cases "canon (node_at s) P (components path)")
    case (Inl e)
    then show ?thesis using loop res canon_error [OF Inl] by (auto simp: P_def [symmetric] Let_def)
  next
    case (Inr Q)
    then have "node_at s Q = Some (fs_resolve_loop s cur (dropWhile (\<lambda>c. c = SLASH) rest))"
      using loop by simp
    moreover from node_at_used(1) [OF wf this]
    have "\<not> fs_resolve_loop s cur (dropWhile (\<lambda>c. c = SLASH) rest) < 0" by simp
    ultimately show ?thesis using Inr res by (simp add: P_def [symmetric] Let_def)
  qed
qed

section \<open>The parent directory and the last name\<close>

lemma last_slash_Some:
  "last_slash p n = Some i \<Longrightarrow> i < n \<and> p ! i = SLASH \<and> (\<forall>j. i < j \<and> j < n \<longrightarrow> p ! j \<noteq> SLASH)"
  by (induction n) (auto simp: less_Suc_eq split: if_splits)

lemma last_slash_None: "last_slash p n = None \<Longrightarrow> j < n \<Longrightarrow> p ! j \<noteq> SLASH"
  by (induction n) (auto simp: less_Suc_eq split: if_splits)

lemma last_slash_split:
  assumes "last_slash p (length p) = Some i"
  shows "p = take i p @ SLASH # drop (i + 1) p" and "SLASH \<notin> set (drop (i + 1) p)"
proof -
  from last_slash_Some [OF assms] have i: "i < length p" "p ! i = SLASH"
    and after: "\<And>j. i < j \<Longrightarrow> j < length p \<Longrightarrow> p ! j \<noteq> SLASH" by auto
  show "p = take i p @ SLASH # drop (i + 1) p" using id_take_nth_drop [OF i(1)] i(2) by simp
  show "SLASH \<notin> set (drop (i + 1) p)"
    using after [of "i + 1 + k" for k] by (auto simp: in_set_conv_nth)
qed

end
