(* ===== verification/Okfs_Spec.thy ===== *)
theory Okfs_Spec
  imports Okfs_Path
begin

text \<open>
  What the file system promises: a map from absolute paths (lists of names) to entries and a
  working directory. The operations of \<open>fs.c\<close> that create, remove and look up entries are
  shown to refine the operations on that map.
\<close>

section \<open>The abstract file system\<close>

datatype entry = Dir | File string

type_synonym tree = "string list \<rightharpoonup> entry"

definition fs_wf :: "'a okfs_scheme \<Rightarrow> bool" where
  "fs_wf s \<longleftrightarrow> bufs_wf s \<and> tree_wf (nodes s) \<and>
     (\<forall>i \<in> {0..<128}. data (nodes s i) \<noteq> 0 \<longrightarrow> used (nodes s i) \<and> ftype (nodes s i) = FS_TYPE_FILE) \<and>
     cwd s \<in> {0..<128} \<and> used (nodes s (cwd s)) \<and> ftype (nodes s (cwd s)) = FS_TYPE_DIR"

definition entry_of :: "'a okfs_scheme \<Rightarrow> int \<Rightarrow> entry" where
  "entry_of s i = (if ftype (nodes s i) = FS_TYPE_DIR then Dir else File (content s i))"

definition fs_abs :: "'a okfs_scheme \<Rightarrow> tree" where
  "fs_abs s path = map_option (entry_of s) (node_at s path)"

text \<open>Start of a relative or absolute path.\<close>

definition start_of :: "string list \<Rightarrow> string \<Rightarrow> string list" where
  "start_of C path = (if path \<noteq> [] \<and> hd path = SLASH then [] else C)"

definition dir_part :: "string \<Rightarrow> string" where
  "dir_part path = (case last_slash path (length path) of None \<Rightarrow> [] | Some i \<Rightarrow> take i path)"

definition base_part :: "string \<Rightarrow> string" where
  "base_part path = (case last_slash path (length path) of None \<Rightarrow> path | Some i \<Rightarrow> drop (i + 1) path)"

definition spec_lookup :: "tree \<Rightarrow> string list \<Rightarrow> string \<Rightarrow> int + string list" where
  "spec_lookup t C path =
     (if path = [] then Inl FS_ERR_INVALID else canon t (start_of C path) (components path))"

definition spec_parent :: "tree \<Rightarrow> string list \<Rightarrow> string \<Rightarrow> int + (string list \<times> string)" where
  "spec_parent t C path =
     (if length path \<ge> FS_MAX_PATH then Inl FS_ERR_INVALID
      else case canon t (start_of C path) (components (dir_part path)) of
        Inl e \<Rightarrow> Inl e
      | Inr P \<Rightarrow> if t P = Some Dir then Inr (P, take (FS_MAX_NAME - 1) (base_part path))
                 else Inl FS_ERR_NOT_DIR)"

definition spec_create :: "tree \<Rightarrow> string list \<Rightarrow> string \<Rightarrow> fs_type_t \<Rightarrow> int + tree" where
  "spec_create t P nm ty =
     (if \<not> fs_is_valid_name nm then Inl FS_ERR_INVALID
      else if ty = FS_TYPE_FILE \<and> \<not> fs_ends_with_txt nm then Inl FS_ERR_NOT_TXT
      else if t (P @ [nm]) \<noteq> None then Inl FS_ERR_EXISTS
      else if card (dom t) = FS_MAX_NODES then Inl FS_ERR_FULL
      else Inr (t(P @ [nm] \<mapsto> (if ty = FS_TYPE_DIR then Dir else File []))))"

definition spec_mkdir :: "string \<Rightarrow> tree \<times> string list \<Rightarrow> int \<times> tree \<times> string list" where
  "spec_mkdir path = (\<lambda>(t, C).
     case spec_parent t C path of
       Inl e \<Rightarrow> (e, t, C)
     | Inr (P, nm) \<Rightarrow>
         if \<not> fs_is_valid_name nm then (FS_ERR_INVALID, t, C)
         else (case spec_create t P nm FS_TYPE_DIR of
                 Inl e \<Rightarrow> (FS_ERR_FULL, t, C) | Inr t' \<Rightarrow> (FS_OK, t', C)))"

definition spec_touch :: "string \<Rightarrow> tree \<times> string list \<Rightarrow> int \<times> tree \<times> string list" where
  "spec_touch path = (\<lambda>(t, C).
     case spec_parent t C path of
       Inl e \<Rightarrow> (e, t, C)
     | Inr (P, nm) \<Rightarrow>
         (case t (P @ [nm]) of
            Some Dir \<Rightarrow> (FS_ERR_NOT_FILE, t, C)
          | Some (File _) \<Rightarrow> (FS_OK, t, C)
          | None \<Rightarrow> (case spec_create t P nm FS_TYPE_FILE of
                       Inl e \<Rightarrow> (e, t, C) | Inr t' \<Rightarrow> (FS_OK, t', C))))"

definition spec_rm :: "string \<Rightarrow> tree \<times> string list \<Rightarrow> int \<times> tree \<times> string list" where
  "spec_rm path = (\<lambda>(t, C).
     case spec_lookup t C path of
       Inl e \<Rightarrow> (e, t, C)
     | Inr P \<Rightarrow>
         if P = [] then (FS_ERR_INVALID, t, C)
         else if t P = Some Dir \<and> (\<exists>c. t (P @ [c]) \<noteq> None) then (FS_ERR_NOT_EMPTY, t, C)
         else (FS_OK, t(P := None), if C = P then butlast C else C))"

definition spec_cd :: "string \<Rightarrow> tree \<times> string list \<Rightarrow> int \<times> tree \<times> string list" where
  "spec_cd path = (\<lambda>(t, C).
     case spec_lookup t C path of
       Inl e \<Rightarrow> (e, t, C)
     | Inr P \<Rightarrow> if t P = Some Dir then (FS_OK, t, P) else (FS_ERR_NOT_DIR, t, C))"

section \<open>Facts of the abstraction\<close>

lemma fs_wfD:
  assumes "fs_wf s"
  shows "bufs_wf s" "tree_wf (nodes s)" "heap_wf s" "cwd s \<in> {0..<128}" "used (nodes s (cwd s))"
    "ftype (nodes s (cwd s)) = FS_TYPE_DIR"
    "\<And>i. i \<in> {0..<128} \<Longrightarrow> data (nodes s i) \<noteq> 0 \<Longrightarrow> used (nodes s i) \<and> ftype (nodes s i) = FS_TYPE_FILE"
  using assms by (auto simp: fs_wf_def bufs_wf_def)

lemma fs_abs_None [simp]: "fs_abs s path = None \<longleftrightarrow> node_at s path = None"
  by (simp add: fs_abs_def)

lemma fs_abs_Dir: "fs_abs s path = Some Dir \<longleftrightarrow> (\<exists>i. node_at s path = Some i \<and> ftype (nodes s i) = FS_TYPE_DIR)"
  by (auto simp: fs_abs_def entry_of_def)

lemma canon_cong:
  assumes "\<And>P. t P = None \<longleftrightarrow> t' P = None"
  shows "canon t P cs = canon t' P cs"
  using assms by (induction t P cs rule: canon.induct) auto

lemma canon_abs: "canon (fs_abs s) P cs = canon (node_at s) P cs"
  by (rule canon_cong) simp

text \<open>The abstract working directory.\<close>

definition cwd_abs :: "'a okfs_scheme \<Rightarrow> string list" where
  "cwd_abs s = (THE C. node_at s C = Some (cwd s))"

lemma cwd_abs_eqI:
  assumes "tree_wf (nodes s)" and "node_at s C = Some (cwd s)"
  shows "cwd_abs s = C"
  unfolding cwd_abs_def using assms node_at_inj by blast

lemma cwd_abs: "fs_wf s \<Longrightarrow> node_at s (cwd_abs s) = Some (cwd s)"
  using node_at_exists [of s "cwd s"] fs_wfD [of s] cwd_abs_eqI by metis

definition fs_view :: "'a okfs_scheme \<Rightarrow> tree \<times> string list" where
  "fs_view s = (fs_abs s, cwd_abs s)"

lemma bij_used: "tree_wf (nodes s) \<Longrightarrow> bij_betw (the \<circ> node_at s) (dom (fs_abs s)) {i \<in> {0..<128}. used (nodes s i)}"
proof (rule bij_betwI')
  fix x y assume wf: "tree_wf (nodes s)" and "x \<in> dom (fs_abs s)" "y \<in> dom (fs_abs s)"
  then obtain i j where "node_at s x = Some i" "node_at s y = Some j" by (auto simp: fs_abs_def dom_def)
  then show "(the \<circ> node_at s) x = (the \<circ> node_at s) y \<longleftrightarrow> x = y"
    using node_at_inj [OF wf] by auto
next
  fix x assume "tree_wf (nodes s)" "x \<in> dom (fs_abs s)"
  then show "(the \<circ> node_at s) x \<in> {i \<in> {0..<128}. used (nodes s i)}"
    using node_at_used by (fastforce simp: fs_abs_def dom_def)
next
  fix i assume "tree_wf (nodes s)" "i \<in> {i \<in> {0..<128}. used (nodes s i)}"
  then obtain path where "node_at s path = Some i" using node_at_exists by blast
  then show "\<exists>x \<in> dom (fs_abs s). i = (the \<circ> node_at s) x"
    by (intro bexI [of _ path]) (auto simp: fs_abs_def)
qed

lemma card_dom_fs_abs: "tree_wf (nodes s) \<Longrightarrow> card (dom (fs_abs s)) = card {i \<in> {0..<128}. used (nodes s i)}"
  by (rule bij_betw_same_card [OF bij_used])

lemma fs_alloc_node_full:
  assumes "tree_wf (nodes s)"
  shows "fs_alloc_node s < 0 \<longleftrightarrow> card (dom (fs_abs s)) = FS_MAX_NODES"
proof -
  have "fs_alloc_node s < 0 \<longleftrightarrow> (\<forall>k. 1 \<le> k \<and> k < FS_MAX_NODES \<longrightarrow> used (nodes s (int k)))"
    by (auto simp: fs_alloc_node_def scan_None_iff dest: scan_SomeD split: option.split)
  also have "\<dots> \<longleftrightarrow> (\<forall>i \<in> {0..<128}. used (nodes s i))"
  proof (intro iffI ballI allI impI)
    fix i :: int assume a: "\<forall>k. 1 \<le> k \<and> k < FS_MAX_NODES \<longrightarrow> used (nodes s (int k))" and i: "i \<in> {0..<128}"
    show "used (nodes s i)"
    proof (cases "i = 0")
      case False
      with i have "1 \<le> nat i" "nat i < FS_MAX_NODES" "int (nat i) = i" by auto
      then show ?thesis using a by metis
    qed (use tree_wf_root [OF assms] in simp)
  qed auto
  also have "\<dots> \<longleftrightarrow> {i \<in> {0..<128}. used (nodes s i)} = {0..<128 :: int}" by auto
  also have "\<dots> \<longleftrightarrow> card {i \<in> {0..<128}. used (nodes s i)} = card {0..<128 :: int}"
  proof -
    define A where "A = {i \<in> {0..<128}. used (nodes s i)}"
    have "A \<subseteq> {0..<128}" by (auto simp: A_def)
    then show ?thesis unfolding A_def [symmetric] using card_subset_eq [of "{0..<128 :: int}" A] by blast
  qed
  finally show ?thesis by (simp add: card_dom_fs_abs [OF assms])
qed

lemma fs_alloc_node_free:
  assumes "\<not> fs_alloc_node s < 0"
  shows "fs_alloc_node s \<in> {1..<128}" and "\<not> used (nodes s (fs_alloc_node s))"
  using assms by (auto simp: fs_alloc_node_def dest: scan_SomeD split: option.splits)

section \<open>Looking up paths\<close>

lemma fs_resolve_cases:
  assumes wf: "fs_wf s"
  obtains (err) e where "spec_lookup (fs_abs s) (cwd_abs s) path = Inl e"
      and "\<And>w. fs_resolve (cwd s) path w s = e" and "e < 0"
  | (ok) P i where "spec_lookup (fs_abs s) (cwd_abs s) path = Inr P" and "node_at s P = Some i"
      and "i \<in> {0..<128}" and "used (nodes s i)" and "i = 0 \<longleftrightarrow> P = []"
      and "\<And>w. fs_resolve (cwd s) path w s =
        (if w \<and> ftype (nodes s i) \<noteq> FS_TYPE_DIR then FS_ERR_NOT_DIR else i)"
proof (cases "path = []")
  case True
  then show thesis using err [of FS_ERR_INVALID] by (simp add: spec_lookup_def fs_resolve_def)
next
  case False
  note canon = fs_resolve_canon [OF fs_wfD(2) [OF wf] cwd_abs [OF wf] False]
  have sl: "spec_lookup (fs_abs s) (cwd_abs s) path =
      canon (node_at s) (if hd path = SLASH then [] else cwd_abs s) (components path)"
    using False by (simp add: spec_lookup_def start_of_def canon_abs)
  show thesis
  proof (cases "spec_lookup (fs_abs s) (cwd_abs s) path")
    case (Inl e)
    then show thesis using err [of e] canon sl by simp
  next
    case (Inr P)
    then have eq: "canon (node_at s) (if hd path = SLASH then [] else cwd_abs s) (components path) = Inr P"
      using sl by simp
    then obtain i where i: "node_at s P = Some i" using canon [of True] by auto
    have "fs_resolve (cwd s) path w s = (if w \<and> ftype (nodes s i) \<noteq> FS_TYPE_DIR then FS_ERR_NOT_DIR else i)" for w
      using canon [of w] i unfolding eq by simp
    then show thesis using ok [of P i] Inr i node_at_used [OF fs_wfD(2) [OF wf] i] by simp
  qed
qed

lemma spec_parent_cases:
  assumes wf: "fs_wf s"
  obtains (err) e where "spec_parent (fs_abs s) (cwd_abs s) path = Inl e"
      and "fs_resolve_parent path s = Inl e" and "e < 0"
  | (ok) P p nm where "spec_parent (fs_abs s) (cwd_abs s) path = Inr (P, nm)"
      and "fs_resolve_parent path s = Inr (p, nm)" and "node_at s P = Some p"
      and "ftype (nodes s p) = FS_TYPE_DIR" and "nm = take (FS_MAX_NAME - 1) (base_part path)"
      and "canon (fs_abs s) (start_of (cwd_abs s) path) (components (dir_part path)) = Inr P"
proof (cases "length path \<ge> FS_MAX_PATH")
  case True
  then show thesis using err [of FS_ERR_INVALID] by (simp add: spec_parent_def fs_resolve_parent_def)
next
  case False
  have tw: "tree_wf (nodes s)" using fs_wfD(2) [OF wf] .
  have copy: "fs_strcpy path FS_MAX_PATH = path" using False by (simp add: fs_strcpy_def)
  define S where "S = start_of (cwd_abs s) path"
  define start where "start = (if path \<noteq> [] \<and> hd path = SLASH then 0 else cwd s)"
  have S: "node_at s S = Some start" using cwd_abs [OF wf] by (simp add: S_def start_def start_of_def)
  show thesis
  proof (cases "last_slash path (length path)")
    case None
    then have path: "dir_part path = []" "base_part path = path" by (simp_all add: dir_part_def base_part_def)
    have "path \<noteq> [] \<Longrightarrow> hd path \<noteq> SLASH"
      using last_slash_None [OF None, of 0] by (cases path) auto
    then have "start = cwd s" "S = cwd_abs s" by (auto simp: start_def S_def start_of_def)
    then have dir: "ftype (nodes s start) = FS_TYPE_DIR" using fs_wfD(6) [OF wf] by simp
    then have "fs_abs s S = Some Dir" using S by (auto simp: fs_abs_Dir)
    then have "spec_parent (fs_abs s) (cwd_abs s) path = Inr (S, take (FS_MAX_NAME - 1) path)"
      using False by (simp add: spec_parent_def path flip: S_def)
    moreover have "fs_resolve_parent path s = Inr (start, take (FS_MAX_NAME - 1) path)"
      using False None copy
      by (simp add: fs_resolve_parent_def Let_def start_def) (simp add: fs_strcpy_def)
    ultimately show thesis using ok [OF _ _ S dir] path by (simp add: S_def)
  next
    case (Some k)
    define pp where "pp = (if take k path = [] then ''/'' else take k path)"
    have path: "dir_part path = take k path" "base_part path = drop (k + 1) path"
      using Some by (simp_all add: dir_part_def base_part_def)
    have comps: "components pp = components (dir_part path)" by (simp add: pp_def path)
    have hd: "hd pp = SLASH \<longleftrightarrow> path \<noteq> [] \<and> hd path = SLASH"
      using last_slash_split(1) [OF Some] last_slash_Some [OF Some]
      by (cases path; cases k) (auto simp: pp_def)
    have call: "fs_resolve_parent path s = (let p = fs_resolve start pp True s in
        if p < 0 then Inl p else Inr (p, take (FS_MAX_NAME - 1) (base_part path)))"
      using False Some copy
      by (simp add: fs_resolve_parent_def Let_def path pp_def flip: start_def) (simp add: fs_strcpy_def)
    have ne: "pp \<noteq> []" and from_S: "(if hd pp = SLASH then [] else S) = S"
      by (auto simp: hd S_def start_of_def) (simp add: pp_def split: if_splits)
    have canon: "case canon (fs_abs s) S (components (dir_part path)) of
        Inl e \<Rightarrow> fs_resolve start pp True s = e \<and> e < 0
      | Inr Q \<Rightarrow> \<exists>i. node_at s Q = Some i \<and> fs_resolve start pp True s =
          (if True \<and> ftype (nodes s i) \<noteq> FS_TYPE_DIR then FS_ERR_NOT_DIR else i)"
      unfolding canon_abs by (rule fs_resolve_canon [OF tw S ne, of True, unfolded from_S comps])
    have spec: "spec_parent (fs_abs s) (cwd_abs s) path = (case canon (fs_abs s) S (components (dir_part path)) of
        Inl e \<Rightarrow> Inl e | Inr P \<Rightarrow> if fs_abs s P = Some Dir then Inr (P, take (FS_MAX_NAME - 1) (base_part path))
                 else Inl FS_ERR_NOT_DIR)"
      using False by (simp add: spec_parent_def S_def)
    show thesis
    proof (cases "canon (fs_abs s) S (components (dir_part path))")
      case (Inl e)
      then show thesis using err [of e] spec canon call by (simp add: Let_def)
    next
      case (Inr P)
      then obtain i where i: "node_at s P = Some i" "fs_resolve start pp True s =
          (if ftype (nodes s i) \<noteq> FS_TYPE_DIR then FS_ERR_NOT_DIR else i)"
        using canon by auto
      show thesis
      proof (cases "ftype (nodes s i) = FS_TYPE_DIR")
        case True
        then show thesis
          using ok [of P _ i] i Inr spec call node_at_used(1) [OF tw i(1)]
          by (auto simp: Let_def fs_abs_Dir S_def)
      next
        case False
        then show thesis using err [of FS_ERR_NOT_DIR] i Inr spec call by (simp add: Let_def fs_abs_Dir)
      qed
    qed
  qed
qed

section \<open>Creating and removing entries\<close>

lemma abs_cong:
  assumes "nodes s' = nodes s" and "\<And>i. i \<in> {0..<128} \<Longrightarrow> content s' i = content s i" and "tree_wf (nodes s)"
  shows "fs_abs s' = fs_abs s" and "node_at s' = node_at s"
proof -
  show at: "node_at s' = node_at s" using node_at_cong [of s' s] assms by (simp add: fun_eq_iff)
  show "fs_abs s' = fs_abs s"
  proof
    fix path
    show "fs_abs s' path = fs_abs s path"
      using assms node_at_used(1) [OF assms(3), of path]
      by (cases "node_at s path") (auto simp: fs_abs_def at entry_of_def)
  qed
qed

lemma cwd_abs_cong: "node_at s' = node_at s \<Longrightarrow> cwd s' = cwd s \<Longrightarrow> cwd_abs s' = cwd_abs s"
  by (simp add: cwd_abs_def)

definition new_node :: "int \<Rightarrow> string \<Rightarrow> fs_type_t \<Rightarrow> fs_node_t" where
  "new_node p nm ty = \<lparr>used = True, parent = p, ftype = ty, name = nm, data = 0, fsize = 0, cap = 0\<rparr>"

lemma new_node_eq:
  "(n :: fs_node_t)\<lparr>used := True, parent := p, ftype := ty, name := nm, data := 0, fsize := 0, cap := 0\<rparr> =
     new_node p nm ty"
  by (cases n) (simp add: new_node_def)

lemma nodes_upd_bufs:
  assumes "bufs_wf s" and "\<And>i. i \<in> {0..<128} \<Longrightarrow> data (nd i) = data (nodes s i) \<and>
      fsize (nd i) = fsize (nodes s i) \<and> cap (nd i) = cap (nodes s i)"
  shows "bufs_wf (s\<lparr>nodes := nd\<rparr>)" and "\<And>i. i \<in> {-1..<128} \<Longrightarrow> content (s\<lparr>nodes := nd\<rparr>) i = content s i"
proof -
  let ?t = "s\<lparr>nodes := nd\<rparr>"
  have heap: "heap_wf ?t = heap_wf s" "live ?t = live s" "ram ?t = ram s"
    by (simp_all add: heap_wf_def live_def heap_blocks_def)
  have ptr: "buf_ptr ?t i = buf_ptr s i" "buf_len ?t i = buf_len s i" "buf_cap ?t i = buf_cap s i"
    if "i \<in> {-1..<128}" for i
    using assms(2) [of i] that by (auto simp: buf_ptr_def buf_len_def buf_cap_def)
  show "bufs_wf ?t" using assms(1) by (simp add: bufs_wf_def buf_ok_def heap ptr)
  show "content ?t i = content s i" if "i \<in> {-1..<128}" for i
    using that by (simp add: content_def ptr buf_bytes_def heap)
qed

lemma unused_node_blank:
  assumes "fs_wf s" and "k \<in> {1..<128}" and "\<not> used (nodes s k)"
  shows "data (nodes s k) = 0" and "fsize (nodes s k) = 0" and "cap (nodes s k) = 0"
proof -
  show d: "data (nodes s k) = 0" using fs_wfD(7) [OF assms(1), of k] assms by auto
  have "buf_ok s (data (nodes s k)) (fsize (nodes s k)) (cap (nodes s k))"
    using bufs_wfD(1) [OF fs_wfD(1) [OF assms(1)], of k] assms(2)
    by (simp add: buf_ptr_def buf_len_def buf_cap_def)
  then show "fsize (nodes s k) = 0" "cap (nodes s k) = 0" using d by (simp_all add: buf_ok_def)
qed

lemma fs_create_entry_cases:
  assumes wf: "fs_wf s" and P: "node_at s P = Some p" and dir: "ftype (nodes s p) = FS_TYPE_DIR"
    and nm: "length nm < FS_MAX_NAME"
  obtains (err) e where "spec_create (fs_abs s) P nm ty = Inl e" and "fs_create_entry p nm ty s = (e, s)"
      and "e < 0"
  | (ok) k s' where "spec_create (fs_abs s) P nm ty = Inr (fs_abs s')" and "fs_create_entry p nm ty s = (k, s')"
      and "k \<in> {1..<128}" and "fs_wf s'" and "cwd_abs s' = cwd_abs s" and "node_at s' (P @ [nm]) = Some k"
      and "s' = s\<lparr>nodes := (nodes s)(k := new_node p nm ty)\<rparr>"
      and "\<And>path. path \<noteq> P @ [nm] \<Longrightarrow> node_at s' path = node_at s path"
      and "\<And>i. i \<in> {-1..<128} \<Longrightarrow> content s' i = content s i"
proof -
  have tw: "tree_wf (nodes s)" using fs_wfD(2) [OF wf] .
  have exists: "node_at s (P @ [nm]) = None \<longleftrightarrow> fs_find_child p nm s < 0"
    using P by (simp add: node_at_snoc)
  consider "\<not> fs_is_valid_name nm \<or> ty = FS_TYPE_FILE \<and> \<not> fs_ends_with_txt nm \<or> 0 \<le> fs_find_child p nm s
      \<or> fs_alloc_node s < 0"
    | "fs_is_valid_name nm" "ty = FS_TYPE_FILE \<Longrightarrow> fs_ends_with_txt nm" "\<not> 0 \<le> fs_find_child p nm s"
      "\<not> fs_alloc_node s < 0" by blast
  then show thesis
  proof cases
    case 1
    then have "\<exists>e. spec_create (fs_abs s) P nm ty = Inl e \<and> fs_create_entry p nm ty s = (e, s) \<and> e < 0"
      using fs_alloc_node_full [OF tw]
      by (auto simp: spec_create_def fs_create_entry_def Let_def exists)
    then show thesis using err by blast
  next
    case 2
    define k where "k = fs_alloc_node s"
    have k: "k \<in> {1..<128}" "\<not> used (nodes s k)" using fs_alloc_node_free 2(4) by (simp_all add: k_def)
    define s' where "s' = s\<lparr>nodes := (nodes s)(k := new_node p nm ty)\<rparr>"
    have trunc: "fs_strcpy nm FS_MAX_NAME = nm" using nm by (simp add: fs_strcpy_def)
    have call: "fs_create_entry p nm ty s = (k, s')"
      using 2 unfolding fs_create_entry_def Let_def node_upd_def trunc s'_def new_node_eq k_def [symmetric]
      by simp
    have n: "used (new_node p nm ty)" "parent (new_node p nm ty) = p" "name (new_node p nm ty) = nm"
      "ftype (new_node p nm ty) = ty" by (simp_all add: new_node_def)
    have fresh: "\<forall>i. \<not> is_child (nodes s) p nm i"
      using 2(3) fs_find_child_neg [of p nm s] fs_find_child_none [of p nm s] by simp
    have tw': "tree_wf (nodes s')"
      unfolding s'_def using add_leaf_wf [OF tw k node_at_used(1,2) [OF tw P] dir n(1-3) 2(1) nm _ fresh] 2(2) n(4)
      by simp
    have nd: "nodes s' = (nodes s)(k := new_node p nm ty)" by (simp add: s'_def)
    note at = node_at_add [OF tw tw' nd k n(1-3) P fresh]
    note blank = unused_node_blank [OF wf k]
    have bufs: "bufs_wf s'" "\<And>i. i \<in> {-1..<128} \<Longrightarrow> content s' i = content s i"
      unfolding s'_def using nodes_upd_bufs [OF fs_wfD(1) [OF wf], of "(nodes s)(k := new_node p nm ty)"] blank
      by (auto simp: new_node_def)
    have cwd: "cwd s' = cwd s" "cwd s \<noteq> k" using fs_wfD(5) [OF wf] k by (auto simp: s'_def)
    have wf': "fs_wf s'"
      using wf bufs(1) tw' cwd unfolding fs_wf_def by (auto simp: nd new_node_def)
    have new: "node_at s (P @ [nm]) = None" using 2(3) exists by simp
    have "node_at s' (cwd_abs s) = Some (cwd s')" using at [of "cwd_abs s"] cwd_abs [OF wf] new cwd by auto
    then have "cwd_abs s' = cwd_abs s" by (rule cwd_abs_eqI [OF tw'])
    moreover have "content s k = []"
      using blank k by (simp add: content_def buf_len_def buf_bytes_def)
    then have "fs_abs s' = (fs_abs s)(P @ [nm] \<mapsto> (if ty = FS_TYPE_DIR then Dir else File []))"
    proof -
      have "fs_abs s' path = ((fs_abs s)(P @ [nm] \<mapsto> (if ty = FS_TYPE_DIR then Dir else File []))) path" for path
      proof (cases "path = P @ [nm]")
        case True
        then show ?thesis
          using at bufs(2) [of k] k \<open>content s k = []\<close> by (simp add: fs_abs_def entry_of_def nd n)
      next
        case False
        then show ?thesis
          using at [of path] bufs(2) node_at_used(1,2) [OF tw, of path] k
          by (cases "node_at s path") (auto simp: fs_abs_def entry_of_def nd)
      qed
      then show ?thesis by blast
    qed
    then have "spec_create (fs_abs s) P nm ty = Inr (fs_abs s')"
      using 2 exists fs_alloc_node_full [OF tw] by (auto simp: spec_create_def)
    ultimately show thesis using ok [OF _ call k(1) wf' _ _ s'_def] at bufs(2) by simp
  qed
qed

lemma fs_create_unused:
  assumes "fs_wf s" and "fs_create_entry p nm ty s = (k, s')" and "0 \<le> k"
  shows "\<not> used (nodes s k)"
  using assms(2,3) fs_alloc_node_free(2) [of s]
  by (auto simp: fs_create_entry_def Let_def split: if_splits)

section \<open>The operations refine their specifications\<close>

lemma rebuild_cwd_path: "\<exists>x. fs_rebuild_cwd_path s = s\<lparr>cwd_path := x\<rparr>"
  by (auto simp: fs_rebuild_cwd_path_def Let_def)

lemma cwd_upd_same [simp]:
  "nodes (s\<lparr>cwd := c, cwd_path := x\<rparr>) = nodes s" "node_at (s\<lparr>cwd := c, cwd_path := x\<rparr>) = node_at s"
  "fs_abs (s\<lparr>cwd := c, cwd_path := x\<rparr>) = fs_abs s" "bufs_wf (s\<lparr>cwd := c, cwd_path := x\<rparr>) = bufs_wf s"
  "content (s\<lparr>cwd := c, cwd_path := x\<rparr>) = content s"
proof -
  let ?t = "s\<lparr>cwd := c, cwd_path := x\<rparr>"
  show nd: "nodes ?t = nodes s" by simp
  have fc: "fs_find_child p nm ?t = fs_find_child p nm s" for p nm by (simp add: fs_find_child_def)
  have "walk ?t i path = walk s i path" for i path
    by (induction path arbitrary: i) (simp_all add: fc Let_def)
  then show at: "node_at ?t = node_at s" by (simp add: node_at_def fun_eq_iff)
  have heap: "heap_wf ?t = heap_wf s" "live ?t = live s"
    by (simp_all add: heap_wf_def live_def heap_blocks_def)
  have buf: "buf_ptr ?t = buf_ptr s" "buf_len ?t = buf_len s" "buf_cap ?t = buf_cap s"
    by (simp_all add: buf_ptr_def buf_len_def buf_cap_def fun_eq_iff)
  show ct: "content ?t = content s" by (simp add: content_def buf buf_bytes_def fun_eq_iff)
  have "entry_of ?t = entry_of s" by (simp add: entry_of_def ct fun_eq_iff)
  then show "fs_abs ?t = fs_abs s" by (intro ext) (simp add: fs_abs_def at)
  show "bufs_wf ?t = bufs_wf s" by (simp add: bufs_wf_def heap buf buf_ok_def)
qed

lemma cwd_upd_wf:
  assumes "bufs_wf s" "tree_wf (nodes s)"
    and "\<And>i. i \<in> {0..<128} \<Longrightarrow> data (nodes s i) \<noteq> 0 \<Longrightarrow> used (nodes s i) \<and> ftype (nodes s i) = FS_TYPE_FILE"
    and "c \<in> {0..<128}" "used (nodes s c)" "ftype (nodes s c) = FS_TYPE_DIR" and "node_at s C = Some c"
  shows "fs_wf (s\<lparr>cwd := c, cwd_path := x\<rparr>)" and "fs_view (s\<lparr>cwd := c, cwd_path := x\<rparr>) = (fs_abs s, C)"
proof -
  show "fs_wf (s\<lparr>cwd := c, cwd_path := x\<rparr>)"
    unfolding fs_wf_def using assms by (simp only: cwd_upd_same) simp
  have "cwd_abs (s\<lparr>cwd := c, cwd_path := x\<rparr>) = C"
    by (rule cwd_abs_eqI) (use assms in simp_all)
  then show "fs_view (s\<lparr>cwd := c, cwd_path := x\<rparr>) = (fs_abs s, C)" by (simp add: fs_view_def)
qed

lemma fs_mkdir_refines:
  assumes wf: "fs_wf s" and call: "fs_mkdir path s = (r, s')"
  shows "fs_wf s'" and "spec_mkdir path (fs_view s) = (r, fs_view s')"
proof -
  from wf have "fs_wf s' \<and> spec_mkdir path (fs_view s) = (r, fs_view s')"
  proof (cases rule: spec_parent_cases [where path = path])
    case (err e)
    then show ?thesis using wf call by (auto simp: fs_mkdir_def spec_mkdir_def fs_view_def)
  next
    case (ok P p nm)
    have len: "length nm < FS_MAX_NAME" using ok(5) by simp
    show ?thesis
    proof (cases "fs_is_valid_name nm")
      case False
      then show ?thesis using wf call ok by (auto simp: fs_mkdir_def spec_mkdir_def fs_view_def)
    next
      case True
      from wf ok(3,4) len show ?thesis
      proof (cases rule: fs_create_entry_cases [where ty = FS_TYPE_DIR])
        case (err e)
        then show ?thesis using wf call ok True by (auto simp: fs_mkdir_def spec_mkdir_def fs_view_def)
      next
        case (ok k t)
        note new = this
        then show ?thesis
          using call \<open>spec_parent (fs_abs s) (cwd_abs s) path = Inr (P, nm)\<close>
            \<open>fs_resolve_parent path s = Inr (p, nm)\<close> True
          by (auto simp: fs_mkdir_def spec_mkdir_def fs_view_def)
      qed
    qed
  qed
  then show "fs_wf s'" and "spec_mkdir path (fs_view s) = (r, fs_view s')" by auto
qed

lemma fs_touch_refines:
  assumes wf: "fs_wf s" and call: "fs_touch path s = (r, s')"
  shows "fs_wf s'" and "spec_touch path (fs_view s) = (r, fs_view s')"
proof -
  from wf have "fs_wf s' \<and> spec_touch path (fs_view s) = (r, fs_view s')"
  proof (cases rule: spec_parent_cases [where path = path])
    case (err e)
    then show ?thesis using wf call by (auto simp: fs_touch_def spec_touch_def fs_view_def)
  next
    case (ok P p nm)
    note parent = this
    have len: "length nm < FS_MAX_NAME" using ok(5) by simp
    have at: "node_at s (P @ [nm]) = (if fs_find_child p nm s < 0 then None else Some (fs_find_child p nm s))"
      using ok(3) by (simp add: node_at_snoc)
    show ?thesis
    proof (cases "0 \<le> fs_find_child p nm s")
      case True
      then show ?thesis
        using wf call parent at
        by (cases "ftype (nodes s (fs_find_child p nm s))")
          (auto simp: fs_touch_def spec_touch_def fs_view_def fs_abs_def entry_of_def)
    next
      case False
      then have none: "fs_abs s (P @ [nm]) = None" using at by simp
      from wf ok(3,4) len show ?thesis
      proof (cases rule: fs_create_entry_cases [where ty = FS_TYPE_FILE])
        case (err e)
        then have "fs_touch path s = (e, s)" "spec_touch path (fs_view s) = (e, fs_view s)"
          using False by (simp_all add: fs_touch_def spec_touch_def fs_view_def parent(1,2) none)
        then show ?thesis using wf call by auto
      next
        case (ok k t)
        then have "fs_touch path s = (FS_OK, t)" "spec_touch path (fs_view s) = (FS_OK, fs_view t)"
          using False by (simp_all add: fs_touch_def spec_touch_def fs_view_def parent(1,2) none)
        then show ?thesis using ok(4) call by auto
      qed
    qed
  qed
  then show "fs_wf s'" and "spec_touch path (fs_view s) = (r, fs_view s')" by auto
qed

lemma fs_cd_refines:
  assumes wf: "fs_wf s" and call: "fs_cd path s = (r, s')"
  shows "fs_wf s'" and "spec_cd path (fs_view s) = (r, fs_view s')"
proof -
  from wf have "fs_wf s' \<and> spec_cd path (fs_view s) = (r, fs_view s')"
  proof (cases rule: fs_resolve_cases [where path = path])
    case (err e)
    then show ?thesis using wf call by (auto simp: fs_cd_def spec_cd_def fs_view_def Let_def)
  next
    case (ok P i)
    show ?thesis
    proof (cases "ftype (nodes s i) = FS_TYPE_DIR")
      case False
      then show ?thesis using wf call ok
        by (auto simp: fs_cd_def spec_cd_def fs_view_def Let_def fs_abs_Dir)
    next
      case True
      obtain x where "fs_rebuild_cwd_path (s\<lparr>cwd := i\<rparr>) = s\<lparr>cwd := i, cwd_path := x\<rparr>"
        using rebuild_cwd_path [of "s\<lparr>cwd := i\<rparr>"] by blast
      then have "fs_cd path s = (FS_OK, s\<lparr>cwd := i, cwd_path := x\<rparr>)"
        using True ok by (simp add: fs_cd_def Let_def)
      moreover have "fs_abs s P = Some Dir" using True ok by (auto simp: fs_abs_Dir)
      ultimately show ?thesis
        using call ok cwd_upd_wf [OF fs_wfD(1,2,7) [OF wf] ok(3,4) True ok(2), of x]
        by (auto simp: spec_cd_def fs_view_def [of s])
    qed
  qed
  then show "fs_wf s'" and "spec_cd path (fs_view s) = (r, fs_view s')" by auto
qed

text \<open>Releasing the buffer of a node and marking the node unused.\<close>

lemma free_node:
  fixes s :: "'a okfs_scheme"
  assumes wf: "fs_wf s" and i: "i \<in> {1..<128}"
  defines "n \<equiv> nodes s i"
  defines "s' \<equiv> s\<lparr>heap_mem := kfree_heap (data n) (heap_mem s),
      nodes := (nodes s)(i := n\<lparr>data := 0, used := False, fsize := 0, cap := 0\<rparr>)\<rparr>"
  shows "bufs_wf s'" and "\<And>j. j \<in> {-1..<128} \<Longrightarrow> j \<noteq> i \<Longrightarrow> content s' j = content s j"
    and "buf_step (data n) 0 s s'" and "live s' = (live s)(data n := None)"
proof -
  have hw: "heap_wf s" using fs_wfD(3) [OF wf] .
  have bo: "buf_ok s (data n) (fsize n) (cap n)"
    using bufs_wfD(1) [OF fs_wfD(1) [OF wf], of i] i by (simp add: buf_ptr_def buf_len_def buf_cap_def n_def)
  have same: "live s' = live (kfree (data n) s)" "heap_wf s' = heap_wf (kfree (data n) s)" "ram s' = ram s"
    by (simp_all add: s'_def kfree_okfs live_def heap_wf_def heap_blocks_def)
  have null: "live s 0 = None" using kh.null_not_live [OF hw] .
  show live: "live s' = (live s)(data n := None)"
  proof (cases "data n = 0")
    case True
    then show ?thesis using null kh.release_null [of s] by (simp add: same fun_upd_idem)
  next
    case False
    then show ?thesis using kh.release_regions [OF hw, of "data n"] buf_ok_live [OF bo] by (simp add: same)
  qed
  have hw': "heap_wf s'"
    using kh.release_ok [OF hw, of "data n"] buf_ok_live [OF bo] hw kh.release_null [of s]
    by (cases "data n = 0") (auto simp: same)
  show step: "buf_step (data n) 0 s s'"
    using hw' null by (simp add: buf_step_def live same)
  have own: "buf_ptr s i = data n" using i by (simp add: buf_ptr_def n_def)
  have own': "buf_ptr s' i = 0" "buf_len s' i = 0" "buf_cap s' i = 0"
    using i by (simp_all add: buf_ptr_def buf_len_def buf_cap_def s'_def)
  have others: "buf_ptr s' j = buf_ptr s j \<and> buf_len s' j = buf_len s j \<and> buf_cap s' j = buf_cap s j"
    if "j \<in> {-1..<128}" "j \<noteq> i" for j
    using that by (simp add: buf_ptr_def buf_len_def buf_cap_def s'_def)
  have k: "i \<in> {-1..<128}" using i by simp
  have ok': "buf_ok s' (buf_ptr s' i) (buf_len s' i) (buf_cap s' i)" by (simp add: own' buf_ok_def)
  note bw = bufs_wf_step [OF fs_wfD(1) [OF wf] k step [folded own own'(1)] ok']
  show "bufs_wf s'" by (rule bw(1)) (rule others)
  show "content s' j = content s j" if "j \<in> {-1..<128}" "j \<noteq> i" for j
    by (rule bw(2)) (use others that in auto)
qed

lemma fs_rm_state:
  assumes i: "fs_resolve (cwd s) path False s = i" "0 < i"
    and leaf: "ftype (nodes s i) = FS_TYPE_DIR \<longrightarrow>
      scan 1 FS_MAX_NODES (\<lambda>j. used (nodes s (int j)) \<and> parent (nodes s (int j)) = i) = None"
  shows "\<exists>x. fs_rm path s = (FS_OK, s\<lparr>heap_mem := kfree_heap (data (nodes s i)) (heap_mem s),
      nodes := (nodes s)(i := (nodes s i)\<lparr>data := 0, used := False, fsize := 0, cap := 0\<rparr>),
      cwd := (if cwd s = i then parent (nodes s i) else cwd s), cwd_path := x\<rparr>)"
proof -
  define n where "n = nodes s i"
  define s1 where "s1 = (if data n \<noteq> 0 then node_upd i (\<lambda>n. n\<lparr>data := 0\<rparr>) (kfree (data n) s) else s)"
  have s1: "s1 = s\<lparr>heap_mem := kfree_heap (data n) (heap_mem s), nodes := (nodes s)(i := n\<lparr>data := 0\<rparr>)\<rparr>"
  proof (cases "data n = 0")
    case True
    then have n: "n\<lparr>data := 0\<rparr> = n" by (cases n) simp
    have "(nodes s)(i := n\<lparr>data := 0\<rparr>) = nodes s" by (simp only: n) (simp add: n_def)
    then show ?thesis using True by (simp add: s1_def kfree_heap_def)
  qed (simp add: s1_def node_upd_def kfree_okfs n_def)
  have n1: "parent (nodes s1 i) = parent n" "cwd s1 = cwd s" by (simp_all add: s1)
  obtain x where x: "fs_rebuild_cwd_path (s1\<lparr>cwd := parent n\<rparr>) = s1\<lparr>cwd := parent n, cwd_path := x\<rparr>"
    using rebuild_cwd_path [of "s1\<lparr>cwd := parent n\<rparr>"] by blast
  define s2 where "s2 = (if cwd s = i then fs_rebuild_cwd_path (s1\<lparr>cwd := parent n\<rparr>) else s1)"
  have s2: "s2 = s1\<lparr>cwd := (if cwd s = i then parent n else cwd s), cwd_path := (if cwd s = i then x else cwd_path s)\<rparr>"
    unfolding s2_def x by (simp add: s1)
  have "fs_rm path s = (FS_OK, node_upd i (\<lambda>n. n\<lparr>used := False, fsize := 0, cap := 0\<rparr>) s2)"
    unfolding fs_rm_def Let_def i(1) n_def [symmetric] s1_def [symmetric] n1 s2_def [symmetric]
    using i(2) leaf by (simp flip: n_def)
  also have "\<dots> = (FS_OK, s\<lparr>heap_mem := kfree_heap (data n) (heap_mem s),
      nodes := (nodes s)(i := n\<lparr>data := 0, used := False, fsize := 0, cap := 0\<rparr>),
      cwd := (if cwd s = i then parent n else cwd s), cwd_path := (if cwd s = i then x else cwd_path s)\<rparr>)"
    by (simp add: node_upd_def s2 s1)
  finally show ?thesis unfolding n_def by blast
qed

lemma no_children_iff:
  "scan 1 FS_MAX_NODES (\<lambda>j. used (nodes s (int j)) \<and> parent (nodes s (int j)) = i) = None \<longleftrightarrow>
     (\<forall>j \<in> {1..<128}. used (nodes s j) \<longrightarrow> parent (nodes s j) \<noteq> i)"
proof
  assume "scan 1 FS_MAX_NODES (\<lambda>j. used (nodes s (int j)) \<and> parent (nodes s (int j)) = i) = None"
  then have a: "1 \<le> k \<Longrightarrow> k < FS_MAX_NODES \<Longrightarrow> used (nodes s (int k)) \<Longrightarrow> parent (nodes s (int k)) \<noteq> i" for k
    by (auto simp: scan_None_iff)
  show "\<forall>j \<in> {1..<128}. used (nodes s j) \<longrightarrow> parent (nodes s j) \<noteq> i"
  proof (intro ballI impI)
    fix j assume j: "j \<in> {1..<128 :: int}" "used (nodes s j)"
    then have "1 \<le> nat j" "nat j < FS_MAX_NODES" "int (nat j) = j" by auto
    then show "parent (nodes s j) \<noteq> i" using a [of "nat j"] j by simp
  qed
qed (auto simp: scan_None_iff)

lemma children_abs:
  assumes wf: "tree_wf (nodes s)" and P: "node_at s P = Some i"
  shows "(\<exists>c. fs_abs s (P @ [c]) \<noteq> None) \<longleftrightarrow> (\<exists>j \<in> {1..<128}. used (nodes s j) \<and> parent (nodes s j) = i)"
proof -
  have "(\<exists>c. fs_abs s (P @ [c]) \<noteq> None) \<longleftrightarrow> (\<exists>c j. node_at s (P @ [c]) = Some j)" by simp
  also have "\<dots> \<longleftrightarrow> (\<exists>j \<in> {1..<128}. used (nodes s j) \<and> parent (nodes s j) = i)"
    using P by (auto simp: node_at_snoc_iff [OF wf] is_child_def)
  finally show ?thesis .
qed

lemma fs_rm_refines:
  assumes wf: "fs_wf s" and call: "fs_rm path s = (r, s')"
  shows "fs_wf s'" and "spec_rm path (fs_view s) = (r, fs_view s')"
proof -
  have tw: "tree_wf (nodes s)" using fs_wfD(2) [OF wf] .
  from wf have "fs_wf s' \<and> spec_rm path (fs_view s) = (r, fs_view s')"
  proof (cases rule: fs_resolve_cases [where path = path])
    case (err e)
    then show ?thesis using wf call by (auto simp: fs_rm_def spec_rm_def fs_view_def Let_def)
  next
    case (ok P i)
    have res: "fs_resolve (cwd s) path False s = i" using ok(6) by simp
    have dir: "fs_abs s P = Some Dir \<longleftrightarrow> ftype (nodes s i) = FS_TYPE_DIR" using ok(2) by (auto simp: fs_abs_Dir)
    note kids = children_abs [OF tw ok(2)] no_children_iff [of s i]
    consider "i = 0" | "0 < i" "ftype (nodes s i) = FS_TYPE_DIR" "\<exists>c. fs_abs s (P @ [c]) \<noteq> None"
      | "0 < i" "ftype (nodes s i) \<noteq> FS_TYPE_DIR \<or> \<not> (\<exists>c. fs_abs s (P @ [c]) \<noteq> None)"
      using ok(3) by fastforce
    then show ?thesis
    proof cases
      case 1
      then show ?thesis using wf call ok(1,5) res by (auto simp: fs_rm_def spec_rm_def fs_view_def)
    next
      case 2
      then have "fs_rm path s = (FS_ERR_NOT_EMPTY, s)" using res kids by (auto simp: fs_rm_def Let_def)
      moreover have "spec_rm path (fs_view s) = (FS_ERR_NOT_EMPTY, fs_view s)"
        using 2 ok(1,5) dir by (simp add: spec_rm_def fs_view_def)
      ultimately show ?thesis using wf call by simp
    next
      case 3
      have i: "i \<in> {1..<128}" using 3(1) ok(3) by simp
      have leaf: "parent (nodes s j) \<noteq> i" if "j \<in> {1..<128}" "used (nodes s j)" for j
      proof (cases "ftype (nodes s i) = FS_TYPE_DIR")
        case True
        then show ?thesis using 3(2) kids that by blast
      next
        case False
        then show ?thesis using tree_wf_node(6) [OF tw that] by auto
      qed
      then obtain x where rm: "fs_rm path s = (FS_OK, s\<lparr>heap_mem := kfree_heap (data (nodes s i)) (heap_mem s),
          nodes := (nodes s)(i := (nodes s i)\<lparr>data := 0, used := False, fsize := 0, cap := 0\<rparr>),
          cwd := (if cwd s = i then parent (nodes s i) else cwd s), cwd_path := x\<rparr>)"
        using fs_rm_state [OF res 3(1)] kids(2) by blast
      define t where "t = s\<lparr>heap_mem := kfree_heap (data (nodes s i)) (heap_mem s),
          nodes := (nodes s)(i := (nodes s i)\<lparr>data := 0, used := False, fsize := 0, cap := 0\<rparr>)\<rparr>"
      note fn = free_node [OF wf i, folded t_def]
      have nd: "nodes t = (nodes s)(i := (nodes s i)\<lparr>data := 0, used := False, fsize := 0, cap := 0\<rparr>)"
        by (simp add: t_def)
      have twt: "tree_wf (nodes t)" unfolding nd by (rule remove_leaf_wf [OF tw i]) (simp_all add: leaf)
      have P: "P \<noteq> []" using ok(5) 3(1) by simp
      have at: "node_at t path = (if path = P then None else node_at s path)" for path
        by (rule node_at_remove [OF tw twt nd _ ok(2) P]) (simp_all add: leaf)
      have abs: "fs_abs t = (fs_abs s)(P := None)"
      proof
        fix path
        show "fs_abs t path = ((fs_abs s)(P := None)) path"
        proof (cases "path = P \<or> node_at s path = None")
          case True
          then show ?thesis using at [of path] by (auto simp: fs_abs_def)
        next
          case False
          then obtain j where j: "node_at s path = Some j" "path \<noteq> P" by auto
          then have "j \<noteq> i" using node_at_inj [OF tw] ok(2) by blast
          then show ?thesis
            using j at [of path] fn(2) [of j] node_at_used(1) [OF tw j(1)]
            by (simp add: fs_abs_def entry_of_def nd)
        qed
      qed
      define c C where "c = (if cwd s = i then parent (nodes s i) else cwd s)"
        and "C = (if cwd_abs s = P then butlast (cwd_abs s) else cwd_abs s)"
      have same: "cwd_abs s = P \<longleftrightarrow> cwd s = i" using cwd_abs [OF wf] ok(2) node_at_inj [OF tw] by auto
      have pi: "parent (nodes s i) \<noteq> i" using leaf [OF i ok(4)] .
      have "node_at s C = Some c"
        using node_at_parent [OF tw ok(2)] cwd_abs [OF wf] same 3(1)
        by (cases "cwd s = i") (auto simp: c_def C_def)
      moreover have "C \<noteq> P" using P by (auto simp: C_def) (metis append_butlast_last_id append_self_conv not_Cons_self2)
      ultimately have C: "node_at t C = Some c" using at [of C] by simp
      have c: "c \<in> {0..<128}" "used (nodes t c)" "ftype (nodes t c) = FS_TYPE_DIR"
        using tree_wf_node(4-6) [OF tw i ok(4)] fs_wfD(4-6) [OF wf] pi by (auto simp: c_def nd)
      have data: "used (nodes t j) \<and> ftype (nodes t j) = FS_TYPE_FILE"
        if "j \<in> {0..<128}" "data (nodes t j) \<noteq> 0" for j
        using that fs_wfD(7) [OF wf, of j] by (cases "j = i") (auto simp: nd)
      note cw = cwd_upd_wf [OF fn(1) twt data c C, of x]
      have "s' = t\<lparr>cwd := c, cwd_path := x\<rparr>" "r = FS_OK" using rm call by (simp_all add: t_def c_def)
      moreover have "spec_rm path (fs_view s) = (FS_OK, (fs_abs s)(P := None), C)"
        using 3 ok(1,5) dir by (auto simp: spec_rm_def fs_view_def C_def)
      ultimately show ?thesis using cw by (simp add: abs)
    qed
  qed
  then show "fs_wf s'" and "spec_rm path (fs_view s) = (r, fs_view s')" by auto
qed

end
