(* ===== verification/Okfs_Write.thy ===== *)
theory Okfs_Write
  imports Okfs_Spec
begin

text \<open>
  Writing and appending to files: refinement of the abstract file system, including the path
  on which the heap has no room, and the bytes of other components in the heap.
\<close>

section \<open>Specification\<close>

text \<open>
  Whether the heap has room is not determined by the abstract state, so the specification is
  a relation. When a new file cannot be filled for lack of space it stays behind, empty.
\<close>

definition spec_store :: "tree \<Rightarrow> string list \<Rightarrow> string \<Rightarrow> int \<Rightarrow> tree \<Rightarrow> bool" where
  "spec_store t P ds r t' \<longleftrightarrow>
     (r = FS_OK \<and> t' = t(P \<mapsto> File ds) \<and> length ds \<le> 65536) \<or> (r = FS_ERR_NO_SPACE \<and> t' = t \<and> ds \<noteq> [])"

definition spec_write :: "string \<Rightarrow> string \<Rightarrow> tree \<times> string list \<Rightarrow> int \<Rightarrow> tree \<times> string list \<Rightarrow> bool" where
  "spec_write path ds = (\<lambda>(t, C) r (t', C'). C' = C \<and>
     (case spec_parent t C path of
        Inl e \<Rightarrow> r = e \<and> t' = t
      | Inr (P, nm) \<Rightarrow>
          (case t (P @ [nm]) of
             Some Dir \<Rightarrow> r = FS_ERR_NOT_FILE \<and> t' = t
           | Some (File _) \<Rightarrow> spec_store t (P @ [nm]) ds r t'
           | None \<Rightarrow> (case spec_create t P nm FS_TYPE_FILE of
                        Inl e \<Rightarrow> r = e \<and> t' = t
                      | Inr t1 \<Rightarrow> spec_store t1 (P @ [nm]) ds r t'))))"

definition spec_append :: "string \<Rightarrow> string \<Rightarrow> tree \<times> string list \<Rightarrow> int \<Rightarrow> tree \<times> string list \<Rightarrow> bool" where
  "spec_append path ds = (\<lambda>(t, C) r (t', C'). C' = C \<and>
     (case spec_lookup t C path of
        Inl e \<Rightarrow> r = e \<and> t' = t
      | Inr P \<Rightarrow>
          (case t P of
             Some (File old) \<Rightarrow>
               (r = FS_OK \<and> t' = t(P \<mapsto> File (old @ ds)) \<and> length (old @ ds) \<le> 65536) \<or>
               (r = FS_ERR_NO_SPACE \<and> t' = t \<and> ds \<noteq> [])
           | _ \<Rightarrow> r = FS_ERR_NOT_FILE \<and> t' = t)))"

text \<open>Heap regions that belong to no file and not to the editor keep their bytes.\<close>

definition foreign_kept :: "'a okfs_scheme \<Rightarrow> 'a okfs_scheme \<Rightarrow> bool" where
  "foreign_kept s s' \<longleftrightarrow>
     (\<forall>b m. live s b = Some m \<and> (\<forall>i \<in> {-1..<128}. buf_ptr s i \<noteq> b) \<longrightarrow>
        live s' b = Some m \<and> (\<forall>a \<in> region b m. ram s' a = ram s a))"

lemma buf_step_foreign:
  assumes "buf_step (buf_ptr s k) q s s'" and "k \<in> {-1..<128}"
  shows "foreign_kept s s'"
  unfolding foreign_kept_def
proof (intro allI impI)
  fix b m assume a: "live s b = Some m \<and> (\<forall>i \<in> {-1..<128}. buf_ptr s i \<noteq> b)"
  then have "b \<noteq> buf_ptr s k" using assms(2) by blast
  then show "live s' b = Some m \<and> (\<forall>a \<in> region b m. ram s' a = ram s a)"
    using buf_stepD [OF assms(1)] a by blast
qed

section \<open>Storing data in a file\<close>

lemma store_file:
  fixes s :: "'a okfs_scheme" and appending :: bool
  assumes wf: "fs_wf s" and Q: "node_at s Q = Some fid" and isfile: "ftype (nodes s fid) = FS_TYPE_FILE"
    and src: "src_ok s (data (nodes s fid)) src len"
  defines "old \<equiv> if appending then content s fid else []"
  obtains (fail) s' where "fs_set_file_data fid src len appending s = Some (FS_ERR_NO_SPACE, s')"
      and "fs_wf s'" and "fs_view s' = fs_view s" and "foreign_kept s s'" and "src_bytes src len s \<noteq> []"
      and "content s' (-1) = content s (-1)"
      and "\<exists>h l. s' = s\<lparr>heap_mem := h, klog := l\<rparr>"
  | (ok) s' where "fs_set_file_data fid src len appending s = Some (FS_OK, s')"
      and "fs_wf s'" and "fs_view s' = ((fs_abs s)(Q \<mapsto> File (old @ src_bytes src len s)), cwd_abs s)"
      and "length (old @ src_bytes src len s) \<le> 65536" and "foreign_kept s s'"
      and "content s' (-1) = content s (-1)"
      and "\<exists>h l r nd. s' = s\<lparr>heap_mem := h, klog := l, ram := r, nodes := nd\<rparr>"
proof -
  have tw: "tree_wf (nodes s)" using fs_wfD(2) [OF wf] .
  have fid: "fid \<in> {0..<128}" "used (nodes s fid)" using node_at_used [OF tw Q] by auto
  have root: "fid \<noteq> 0" using tree_wf_root [OF tw] isfile by auto
  from fs_wfD(1) [OF wf] fid(1) src show thesis
  proof (cases rule: fs_set_file_data_effect [where appending = appending])
    case (fail s')
    then obtain h l where s': "s' = s\<lparr>heap_mem := h, klog := l\<rparr>" by blast
    then have fields: "nodes s' = nodes s" "cwd s' = cwd s" "ram s' = ram s" by simp_all
    have ab: "fs_abs s' = fs_abs s" "node_at s' = node_at s" using abs_cong [OF fields(1) fail(4) tw] by auto
    have "fs_wf s'" using wf fail(2) fields by (simp add: fs_wf_def)
    moreover have "fs_view s' = fs_view s" using ab cwd_abs_cong [OF ab(2) fields(2)] by (simp add: fs_view_def)
    moreover have "foreign_kept s s'" using fail(3) fields by (simp add: foreign_kept_def)
    moreover have "src_bytes src len s \<noteq> []"
    proof
      assume "src_bytes src len s = []"
      then have "unat len = 0" by (simp add: src_bytes_def)
      moreover have "unat (fsize (nodes s fid)) \<le> unat (cap (nodes s fid))" "unat (cap (nodes s fid)) \<le> 65536"
        using buf_ok_cap [OF bufs_wfD(1) [OF fs_wfD(1) [OF wf], of fid]] fid(1)
        by (auto simp: buf_len_def buf_cap_def)
      ultimately show False
        using fail(6) fid(1) by (auto simp: content_def buf_len_def buf_bytes_def unat_less_iff split: if_splits)
    qed
    ultimately show thesis using that(1) [of s'] fail(1,4,5) by blast
  next
    case (ok s' q c)
    define n where "n = (nodes s fid)\<lparr>data := q, cap := c, fsize := of_nat (length old + unat len)\<rparr>"
    obtain h l r where s': "s' = s\<lparr>heap_mem := h, klog := l, ram := r, nodes := (nodes s)(fid := n)\<rparr>"
      using ok(7) unfolding n_def old_def by blast
    then have nd: "nodes s' = (nodes s)(fid := n)" and cwd: "cwd s' = cwd s" by simp_all
    have shape: "used (nodes s' i) = used (nodes s i) \<and> parent (nodes s' i) = parent (nodes s i) \<and>
        ftype (nodes s' i) = ftype (nodes s i) \<and> name (nodes s' i) = name (nodes s i)" for i
      by (simp add: nd n_def)
    have tw': "tree_wf (nodes s')" and at: "node_at s' path = node_at s path" for path
      using same_shape [OF shape] tw node_at_cong [of s' s] by simp_all
    have wf': "fs_wf s'"
      using wf ok(2) tw' fid isfile shape unfolding fs_wf_def cwd
      by (auto simp: nd n_def)
    have "fs_abs s' = (fs_abs s)(Q \<mapsto> File (old @ src_bytes src len s))"
    proof
      fix path
      show "fs_abs s' path = ((fs_abs s)(Q \<mapsto> File (old @ src_bytes src len s))) path"
      proof (cases "node_at s path")
        case None
        then show ?thesis using Q by (auto simp: fs_abs_def at)
      next
        case (Some i)
        then have "path = Q \<longleftrightarrow> i = fid" using Q node_at_inj [OF tw] by auto
        then show ?thesis
          using Some ok(4,5) isfile shape node_at_used(1) [OF tw Some]
          by (auto simp: fs_abs_def at entry_of_def old_def)
      qed
    qed
    moreover have "cwd_abs s' = cwd_abs s" by (rule cwd_abs_cong) (auto simp: at cwd)
    ultimately have "fs_view s' = ((fs_abs s)(Q \<mapsto> File (old @ src_bytes src len s)), cwd_abs s)"
      by (simp add: fs_view_def)
    moreover have "foreign_kept s s'"
      using buf_step_foreign [of s fid q s'] ok(6) fid(1) by (simp add: buf_ptr_def)
    moreover have "length (old @ src_bytes src len s) \<le> 65536" using ok(3) by (simp add: old_def)
    ultimately show thesis using that(2) [OF ok(1) wf'] ok(5) [of "-1"] fid(1) s' by auto
  qed
qed

section \<open>\<open>fs_write_file\<close> and \<open>fs_append_file\<close>\<close>

text \<open>
  The data to write: the length argument decides, and 0 means up to the NUL. The data must
  not lie in the buffer of a file.
\<close>

definition write_src :: "'a okfs_scheme \<Rightarrow> cbuf \<Rightarrow> u32 \<Rightarrow> u32 \<Rightarrow> bool" where
  "write_src s src len L \<longleftrightarrow> src \<noteq> Mem 0 \<and> (if len = 0 then fs_strlen src s else Some len) = Some L \<and>
     (\<forall>i \<in> {0..<128}. src_ok s (data (nodes s i)) src L)"

lemma write_src_Str: "length cs < 2 ^ 32 \<Longrightarrow> write_src s (Str cs) 0 (of_nat (length cs))"
  by (simp add: write_src_def fs_strlen_def)

lemma src_ok_null:
  assumes "heap_wf s" and "src_ok s a src len" shows "src_ok s 0 src len"
proof -
  have "live s 0 = None" using kh.null_not_live [OF assms(1)] .
  then have "b \<noteq> 0" if "live s b = Some m" for b m using that by auto
  then show ?thesis using assms(2) by (cases src) (auto simp: src_ok_def, blast)
qed

definition okfs_frame :: "'a okfs_scheme \<Rightarrow> 'a okfs_scheme \<Rightarrow> bool" where
  "okfs_frame s s' \<longleftrightarrow> foreign_kept s s' \<and> content s' (-1) = content s (-1) \<and>
     (\<exists>h l r nd. s' = s\<lparr>heap_mem := h, klog := l, ram := r, nodes := nd\<rparr>)"

lemma okfs_frameI:
  "foreign_kept s s' \<Longrightarrow> content s' (-1) = content s (-1) \<Longrightarrow>
     s' = s\<lparr>heap_mem := h, klog := l, ram := r, nodes := nd\<rparr> \<Longrightarrow> okfs_frame s s'"
  unfolding okfs_frame_def by blast

lemma okfs_frame_refl: "okfs_frame s s"
  by (rule okfs_frameI [where h = "heap_mem s" and l = "klog s" and r = "ram s" and nd = "nodes s"])
    (simp_all add: foreign_kept_def)

lemma store_new_file:
  fixes s :: "'a okfs_scheme"
  assumes wf: "fs_wf s" and src: "src_ok s 0 src L" and P: "node_at s P = Some p"
    and dir: "ftype (nodes s p) = FS_TYPE_DIR" and nm: "length nm < FS_MAX_NAME"
    and create: "fs_create_entry p nm FS_TYPE_FILE s = (k, s1)" "0 \<le> k"
  obtains r s' t1 where "fs_set_file_data k src L False s1 = Some (r, s')" and "fs_wf s'"
    and "spec_create (fs_abs s) P nm FS_TYPE_FILE = Inr t1"
    and "spec_store t1 (P @ [nm]) (src_bytes src L s) r (fs_abs s')" and "cwd_abs s' = cwd_abs s"
    and "okfs_frame s s'"
  using wf P dir nm
proof (cases rule: fs_create_entry_cases [where ty = FS_TYPE_FILE])
  case (err e)
  then show thesis using create by simp
next
  case (ok k' s1')
  then have k: "k' = k" "s1' = s1" using create by simp_all
  note ok = ok [unfolded k]
  have heap: "live s1 = live s" "heap_wf s1 = heap_wf s" "ram s1 = ram s" "data (nodes s1 k) = 0"
      "ftype (nodes s1 k) = FS_TYPE_FILE"
    using ok(7) by (simp_all add: heap_wf_def live_def heap_blocks_def new_node_def)
  have src1: "src_ok s1 (data (nodes s1 k)) src L" using src by (cases src) (simp_all add: src_ok_def heap)
  have bytes: "src_bytes src L s1 = src_bytes src L s"
    by (simp add: src_bytes_def buf_byte_def heap split: cbuf.split)
  have ptr: "buf_ptr s1 i = buf_ptr s i" if "i \<in> {-1..<128}" for i
    using that ok(3,7) unused_node_blank(1) [OF wf, of k] fs_create_unused [OF wf create]
    by (auto simp: buf_ptr_def new_node_def)
  have fk: "foreign_kept s s'" if "foreign_kept s1 s'" for s'
    using that unfolding foreign_kept_def heap by (simp add: ptr)
  have cont: "content s1 (-1) = content s (-1)" by (rule ok(9)) simp
  have s1: "s1 = s\<lparr>nodes := nodes s1\<rparr>" using ok(7) by simp
  from ok(4,6) heap(5) src1 show thesis
  proof (cases rule: store_file [where appending = False])
    case (fail s')
    obtain h l where "s' = s1\<lparr>heap_mem := h, klog := l\<rparr>" using fail(7) by blast
    then have "s' = s\<lparr>heap_mem := h, klog := l, ram := ram s, nodes := nodes s1\<rparr>" by (subst (asm) s1) simp
    from okfs_frameI [OF fk [OF fail(4)] _ this] have "okfs_frame s s'" using fail(6) cont by simp
    moreover have "fs_abs s' = fs_abs s1" "cwd_abs s' = cwd_abs s"
      using fail(3) ok(5) by (simp_all add: fs_view_def)
    ultimately show thesis using that [OF fail(1,2) ok(1)] fail(5) by (simp add: spec_store_def bytes)
  next
    case w: (ok s')
    obtain h l r nd where "s' = s1\<lparr>heap_mem := h, klog := l, ram := r, nodes := nd\<rparr>" using w(7) by blast
    then have "s' = s\<lparr>heap_mem := h, klog := l, ram := r, nodes := nd\<rparr>" by (subst (asm) s1) simp
    from okfs_frameI [OF fk [OF w(5)] _ this] have "okfs_frame s s'" using w(6) cont by simp
    moreover have "fs_abs s' = (fs_abs s1)(P @ [nm] \<mapsto> File (src_bytes src L s))" "cwd_abs s' = cwd_abs s"
      using w(3) ok(5) by (simp_all add: fs_view_def bytes)
    ultimately show thesis using that [OF w(1,2) ok(1)] w(4) by (simp add: spec_store_def bytes)
  qed
qed

lemma fs_write_file_effect:
  fixes s :: "'a okfs_scheme"
  assumes wf: "fs_wf s" and src: "write_src s src len L"
  obtains r s' where "fs_write_file path src len s = Some (r, s')" and "fs_wf s'"
    and "spec_write path (src_bytes src L s) (fs_view s) r (fs_view s')" and "okfs_frame s s'"
proof -
  note res = that
  note tw = fs_wfD(2) [OF wf] and hw = fs_wfD(3) [OF wf]
  let ?ds = "src_bytes src L s"
  have call: "fs_write_file path src len s = (case fs_resolve_parent path s of
      Inl err \<Rightarrow> Some (err, s)
    | Inr (p, nm) \<Rightarrow> let fid = fs_find_child p nm s in
        if fid < 0 then let (fid, s) = fs_create_entry p nm FS_TYPE_FILE s in
             if fid < 0 then Some (fid, s) else fs_set_file_data fid src L False s
        else if ftype (nodes s fid) \<noteq> FS_TYPE_FILE then Some (FS_ERR_NOT_FILE, s)
        else fs_set_file_data fid src L False s)"
    using src unfolding write_src_def fs_write_file_def by simp
  have noop: thesis
    if "fs_write_file path src len s = Some (r, s)" "spec_write path ?ds (fs_view s) r (fs_view s)" for r
    using res [OF that(1) wf that(2) okfs_frame_refl] .
  from wf show thesis
  proof (cases rule: spec_parent_cases [where path = path])
    case (err e)
    then show thesis using noop [of e] call by (simp add: spec_write_def fs_view_def)
  next
    case (ok P p nm)
    note parent = this
    have len: "length nm < FS_MAX_NAME" using ok(5) by simp
    have at: "node_at s (P @ [nm]) = (if fs_find_child p nm s < 0 then None else Some (fs_find_child p nm s))"
      using ok(3) by (simp add: node_at_snoc)
    define fid where "fid = fs_find_child p nm s"
    consider (new) "fid < 0" | (dir) "\<not> fid < 0" "ftype (nodes s fid) = FS_TYPE_DIR"
      | (old) "\<not> fid < 0" "ftype (nodes s fid) = FS_TYPE_FILE"
      using fs_type_t.exhaust by blast
    then show thesis
    proof cases
      case dir
      then have "fs_abs s (P @ [nm]) = Some Dir" using at by (auto simp: fs_abs_Dir fid_def)
      then show thesis
        using noop [of FS_ERR_NOT_FILE] call dir
        by (simp add: spec_write_def fs_view_def parent(1,2) fid_def)
    next
      case old
      then have Q: "node_at s (P @ [nm]) = Some fid" using at by (simp add: fid_def)
      then have "fid \<in> {0..<128}" using node_at_used(1) [OF tw] by simp
      then have so: "src_ok s (data (nodes s fid)) src L" using src by (simp add: write_src_def)
      have entry: "fs_abs s (P @ [nm]) = Some (File (content s fid))" using Q old by (simp add: fs_abs_def entry_of_def)
      have c: "fs_write_file path src len s = fs_set_file_data fid src L False s"
        using call old by (simp add: parent(2) Let_def flip: fid_def)
      from wf Q old(2) so show thesis
      proof (cases rule: store_file [where appending = False])
        case (fail s')
        obtain h l where "s' = s\<lparr>heap_mem := h, klog := l\<rparr>" using fail(7) by blast
        then have "s' = s\<lparr>heap_mem := h, klog := l, ram := ram s, nodes := nodes s\<rparr>" by simp
        from okfs_frameI [OF fail(4,6) this] have "okfs_frame s s'" .
        then show thesis using res [of FS_ERR_NO_SPACE s'] fail c entry
          by (simp add: spec_write_def spec_store_def fs_view_def parent(1))
      next
        case (ok s')
        then have "okfs_frame s s'" unfolding okfs_frame_def by blast
        then show thesis using res [of FS_OK s'] ok c entry
          by (simp add: spec_write_def spec_store_def fs_view_def parent(1))
      qed
    next
      case new
      then have none: "fs_abs s (P @ [nm]) = None" using at by (simp add: fid_def)
      obtain k s1 where cr: "fs_create_entry p nm FS_TYPE_FILE s = (k, s1)" by fastforce
      have c: "fs_write_file path src len s =
          (if k < 0 then Some (k, s1) else fs_set_file_data k src L False s1)"
        using call new cr by (simp add: parent(2) Let_def flip: fid_def)
      show thesis
      proof (cases "k < 0")
        case True
        from wf parent(3,4) len have "spec_create (fs_abs s) P nm FS_TYPE_FILE = Inl k \<and> s1 = s"
        proof (cases rule: fs_create_entry_cases [where ty = FS_TYPE_FILE])
          case (err e)
          then show ?thesis using cr by simp
        next
          case (ok k' t)
          then have "k \<in> {1..<128}" using cr by simp
          then show ?thesis using True by simp
        qed
        then show thesis using noop [of k] c True
          by (simp add: spec_write_def fs_view_def parent(1) none)
      next
        case False
        have "src_ok s 0 src L" using src src_ok_null [OF hw, of "data (nodes s 0)"] by (simp add: write_src_def)
        then obtain r s' t1 where w: "fs_set_file_data k src L False s1 = Some (r, s')" "fs_wf s'"
            "spec_create (fs_abs s) P nm FS_TYPE_FILE = Inr t1"
            "spec_store t1 (P @ [nm]) ?ds r (fs_abs s')" "cwd_abs s' = cwd_abs s" "okfs_frame s s'"
          using store_new_file [OF wf _ parent(3,4) len cr] False by (metis not_less)
        then show thesis using res [of r s'] c False
          by (simp add: spec_write_def fs_view_def parent(1) none)
      qed
    qed
  qed
qed

lemma fs_append_file_effect:
  fixes s :: "'a okfs_scheme"
  assumes wf: "fs_wf s" and src: "write_src s src len L"
  obtains r s' where "fs_append_file path src len s = Some (r, s')" and "fs_wf s'"
    and "spec_append path (src_bytes src L s) (fs_view s) r (fs_view s')" and "okfs_frame s s'"
proof -
  note res = that
  note tw = fs_wfD(2) [OF wf]
  let ?ds = "src_bytes src L s"
  have call: "fs_append_file path src len s = (let fid = fs_resolve (cwd s) path False s in
        if fid < 0 then Some (fid, s)
        else if ftype (nodes s fid) \<noteq> FS_TYPE_FILE then Some (FS_ERR_NOT_FILE, s)
        else if \<not> fs_ends_with_txt (name (nodes s fid)) then Some (FS_ERR_NOT_TXT, s)
        else fs_set_file_data fid src L True s)"
    using src unfolding write_src_def fs_append_file_def by simp
  have noop: thesis
    if "fs_append_file path src len s = Some (r, s)" "spec_append path ?ds (fs_view s) r (fs_view s)" for r
    using res [OF that(1) wf that(2) okfs_frame_refl] .
  from wf show thesis
  proof (cases rule: fs_resolve_cases [where path = path])
    case (err e)
    then show thesis using noop [of e] call by (simp add: spec_append_def fs_view_def Let_def)
  next
    case (ok P i)
    note found = this
    show thesis
    proof (cases "ftype (nodes s i) = FS_TYPE_FILE")
      case False
      then have "ftype (nodes s i) = FS_TYPE_DIR" using fs_type_t.exhaust by blast
      then have "fs_abs s P = Some Dir" using found by (auto simp: fs_abs_Dir)
      then show thesis using noop [of FS_ERR_NOT_FILE] call False found
        by (simp add: spec_append_def fs_view_def Let_def)
    next
      case True
      then have i: "i \<in> {1..<128}" using found(3) tree_wf_root [OF tw] by (cases "i = 0") auto
      have so: "src_ok s (data (nodes s i)) src L" using src found(3) by (simp add: write_src_def)
      have entry: "fs_abs s P = Some (File (content s i))" using found True by (simp add: fs_abs_def entry_of_def)
      have c: "fs_append_file path src len s = fs_set_file_data i src L True s"
        using call True found(3,6) tree_wf_node(3) [OF tw i found(4) True] by (simp add: Let_def)
      from wf found(2) True so show thesis
      proof (cases rule: store_file [where appending = True])
        case (fail s')
        obtain h l where "s' = s\<lparr>heap_mem := h, klog := l\<rparr>" using fail(7) by blast
        then have "s' = s\<lparr>heap_mem := h, klog := l, ram := ram s, nodes := nodes s\<rparr>" by simp
        from okfs_frameI [OF fail(4,6) this] have "okfs_frame s s'" .
        then show thesis using res [of FS_ERR_NO_SPACE s'] fail c entry
          by (simp add: spec_append_def fs_view_def found(1))
      next
        case (ok s')
        then have "okfs_frame s s'" unfolding okfs_frame_def by blast
        then show thesis using res [of FS_OK s'] ok c entry
          by (simp add: spec_append_def fs_view_def found(1))
      qed
    qed
  qed
qed

text \<open>The two operations on a string outside the heap, as the shell calls them.\<close>

lemma fs_write_Str:
  assumes "fs_wf s" and len: "length cs < 2 ^ 32"
  obtains r s' where "fs_write_file path (Str cs) 0 s = Some (r, s')" and "fs_wf s'"
    and "spec_write path cs (fs_view s) r (fs_view s')" and "okfs_frame s s'"
  by (rule fs_write_file_effect [OF assms(1) write_src_Str [OF len], of path, unfolded src_bytes_Str [OF len]])

lemma fs_append_Str:
  assumes "fs_wf s" and len: "length cs < 2 ^ 32"
  obtains r s' where "fs_append_file path (Str cs) 0 s = Some (r, s')" and "fs_wf s'"
    and "spec_append path cs (fs_view s) r (fs_view s')" and "okfs_frame s s'"
  by (rule fs_append_file_effect [OF assms(1) write_src_Str [OF len], of path, unfolded src_bytes_Str [OF len]])

end
