(* ===== verification/Okfs_Room.thy ===== *)
theory Okfs_Room
  imports Okfs_Write
begin

text \<open>
  Running out of space: a write of at most 64 KB fails for lack of space only when the heap has
  no free block of about that size.
\<close>

lemma heap_room_fields [simp]:
  "heap_room (s\<lparr>ram := r\<rparr>) n = heap_room s n" "heap_room (s\<lparr>nodes := nd\<rparr>) n = heap_room s n"
  "heap_room (node_upd i f s) n = heap_room s n" "heap_room (emit x s) n = heap_room s n"
  by (simp_all add: heap_room_def heap_blocks_def node_upd_def emit_def)

lemma heap_room_mono: "heap_room s n \<Longrightarrow> m \<le> n \<Longrightarrow> heap_room s m"
  by (auto simp: heap_room_def)

lemma copy_bytes_ram: "\<exists>r. copy_bytes d src n s = s\<lparr>ram := r\<rparr>"
  unfolding copy_bytes_def
  by (rule for_loop_invariant [where P = "\<lambda>_ t. \<exists>r. t = s\<lparr>ram := r\<rparr>"])
    (auto simp: write_byte_def intro: exI [of _ "ram s"])

lemma copy_bytes_heap [simp]:
  "heap_room (copy_bytes d src n s) k = heap_room s k" "live (copy_bytes d src n s) = live s"
  "heap_wf (copy_bytes d src n s) = heap_wf s"
proof -
  obtain r where "copy_bytes d src n s = s\<lparr>ram := r\<rparr>" using copy_bytes_ram by blast
  then show "heap_room (copy_bytes d src n s) k = heap_room s k" "live (copy_bytes d src n s) = live s"
      "heap_wf (copy_bytes d src n s) = heap_wf s"
    by (simp_all add: live_def heap_wf_def heap_blocks_def)
qed

text \<open>Allocating a new buffer and releasing the old one.\<close>

lemma replace_room:
  assumes wf: "heap_wf s" and old: "buf_ok s p m c" and al: "kmalloc k s = Some (q, s1)"
    and k: "0 < unat k" "unat k \<le> 65536" and room: "heap_room s n" "ALLOC_COST \<le> n"
  shows "q \<noteq> 0" and "live s2 = live s1 \<Longrightarrow> heap_wf s2 = heap_wf s1 \<Longrightarrow>
      (\<And>j. heap_room s2 j = heap_room s1 j) \<Longrightarrow> heap_room (kfree p s2) (n - ALLOC_COST)"
proof -
  have k0: "k \<noteq> 0" using k(1) by auto
  note kr = kmalloc_room [OF wf k0 k(2) room al]
  show "q \<noteq> 0" by (fact kr)
  have new: "live s q = None" "\<exists>m. live s1 = (live s)(q \<mapsto> m)" "heap_wf s1"
    using kh.alloc_new [OF wf al kr(1)] k(2) kh.alloc_ok [OF wf al] by auto
  then have "p = 0 \<or> live s1 p \<noteq> None" using buf_ok_live [OF old] by (auto split: if_splits)
  then show "heap_room (kfree p s2) (n - ALLOC_COST)"
    if "live s2 = live s1" "heap_wf s2 = heap_wf s1" "\<And>j. heap_room s2 j = heap_room s1 j"
    using kfree_room [of s2 p "n - ALLOC_COST"] kr(2) new(3) that by simp
qed

lemma fs_grow_data_room:
  fixes s :: "'a okfs_scheme"
  assumes wf: "bufs_wf s" and fid: "fid \<in> {0..<128}" and need: "unat need \<le> 65536"
    and room: "heap_room s n" "ALLOC_COST \<le> n" and call: "fs_grow_data fid need app s = Some (b, s')"
  shows "b" and "heap_room s' (n - ALLOC_COST)"
proof -
  have hw: "heap_wf s" using wf by (simp add: bufs_wf_def)
  let ?n = "nodes s fid"
  have bo: "buf_ok s (data ?n) (fsize ?n) (cap ?n)"
    using bufs_wfD(1) [OF wf, of fid] fid by (simp add: buf_ptr_def buf_len_def buf_cap_def)
  have "b \<and> heap_room s' (n - ALLOC_COST)"
  proof (cases "cap ?n < need")
    case False
    then show ?thesis using call room heap_room_mono [OF room(1)] by (simp add: fs_grow_data_def)
  next
    case True
    define ic where "ic = (if cap ?n \<noteq> 0 then cap ?n else 256)"
    have "unat (cap ?n) \<le> 65536" using buf_ok_cap [OF bo] by simp
    then obtain c0 where c0: "grow_cap ic need = Some c0"
        "0 < unat (if FS_MAX_FILE_SIZE < c0 then FS_MAX_FILE_SIZE else c0)"
        "unat (if FS_MAX_FILE_SIZE < c0 then FS_MAX_FILE_SIZE else c0) \<le> 65536"
      unfolding ic_def using new_capacity need by metis
    define k where "k = (if FS_MAX_FILE_SIZE < c0 then FS_MAX_FILE_SIZE else c0)"
    obtain q s1 where al: "kmalloc k s = Some (q, s1)" using kh.alloc_returns [OF hw] by blast
    note rr = replace_room [OF hw bo al c0(2,3) [folded k_def] room]
    obtain h l where s1: "s1 = s\<lparr>heap_mem := h, klog := l\<rparr>" using kmalloc_okfs [OF al] .
    define s2 where "s2 = (if app \<and> data ?n \<noteq> 0 \<and> 0 < fsize ?n then copy_bytes q (Mem (data ?n)) (fsize ?n) s1 else s1)"
    have free: "heap_room (kfree (data ?n) s2) (n - ALLOC_COST)" by (rule rr(2)) (simp_all add: s2_def)
    have "fs_grow_data fid need app s = Some (True, node_upd fid (\<lambda>n. n\<lparr>data := q, cap := k\<rparr>)
        (if data ?n \<noteq> 0 then kfree (data ?n) s2 else s2))"
      unfolding fs_grow_data_def ic_def [symmetric]
      using True rr(1) al by (simp add: c0(1) Let_def s2_def s1 flip: k_def)
    then show ?thesis using call free kh.release_null [of s2] by (auto split: if_splits)
  qed
  then show "b" and "heap_room s' (n - ALLOC_COST)" by simp_all
qed

lemma fs_set_file_data_room:
  fixes s :: "'a okfs_scheme"
  assumes wf: "bufs_wf s" and fid: "fid \<in> {0..<128}" and len: "unat len \<le> 65536"
    and room: "heap_room s n" "ALLOC_COST \<le> n" and call: "fs_set_file_data fid src len False s = Some (r, s')"
  shows "r = FS_OK" and "heap_room s' (n - ALLOC_COST)"
proof -
  obtain b t where t: "fs_grow_data fid len False s = Some (b, t)"
    using fs_grow_data_effect [OF wf fid len, of False] by metis
  note gr = fs_grow_data_room [OF wf fid len room t]
  have "\<not> FS_MAX_FILE_SIZE < len" using len by (simp add: unat_less_iff)
  with call t gr show "r = FS_OK" and "heap_room s' (n - ALLOC_COST)"
    by (auto simp: fs_set_file_data_def Let_def)
qed

lemma resolve_parent_error: "fs_wf s \<Longrightarrow> fs_resolve_parent path s = Inl e \<Longrightarrow> e \<noteq> FS_ERR_NO_SPACE"
proof (erule spec_parent_cases [where path = path])
  fix e' assume "fs_resolve_parent path s = Inl e" "fs_resolve_parent path s = Inl e'"
    "spec_parent (fs_abs s) (cwd_abs s) path = Inl e'"
  then show "e \<noteq> FS_ERR_NO_SPACE"
    using canon_error by (fastforce simp: spec_parent_def split: if_splits sum.splits)
qed simp

lemma create_entry_error: "fs_create_entry p nm ty s = (k, s') \<Longrightarrow> k < 0 \<Longrightarrow> k \<noteq> FS_ERR_NO_SPACE \<and> s' = s"
  by (auto simp: fs_create_entry_def fs_alloc_node_def Let_def split: if_splits option.splits)

text \<open>A successful creation only writes the node table.\<close>

lemma create_entry_ok:
  assumes "fs_create_entry p nm ty s = (k, s')" and "0 \<le> k"
  shows "\<exists>nd. s' = s\<lparr>nodes := nd\<rparr>"
  using assms by (auto simp: fs_create_entry_def Let_def node_upd_def split: if_splits)

lemma fs_write_file_room:
  fixes s :: "'a okfs_scheme"
  assumes wf: "fs_wf s" and src: "write_src s src len L" and L: "unat L \<le> 65536"
    and room: "heap_room s n" "ALLOC_COST \<le> n" and call: "fs_write_file path src len s = Some (r, s')"
  shows "r \<noteq> FS_ERR_NO_SPACE" and "heap_room s' (n - ALLOC_COST)"
proof -
  have less: "heap_room s (n - ALLOC_COST)" using heap_room_mono [OF room(1)] by simp
  have body: "src \<noteq> Mem 0" "(if len = 0 then fs_strlen src s else Some len) = Some L"
    using src by (simp_all add: write_src_def)
  from wf have "r \<noteq> FS_ERR_NO_SPACE \<and> heap_room s' (n - ALLOC_COST)"
  proof (cases rule: spec_parent_cases [where path = path])
    case (err e)
    then show ?thesis
      using call less resolve_parent_error [OF wf err(2)] body by (simp add: fs_write_file_def)
  next
    case (ok P p nm)
    define fid where "fid = fs_find_child p nm s"
    obtain k s1 where cr: "fs_create_entry p nm FS_TYPE_FILE s = (k, s1)" by fastforce
    have c: "fs_write_file path src len s =
        (if fid < 0 then if k < 0 then Some (k, s1) else fs_set_file_data k src L False s1
         else if ftype (nodes s fid) \<noteq> FS_TYPE_FILE then Some (FS_ERR_NOT_FILE, s)
         else fs_set_file_data fid src L False s)"
      using ok(2) cr body by (simp add: fs_write_file_def Let_def flip: fid_def)
    consider (new) "fid < 0" "0 \<le> k" | (no) "fid < 0" "k < 0" | (old) "0 \<le> fid" by linarith
    then show ?thesis
    proof cases
      case new
      then obtain nd where s1: "s1 = s\<lparr>nodes := nd\<rparr>" using create_entry_ok [OF cr] by blast
      have nml: "length nm < FS_MAX_NAME" using ok(5) by simp
      from wf ok(3,4) nml have "bufs_wf s1 \<and> k \<in> {0..<128}"
      proof (cases rule: fs_create_entry_cases [where ty = FS_TYPE_FILE])
        case (err e)
        then show ?thesis using cr new by simp
      next
        case (ok k' t)
        then show ?thesis using cr fs_wfD(1) by auto
      qed
      then have "r = FS_OK \<and> heap_room s' (n - ALLOC_COST)"
        using fs_set_file_data_room [OF _ _ L, of s1 k n] call c new room s1 by simp
      then show ?thesis by simp
    next
      case no
      then show ?thesis using create_entry_error [OF cr] call c less by simp
    next
      case old
      then have "node_at s (P @ [nm]) = Some fid" using ok(3) by (simp add: node_at_snoc fid_def)
      then have fid: "fid \<in> {0..<128}" using node_at_used(1) [OF fs_wfD(2) [OF wf]] by simp
      show ?thesis
      proof (cases "ftype (nodes s fid) = FS_TYPE_FILE")
        case True
        then have "fs_set_file_data fid src L False s = Some (r, s')"
          using call c old by simp
        from fs_set_file_data_room [OF fs_wfD(1) [OF wf] fid L room this] show ?thesis by simp
      next
        case False
        then show ?thesis using call c old less by simp
      qed
    qed
  qed
  then show "r \<noteq> FS_ERR_NO_SPACE" and "heap_room s' (n - ALLOC_COST)" by simp_all
qed


lemma fs_write_Str_room:
  fixes s :: "'a okfs_scheme"
  assumes wf: "fs_wf s" and len: "length cs \<le> 65536" and room: "heap_room s n" "ALLOC_COST \<le> n"
    and call: "fs_write_file path (Str cs) 0 s = Some (r, s')"
  shows "r \<noteq> FS_ERR_NO_SPACE" and "heap_room s' (n - ALLOC_COST)"
  using fs_write_file_room [OF wf write_src_Str _ room call] len by simp_all

end
