(* ===== verification/Okfs_Props.thy ===== *)
theory Okfs_Props
  imports Okfs_Room
begin

text \<open>
  Properties of the file system as a whole: every sequence of operations refines the abstract
  file system, initialisation, reading back what was written, and printing.
\<close>

section \<open>Sequences of operations\<close>

datatype fs_op = Mkdir string | Touch string | Rm string | Cd string
  | Write string string | Append string string

definition fs_step :: "fs_op \<Rightarrow> 'a okfs_scheme \<Rightarrow> (int \<times> 'a okfs_scheme) option" where
  "fs_step x s = (case x of
     Mkdir path \<Rightarrow> Some (fs_mkdir path s) | Touch path \<Rightarrow> Some (fs_touch path s)
   | Rm path \<Rightarrow> Some (fs_rm path s) | Cd path \<Rightarrow> Some (fs_cd path s)
   | Write path txt \<Rightarrow> fs_write_file path (Str txt) 0 s
   | Append path txt \<Rightarrow> fs_append_file path (Str txt) 0 s)"

definition fs_spec :: "fs_op \<Rightarrow> tree \<times> string list \<Rightarrow> int \<Rightarrow> tree \<times> string list \<Rightarrow> bool" where
  "fs_spec x v r v' = (case x of
     Mkdir path \<Rightarrow> spec_mkdir path v = (r, v') | Touch path \<Rightarrow> spec_touch path v = (r, v')
   | Rm path \<Rightarrow> spec_rm path v = (r, v') | Cd path \<Rightarrow> spec_cd path v = (r, v')
   | Write path txt \<Rightarrow> spec_write path txt v r v'
   | Append path txt \<Rightarrow> spec_append path txt v r v')"

definition fs_op_ok :: "fs_op \<Rightarrow> bool" where
  "fs_op_ok x = (case x of Write path txt \<Rightarrow> length txt < 2 ^ 32
     | Append path txt \<Rightarrow> length txt < 2 ^ 32 | _ \<Rightarrow> True)"

interpretation fsr: op_refinement fs_step fs_spec fs_wf fs_view fs_op_ok
proof unfold_locales
  fix s :: "'a okfs_scheme" and x
  assume wf: "fs_wf s" and ok: "fs_op_ok x"
  show "\<exists>r s'. fs_step x s = Some (r, s') \<and> fs_wf s' \<and> fs_spec x (fs_view s) r (fs_view s')"
  proof (cases x)
    case (Mkdir path)
    then show ?thesis using fs_mkdir_refines [OF wf] by (cases "fs_mkdir path s") (auto simp: fs_step_def fs_spec_def)
  next
    case (Touch path)
    then show ?thesis using fs_touch_refines [OF wf] by (cases "fs_touch path s") (auto simp: fs_step_def fs_spec_def)
  next
    case (Rm path)
    then show ?thesis using fs_rm_refines [OF wf] by (cases "fs_rm path s") (auto simp: fs_step_def fs_spec_def)
  next
    case (Cd path)
    then show ?thesis using fs_cd_refines [OF wf] by (cases "fs_cd path s") (auto simp: fs_step_def fs_spec_def)
  next
    case (Write path cs)
    then have len: "length cs < 2 ^ 32" using ok by (simp add: fs_op_ok_def)
    obtain r s' where "fs_write_file path (Str cs) 0 s = Some (r, s')" "fs_wf s'"
        "spec_write path cs (fs_view s) r (fs_view s')"
      using fs_write_Str [OF wf len] by metis
    then show ?thesis using Write by (auto simp: fs_step_def fs_spec_def)
  next
    case (Append path cs)
    then have len: "length cs < 2 ^ 32" using ok by (simp add: fs_op_ok_def)
    obtain r s' where "fs_append_file path (Str cs) 0 s = Some (r, s')" "fs_wf s'"
        "spec_append path cs (fs_view s) r (fs_view s')"
      using fs_append_Str [OF wf len] by metis
    then show ?thesis using Append by (auto simp: fs_step_def fs_spec_def)
  qed
qed

section \<open>Initialisation\<close>

abbreviation readme_text :: string where
  "readme_text \<equiv> ''Welcome to openkernel OKFS.\<newline>'' @
     ''Use 'help --fs' for file commands.\<newline>'' @ ''Try: cat readme.txt\<newline>''"

abbreviation about_text :: string where
  "about_text \<equiv> ''openkernel educational filesystem.\<newline>'' @ ''Text files use the .txt extension.\<newline>''"

lemma fs_init_tables_nodes:
  "nodes (fs_init_tables s) i =
     (if i \<in> {0..<128} then fs_blank_node\<lparr>used := (i = 0)\<rparr> else nodes s i)"
proof -
  have "nodes (for_loop 0 n (\<lambda>i. node_upd (int i) (\<lambda>_. fs_blank_node)) s) i =
      (if i \<in> {0..<int n} then fs_blank_node else nodes s i)" for n i
    by (induction n) (auto simp: for_loop_Suc node_upd_def)
  from this [of 128] show ?thesis
    by (simp add: fs_init_tables_def Let_def node_upd_def fs_blank_node_def)
qed

lemma fs_init_tables_fields:
  "\<exists>nd. fs_init_tables s = s\<lparr>nodes := nd, cwd := 0, cwd_path := ''/''\<rparr>"
proof -
  have "\<exists>nd. for_loop 0 n (\<lambda>i. node_upd (int i) (\<lambda>_. fs_blank_node)) s = s\<lparr>nodes := nd\<rparr>" for n
  proof (induction n)
    case 0
    have "s = s\<lparr>nodes := nodes s\<rparr>" by simp
    then show ?case by (metis for_loop_empty order_refl)
  qed (auto simp: for_loop_Suc node_upd_def)
  then obtain nd where "for_loop 0 128 (\<lambda>i. node_upd (int i) (\<lambda>_. fs_blank_node)) s = s\<lparr>nodes := nd\<rparr>" by blast
  then show ?thesis by (auto simp: fs_init_tables_def Let_def node_upd_def)
qed

lemma fs_init_tables_wf:
  assumes "heap_wf s" and "buf_ok s (edit_buf s) (edit_len s) (edit_cap s)"
  shows "fs_wf (fs_init_tables s)" and "fs_view (fs_init_tables s) = ([[] \<mapsto> Dir], [])"
proof -
  define t where "t = fs_init_tables s"
  obtain nd where t: "t = s\<lparr>nodes := nd, cwd := 0, cwd_path := ''/''\<rparr>"
    using fs_init_tables_fields [of s] t_def by blast
  have nd: "i \<in> {0..<128} \<Longrightarrow> nodes t i = fs_blank_node\<lparr>used := (i = 0)\<rparr>" for i
    using fs_init_tables_nodes [of s i] by (simp add: t_def)
  have heap: "heap_wf t = heap_wf s" "live t = live s" by (simp_all add: t heap_wf_def live_def heap_blocks_def)
  have buf: "buf_ptr t i = (if i = -1 then edit_buf s else 0) \<and> buf_len t i = (if i = -1 then edit_len s else 0)
      \<and> buf_cap t i = (if i = -1 then edit_cap s else 0)" if "i \<in> {-1..<128}" for i
  proof (cases "i = -1")
    case True
    then show ?thesis by (simp add: buf_ptr_def buf_len_def buf_cap_def t)
  next
    case False
    then show ?thesis using that nd [of i] by (simp add: buf_ptr_def buf_len_def buf_cap_def fs_blank_node_def)
  qed
  have "bufs_wf t" using assms by (auto simp: bufs_wf_def buf heap buf_ok_def)
  moreover have tw: "tree_wf (nodes t)" by (simp add: tree_wf_def nd fs_blank_node_def) (rule exI [of _ "\<lambda>_. 0"]; simp)
  ultimately show wf: "fs_wf t" using nd by (simp add: fs_wf_def fs_blank_node_def) (simp add: t nd fs_blank_node_def)
  have child: "\<not> is_child (nodes t) p c i" for p c i using nd [of i] by (auto simp: is_child_def fs_blank_node_def)
  have "node_at t path = (if path = [] then Some 0 else None)" for path
  proof (cases path rule: rev_cases)
    case (snoc p c)
    have "node_at t path \<noteq> Some j" for j using child by (simp add: snoc node_at_snoc_iff [OF tw])
    then show ?thesis using snoc by auto
  qed simp
  moreover have "ftype (nodes t 0) = FS_TYPE_DIR" using nd [of 0] by (simp add: fs_blank_node_def)
  ultimately have "fs_abs t = [[] \<mapsto> Dir]" by (auto simp: fs_abs_def entry_of_def fun_eq_iff)
  moreover have "cwd_abs t = []" by (rule cwd_abs_eqI [OF tw]) (simp add: t)
  ultimately show "fs_view t = ([[] \<mapsto> Dir], [])" by (simp add: fs_view_def)
qed

lemma init_paths:
  "dir_part ''/docs'' = []" "base_part ''/docs'' = ''docs''"
  "dir_part ''/readme.txt'' = []" "base_part ''/readme.txt'' = ''readme.txt''"
  "dir_part ''/docs/about.txt'' = ''/docs''" "base_part ''/docs/about.txt'' = ''about.txt''"
  "components ''docs'' = [''docs'']"
  by code_simp+

lemma init_names:
  "fs_is_valid_name ''docs''" "fs_is_valid_name ''readme.txt''" "fs_is_valid_name ''about.txt''"
  "fs_ends_with_txt ''readme.txt''" "fs_ends_with_txt ''about.txt''"
  by code_simp+

lemma init_specs:
  "spec_mkdir ''/docs'' ([[] \<mapsto> Dir], []) = (FS_OK, [[] \<mapsto> Dir, [''docs''] \<mapsto> Dir], [])"
  "spec_parent [[] \<mapsto> Dir, [''docs''] \<mapsto> Dir] [] ''/readme.txt'' = Inr ([], ''readme.txt'')"
  "spec_parent [[] \<mapsto> Dir, [''docs''] \<mapsto> Dir, [''readme.txt''] \<mapsto> File x] [] ''/docs/about.txt''
     = Inr ([''docs''], ''about.txt'')"
  by (simp_all add: spec_mkdir_def spec_parent_def start_of_def init_paths spec_create_def init_names)

lemma spec_write_new:
  assumes "spec_write path ds (t, C) r v" and "spec_parent t C path = Inr (P, nm)"
    and "t (P @ [nm]) = None" and "fs_is_valid_name nm" "fs_ends_with_txt nm" and "card (dom t) < FS_MAX_NODES"
  obtains x where "x = ds \<or> x = []" and "r \<noteq> FS_ERR_NO_SPACE \<Longrightarrow> x = ds" and "v = (t(P @ [nm] \<mapsto> File x), C)"
  using assms by (auto simp: spec_write_def spec_create_def spec_store_def split: prod.splits)

lemma card_dom_upd: "finite (dom t) \<Longrightarrow> card (dom (t(k \<mapsto> e))) \<le> Suc (card (dom t))"
  by (simp add: card_insert_if)

lemma fs_mkdir_room: "fs_mkdir path s = (r, s') \<Longrightarrow> heap_room s' n = heap_room s n"
proof -
  have "heap_room (snd (fs_create_entry p nm ty s)) n = heap_room s n" for p nm ty
    using create_entry_ok [of p nm ty s] create_entry_error [of p nm ty s]
    by (cases "fs_create_entry p nm ty s") (metis heap_room_fields(2) linorder_not_le snd_conv)
  then show "fs_mkdir path s = (r, s') \<Longrightarrow> heap_room s' n = heap_room s n"
    by (auto simp: fs_mkdir_def Let_def split: sum.splits prod.splits if_splits) (metis snd_conv)+
qed

lemma fs_init_effect:
  fixes s :: "'a okfs_scheme"
  assumes "heap_wf s" and "buf_ok s (edit_buf s) (edit_len s) (edit_cap s)"
  shows "\<exists>s' x y. fs_init s = Some s' \<and> fs_wf s' \<and> (x = readme_text \<or> x = []) \<and> (y = about_text \<or> y = []) \<and>
    (heap_room s (2 * ALLOC_COST) \<longrightarrow> x = readme_text \<and> y = about_text) \<and>
    fs_view s' = ([[] \<mapsto> Dir, [''docs''] \<mapsto> Dir, [''readme.txt''] \<mapsto> File x,
                   [''docs'', ''about.txt''] \<mapsto> File y], []) \<and>
    (\<forall>n. heap_room s n \<and> 2 * ALLOC_COST \<le> n \<longrightarrow> heap_room s' (n - 2 * ALLOC_COST))"
proof -
  define s0 where "s0 = fs_init_tables s"
  note s0 = fs_init_tables_wf [OF assms, folded s0_def]
  obtain r1 s1 where mk: "fs_mkdir ''/docs'' s0 = (r1, s1)" by fastforce
  note s1 = fs_mkdir_refines [OF s0(1) mk, unfolded s0(2) init_specs(1)]
  have v1: "fs_view s1 = ([[] \<mapsto> Dir, [''docs''] \<mapsto> Dir], [])" using s1(2) by simp
  have len: "length readme_text < 2 ^ 32" "length about_text < 2 ^ 32" by simp_all
  obtain r2 s2 where w2: "fs_write_file ''/readme.txt'' (Str readme_text) 0 s1 = Some (r2, s2)" "fs_wf s2"
      "spec_write ''/readme.txt'' readme_text (fs_view s1) r2 (fs_view s2)"
    using fs_write_Str [OF s1(1) len(1)] .
  have "card (dom [[] \<mapsto> Dir, [''docs''] \<mapsto> Dir]) < FS_MAX_NODES"
      "[[] \<mapsto> Dir, [''docs''] \<mapsto> Dir] ([] @ [''readme.txt'']) = None" by simp_all
  from spec_write_new [OF w2(3) [unfolded v1] init_specs(2) this(2) init_names(2,4) this(1)]
  obtain x where x: "x = readme_text \<or> x = []" "r2 \<noteq> FS_ERR_NO_SPACE \<Longrightarrow> x = readme_text"
      "fs_view s2 = ([[] \<mapsto> Dir, [''docs''] \<mapsto> Dir, [''readme.txt''] \<mapsto> File x], [])"
    unfolding append_Nil by blast
  obtain r3 s3 where w3: "fs_write_file ''/docs/about.txt'' (Str about_text) 0 s2 = Some (r3, s3)" "fs_wf s3"
      "spec_write ''/docs/about.txt'' about_text (fs_view s2) r3 (fs_view s3)"
    using fs_write_Str [OF w2(2) len(2)] .
  have "card (dom [[] \<mapsto> Dir, [''docs''] \<mapsto> Dir, [''readme.txt''] \<mapsto> File x]) < FS_MAX_NODES"
      "[[] \<mapsto> Dir, [''docs''] \<mapsto> Dir, [''readme.txt''] \<mapsto> File x] ([''docs''] @ [''about.txt'']) = None" by simp_all
  from spec_write_new [OF w3(3) [unfolded x(3)] init_specs(3) this(2) init_names(3,5) this(1)]
  obtain y where y: "y = about_text \<or> y = []" "r3 \<noteq> FS_ERR_NO_SPACE \<Longrightarrow> y = about_text" "fs_view s3 = ([[] \<mapsto> Dir, [''docs''] \<mapsto> Dir, [''readme.txt''] \<mapsto> File x,
        [''docs'', ''about.txt''] \<mapsto> File y], [])"
    unfolding append_Cons append_Nil by blast
  have init: "fs_init s = Some s3"
    unfolding fs_init_def s0_def [symmetric] Let_def mk using w2(1) w3(1) by simp
  have room1: "heap_room s1 n = heap_room s n" for n
  proof -
    obtain nd where "s0 = s\<lparr>nodes := nd, cwd := 0, cwd_path := ''/''\<rparr>" using fs_init_tables_fields [of s] s0_def by blast
    then have "heap_room s0 n = heap_room s n" by (simp add: heap_room_def heap_blocks_def)
    then show ?thesis using fs_mkdir_room [OF mk] by simp
  qed
  have room: "r2 \<noteq> FS_ERR_NO_SPACE \<and> r3 \<noteq> FS_ERR_NO_SPACE \<and> heap_room s3 (n - 2 * ALLOC_COST)"
    if "heap_room s n" "2 * ALLOC_COST \<le> n" for n
  proof -
    have "r2 \<noteq> FS_ERR_NO_SPACE" "heap_room s2 (n - ALLOC_COST)"
      using fs_write_Str_room [OF s1(1) _ _ _ w2(1), of n] that room1 by simp_all
    then show ?thesis using fs_write_Str_room [OF w2(2) _ _ _ w3(1), of "n - ALLOC_COST"] that by simp
  qed
  show ?thesis using room [of "2 * ALLOC_COST"] room init w3(2) x(1,2) y by blast
qed

section \<open>Properties\<close>

definition okfs_boot :: okfs where
  "okfs_boot = kheap.extend kheap_example \<lparr>ram = (\<lambda>_. NUL), nodes = (\<lambda>_. fs_blank_node), cwd = 0,
     cwd_path = [], emitted = [], edit_active = False, edit_path = [], edit_buf = 0, edit_len = 0,
     edit_cap = 0, edit_pending_line = [], edit_pending_line_valid = False, edit_target_line = 0\<rparr>"

lemma okfs_boot_ok: "heap_wf okfs_boot" "buf_ok okfs_boot (edit_buf okfs_boot) (edit_len okfs_boot) (edit_cap okfs_boot)"
proof -
  have "heap_mem okfs_boot = heap_mem kheap_example" "heap_start okfs_boot = heap_start kheap_example"
    by (simp_all add: okfs_boot_def kheap.defs)
  then show "heap_wf okfs_boot"
    using kheap_example_wf unfolding heap_wf_def heap_blocks_def by metis
  show "buf_ok okfs_boot (edit_buf okfs_boot) (edit_len okfs_boot) (edit_cap okfs_boot)"
    by (simp add: okfs_boot_def kheap.defs buf_ok_def)
qed

text \<open>The file system after \<open>fs_init\<close> on the fresh heap.\<close>

definition okfs_start :: okfs where "okfs_start = the (fs_init okfs_boot)"

lemma okfs_boot_room: "heap_room okfs_boot 0x2000000"
proof -
  have "heap_blocks okfs_boot = heap_blocks kheap_example"
    by (simp add: okfs_boot_def kheap.defs heap_blocks_def)
  then show ?thesis by (simp add: heap_room_def kheap_example_blocks)
qed

lemma okfs_start:
  obtains x y where "fs_wf okfs_start"
    and "fs_view okfs_start = ([[] \<mapsto> Dir, [''docs''] \<mapsto> Dir, [''readme.txt''] \<mapsto> File x,
                   [''docs'', ''about.txt''] \<mapsto> File y], [])"
  using fs_init_effect [OF okfs_boot_ok] by (auto simp: okfs_start_def)

lemma okfs_start_room: "heap_room okfs_start 0x1000000"
proof -
  obtain s' where "fs_init okfs_boot = Some s'" "\<forall>n. heap_room okfs_boot n \<and> 2 * ALLOC_COST \<le> n \<longrightarrow> heap_room s' (n - 2 * ALLOC_COST)"
    using fs_init_effect [OF okfs_boot_ok] by blast
  then show ?thesis using okfs_boot_room heap_room_mono [of okfs_start "0x2000000 - 2 * ALLOC_COST"]
    by (auto simp: okfs_start_def)
qed

text \<open>
  C19. \<open>fs_init\<close> returns and leaves a well-formed file system with exactly the root, \<open>/docs\<close>,
  \<open>/readme.txt\<close> and \<open>/docs/about.txt\<close>, in the root directory, whatever the tables held; the two
  files have their texts when the heap has room for them, and are empty otherwise.
\<close>

theorem fs_init_correct:
  fixes s :: "'a okfs_scheme"
  assumes "heap_wf s" and "buf_ok s (edit_buf s) (edit_len s) (edit_cap s)"
  shows "\<exists>s' x y. fs_init s = Some s' \<and> fs_wf s' \<and> (x = readme_text \<or> x = []) \<and> (y = about_text \<or> y = []) \<and>
    (heap_room s (2 * ALLOC_COST) \<longrightarrow> x = readme_text \<and> y = about_text) \<and>
    fs_view s' = ([[] \<mapsto> Dir, [''docs''] \<mapsto> Dir, [''readme.txt''] \<mapsto> File x,
                   [''docs'', ''about.txt''] \<mapsto> File y], [])"
  using fs_init_effect [OF assms] by blast

theorem fs_init_correct_witness:
  "\<exists>s'. fs_init okfs_boot = Some s' \<and> fs_wf s' \<and> fs_abs s' [''readme.txt''] = Some (File readme_text)"
proof -
  have "heap_room okfs_boot (2 * ALLOC_COST)" using heap_room_mono [OF okfs_boot_room] by simp
  then obtain s' y where "fs_init okfs_boot = Some s'" "fs_wf s'"
      "fs_view s' = ([[] \<mapsto> Dir, [''docs''] \<mapsto> Dir, [''readme.txt''] \<mapsto> File readme_text,
                   [''docs'', ''about.txt''] \<mapsto> File y], [])"
    using fs_init_correct [OF okfs_boot_ok] by blast
  then show ?thesis by (auto simp: fs_view_def)
qed

text \<open>
  C1. Every sequence of \<open>mkdir\<close>, \<open>touch\<close>, \<open>rm\<close>, \<open>cd\<close>, \<open>write\<close> and \<open>append\<close> calls returns, keeps the
  file system well-formed (a tree with unique valid names, files ending in \<open>.txt\<close>, disjoint
  buffers large enough for their files), and behaves, results included, like the same
  sequence on a map from absolute paths to directories and file contents.
\<close>

theorem fs_run_refines:
  assumes "fs_wf s" and "\<forall>x \<in> set xs. fs_op_ok x"
  shows "\<exists>rs s'. run_ops fs_step xs s = Some (rs, s') \<and> fs_wf s' \<and>
    spec_run fs_spec xs (fs_view s) rs (fs_view s')"
  using assms by (rule fsr.run_refines)

theorem fs_run_refines_witness:
  "\<exists>s'. run_ops fs_step [Mkdir ''/docs''] okfs_start = Some ([FS_ERR_FULL], s') \<and> fs_wf s'"
proof (rule okfs_start)
  fix x y
  assume wf: "fs_wf okfs_start" and v: "fs_view okfs_start = ([[] \<mapsto> Dir, [''docs''] \<mapsto> Dir,
      [''readme.txt''] \<mapsto> File x, [''docs'', ''about.txt''] \<mapsto> File y], [])"
  have "spec_mkdir ''/docs'' (fs_view okfs_start) = (FS_ERR_FULL, fs_view okfs_start)"
    by (simp add: v spec_mkdir_def spec_parent_def start_of_def init_paths spec_create_def init_names)
  then show ?thesis
    using fs_run_refines [OF wf, of "[Mkdir ''/docs'']"] by (auto simp: fs_op_ok_def fs_spec_def)
qed

text \<open>
  A path whose last name was not truncated leads, in the tree with the new entry, to that
  entry.
\<close>

lemma canon_mono:
  assumes "canon t P cs = Inr Q" and "dom t \<subseteq> dom t'" shows "canon t' P cs = Inr Q"
  using assms by (induction t P cs rule: canon.induct) (auto split: if_splits)

lemma valid_name_chars:
  assumes "fs_is_valid_name nm"
  shows "nm \<noteq> []" "nm \<noteq> ''.''" "nm \<noteq> ''..''" "SLASH \<notin> set nm"
  using assms by (auto simp: fs_is_valid_name_def list_ex_iff split: if_splits)

lemma components_path:
  assumes "SLASH \<notin> set (base_part path)" and "base_part path \<noteq> []"
  shows "components path = components (dir_part path) @ [base_part path]"
proof (cases "last_slash path (length path)")
  case None
  then show ?thesis using assms components_word by (simp add: dir_part_def base_part_def)
next
  case (Some i)
  then have "path = dir_part path @ SLASH # base_part path"
    using last_slash_split(1) by (simp add: dir_part_def base_part_def)
  then have "components path = components (dir_part path) @ components (base_part path)"
    by (metis components_append)
  then show ?thesis using components_word [OF assms] by simp
qed

lemma spec_lookup_parent:
  assumes "spec_parent t C path = Inr (P, nm)" and "length (base_part path) < FS_MAX_NAME"
    and "fs_is_valid_name nm" and "dom t \<subseteq> dom t'" and "t' (P @ [nm]) \<noteq> None"
  shows "spec_lookup t' C path = Inr (P @ [nm])"
proof -
  have nm: "nm = base_part path" and P: "canon t (start_of C path) (components (dir_part path)) = Inr P"
    using assms(1,2) by (auto simp: spec_parent_def split: if_splits sum.splits)
  note v = valid_name_chars [OF assms(3)]
  have "path \<noteq> []" using v(1) nm by (auto simp: base_part_def)
  moreover have "components path = components (dir_part path) @ [nm]"
    using components_path v(1,4) nm by metis
  ultimately show ?thesis
    using canon_mono [OF P assms(4)] assms(2,5) v nm by (simp add: spec_lookup_def canon_append)
qed

lemma spec_write_okD:
  assumes "spec_write path ds (t, C) FS_OK (t', C')"
  obtains P nm where "spec_parent t C path = Inr (P, nm)" and "t' = t(P @ [nm] \<mapsto> File ds)" and "C' = C"
    and "length ds \<le> 65536" and "(\<exists>e. t (P @ [nm]) = Some e) \<or> fs_is_valid_name nm"
proof (cases "spec_parent t C path")
  case (Inl e)
  then have "e \<noteq> FS_OK"
    using canon_error by (fastforce simp: spec_parent_def split: if_splits sum.splits)
  then show thesis using assms Inl by (simp add: spec_write_def)
next
  case (Inr Pn)
  obtain P nm where Pn: "Pn = (P, nm)" by (cases Pn)
  show thesis
    using assms Inr Pn that [of P nm]
    by (auto simp: spec_write_def spec_create_def spec_store_def split: option.splits entry.splits if_splits)
qed

lemma entry_valid_name:
  assumes "tree_wf (nodes s)" and "fs_abs s (P @ [nm]) \<noteq> None" shows "fs_is_valid_name nm"
proof -
  obtain j where "node_at s (P @ [nm]) = Some j" using assms(2) by auto
  then show ?thesis
    using tree_wf_node(1) [OF assms(1)] by (auto simp: node_at_snoc_iff [OF assms(1)] is_child_def)
qed

lemma spec_write_lookup:
  assumes wf: "fs_wf s" and "spec_write path ds (fs_view s) FS_OK (fs_view s')"
    and base: "length (base_part path) < FS_MAX_NAME"
  obtains P nm where "fs_abs s' = (fs_abs s)(P @ [nm] \<mapsto> File ds)"
    and "spec_lookup (fs_abs s') (cwd_abs s') path = Inr (P @ [nm])"
proof -
  obtain P nm where w: "spec_parent (fs_abs s) (cwd_abs s) path = Inr (P, nm)"
      "fs_abs s' = (fs_abs s)(P @ [nm] \<mapsto> File ds)" "cwd_abs s' = cwd_abs s"
      "(\<exists>e. fs_abs s (P @ [nm]) = Some e) \<or> fs_is_valid_name nm"
    using assms(2) spec_write_okD unfolding fs_view_def by metis
  have "fs_is_valid_name nm" using w(4) entry_valid_name [OF fs_wfD(2) [OF wf], of P nm] by (metis option.distinct(1))
  from spec_lookup_parent [OF w(1) base this, of "fs_abs s'"] w(2,3)
  have "spec_lookup (fs_abs s') (cwd_abs s') path = Inr (P @ [nm])" by auto
  with w(2) show thesis by (rule that)
qed

text \<open>
  C10. Reading back what was written: when \<open>fs_write_file\<close> reports success for a text shorter than
  \<open>2 ^ 32\<close> and a path whose last name has at most 47 characters, that path then resolves to a file whose bytes are exactly
  the text, and every other path resolves to what it did before, with the same contents.
\<close>

theorem fs_write_read_back:
  assumes wf: "fs_wf s" and "fs_write_file path (Str ds) 0 s = Some (FS_OK, s')"
    and len: "length ds < 2 ^ 32" and base: "length (base_part path) < FS_MAX_NAME"
  shows "\<exists>i Q. fs_resolve (cwd s') path False s' = i \<and> 0 < i \<and> ftype (nodes s' i) = FS_TYPE_FILE \<and>
    content s' i = ds \<and> node_at s' Q = Some i \<and> (\<forall>p. p \<noteq> Q \<longrightarrow> fs_abs s' p = fs_abs s p)"
proof -
  obtain r u where "fs_write_file path (Str ds) 0 s = Some (r, u)" "fs_wf u"
      "spec_write path ds (fs_view s) r (fs_view u)"
    using fs_write_Str [OF wf len] .
  then have wf': "fs_wf s'" and "spec_write path ds (fs_view s) FS_OK (fs_view s')"
    using assms(2) by simp_all
  from spec_write_lookup [OF wf this(2) base] obtain P nm where
      w: "fs_abs s' = (fs_abs s)(P @ [nm] \<mapsto> File ds)"
      and look: "spec_lookup (fs_abs s') (cwd_abs s') path = Inr (P @ [nm])" by blast
  from wf' show ?thesis
  proof (cases rule: fs_resolve_cases [where path = path])
    case (err e)
    then show ?thesis using look by simp
  next
    case (ok Q i)
    then have Q: "Q = P @ [nm]" using look by simp
    then have "fs_abs s' Q = Some (File ds)" using w by simp
    then have "ftype (nodes s' i) = FS_TYPE_FILE" "content s' i = ds"
      using ok(2) fs_type_t.exhaust by (auto simp: fs_abs_def entry_of_def split: if_splits)
    moreover have "0 < i" using ok(3,5) Q by auto
    ultimately show ?thesis using ok w Q by auto
  qed
qed

theorem fs_write_read_back_witness:
  "\<exists>s'. fs_write_file ''/docs/about.txt'' (Str ''new text'') 0 okfs_start = Some (FS_OK, s') \<and>
     content s' (fs_resolve (cwd s') ''/docs/about.txt'' False s') = ''new text''"
proof (rule okfs_start)
  fix x y
  assume wf: "fs_wf okfs_start" and v: "fs_view okfs_start = ([[] \<mapsto> Dir, [''docs''] \<mapsto> Dir,
      [''readme.txt''] \<mapsto> File x, [''docs'', ''about.txt''] \<mapsto> File y], [])"
  obtain r s' where w: "fs_write_file ''/docs/about.txt'' (Str ''new text'') 0 okfs_start = Some (r, s')" "fs_wf s'"
      "spec_write ''/docs/about.txt'' ''new text'' (fs_view okfs_start) r (fs_view s')" "okfs_frame okfs_start s'"
    by (rule fs_write_Str [OF wf, of "''new text''" "''/docs/about.txt''"]) simp_all
  obtain t' C' where v': "fs_view s' = (t', C')" by fastforce
  have "r \<noteq> FS_ERR_NO_SPACE" by (rule fs_write_Str_room(1) [OF wf _ okfs_start_room _ w(1)]) simp_all
  then have "r = FS_OK"
    using w(3) unfolding v v'
    by (simp add: spec_write_def spec_parent_def start_of_def init_paths spec_store_def)
  moreover have "length (base_part ''/docs/about.txt'') < FS_MAX_NAME" by (simp add: init_paths)
  ultimately show ?thesis
    using fs_write_read_back [OF wf, of "''/docs/about.txt''" "''new text''" s'] w(1) by auto
qed

section \<open>Printing a file\<close>

lemma emit_fields [simp]:
  "emitted (emit l s) = emitted s @ [l]" "nodes (emit l s) = nodes s" "ram (emit l s) = ram s"
  by (simp_all add: emit_def)

lemma cat_loop_line:
  assumes "NEWLINE \<notin> set l" and "length acc + length l \<le> width"
  shows "cat_loop width acc (l @ NEWLINE # cs) s = cat_loop width [] cs (emit (acc @ l) s)"
  using assms by (induction l arbitrary: acc) auto

lemma cat_loop_lines:
  assumes "\<forall>l \<in> set ls. NEWLINE \<notin> set l \<and> length l \<le> width"
  shows "emitted (cat_loop width [] (concat (map (\<lambda>l. l @ [NEWLINE]) ls)) s) = emitted s @ ls"
  using assms by (induction ls arbitrary: s) (simp_all add: cat_loop_line)

text \<open>No character is lost: the lines \<open>cat\<close> prints, joined, are the file without its newlines.\<close>

lemma cat_loop_concat:
  "\<exists>ls. emitted (cat_loop width acc cs s) = emitted s @ ls \<and> concat ls = acc @ filter (\<lambda>c. c \<noteq> NEWLINE) cs \<and>
     (width \<ge> 1 \<and> length acc \<le> width \<longrightarrow> (\<forall>l \<in> set ls. length l \<le> width))"
proof (induction width acc cs s rule: cat_loop.induct)
  case (1 width line s)
  then show ?case by (cases "line = []") auto
next
  case (2 width line c cs s)
  consider "c = NEWLINE" | "c \<noteq> NEWLINE" "length line \<ge> width" | "c \<noteq> NEWLINE" "\<not> length line \<ge> width" by blast
  then show ?case
  proof cases
    case 1
    then obtain ls where "emitted (cat_loop width [] cs (emit line s)) = emitted (emit line s) @ ls"
        "concat ls = filter (\<lambda>c. c \<noteq> NEWLINE) cs" "width \<ge> 1 \<longrightarrow> (\<forall>l \<in> set ls. length l \<le> width)"
      using "2.IH"(1) by auto
    then show ?thesis using 1 by (intro exI [of _ "line # ls"]) auto
  next
    case c: 2
    then obtain ls where "emitted (cat_loop width [c] cs (emit line s)) = emitted (emit line s) @ ls"
        "concat ls = c # filter (\<lambda>c. c \<noteq> NEWLINE) cs" "width \<ge> 1 \<longrightarrow> (\<forall>l \<in> set ls. length l \<le> width)"
      using "2.IH"(2) by auto
    then show ?thesis using c by (intro exI [of _ "line # ls"]) auto
  next
    case 3
    then show ?thesis using "2.IH"(3) by auto
  qed
qed

text \<open>
  What \<open>cat\<close> prints, with no buffer: each line of the text is cut after every \<open>w\<close> characters, an
  empty line is printed as one, and a text that ends in a newline has no further line.
\<close>

function chunks :: "nat \<Rightarrow> string \<Rightarrow> string list" where
  "chunks w cs = (if cs = [] \<or> w = 0 then [] else take w cs # chunks w (drop w cs))"
  by pat_completeness auto
termination by (relation "measure (\<lambda>(w, cs). length cs)") auto

declare chunks.simps [simp del]

function cat_lines :: "nat \<Rightarrow> string \<Rightarrow> string list" where
  "cat_lines w ds = (if NEWLINE \<in> set ds
     then (let l = takeWhile (\<lambda>c. c \<noteq> NEWLINE) ds in if l = [] then [[]] else chunks w l) @
          cat_lines w (tl (dropWhile (\<lambda>c. c \<noteq> NEWLINE) ds))
     else chunks w ds)"
  by pat_completeness auto
termination
proof (relation "measure (\<lambda>(w, ds). length ds)")
  fix w :: nat and ds :: string
  assume "NEWLINE \<in> set ds"
  then have "ds \<noteq> []" by auto
  then show "((w, tl (dropWhile (\<lambda>c. c \<noteq> NEWLINE) ds)), w, ds) \<in> measure (\<lambda>(w, ds). length ds)"
    using length_dropWhile_le [of "\<lambda>c. c \<noteq> NEWLINE" ds] by (cases ds) (auto simp: less_Suc_eq_le)
qed simp

declare cat_lines.simps [simp del]

lemma chunks_simps [simp]:
  "chunks w [] = []" "w \<ge> 1 \<Longrightarrow> length cs = w \<Longrightarrow> chunks w (cs @ ds) = cs # chunks w ds"
  "cs \<noteq> [] \<Longrightarrow> length cs \<le> w \<Longrightarrow> chunks w cs = [cs]"
proof -
  show nil: "chunks w [] = []" by (simp add: chunks.simps)
  show "chunks w (cs @ ds) = cs # chunks w ds" if "w \<ge> 1" "length cs = w"
    using that by (subst chunks.simps) auto
  show "chunks w cs = [cs]" if "cs \<noteq> []" "length cs \<le> w"
    using that nil by (cases cs; subst chunks.simps) auto
qed

lemma cat_lines_simps [simp]:
  "NEWLINE \<notin> set l \<Longrightarrow> cat_lines w l = chunks w l"
  "NEWLINE \<notin> set l \<Longrightarrow> cat_lines w (l @ NEWLINE # ds) = (if l = [] then [[]] else chunks w l) @ cat_lines w ds"
proof -
  assume l: "NEWLINE \<notin> set l"
  then show "cat_lines w l = chunks w l" by (simp add: cat_lines.simps)
  have "takeWhile (\<lambda>c. c \<noteq> NEWLINE) (l @ NEWLINE # ds) = l" "dropWhile (\<lambda>c. c \<noteq> NEWLINE) (l @ NEWLINE # ds) = NEWLINE # ds"
    using l by (induction l) auto
  then show "cat_lines w (l @ NEWLINE # ds) = (if l = [] then [[]] else chunks w l) @ cat_lines w ds"
    by (subst cat_lines.simps) (simp add: Let_def)
qed

lemma cat_loop_piece:
  assumes "NEWLINE \<notin> set l" "length acc \<le> w" "w \<ge> 1"
  shows "emitted (cat_loop w acc l s) = emitted s @ chunks w (acc @ l)"
    and "emitted (cat_loop w acc (l @ NEWLINE # ds) s) =
      emitted (cat_loop w [] ds (s\<lparr>emitted := emitted s @ (if acc @ l = [] then [[]] else chunks w (acc @ l))\<rparr>))"
  using assms
proof (induction l arbitrary: acc s)
  case Nil
  { case 1 then show ?case by (cases "acc = []") simp_all }
  { case 2 then show ?case by (cases acc) (simp_all add: emit_def) }
next
  case (Cons c l)
  { case 1 then show ?case using Cons.IH(1) [of "[c]" "emit acc s"] Cons.IH(1) [of "acc @ [c]" s]
      by (cases "length acc = w") auto }
  { case 2
    then show ?case using Cons.IH(2) [of "[c]" "emit acc s"] Cons.IH(2) [of "acc @ [c]" s]
      by (cases "length acc = w") (auto simp: emit_def) }
qed

lemma cat_loop_cat_lines:
  assumes "w \<ge> 1" shows "emitted (cat_loop w [] ds s) = emitted s @ cat_lines w ds"
proof (induction ds arbitrary: s rule: length_induct)
  case (1 ds)
  show ?case
  proof (cases "NEWLINE \<in> set ds")
    case True
    then obtain l ds' where "ds = l @ NEWLINE # ds'" "NEWLINE \<notin> set l" by (meson split_list_first)
    then show ?thesis using 1 cat_loop_piece(2) [of l "[]" w ds' s] assms by simp
  next
    case False
    then show ?thesis using cat_loop_piece(1) [of ds "[]" w s] assms by simp
  qed
qed

lemma cat_loop_only: "\<exists>ls. cat_loop w acc cs s = s\<lparr>emitted := emitted s @ ls\<rparr>"
proof (induction w acc cs s rule: cat_loop.induct)
  case (1 width line s)
  show ?case
  proof (cases "line = []")
    case True
    then show ?thesis by (intro exI [of _ "[]"]) simp
  next
    case False
    then show ?thesis by (intro exI [of _ "[line]"]) (simp add: emit_def)
  qed
next
  case (2 width line c cs s)
  then show ?case by (auto simp: emit_def)
qed

lemma fs_cat_lines:
  assumes wf: "fs_wf s" and "spec_lookup (fs_abs s) (cwd_abs s) path = Inr P"
    and "fs_abs s P = Some (File ds)" and "ds \<noteq> []"
  shows "\<exists>s' ls. fs_cat path s = (FS_OK, s') \<and> s' = s\<lparr>emitted := emitted s @ ls\<rparr> \<and>
    concat ls = filter (\<lambda>c. c \<noteq> NEWLINE) ds \<and> (\<forall>l \<in> set ls. length l \<le> 127) \<and>
    (\<forall>ls'. ds = concat (map (\<lambda>l. l @ [NEWLINE]) ls') \<and>
       (\<forall>l \<in> set ls'. NEWLINE \<notin> set l \<and> length l \<le> 127) \<longrightarrow> ls = ls') \<and> ls = cat_lines 127 ds"
proof -
  from wf show ?thesis
  proof (cases rule: fs_resolve_cases [where path = path])
    case (err e)
    then show ?thesis using assms(2) by simp
  next
    case (ok Q i)
    then have "node_at s P = Some i" using assms(2) by simp
    then have isfile: "ftype (nodes s i) = FS_TYPE_FILE" "content s i = ds"
      using assms(3) fs_type_t.exhaust by (auto simp: fs_abs_def entry_of_def split: if_splits)
    note tw = fs_wfD(2) [OF wf]
    have i: "i \<in> {1..<128}" using ok(3) tree_wf_root [OF tw] isfile(1) by (cases "i = 0") auto
    have bytes: "buf_bytes (data (nodes s i)) (fsize (nodes s i)) s = ds"
      using isfile(2) i by (simp add: content_def buf_ptr_def buf_len_def)
    then have "fsize (nodes s i) \<noteq> 0" using assms(4) by (auto simp: buf_bytes_def)
    then have call: "fs_cat path s = (FS_OK, cat_loop 127 [] ds s)"
      using ok(6) i isfile(1) tree_wf_node(3) [OF tw i ok(4)] bytes by (simp add: fs_cat_def Let_def)
    obtain ls where ls: "cat_loop 127 [] ds s = s\<lparr>emitted := emitted s @ ls\<rparr>" using cat_loop_only by blast
    have "concat ls = filter (\<lambda>c. c \<noteq> NEWLINE) ds" "\<forall>l \<in> set ls. length l \<le> 127"
      using cat_loop_concat [of 127 "[]" ds s] by (auto simp: ls)
    moreover have "ls = ls'" if "ds = concat (map (\<lambda>l. l @ [NEWLINE]) ls')"
        "\<forall>l \<in> set ls'. NEWLINE \<notin> set l \<and> length l \<le> 127" for ls'
      using cat_loop_lines [OF that(2), of s] ls that(1) by simp
    moreover have "ls = cat_lines 127 ds" using cat_loop_cat_lines [of 127 ds s] ls by simp
    ultimately show ?thesis using call ls by auto
  qed
qed

text \<open>
  \<open>fs_cat\<close> of a path that resolves to a file prints its contents: lines of at most 127
  characters that, joined, give the file without its newline characters, and exactly the lines
  of the file when each of them ends in a newline and has at most 127 characters. Nothing else
  of the state changes.
\<close>

theorem fs_cat_prints:
  assumes wf: "fs_wf s" and "spec_lookup (fs_abs s) (cwd_abs s) path = Inr P"
    and "fs_abs s P = Some (File ds)" and "ds \<noteq> []"
  shows "\<exists>s' ls. fs_cat path s = (FS_OK, s') \<and> s' = s\<lparr>emitted := emitted s @ ls\<rparr> \<and>
    concat ls = filter (\<lambda>c. c \<noteq> NEWLINE) ds \<and> (\<forall>l \<in> set ls. length l \<le> 127) \<and>
    (\<forall>ls'. ds = concat (map (\<lambda>l. l @ [NEWLINE]) ls') \<and>
       (\<forall>l \<in> set ls'. NEWLINE \<notin> set l \<and> length l \<le> 127) \<longrightarrow> ls = ls')"
  using fs_cat_lines [OF assms] by blast

section \<open>A small file system\<close>

text \<open>The root directory and one file, \<open>/a.txt\<close>, with the two bytes \<open>hi\<close> in the heap.\<close>

definition okfs_small :: okfs where
  "okfs_small = kheap.extend kheap_used \<lparr>ram = (\<lambda>_. NUL)(0xE000000C := CHR ''h'', 0xE000000D := CHR ''i''),
     nodes = (\<lambda>_. fs_blank_node)(0 := fs_blank_node\<lparr>used := True\<rparr>,
       1 := \<lparr>used = True, parent = 0, ftype = FS_TYPE_FILE, name = ''a.txt'', data = 0xE000000C, fsize = 2, cap = 100\<rparr>),
     cwd = 0, cwd_path = ''/'', emitted = [], edit_active = False, edit_path = [], edit_buf = 0, edit_len = 0,
     edit_cap = 0, edit_pending_line = [], edit_pending_line_valid = False, edit_target_line = 0\<rparr>"

lemma okfs_small_fields:
  "nodes okfs_small i = (if i = 0 then fs_blank_node\<lparr>used := True\<rparr> else if i = 1
     then \<lparr>used = True, parent = 0, ftype = FS_TYPE_FILE, name = ''a.txt'', data = 0xE000000C, fsize = 2, cap = 100\<rparr>
     else fs_blank_node)"
  "cwd okfs_small = 0" "edit_buf okfs_small = 0" "edit_len okfs_small = 0" "edit_cap okfs_small = 0"
  "ram okfs_small = (\<lambda>_. NUL)(0xE000000C := CHR ''h'', 0xE000000D := CHR ''i'')"
  "edit_active okfs_small = False" "emitted okfs_small = []" "edit_target_line okfs_small = 0"
  by (simp_all add: okfs_small_def kheap.defs)

lemma okfs_small_heap: "heap_wf okfs_small" "live okfs_small = [0xE000000C \<mapsto> 112]"
proof -
  have eq: "heap_mem okfs_small = heap_mem kheap_used" "heap_start okfs_small = heap_start kheap_used"
    by (simp_all add: okfs_small_def kheap.defs)
  have "heap_blocks okfs_small = heap_blocks kheap_used" unfolding heap_blocks_def eq ..
  then show "heap_wf okfs_small" "live okfs_small = [0xE000000C \<mapsto> 112]"
    using kheap_used eq by (simp_all add: heap_wf_def live_def)
qed

lemma okfs_small_blocks: "heap_blocks okfs_small = [(112, False), (0x4000000 - 136, True)]"
proof -
  have "heap_mem okfs_small = heap_mem kheap_used" "heap_start okfs_small = heap_start kheap_used"
    by (simp_all add: okfs_small_def kheap.defs)
  then show ?thesis using kheap_used by (simp add: heap_blocks_def)
qed

lemma okfs_small_wf: "fs_wf okfs_small"
proof -
  have buf: "buf_ptr okfs_small i = (if i = 1 then 0xE000000C else 0)"
      "buf_len okfs_small i = (if i = 1 then 2 else 0)" "buf_cap okfs_small i = (if i = 1 then 100 else 0)" for i
    by (simp_all add: buf_ptr_def buf_len_def buf_cap_def okfs_small_fields fs_blank_node_def)
  have "bufs_wf okfs_small" by (simp add: bufs_wf_def okfs_small_heap buf buf_ok_def)
  moreover have "fs_is_valid_name ''a.txt''" "fs_ends_with_txt ''a.txt''" by code_simp+
  then have "tree_wf (nodes okfs_small)"
    by (simp add: tree_wf_def okfs_small_fields fs_blank_node_def)
      (rule exI [of _ "\<lambda>i. if i = 1 then 1 else 0"]; simp)
  ultimately show ?thesis by (simp add: fs_wf_def okfs_small_fields fs_blank_node_def)
qed

lemma okfs_small_lookup:
  "node_at okfs_small [''a.txt''] = Some 1" "fs_abs okfs_small [''a.txt''] = Some (File ''hi'')"
  "cwd_abs okfs_small = []" "components ''a.txt'' = [''a.txt'']"
proof -
  note tw = fs_wfD(2) [OF okfs_small_wf]
  have "node_at okfs_small ([] @ [''a.txt'']) = Some 1"
    unfolding node_at_snoc_iff [OF tw] by (simp add: is_child_def okfs_small_fields)
  then show at: "node_at okfs_small [''a.txt''] = Some 1" by simp
  have "content okfs_small 1 = ''hi''"
    by (simp add: content_def buf_bytes_def buf_ptr_def buf_len_def okfs_small_fields upt_rec)
  then show "fs_abs okfs_small [''a.txt''] = Some (File ''hi'')"
    by (simp add: fs_abs_def at entry_of_def okfs_small_fields)
  show "cwd_abs okfs_small = []" by (rule cwd_abs_eqI [OF tw]) (simp add: okfs_small_fields)
  show "components ''a.txt'' = [''a.txt'']" by code_simp
qed

theorem fs_cat_prints_witness:
  "\<exists>s'. fs_cat ''a.txt'' okfs_small = (FS_OK, s') \<and> concat (emitted s') = ''hi''"
proof -
  have "spec_lookup (fs_abs okfs_small) (cwd_abs okfs_small) ''a.txt'' = Inr [''a.txt'']"
    by (simp add: spec_lookup_def start_of_def okfs_small_lookup)
  from fs_cat_prints [OF okfs_small_wf this okfs_small_lookup(2)] show ?thesis
    by (auto simp: okfs_small_fields)
qed

section \<open>The printed working directory\<close>

definition path_text :: "string list \<Rightarrow> string" where
  "path_text P = concat (map (\<lambda>w. SLASH # w) P)"

lemma cwd_join_text:
  assumes "acc \<noteq> []" and "last acc \<noteq> SLASH" and "\<forall>w \<in> set P. w \<noteq> [] \<and> SLASH \<notin> set w"
    and "length (acc @ path_text P) < FS_MAX_PATH - 1"
  shows "cwd_join acc P = acc @ path_text P"
  using assms
proof (induction P arbitrary: acc)
  case (Cons w P)
  have "last (acc @ SLASH # w) \<noteq> SLASH" using Cons.prems(3) by (auto dest: last_in_set)
  then show ?case using Cons by (simp add: path_text_def)
qed (simp add: path_text_def)

lemma cwd_join_start:
  assumes "P \<noteq> []" and "\<forall>w \<in> set P. w \<noteq> [] \<and> SLASH \<notin> set w" and "length (path_text P) < FS_MAX_PATH"
  shows "SLASH # cwd_join [] P = path_text P"
proof -
  obtain w ws where P: "P = w # ws" using assms(1) by (cases P) auto
  then have "last w \<noteq> SLASH" using assms(2) by (auto dest: last_in_set)
  moreover have "length (w @ path_text ws) < FS_MAX_PATH - 1" using assms(3) P by (simp add: path_text_def)
  ultimately have "cwd_join w ws = w @ path_text ws" using assms(2) P by (intro cwd_join_text) auto
  then show ?thesis using \<open>length (w @ path_text ws) < FS_MAX_PATH - 1\<close> P by (simp add: path_text_def)
qed

lemma node_at_names:
  assumes wf: "tree_wf (nodes s)"
  shows "node_at s P = Some i \<Longrightarrow> length P \<le> n \<Longrightarrow>
    map (\<lambda>j. name (nodes s j)) (rev (cwd_stack n (nodes s) i)) = P"
proof (induction P arbitrary: i n rule: rev_induct)
  case Nil
  then show ?case by (cases n) auto
next
  case (snoc c P)
  then obtain j where j: "node_at s P = Some j" "is_child (nodes s) j c i"
    by (auto simp: node_at_snoc_iff [OF wf])
  obtain m where n: "n = Suc m" using snoc.prems(2) by (cases n) auto
  have "0 < i" "parent (nodes s i) = j" "name (nodes s i) = c" using j(2) by (auto simp: is_child_def)
  then show ?case using snoc.IH [OF j(1), of m] snoc.prems(2) n by simp
qed

lemma node_at_take: "node_at s P = Some i \<Longrightarrow> \<exists>j. node_at s (take k P) = Some j"
  using walk_append [of s 0 "take k P" "drop k P"] by (cases "walk s 0 (take k P)") (simp_all add: node_at_def)

lemma path_length:
  assumes wf: "tree_wf (nodes s)" and P: "node_at s P = Some i"
  shows "length P < 128"
proof -
  define f where "f k = the (node_at s (take k P))" for k
  have at: "node_at s (take k P) = Some (f k)" for k using node_at_take [OF P, of k] by (auto simp: f_def)
  have "inj_on f {..length P}"
  proof (rule inj_onI)
    fix k l assume "k \<in> {..length P}" "l \<in> {..length P}" "f k = f l"
    moreover from this have "take k P = take l P" using at node_at_inj [OF wf] by metis
    ultimately show "k = l" by (metis atMost_iff length_take min.absorb2)
  qed
  moreover have "f ` {..length P} \<subseteq> {0..<128}" using node_at_used(1) [OF wf at] by auto
  ultimately have "card {..length P} \<le> card {0..<128 :: int}" by (rule card_inj_on_le) simp
  then show ?thesis by simp
qed

lemma node_at_words:
  assumes wf: "tree_wf (nodes s)"
  shows "node_at s P = Some i \<Longrightarrow> \<forall>w \<in> set P. w \<noteq> [] \<and> SLASH \<notin> set w"
proof (induction P arbitrary: i rule: rev_induct)
  case (snoc c P)
  then obtain j where j: "node_at s P = Some j" "is_child (nodes s) j c i"
    by (auto simp: node_at_snoc_iff [OF wf])
  then have "fs_is_valid_name c" using tree_wf_node(1) [OF wf] by (auto simp: is_child_def)
  then show ?case using snoc.IH [OF j(1)] valid_name_chars by auto
qed simp

text \<open>
  After a successful \<open>cd\<close> into a directory other than the root whose absolute path has fewer
  than 256 characters, \<open>pwd\<close> prints that absolute path without its leading slash.
\<close>

theorem fs_pwd_drops_slash:
  assumes wf: "fs_wf s" and cd: "fs_cd path s = (FS_OK, s')" and "cwd_abs s' \<noteq> []"
    and "length (path_text (cwd_abs s')) < FS_MAX_PATH"
  shows "SLASH # fs_pwd s' = path_text (cwd_abs s')"
proof -
  have wf': "fs_wf s'" using fs_cd_refines(1) [OF wf cd] .
  note tw = fs_wfD(2) [OF wf'] and at = cwd_abs [OF wf']
  have c: "cwd s' \<noteq> 0" using node_at_used(3) [OF tw at] assms(3) by simp
  define u where "u = s\<lparr>cwd := cwd s'\<rparr>"
  have s': "s' = fs_rebuild_cwd_path u"
  proof -
    define c where "c = fs_resolve (cwd s) path True s"
    have eq: "s' = fs_rebuild_cwd_path (s\<lparr>cwd := c\<rparr>)"
      using cd by (simp add: fs_cd_def Let_def c_def split: if_splits)
    obtain x where "fs_rebuild_cwd_path (s\<lparr>cwd := c\<rparr>) = s\<lparr>cwd := c, cwd_path := x\<rparr>"
      using rebuild_cwd_path by blast
    then have c: "cwd s' = c" unfolding eq by simp
    show ?thesis unfolding u_def c by (rule eq)
  qed
  obtain x where "fs_rebuild_cwd_path u = u\<lparr>cwd_path := x\<rparr>" using rebuild_cwd_path by blast
  then have "s' = u\<lparr>cwd_path := x\<rparr>" using s' by simp
  then have nd: "nodes s' = nodes u" "cwd u = cwd s'" by simp_all
  define P where "P = cwd_abs s'"
  have "map (\<lambda>j. name (nodes u j)) (rev (cwd_stack FS_MAX_NODES (nodes u) (cwd u))) = P"
    using node_at_names [OF tw at, of FS_MAX_NODES] path_length [OF tw at] nd by (simp add: P_def)
  moreover have "cwd u \<noteq> 0" using c nd(2) by simp
  ultimately have "cwd_path (fs_rebuild_cwd_path u) = (if cwd_join [] P = [] then ''/'' else cwd_join [] P)"
    by (simp add: fs_rebuild_cwd_path_def Let_def)
  then have "cwd_path s' = (if cwd_join [] P = [] then ''/'' else cwd_join [] P)" by (simp only: s')
  moreover have sl: "SLASH # cwd_join [] P = path_text P"
    using cwd_join_start [of P] node_at_words [OF tw at] assms(3,4) by (simp add: P_def)
  moreover have "cwd_join [] P \<noteq> []"
  proof
    assume "cwd_join [] P = []"
    then have "path_text P = [SLASH]" using sl by simp
    then show False
      using node_at_words [OF tw at] assms(3) by (cases P) (auto simp: P_def [symmetric] path_text_def)
  qed
  ultimately show ?thesis by (simp add: fs_pwd_def P_def)
qed

theorem fs_pwd_drops_slash_witness: "\<exists>s'. fs_cd ''docs'' okfs_start = (FS_OK, s') \<and> fs_pwd s' = ''docs''"
proof (rule okfs_start)
  fix x y
  assume wf: "fs_wf okfs_start" and v: "fs_view okfs_start = ([[] \<mapsto> Dir, [''docs''] \<mapsto> Dir,
      [''readme.txt''] \<mapsto> File x, [''docs'', ''about.txt''] \<mapsto> File y], [])"
  obtain r s' where cd: "fs_cd ''docs'' okfs_start = (r, s')" by fastforce
  have "spec_cd ''docs'' (fs_view okfs_start) = (FS_OK, fst (fs_view okfs_start), [''docs''])"
    by (simp add: v spec_cd_def spec_lookup_def start_of_def init_paths)
  then have "r = FS_OK" "cwd_abs s' = [''docs'']" using fs_cd_refines(2) [OF wf cd] by (auto simp: fs_view_def)
  then show ?thesis using fs_pwd_drops_slash [OF wf, of "''docs''" s'] cd by (simp add: path_text_def)
qed

end
