(* ===== verification/Okfs_Edit_Props.thy ===== *)
theory Okfs_Edit_Props
  imports Okfs_Edit Okfs_Props
begin

text \<open>
  The editor keeps the file system well-formed and untouched until it saves, and a session of
  typed lines that is saved appends exactly these lines to the file.
\<close>

section \<open>The edit buffer\<close>

lemma edit_text_content: "edit_text s = content s (-1)"
  by (simp add: edit_text_def content_def buf_ptr_def buf_len_def)

lemma edit_owner [simp]:
  "buf_ptr s (-1) = edit_buf s" "buf_len s (-1) = edit_len s" "buf_cap s (-1) = edit_cap s"
  by (simp_all add: buf_ptr_def buf_len_def buf_cap_def)

lemma copy_bytes_edit [simp]:
  "edit_buf (copy_bytes dst src len s) = edit_buf s" "edit_len (copy_bytes dst src len s) = edit_len s"
  unfolding copy_bytes_def by (rule for_loop_preserves; simp add: write_byte_def)+

text \<open>A failed allocation is reported on the console, a successful one is silent.\<close>

lemma kmalloc_klog:
  assumes "heap_wf s" and "kmalloc k s = Some (q, s')" and "k \<noteq> 0"
  shows "if q = 0 then length (klog s) < length (klog s') else klog s' = klog s"
  using heap_wf_rep [OF assms(1)] assms(3)
proof (cases rule: kmalloc_cases)
  case fail
  then show ?thesis using assms(2) by simp
next
  case (ok xs m ys s'')
  then show ?thesis
    using assms(2) block_ptr_unat(2) [of s xs m True ys] heap_wf_rep [OF assms(1)] by (auto simp del: of_nat_add)
qed

lemma edit_grow_effect:
  fixes s :: "'a okfs_scheme"
  assumes wf: "bufs_wf s" and need: "unat need \<le> 65536"
  obtains (fail) s' where "edit_grow need s = Some (False, s')" and "heap_wf s'" and "live s' = live s"
      and "\<exists>h l. s' = s\<lparr>heap_mem := h, klog := l\<rparr> \<and> length (klog s) < length l"
  | (ok) s' q c where "edit_grow need s = Some (True, s')"
      and "buf_step (edit_buf s) q s s'" and "unat need \<le> unat c" and "buf_ok s' q (edit_len s) c"
      and "buf_bytes q (edit_len s) s' = buf_bytes (edit_buf s) (edit_len s) s"
      and "\<exists>h r. s' = s\<lparr>heap_mem := h, ram := r, edit_buf := q, edit_cap := c\<rparr>"
proof -
  have hw: "heap_wf s" using wf by (simp add: bufs_wf_def)
  have bo: "buf_ok s (edit_buf s) (edit_len s) (edit_cap s)" using bufs_wfD(1) [OF wf, of "-1"] by simp
  show thesis
  proof (cases "edit_cap s < need")
    case False
    have "\<exists>h r. s = s\<lparr>heap_mem := h, ram := r, edit_buf := edit_buf s, edit_cap := edit_cap s\<rparr>"
      by (intro exI [of _ "heap_mem s"] exI [of _ "ram s"]) simp
    then show thesis
      by (rule ok [of s, rotated 5]) (use False buf_step_refl [OF hw] bo in \<open>auto simp: edit_grow_def unat_less_iff\<close>)
  next
    case True
    define ic where "ic = (if edit_cap s \<noteq> 0 then edit_cap s else 256)"
    have "unat (edit_cap s) \<le> 65536" using buf_ok_cap [OF bo] by simp
    then obtain c0 where c0: "grow_cap ic need = Some c0"
        "unat need \<le> unat (if FS_MAX_FILE_SIZE < c0 then FS_MAX_FILE_SIZE else c0)"
        "0 < unat (if FS_MAX_FILE_SIZE < c0 then FS_MAX_FILE_SIZE else c0)"
        "unat (if FS_MAX_FILE_SIZE < c0 then FS_MAX_FILE_SIZE else c0) \<le> 65536"
      unfolding ic_def using new_capacity need by metis
    define k where "k = (if FS_MAX_FILE_SIZE < c0 then FS_MAX_FILE_SIZE else c0)"
    have k0: "k \<noteq> 0" using c0(3) by (auto simp: k_def)
    obtain q s1 where al: "kmalloc k s = Some (q, s1)" using kh.alloc_returns [OF hw] by blast
    obtain h l where s1: "s1 = s\<lparr>heap_mem := h, klog := l\<rparr>" using kmalloc_okfs [OF al] .
    show thesis
    proof (cases "q = 0")
      case q: True
      have "edit_grow need s = Some (False, s1)"
        unfolding edit_grow_def ic_def [symmetric] using True q al by (simp add: c0(1) Let_def flip: k_def)
      moreover have "length (klog s) < length l" using kmalloc_klog [OF hw al k0] q by (simp add: s1)
      ultimately show thesis
        using fail [of s1] kmalloc_null_same(1,2) [OF hw, of k s1] al q s1 by metis
    next
      case q: False
      have l: "l = klog s" using kmalloc_klog [OF hw al k0] q by (simp add: s1)
      define s2 where "s2 = copy_bytes q (Mem (edit_buf s)) (edit_len s) s1"
      define s3 where "s3 = (if edit_buf s \<noteq> 0 then kfree (edit_buf s) s2 else s2)"
      have sz: "unat (edit_len s) \<le> unat k" using buf_ok_cap [OF bo] True c0(2) by (simp add: k_def unat_less_iff)
      note gs = grow_step(1,2,4,5) [OF hw bo al q sz c0(3,4) [folded k_def], of True, simplified if_True,
          folded s2_def, folded s3_def]
      have copy: "\<exists>r. s2 = s1\<lparr>ram := r\<rparr>"
        unfolding s2_def copy_bytes_def
        by (rule for_loop_invariant [where P = "\<lambda>_ t. \<exists>r. t = s1\<lparr>ram := r\<rparr>"])
          (auto simp: write_byte_def intro: exI [of _ "ram s1"])
      then obtain r where s2: "s2 = s1\<lparr>ram := r\<rparr>" by blast
      define h' where "h' = (if edit_buf s = 0 then h else kfree_heap (edit_buf s) h)"
      have s3: "s3 = s\<lparr>heap_mem := h', ram := r\<rparr>"
        by (simp add: s3_def s2 s1 l kfree_okfs h'_def)
      have call: "edit_grow need s = Some (True, s3\<lparr>edit_buf := q, edit_cap := k\<rparr>)"
        unfolding edit_grow_def ic_def [symmetric]
        using True q al by (simp add: c0(1) Let_def s3_def s2_def s1 flip: k_def)
      have same: "ram (s3\<lparr>edit_buf := q, edit_cap := k\<rparr>) = ram s3" "live (s3\<lparr>edit_buf := q, edit_cap := k\<rparr>) = live s3"
          "heap_wf (s3\<lparr>edit_buf := q, edit_cap := k\<rparr>) = heap_wf s3"
        by (simp_all add: live_def heap_wf_def heap_blocks_def)
      have "buf_step (edit_buf s) q s (s3\<lparr>edit_buf := q, edit_cap := k\<rparr>)"
        using gs(1) by (simp add: buf_step_def same)
      moreover have "buf_ok (s3\<lparr>edit_buf := q, edit_cap := k\<rparr>) q (edit_len s) k"
        using gs(2) by (simp add: buf_ok_def same)
      moreover have "buf_bytes q (edit_len s) (s3\<lparr>edit_buf := q, edit_cap := k\<rparr>) = buf_bytes (edit_buf s) (edit_len s) s"
        using gs(3) by (simp add: buf_bytes_def same)
      moreover have "\<exists>h r. s3\<lparr>edit_buf := q, edit_cap := k\<rparr> = s\<lparr>heap_mem := h, ram := r, edit_buf := q, edit_cap := k\<rparr>"
        using s3 by auto
      ultimately show thesis using ok [OF call] c0(2) unfolding k_def [symmetric] by blast
    qed
  qed
qed

text \<open>A change of the editor's buffer leaves the other owners' fields alone.\<close>

lemma edit_upd_owners:
  "s' = s\<lparr>heap_mem := h, klog := l, ram := r, edit_buf := q, edit_cap := c, edit_len := n\<rparr> \<Longrightarrow> i \<noteq> -1 \<Longrightarrow>
     buf_ptr s' i = buf_ptr s i \<and> buf_len s' i = buf_len s i \<and> buf_cap s' i = buf_cap s i"
  by (simp add: buf_ptr_def buf_len_def buf_cap_def)

lemma edit_buf_append_effect:
  fixes s :: "'a okfs_scheme"
  assumes wf: "bufs_wf s" and src: "src_ok s (edit_buf s) txt len" and len: "unat len < 2 ^ 31"
  obtains (fail) s' where "edit_buf_append txt len s = Some (FS_ERR_NO_SPACE, s')" and "bufs_wf s'"
      and "live s' = live s" and "\<And>i. content s' i = content s i"
      and "\<exists>h l. s' = s\<lparr>heap_mem := h, klog := l\<rparr> \<and> length (klog s) \<le> length l \<and>
             (length l = length (klog s) \<longrightarrow> 65536 < length (edit_text s) + unat len)"
  | (ok) s' where "edit_buf_append txt len s = Some (FS_OK, s')" and "bufs_wf s'"
      and "edit_text s' = edit_text s @ src_bytes txt len s"
      and "\<And>i. i \<in> {0..<128} \<Longrightarrow> content s' i = content s i"
      and "buf_step (edit_buf s) (edit_buf s') s s'"
      and "\<exists>h r q c. s' = s\<lparr>heap_mem := h, ram := r, edit_buf := q, edit_cap := c, edit_len := edit_len s + len\<rparr>"
proof -
  have hw: "heap_wf s" using wf by (simp add: bufs_wf_def)
  have bo: "buf_ok s (edit_buf s) (edit_len s) (edit_cap s)" using bufs_wfD(1) [OF wf, of "-1"] by simp
  have el: "unat (edit_len s) \<le> 65536" using buf_ok_cap [OF bo] by simp
  have lt: "length (edit_text s) = unat (edit_len s)" by (simp add: edit_text_def buf_bytes_def)
  define need where "need = edit_len s + len"
  have un: "unat need = unat (edit_len s) + unat len" using el len by (simp add: need_def unat_add_small)
  show thesis
  proof (cases "FS_MAX_FILE_SIZE < need")
    case True
    have "\<exists>h l. s = s\<lparr>heap_mem := h, klog := l\<rparr> \<and> length (klog s) \<le> length l \<and>
        (length l = length (klog s) \<longrightarrow> 65536 < length (edit_text s) + unat len)"
      by (rule exI [of _ "heap_mem s"], rule exI [of _ "klog s"]) (use True un lt in \<open>simp add: unat_less_iff\<close>)
    then show thesis
      by (rule fail [of s, rotated 4]) (use True wf in \<open>auto simp: edit_buf_append_def need_def\<close>)
  next
    case False
    then have small: "unat need \<le> 65536" by (simp add: unat_less_iff)
    have call: "edit_buf_append txt len s = Option.bind (edit_grow need s) (\<lambda>(ok, s).
        if \<not> ok then Some (FS_ERR_NO_SPACE, s)
        else let s = copy_bytes (edit_buf s + edit_len s) txt len s in Some (FS_OK, s\<lparr>edit_len := edit_len s + len\<rparr>))"
      using False by (simp add: edit_buf_append_def need_def)
    from wf small show thesis
    proof (cases rule: edit_grow_effect)
      case (fail s')
      then obtain h l where s': "s' = s\<lparr>heap_mem := h, klog := l\<rparr>" "length (klog s) < length l" by blast
      then have "\<exists>h l. s' = s\<lparr>heap_mem := h, klog := l\<rparr> \<and> length (klog s) \<le> length l \<and>
          (length l = length (klog s) \<longrightarrow> 65536 < length (edit_text s) + unat len)"
        by (intro exI [of _ h] exI [of _ l]) simp
      then show thesis
        by (rule that(1) [of s', rotated 4])
          (use fail(1,3) call bufs_wf_same [OF wf fail(2,3) s'(1)] in auto)
    next
      case (ok t q c)
      obtain h r where t: "t = s\<lparr>heap_mem := h, ram := r, edit_buf := q, edit_cap := c\<rparr>" using ok(6) by blast
      have hwt: "heap_wf t" using ok(2) by (simp add: buf_step_def)
      have et: "edit_buf t = q" "edit_len t = edit_len s" by (simp_all add: t)
      have st: "src_ok t q txt len" "src_bytes txt len t = src_bytes txt len s"
        using src_ok_step [OF hw src ok(2)] by simp_all
      define u where "u = copy_bytes (q + edit_len s) txt len t"
      have room: "unat (edit_len s) + unat len \<le> unat c" using ok(3) un by simp
      note pb = put_buf [OF hwt ok(4) room st(1), folded u_def]
      obtain r' where u: "u = t\<lparr>ram := r'\<rparr>" using pb(4) by blast
      define s' where "s' = u\<lparr>edit_len := edit_len s + len\<rparr>"
      have s'_eq: "s' = s\<lparr>heap_mem := h, klog := klog s, ram := r', edit_buf := q, edit_cap := c, edit_len := edit_len s + len\<rparr>"
        by (simp add: s'_def u t)
      have same: "ram s' = ram u" "live s' = live u" "heap_wf s' = heap_wf u"
        by (simp_all add: s'_def live_def heap_wf_def heap_blocks_def)
      have ed: "edit_buf s' = q" "edit_cap s' = c" "edit_len s' = edit_len s + len" by (simp_all add: s'_eq)
      have "edit_buf_append txt len s = Some (FS_OK, s')"
        unfolding call by (simp add: ok(1) et flip: u_def) (simp add: s'_def u t)
      moreover have step: "buf_step (edit_buf s) (edit_buf s') s s'"
        using buf_step_trans [OF ok(2) pb(1)] by (simp add: buf_step_def same ed)
      moreover have own: "buf_ok s' (edit_buf s') (edit_len s') (edit_cap s')"
        using pb(2) by (simp add: buf_ok_def same ed)
      moreover have "edit_text s' = edit_text s @ src_bytes txt len s"
        using pb(3) ok(5) st(2) by (simp add: edit_text_def ed buf_bytes_def same)
      moreover note bufs_wf_step [OF wf, of "-1" s', simplified edit_owner, OF _ step own edit_upd_owners [OF s'_eq]]
      ultimately show thesis
        using that(2) [of s'] s'_eq by fastforce
    qed
  qed
qed


lemma fs_view_kept:
  assumes "fs_wf s" and "bufs_wf s'" and "nodes s' = nodes s" and "cwd s' = cwd s"
    and "\<And>i. i \<in> {0..<128} \<Longrightarrow> content s' i = content s i"
  shows "fs_wf s'" and "fs_view s' = fs_view s"
proof -
  show "fs_wf s'" using assms(1-4) by (simp add: fs_wf_def)
  note abs_cong [OF assms(3,5) fs_wfD(2) [OF assms(1)]]
  then show "fs_view s' = fs_view s" using cwd_abs_cong [of s' s] assms(4) by (simp add: fs_view_def)
qed

text \<open>Fields outside the heap and the buffers do not matter to the file system.\<close>

lemma edit_fields_wf [simp]:
  "bufs_wf (s\<lparr>edit_active := a\<rparr>) = bufs_wf s" "bufs_wf (s\<lparr>edit_path := p\<rparr>) = bufs_wf s"
  "bufs_wf (s\<lparr>edit_target_line := n\<rparr>) = bufs_wf s" "bufs_wf (s\<lparr>edit_pending_line := x\<rparr>) = bufs_wf s"
  "bufs_wf (s\<lparr>edit_pending_line_valid := b\<rparr>) = bufs_wf s" "bufs_wf (emit x s) = bufs_wf s"
  by (simp_all add: bufs_wf_def buf_ok_def buf_ptr_def buf_len_def buf_cap_def heap_wf_def live_def
      heap_blocks_def emit_def)

lemma edit_fields_content [simp]:
  "content (s\<lparr>edit_active := a\<rparr>) = content s" "content (s\<lparr>edit_path := p\<rparr>) = content s"
  "content (s\<lparr>edit_target_line := n\<rparr>) = content s" "content (s\<lparr>edit_pending_line := x\<rparr>) = content s"
  "content (s\<lparr>edit_pending_line_valid := b\<rparr>) = content s" "content (emit x s) = content s"
  by (simp_all add: content_def buf_ptr_def buf_len_def buf_bytes_def emit_def fun_eq_iff)

text \<open>What the commands other than saving keep: the files, and a text whose buffer exists when it is not empty.\<close>

definition edit_ok :: "'a okfs_scheme \<Rightarrow> bool" where
  "edit_ok s \<longleftrightarrow> fs_wf s \<and> (edit_len s = 0 \<longrightarrow> edit_buf s = 0)"

definition edit_step :: "'a okfs_scheme \<Rightarrow> 'a okfs_scheme \<Rightarrow> bool" where
  "edit_step s s' \<longleftrightarrow> edit_ok s' \<and> nodes s' = nodes s \<and> cwd s' = cwd s \<and>
     (\<forall>i \<in> {0..<128}. content s' i = content s i)"

lemma edit_stepI:
  assumes "edit_ok s" and "bufs_wf s'" and "nodes s' = nodes s" and "cwd s' = cwd s"
    and "\<And>i. i \<in> {0..<128} \<Longrightarrow> content s' i = content s i" and "edit_len s' = 0 \<longrightarrow> edit_buf s' = 0"
  shows "edit_step s s'"
  using assms fs_view_kept(1) [of s s'] by (simp add: edit_step_def edit_ok_def)

lemma edit_step_trans: "edit_step s t \<Longrightarrow> edit_step t u \<Longrightarrow> edit_step s u"
  by (simp add: edit_step_def)

lemma edit_step_view: "edit_ok s \<Longrightarrow> edit_step s s' \<Longrightarrow> fs_wf s' \<and> fs_view s' = fs_view s"
  using fs_view_kept [of s s'] by (simp add: edit_step_def edit_ok_def fs_wf_def)

lemma edit_ok_wf: "edit_ok s \<Longrightarrow> bufs_wf s"
  by (simp add: edit_ok_def fs_wf_def)

lemma edit_step_fields [simp]:
  "edit_step s (emit x t) = edit_step s t" "edit_step s (t\<lparr>edit_active := a\<rparr>) = edit_step s t"
  "edit_step s (t\<lparr>edit_path := p\<rparr>) = edit_step s t" "edit_step s (t\<lparr>edit_target_line := n\<rparr>) = edit_step s t"
  "edit_step s (t\<lparr>edit_pending_line := y\<rparr>) = edit_step s t"
  "edit_step s (t\<lparr>edit_pending_line_valid := b\<rparr>) = edit_step s t"
  by (simp_all add: edit_step_def edit_ok_def fs_wf_def) (simp_all add: emit_def)

lemma edit_step_refl: "edit_ok s \<Longrightarrow> edit_step s s"
  by (simp add: edit_step_def)

lemma edit_free_effect:
  assumes "edit_ok s"
  shows "edit_step s (edit_buf_free s)" and "edit_text (edit_buf_free s) = []"
proof -
  note wf = edit_ok_wf [OF assms]
  have hw: "heap_wf s" using wf by (simp add: bufs_wf_def)
  have bo: "buf_ok s (edit_buf s) (edit_len s) (edit_cap s)" using bufs_wfD(1) [OF wf, of "-1"] by simp
  let ?h = "kfree_heap (edit_buf s) (heap_mem s)"
  let ?t = "s\<lparr>heap_mem := ?h, klog := klog s, ram := ram s, edit_buf := 0, edit_cap := 0, edit_len := 0\<rparr>"
  have free: "edit_buf_free s = ?t\<lparr>edit_pending_line_valid := False, edit_target_line := 0\<rparr>"
    by (simp add: edit_buf_free_def kfree_okfs Let_def kfree_heap_def)
  have same: "live ?t = live (kfree (edit_buf s) s)" "heap_wf ?t = heap_wf (kfree (edit_buf s) s)" "ram ?t = ram s"
    by (simp_all add: kfree_okfs live_def heap_wf_def heap_blocks_def)
  have null: "live s 0 = None" using kh.null_not_live [OF hw] .
  have live: "heap_wf ?t \<and> live ?t = (live s)(edit_buf s := None)"
  proof (cases "edit_buf s = 0")
    case True
    then show ?thesis using null hw kh.release_null [of s] unfolding same by (simp add: fun_upd_idem)
  next
    case False
    then show ?thesis
      using kh.release_regions [OF hw, of "edit_buf s"] kh.release_ok [OF hw, of "edit_buf s"] buf_ok_live [OF bo]
      unfolding same by simp
  qed
  have step: "buf_step (buf_ptr s (-1)) (buf_ptr ?t (-1)) s ?t"
    using live null by (simp add: buf_step_def)
  have own: "buf_ok ?t (buf_ptr ?t (-1)) (buf_len ?t (-1)) (buf_cap ?t (-1))" by (simp add: buf_ok_def)
  note bw = bufs_wf_step [OF wf _ step own edit_upd_owners [OF refl]]
  have "edit_step s ?t" by (rule edit_stepI [OF assms]) (use bw in auto)
  then show "edit_step s (edit_buf_free s)" unfolding free by simp
  show "edit_text (edit_buf_free s) = []" by (simp add: free edit_text_def buf_bytes_def)
qed


section \<open>Commands\<close>

text \<open>The session's fields that an append does not touch.\<close>

definition same_session :: "'a okfs_scheme \<Rightarrow> 'a okfs_scheme \<Rightarrow> bool" where
  "same_session s s' \<longleftrightarrow> edit_active s' = edit_active s \<and> edit_path s' = edit_path s \<and>
     edit_target_line s' = edit_target_line s"

lemma edit_append_step:
  fixes s :: "'a okfs_scheme"
  assumes ok: "edit_ok s" and src: "src_ok s (edit_buf s) txt len" and len: "unat len < 2 ^ 31"
  obtains r s' where "edit_buf_append txt len s = Some (r, s')" and "edit_step s s'" and "same_session s s'"
    and "r = FS_OK \<and> edit_text s' = edit_text s @ src_bytes txt len s \<or>
         r = FS_ERR_NO_SPACE \<and> edit_text s' = edit_text s"
    and "\<And>b m. live s b = Some m \<Longrightarrow> b \<noteq> edit_buf s \<Longrightarrow>
           b \<noteq> edit_buf s' \<and> live s' b = Some m \<and> (\<forall>a \<in> region b m. ram s' a = ram s a)"
    and "length (klog s) \<le> length (klog s')"
    and "r \<noteq> FS_OK \<Longrightarrow> length (klog s') = length (klog s) \<Longrightarrow> 65536 < length (edit_text s) + unat len"
  using edit_ok_wf [OF ok] src len
proof (cases rule: edit_buf_append_effect)
  case (fail s')
  then obtain h l where s': "s' = s\<lparr>heap_mem := h, klog := l\<rparr>" "length (klog s) \<le> length l"
      "length l = length (klog s) \<longrightarrow> 65536 < length (edit_text s) + unat len" by blast
  have "edit_step s s'" by (rule edit_stepI [OF ok]) (use fail s'(1) ok in \<open>auto simp: edit_ok_def\<close>)
  moreover have "edit_text s' = edit_text s" using fail(4) by (simp add: edit_text_content)
  ultimately show thesis
    by (intro that [OF fail(1)]) (use s' fail(3) in \<open>auto simp: same_session_def\<close>)
next
  case (ok s')
  obtain h r q c where s': "s' = s\<lparr>heap_mem := h, ram := r, edit_buf := q, edit_cap := c, edit_len := edit_len s + len\<rparr>"
    using ok(6) by blast
  have bo: "buf_ok s (edit_buf s) (edit_len s) (edit_cap s)"
    using bufs_wfD(1) [OF edit_ok_wf [OF assms(1)], of "-1"] by simp
  have "edit_len s' = 0 \<longrightarrow> edit_buf s' = 0"
  proof
    assume z: "edit_len s' = 0"
    then have "unat (edit_len s + len) = 0" by (simp add: s')
    moreover have "unat (edit_len s + len) = unat (edit_len s) + unat len"
      using buf_ok_cap [OF bo] len by (intro unat_add_small) simp
    ultimately have "edit_len s = 0" "len = 0" by (simp_all add: unat_eq_0)
    with ok(1) assms(1) have "s' = s\<lparr>edit_len := 0\<rparr>"
      by (simp add: edit_buf_append_def edit_grow_def)
    then show "edit_buf s' = 0" using assms(1) \<open>edit_len s = 0\<close> by (simp add: edit_ok_def)
  qed
  then have "edit_step s s'"
    by (intro edit_stepI [OF assms(1)]) (use ok s' in auto)
  moreover have "b \<noteq> edit_buf s'" if "live s b = Some m" "b \<noteq> edit_buf s" for b m
    using ok(5) that by (auto simp: buf_step_def)
  moreover have "klog s' = klog s" by (simp add: s')
  ultimately show thesis
    by (intro that [OF ok(1)]) (use ok(3) buf_stepD [OF ok(5)] s' in \<open>auto simp: same_session_def\<close>)
qed

lemma edit_append_Str:
  fixes s :: "'a okfs_scheme"
  assumes ok: "edit_ok s" and len: "length cs < 2 ^ 31"
  obtains r s' where "edit_buf_append (Str cs) (of_nat (length cs)) s = Some (r, s')" and "edit_step s s'"
    and "same_session s s'"
    and "r = FS_OK \<and> edit_text s' = edit_text s @ cs \<or> r = FS_ERR_NO_SPACE \<and> edit_text s' = edit_text s"
    and "length (klog s) \<le> length (klog s')"
    and "r \<noteq> FS_OK \<Longrightarrow> length (klog s') = length (klog s) \<Longrightarrow> 65536 < length (edit_text s) + length cs"
proof -
  have len': "unat (of_nat (length cs) :: u32) = length cs" using len by simp
  have sb: "src_bytes (Str cs) (of_nat (length cs)) s = cs" using len by (intro src_bytes_Str) simp
  show thesis
    by (rule edit_append_step [OF ok src_ok_Str, of "of_nat (length cs)" cs, unfolded sb len'])
      (use len that in blast)+
qed

lemma edit_step_ok: "edit_step s s' \<Longrightarrow> edit_ok s'"
  by (simp add: edit_step_def)

text \<open>A typed line: added with its newline, or refused when there is no room.\<close>

lemma edit_add_step:
  fixes s :: "'a okfs_scheme"
  assumes ok: "edit_ok s" and len: "length line < 2 ^ 31"
  obtains r s' where "edit_add line s = Some (r, s')" and "edit_step s s'" and "same_session s s'"
    and "r = FS_OK \<Longrightarrow> edit_text s' = edit_text s @ line @ [NEWLINE]"
proof -
  obtain r s1 where 1: "edit_buf_append (Str line) (of_nat (length line)) s = Some (r, s1)" "edit_step s s1"
      "same_session s s1"
      "r = FS_OK \<and> edit_text s1 = edit_text s @ line \<or> r = FS_ERR_NO_SPACE \<and> edit_text s1 = edit_text s"
    by (rule edit_append_Str [OF ok len])
  have emitted: "same_session s t \<Longrightarrow> same_session s (emit x t)" "edit_text (emit x t) = edit_text t" for x t
    by (simp_all add: same_session_def emit_def edit_text_def buf_bytes_def)
  show thesis
  proof (cases "r = FS_OK")
    case False
    then show thesis
      using that [of r "emit (fs_strerror r) s1"] 1 emitted by (simp add: edit_add_def)
  next
    case True
    obtain r2 s2 where 2: "edit_buf_append (Str [NEWLINE]) 1 s1 = Some (r2, s2)" "edit_step s1 s2" "same_session s1 s2"
        "r2 = FS_OK \<and> edit_text s2 = edit_text s1 @ [NEWLINE] \<or> r2 = FS_ERR_NO_SPACE \<and> edit_text s2 = edit_text s1"
      by (rule edit_append_Str [OF edit_step_ok [OF 1(2)], of "[NEWLINE]"]) simp_all
    have ss: "same_session s s2" using 1(3) 2(3) by (simp add: same_session_def)
    have "edit_add line s = Some (r2, if r2 \<noteq> FS_OK then emit (fs_strerror r2) s2 else s2)"
      using 1(1) 2(1) True by (simp add: edit_add_def)
    then show thesis
      using that [of r2 "if r2 \<noteq> FS_OK then emit (fs_strerror r2) s2 else s2"] 1(4) 2(4) True ss emitted
        edit_step_trans [OF 1(2) 2(2)] by auto
  qed
qed


text \<open>Loading a file into an empty buffer, or giving the session up.\<close>

lemma edit_load_step:
  fixes t :: "'a okfs_scheme"
  assumes ok: "edit_ok t" and i: "i \<in> {0..<128}" and empty: "edit_buf t = 0" "edit_text t = []"
  defines "load \<equiv> (if 0 < fsize (nodes t i) then do {
      (err, s) \<leftarrow> edit_buf_append (Mem (data (nodes t i))) (fsize (nodes t i)) t;
      if err \<noteq> FS_OK then Some (err, s\<lparr>edit_active := False, edit_path := []\<rparr>) else Some (FS_OK, s) }
    else Some (FS_OK, t))"
  obtains r s' where "load = Some (r, s')" and "edit_step t s'"
    and "r = FS_OK \<Longrightarrow> same_session t s' \<and> edit_text s' = content t i"
proof (cases "0 < fsize (nodes t i)")
  case False
  then have "content t i = []" using i by (simp add: content_def buf_len_def buf_bytes_def word_gt_0)
  with False show thesis
    using that [of FS_OK t] edit_step_refl [OF ok] empty(2) by (simp add: load_def same_session_def)
next
  case True
  have own: "buf_ok t (data (nodes t i)) (fsize (nodes t i)) (cap (nodes t i))"
    using bufs_wfD(1) [OF edit_ok_wf [OF ok], of i] i by (simp add: buf_ptr_def buf_len_def buf_cap_def)
  then obtain m where m: "data (nodes t i) \<noteq> 0" "live t (data (nodes t i)) = Some m" "unat (fsize (nodes t i)) \<le> m"
    using True by (auto simp: buf_ok_def word_gt_0 split: if_splits)
  have hwt: "heap_wf t" using edit_ok_wf [OF ok] by (simp add: bufs_wf_def)
  have src: "src_ok t (edit_buf t) (Mem (data (nodes t i))) (fsize (nodes t i))"
    using m live_region_bound [OF hwt m(2)] region_mono [OF m(3)] by (auto simp: src_ok_def empty)
  have small: "unat (fsize (nodes t i)) < 2 ^ 31" using buf_ok_cap [OF own] by simp
  have bytes: "src_bytes (Mem (data (nodes t i))) (fsize (nodes t i)) t = content t i"
    using i by (simp add: content_def buf_ptr_def buf_len_def buf_bytes_src)
  obtain r u where u: "edit_buf_append (Mem (data (nodes t i))) (fsize (nodes t i)) t = Some (r, u)"
      "edit_step t u" "same_session t u"
      "r = FS_OK \<and> edit_text u = edit_text t @ content t i \<or> r = FS_ERR_NO_SPACE \<and> edit_text u = edit_text t"
    by (rule edit_append_step [OF ok src small, unfolded bytes])
  then show thesis
    using that [of r "if r = FS_OK then u else u\<lparr>edit_active := False, edit_path := []\<rparr>"] True empty(2)
    by (auto simp: load_def)
qed

lemma edit_begin_step:
  fixes s :: "'a okfs_scheme"
  assumes ok: "edit_ok s"
  obtains r s' where "fs_edit_begin path s = Some (r, s')" and "edit_step s s'"
    and "r = FS_OK \<Longrightarrow> edit_active s' \<and> edit_path s' = fs_strcpy path FS_MAX_PATH \<and> edit_target_line s' = 0 \<and>
           (\<exists>Q d. spec_lookup (fs_abs s) (cwd_abs s) path = Inr Q \<and> fs_abs s Q = Some (File d) \<and> edit_text s' = d)"
proof -
  note res = that
  have wf: "fs_wf s" using ok by (simp add: edit_ok_def)
  note tw = fs_wfD(2) [OF wf]
  have noop: thesis if "fs_edit_begin path s = Some (r, s)" "r \<noteq> FS_OK" for r
    using res [OF that(1) edit_step_refl [OF ok]] that(2) by simp
  show thesis
  proof (cases "edit_active s")
    case True
    then show thesis using noop [of FS_ERR_INVALID] by (simp add: fs_edit_begin_def)
  next
    case inactive: False
    from wf show thesis
    proof (cases rule: fs_resolve_cases [where path = path])
      case (err e)
      then show thesis using noop [of e] inactive by (simp add: fs_edit_begin_def)
    next
      case found: (ok P i)
      show thesis
      proof (cases "ftype (nodes s i) = FS_TYPE_FILE")
        case False
        then show thesis using noop [of FS_ERR_NOT_FILE] inactive found by (simp add: fs_edit_begin_def)
      next
        case True
        then have i: "i \<in> {1..<128}" using found(3) tree_wf_root [OF tw] by (cases "i = 0") auto
        have entry: "fs_abs s P = Some (File (content s i))" using found True by (simp add: fs_abs_def entry_of_def)
        define t where "t = (edit_buf_free s)\<lparr>edit_active := True, edit_path := fs_strcpy path FS_MAX_PATH\<rparr>"
        have step: "edit_step s t" "edit_text t = []"
          using edit_free_effect [OF ok] by (simp_all add: t_def edit_text_def buf_bytes_def)
        have nt: "nodes t = nodes s" "content t i = content s i" using step(1) i by (simp_all add: edit_step_def)
        have ft: "edit_active t" "edit_path t = fs_strcpy path FS_MAX_PATH" "edit_target_line t = 0" "edit_buf t = 0"
          by (simp_all add: t_def edit_buf_free_def Let_def)
        have nf: "nodes (edit_buf_free s) = nodes t" by (simp add: t_def)
        have call: "fs_edit_begin path s = (if 0 < fsize (nodes t i) then do {
               (err, s) \<leftarrow> edit_buf_append (Mem (data (nodes t i))) (fsize (nodes t i)) t;
               if err \<noteq> FS_OK then Some (err, s\<lparr>edit_active := False, edit_path := []\<rparr>)
               else Some (FS_OK, s) } else Some (FS_OK, t))"
          using inactive True found(3,6) tree_wf_node(3) [OF tw i found(4) True]
          unfolding fs_edit_begin_def by (simp add: Let_def nf flip: t_def)
        have i': "i \<in> {0..<128}" using i by simp
        obtain r u where u: "fs_edit_begin path s = Some (r, u)" "edit_step t u"
            "r = FS_OK \<Longrightarrow> same_session t u \<and> edit_text u = content t i"
          unfolding call by (rule edit_load_step [OF edit_step_ok [OF step(1)] i' ft(4) step(2)]) blast
        then show thesis
          using res [OF u(1) edit_step_trans [OF step(1) u(2)]] ft found(1) entry nt(2)
          by (simp add: same_session_def)
      qed
    qed
  qed
qed

section \<open>Saving\<close>

lemma okfs_frame_session:
  assumes "okfs_frame s s'"
  shows "edit_active s' = edit_active s" "edit_path s' = edit_path s" "edit_buf s' = edit_buf s"
    "edit_len s' = edit_len s" "edit_target_line s' = edit_target_line s"
    "edit_pending_line_valid s' = edit_pending_line_valid s" "edit_pending_line s' = edit_pending_line s"
  using assms by (auto simp: okfs_frame_def)

lemma edit_write_src:
  assumes "edit_ok s" and "edit_text s \<noteq> []"
  shows "write_src s (Mem (edit_buf s)) (edit_len s) (edit_len s)"
    and "src_bytes (Mem (edit_buf s)) (edit_len s) s = edit_text s"
proof -
  note wf = edit_ok_wf [OF assms(1)]
  have hw: "heap_wf s" using wf by (simp add: bufs_wf_def)
  have bo: "buf_ok s (edit_buf s) (edit_len s) (edit_cap s)" using bufs_wfD(1) [OF wf, of "-1"] by simp
  have ne: "edit_len s \<noteq> 0" using assms(2) by (auto simp: edit_text_def buf_bytes_def)
  then obtain m where m: "edit_buf s \<noteq> 0" "live s (edit_buf s) = Some m" "unat (edit_len s) \<le> m"
    using bo by (auto simp: buf_ok_def split: if_splits)
  have apart: "data (nodes s i) \<noteq> edit_buf s" if "i \<in> {0..<128}" for i
    using bufs_wfD(2) [OF wf, of "-1" i] that m(1) by (simp add: buf_ptr_def)
  show "write_src s (Mem (edit_buf s)) (edit_len s) (edit_len s)"
    using m ne live_region_bound [OF hw m(2)] region_mono [OF m(3)]
    unfolding write_src_def src_ok_def by (auto intro!: exI [of _ "edit_buf s"] dest: apart)
  show "src_bytes (Mem (edit_buf s)) (edit_len s) s = edit_text s" by (simp add: edit_text_def buf_bytes_src)
qed

text \<open>Saving writes the text to the path of the session, with the result of \<open>fs_write_file\<close>.\<close>

lemma edit_save_step:
  fixes s :: "'a okfs_scheme"
  assumes ok: "edit_ok s" and ne: "edit_text s \<noteq> []"
  obtains r s' where "edit_save s = Some (r, s')" and "edit_ok s'"
    and "spec_write (edit_path s) (edit_text s) (fs_view s) r (fs_view s')"
    and "edit_active s' = (if r = FS_OK then False else edit_active s)"
proof -
  have wf: "fs_wf s" using ok by (simp add: edit_ok_def)
  obtain r t where t: "fs_write_file (edit_path s) (Mem (edit_buf s)) (edit_len s) s = Some (r, t)" "fs_wf t"
      "spec_write (edit_path s) (edit_text s) (fs_view s) r (fs_view t)" "okfs_frame s t"
    by (rule fs_write_file_effect [OF wf edit_write_src(1) [OF ok ne], of "edit_path s", unfolded edit_write_src(2) [OF ok ne]])
  note fr = okfs_frame_session [OF t(4)]
  have okt: "edit_ok t" using t(2) ok fr by (simp add: edit_ok_def)
  have emit: "edit_step t (emit x t)" for x using edit_step_refl [OF okt] by simp
  show thesis
  proof (cases "r = FS_OK")
    case False
    then have call: "edit_save s = Some (r, emit (fs_strerror r) t)" by (simp add: edit_save_def t(1))
    have "edit_active (emit x t) = edit_active t" for x by (simp add: emit_def)
    then show thesis
      using that [OF call edit_step_ok [OF emit]] edit_step_view [OF okt emit] t(3) False fr by simp
  next
    case True
    let ?u = "(emit ''Saved.'' t)\<lparr>edit_active := False, edit_path := []\<rparr>"
    have u: "edit_step t ?u" using emit by simp
    note free = edit_free_effect(1) [OF edit_step_ok [OF u]]
    have act: "\<not> edit_active (edit_buf_free ?u)" by (simp add: edit_buf_free_def Let_def kfree_okfs)
    have call: "edit_save s = Some (r, edit_buf_free ?u)" using True by (simp add: edit_save_def t(1))
    show thesis
      using that [OF call edit_step_ok [OF free]] edit_step_view [OF okt edit_step_trans [OF u free]] t(3) True act
      by simp
  qed
qed

text \<open>An empty text has no buffer, and saving it is refused.\<close>

lemma edit_save_empty:
  assumes "edit_ok s" and "edit_text s = []"
  shows "edit_save s = Some (FS_ERR_INVALID, emit ''Invalid path or name'' s)"
proof -
  have "edit_len s = 0" using assms(2) by (simp add: edit_text_def buf_bytes_def unat_eq_0)
  then have "edit_buf s = 0" using assms(1) by (simp add: edit_ok_def)
  then show ?thesis by (simp add: edit_save_def fs_write_file_def fs_strerror_def)
qed


section \<open>Room for the text\<close>

lemma edit_append_room:
  fixes s :: "'a okfs_scheme"
  assumes ok: "edit_ok s" and len: "length (edit_text s) + unat len \<le> 65536"
    and room: "heap_room s n" "ALLOC_COST \<le> n" and call: "edit_buf_append txt len s = Some (r, s')"
  shows "r = FS_OK" and "heap_room s' (n - ALLOC_COST)"
proof -
  note wf = edit_ok_wf [OF ok]
  have hw: "heap_wf s" using wf by (simp add: bufs_wf_def)
  have bo: "buf_ok s (edit_buf s) (edit_len s) (edit_cap s)" using bufs_wfD(1) [OF wf, of "-1"] by simp
  define need where "need = edit_len s + len"
  have need: "unat need \<le> 65536"
    using len by (simp add: need_def edit_text_def buf_bytes_def unat_add_small)
  have fields: "heap_room (t\<lparr>edit_buf := q, edit_cap := c\<rparr>) k = heap_room t k" "heap_room (t\<lparr>edit_len := m\<rparr>) k = heap_room t k"
    for t :: "'a okfs_scheme" and q c m k by (simp_all add: heap_room_def heap_blocks_def)
  have "\<exists>t. edit_grow need s = Some (True, t) \<and> heap_room t (n - ALLOC_COST)"
  proof (cases "edit_cap s < need")
    case False
    then show ?thesis using heap_room_mono [OF room(1)] by (simp add: edit_grow_def)
  next
    case True
    define ic where "ic = (if edit_cap s \<noteq> 0 then edit_cap s else 256)"
    have "unat (edit_cap s) \<le> 65536" using buf_ok_cap [OF bo] by simp
    then obtain c0 where c0: "grow_cap ic need = Some c0"
        "0 < unat (if FS_MAX_FILE_SIZE < c0 then FS_MAX_FILE_SIZE else c0)"
        "unat (if FS_MAX_FILE_SIZE < c0 then FS_MAX_FILE_SIZE else c0) \<le> 65536"
      unfolding ic_def using new_capacity need by metis
    define k where "k = (if FS_MAX_FILE_SIZE < c0 then FS_MAX_FILE_SIZE else c0)"
    obtain q s1 where al: "kmalloc k s = Some (q, s1)" using kh.alloc_returns [OF hw] by blast
    note rr = replace_room [OF hw bo al c0(2,3) [folded k_def] room]
    obtain h l where s1: "s1 = s\<lparr>heap_mem := h, klog := l\<rparr>" using kmalloc_okfs [OF al] .
    define s2 where "s2 = copy_bytes q (Mem (edit_buf s)) (edit_len s) s1"
    have free: "heap_room (kfree (edit_buf s) s2) (n - ALLOC_COST)" by (rule rr(2)) (simp_all add: s2_def)
    define s3 where "s3 = (if edit_buf s \<noteq> 0 then kfree (edit_buf s) s2 else s2)"
    have s3: "s3 = kfree (edit_buf s) s2" using kh.release_null [of s2] by (simp add: s3_def)
    have "edit_grow need s = Some (True, s3\<lparr>edit_buf := q, edit_cap := k\<rparr>)"
      unfolding edit_grow_def ic_def [symmetric]
      using True rr(1) al by (simp add: c0(1) Let_def s3_def s2_def s1 flip: k_def)
    then show ?thesis using free fields(1) unfolding s3 by blast
  qed
  then obtain t where t: "edit_grow need s = Some (True, t)" "heap_room t (n - ALLOC_COST)" by blast
  have "\<not> FS_MAX_FILE_SIZE < need" using need by (simp add: unat_less_iff)
  then show "r = FS_OK" and "heap_room s' (n - ALLOC_COST)"
    using call t fields(2) by (auto simp: edit_buf_append_def Let_def simp flip: need_def)
qed

section \<open>A session\<close>

lemma same_session_trans: "same_session s t \<Longrightarrow> same_session t u \<Longrightarrow> same_session s u"
  by (simp add: same_session_def)

lemma typed_line:
  assumes "edit_active s" and "edit_target_line s = 0" and "line = [] \<or> hd line \<noteq> CHR '':''"
  shows "fs_edit_handle_line line s = edit_add line s"
proof -
  have "\<not> fs_streq line (CHR '':'' # xs)" for xs using assms(3) by (cases line) auto
  moreover have "take 3 line \<noteq> '':e ''" using assms(3) by (cases line) auto
  ultimately show ?thesis using assms(1,2) by (simp add: fs_edit_handle_line_def edit_command_def)
qed

lemma edit_add_room:
  fixes s :: "'a okfs_scheme"
  assumes ok: "edit_ok s" and len: "length (edit_text s) + length line + 1 \<le> 65536"
    and room: "heap_room s n" "2 * ALLOC_COST \<le> n"
  obtains s' where "edit_add line s = Some (FS_OK, s')" and "edit_step s s'" and "same_session s s'"
    and "edit_text s' = edit_text s @ line @ [NEWLINE]" and "heap_room s' (n - 2 * ALLOC_COST)"
proof -
  have ll: "length line < 2 ^ 31" "unat (of_nat (length line) :: u32) = length line" using len by simp_all
  obtain r s1 where 1: "edit_buf_append (Str line) (of_nat (length line)) s = Some (r, s1)" "edit_step s s1"
      "same_session s s1"
      "r = FS_OK \<and> edit_text s1 = edit_text s @ line \<or> r = FS_ERR_NO_SPACE \<and> edit_text s1 = edit_text s"
    by (rule edit_append_Str [OF ok ll(1)])
  have 2: "r = FS_OK" "heap_room s1 (n - ALLOC_COST)"
    using edit_append_room [OF ok _ room(1) _ 1(1)] len room(2) ll(2) by simp_all
  obtain r2 s2 where 3: "edit_buf_append (Str [NEWLINE]) 1 s1 = Some (r2, s2)" "edit_step s1 s2" "same_session s1 s2"
      "r2 = FS_OK \<and> edit_text s2 = edit_text s1 @ [NEWLINE] \<or> r2 = FS_ERR_NO_SPACE \<and> edit_text s2 = edit_text s1"
    by (rule edit_append_Str [OF edit_step_ok [OF 1(2)], of "[NEWLINE]"]) simp_all
  have 4: "r2 = FS_OK" "heap_room s2 (n - ALLOC_COST - ALLOC_COST)"
    using edit_append_room [OF edit_step_ok [OF 1(2)] _ 2(2) _ 3(1)] 1(4) 2(1) len room(2) by simp_all
  have "edit_add line s = Some (FS_OK, s2)" using 1(1) 2(1) 3(1) 4(1) by (simp add: edit_add_def)
  then show thesis
    using that [of s2] 1 2 3 4 edit_step_trans [OF 1(2) 3(2)] same_session_trans [OF 1(3) 3(3)] by simp
qed

abbreviation typed :: "string list \<Rightarrow> string" where "typed ls \<equiv> concat (map (\<lambda>l. l @ [NEWLINE]) ls)"

lemma typed_lines:
  fixes s :: "'a okfs_scheme"
  assumes "edit_ok s" and "edit_active s" and "edit_target_line s = 0"
    and "\<forall>l \<in> set ls. l = [] \<or> hd l \<noteq> CHR '':''" and "length (edit_text s @ typed ls) \<le> 65536"
    and "heap_room s (n + 2 * length ls * ALLOC_COST)"
  obtains t rs where "run_ops fs_edit_handle_line ls s = Some (rs, t)" and "set rs \<subseteq> {FS_OK}" and "edit_step s t"
    and "same_session s t" and "edit_text t = edit_text s @ typed ls" and "heap_room t n"
  using assms
proof (induction ls arbitrary: s thesis)
  case Nil
  then show ?case using edit_step_refl by (auto simp: same_session_def)
next
  case (Cons l ls)
  obtain t where t: "edit_add l s = Some (FS_OK, t)" "edit_step s t" "same_session s t"
      "edit_text t = edit_text s @ l @ [NEWLINE]" "heap_room t (n + 2 * length (l # ls) * ALLOC_COST - 2 * ALLOC_COST)"
    by (rule edit_add_room [OF Cons.prems(2) _ Cons.prems(7), of l]) (use Cons.prems(6) in auto)
  have h: "fs_edit_handle_line l s = Some (FS_OK, t)"
    using typed_line [OF Cons.prems(3,4), of l] Cons.prems(5) t(1) by simp
  obtain u rs where "run_ops fs_edit_handle_line ls t = Some (rs, u)" "set rs \<subseteq> {FS_OK}" "edit_step t u"
      "same_session t u" "edit_text u = edit_text t @ typed ls" "heap_room u n"
    by (rule Cons.IH [of t]) (use t Cons.prems edit_step_ok [OF t(2)] in \<open>auto simp: same_session_def\<close>)
  then show ?case
    using Cons.prems(1) [of "FS_OK # rs" u] h t(4) edit_step_trans [OF t(2), of u] same_session_trans [OF t(3), of u]
    by simp
qed

lemma lookup_of_parent:
  assumes "spec_parent t C path = Inr (P, nm)" and "length (base_part path) < FS_MAX_NAME"
    and "fs_is_valid_name nm" and "spec_lookup t C path = Inr Q"
  shows "Q = P @ [nm]"
proof -
  have nm: "nm = base_part path" and P: "canon t (start_of C path) (components (dir_part path)) = Inr P"
    using assms(1,2) by (auto simp: spec_parent_def split: if_splits sum.splits)
  note v = valid_name_chars [OF assms(3)]
  have "path \<noteq> []" using v(1) nm by (auto simp: base_part_def)
  moreover have "components path = components (dir_part path) @ [nm]"
    using components_path v(1,4) nm by metis
  ultimately show ?thesis
    using assms(4) P assms(2) v nm by (auto simp: spec_lookup_def canon_append split: if_splits option.splits)
qed

lemma edit_free_room:
  fixes s :: "'a okfs_scheme"
  assumes "edit_ok s" and "heap_room s n" shows "heap_room (edit_buf_free s) n"
proof -
  note wf = edit_ok_wf [OF assms(1)]
  have hw: "heap_wf s" using wf by (simp add: bufs_wf_def)
  have "edit_buf s = 0 \<or> live s (edit_buf s) \<noteq> None" using buf_ok_live bufs_wfD(1) [OF wf, of "-1"] by fastforce
  from kfree_room [OF hw this assms(2)] have "heap_room (kfree (edit_buf s) s) n" .
  moreover have "heap_room (edit_buf_free s) n = heap_room (kfree (edit_buf s) s) n"
    using kh.release_null [of s] by (simp add: edit_buf_free_def heap_room_def heap_blocks_def Let_def)
  ultimately show ?thesis by simp
qed

lemma edit_begin_room:
  fixes s :: "'a okfs_scheme"
  assumes ok: "edit_ok s" "\<not> edit_active s" and room: "heap_room s n" "ALLOC_COST \<le> n"
    and look: "spec_lookup (fs_abs s) (cwd_abs s) path = Inr Q" "fs_abs s Q = Some (File d)"
  obtains s' where "fs_edit_begin path s = Some (FS_OK, s')" and "heap_room s' (n - ALLOC_COST)"
proof -
  note res = that
  have wf: "fs_wf s" using ok by (simp add: edit_ok_def)
  note tw = fs_wfD(2) [OF wf]
  from wf show thesis
  proof (cases rule: fs_resolve_cases [where path = path])
    case (err e)
    then show thesis using look by simp
  next
    case found: (ok P i)
    have entry: "ftype (nodes s i) = FS_TYPE_FILE" "content s i = d"
      using look found(1,2) fs_type_t.exhaust [of "ftype (nodes s i)"] by (auto simp: fs_abs_def entry_of_def split: if_splits)
    then have i: "i \<in> {1..<128}" using found(3) tree_wf_root [OF tw] by (cases "i = 0") auto
    define t where "t = (edit_buf_free s)\<lparr>edit_active := True, edit_path := fs_strcpy path FS_MAX_PATH\<rparr>"
    have step: "edit_step s t" "edit_text t = []" "edit_buf t = 0"
      using edit_free_effect [OF ok(1)] by (simp_all add: t_def edit_text_def buf_bytes_def edit_buf_free_def Let_def)
    have nt: "nodes t = nodes s" using step(1) by (simp add: edit_step_def)
    have nf: "nodes (edit_buf_free s) = nodes t" by (simp add: t_def)
    have rt: "heap_room t n"
      using edit_free_room [OF ok(1) room(1)] by (simp add: t_def heap_room_def heap_blocks_def)
    have small: "unat (fsize (nodes s i)) \<le> 65536"
      using buf_ok_cap [OF bufs_wfD(1) [OF fs_wfD(1) [OF wf], of i]] i by (simp add: buf_len_def buf_cap_def)
    have call: "fs_edit_begin path s = (if 0 < fsize (nodes s i) then do {
           (err, s) \<leftarrow> edit_buf_append (Mem (data (nodes s i))) (fsize (nodes s i)) t;
           if err \<noteq> FS_OK then Some (err, s\<lparr>edit_active := False, edit_path := []\<rparr>)
           else Some (FS_OK, s) } else Some (FS_OK, t))"
      using ok(2) entry(1) found(3,6) tree_wf_node(3) [OF tw i found(4) entry(1)]
      unfolding fs_edit_begin_def by (simp add: Let_def nf nt flip: t_def)
    show thesis
    proof (cases "0 < fsize (nodes s i)")
      case False
      then show thesis using res [of t] call heap_room_mono [OF rt] by simp
    next
      case True
      obtain r s' where st: "fs_edit_begin path s = Some (r, s')" using edit_begin_step [OF ok(1)] by metis
      then obtain r' u where u: "edit_buf_append (Mem (data (nodes s i))) (fsize (nodes s i)) t = Some (r', u)"
        using call True by (cases "edit_buf_append (Mem (data (nodes s i))) (fsize (nodes s i)) t") auto
      have "r' = FS_OK" "heap_room u (n - ALLOC_COST)"
        using edit_append_room [OF edit_step_ok [OF step(1)] _ rt room(2) u] step(2) small by simp_all
      then show thesis using res [of u] call True u by simp
    qed
  qed
qed

lemma run_ops_append:
  "run_ops step (xs @ ys) s = (case run_ops step xs s of None \<Rightarrow> None
     | Some (rs, t) \<Rightarrow> map_option (\<lambda>(rs', u). (rs @ rs', u)) (run_ops step ys t))"
  by (induction xs arbitrary: s)
    (auto simp: option.map_comp comp_def case_prod_unfold option.map_ident split: option.splits prod.splits)

lemma small_parts: "dir_part ''a.txt'' = []" "base_part ''a.txt'' = ''a.txt''"
  by code_simp+

lemma small_parent: "spec_parent (fs_abs okfs_small) (cwd_abs okfs_small) ''a.txt'' = Inr ([], ''a.txt'')"
proof -
  have "fs_abs okfs_small [] = Some Dir"
    using tree_wf_root [OF fs_wfD(2) [OF okfs_small_wf]] by (simp add: fs_abs_def entry_of_def okfs_small_fields fs_blank_node_def)
  then show ?thesis by (simp add: spec_parent_def small_parts start_of_def okfs_small_lookup components_Nil)
qed





section \<open>The command line\<close>

lemma strncmp_prefix: "NUL \<notin> set v \<Longrightarrow> fs_strncmp (v @ w) v (length v) = 0"
  by (induction v) auto

lemma strncmp_Cons:
  "fs_strncmp (x # a) (y # b) n =
     (if n = 0 then 0 else if x \<noteq> y then of_char x - of_char y else if x = NUL then 0 else fs_strncmp a b (n - 1))"
  by (cases n) simp_all

lemma skip_spaces_simps [simp]:
  "skip_spaces (CHR '' '' # p) = skip_spaces p" "c \<noteq> CHR '' '' \<Longrightarrow> skip_spaces (c # p) = c # p" "skip_spaces [] = []"
  by (simp_all add: skip_spaces_def)

lemma skip_spaces_word: "CHR '' '' \<notin> set w \<Longrightarrow> w \<noteq> [] \<Longrightarrow> skip_spaces (w @ p) = w @ p"
  by (cases w) auto

lemma takeWhile_stop: "c \<notin> set w \<Longrightarrow> takeWhile (\<lambda>x. x \<noteq> c) (w @ c # p) = w"
  by (subst takeWhile_append2) auto

lemma parse_quoted_tail_text:
  assumes "QUOTE \<notin> set t" and "length t < n"
  shows "parse_quoted_tail (QUOTE # t @ [QUOTE]) n = Some t"
proof -
  have "takeWhile (\<lambda>c. c \<noteq> QUOTE) (t @ [QUOTE]) = t" using assms(1) by (rule takeWhile_stop)
  then show ?thesis using assms(2) by (simp add: parse_quoted_tail_def)
qed

text \<open>The form of a \<open>write\<close> or \<open>append\<close> command: verb, path and quoted text.\<close>

definition text_command :: "string \<Rightarrow> string \<Rightarrow> string \<Rightarrow> string" where
  "text_command verb path t = verb @ '' '' @ path @ '' '' @ [QUOTE] @ t @ [QUOTE]"

lemma parse_text_command:
  assumes "NUL \<notin> set verb" and "CHR '' '' \<notin> set path" and "path \<noteq> []" and "length path < FS_MAX_PATH"
    and "QUOTE \<notin> set t" and "length t < n"
  shows "parse_path_and_rest (text_command verb path t) verb n = Some (path, t)"
proof -
  have "takeWhile (\<lambda>c. c \<noteq> CHR '' '') (path @ CHR '' '' # QUOTE # t @ [QUOTE]) = path"
    using assms(2) by (rule takeWhile_stop)
  then show ?thesis
    using strncmp_prefix [OF assms(1), of "'' '' @ path @ '' '' @ [QUOTE] @ t @ [QUOTE]"] assms
      skip_spaces_word [OF assms(2,3), of "CHR '' '' # QUOTE # t @ [QUOTE]"]
    by (simp add: parse_path_and_rest_def text_command_def parse_quoted_tail_text Let_def)
qed

lemma fs_handle_write:
  assumes "CHR '' '' \<notin> set path" and "path \<noteq> []" and "length path < FS_MAX_PATH"
    and "QUOTE \<notin> set t" and "length t < FS_CMD_TEXT_MAX"
  shows "fs_handle_command (text_command ''write'' path t) s =
    map_option (\<lambda>(err, s). (True, report err (Some ''Written.'') s)) (fs_write_file path (Str t) 0 s)"
proof -
  note parse = parse_text_command [OF _ assms, of "''write''"]
  have "text_command ''write'' path t = ''write '' @ drop 6 (text_command ''write'' path t)"
    by (simp add: text_command_def)
  then obtain r where r: "text_command ''write'' path t = ''write '' @ r" by blast
  have "parse_path_and_rest (''write '' @ r) ''write'' FS_CMD_TEXT_MAX = Some (path, t)" using parse r by simp
  then show ?thesis unfolding r fs_handle_command_def
    by (cases "fs_write_file path (Str t) 0 s") (simp_all add: strncmp_Cons split: prod.splits)
qed

lemma fs_handle_cat:
  "fs_handle_command (''cat '' @ path) s = (case fs_cat path s of (err, s) \<Rightarrow> Some (True, report err None s))"
  by (simp add: fs_handle_command_def strncmp_Cons)


lemma emit_kept:
  assumes "fs_wf s" shows "fs_wf (emit l s)" and "fs_view (emit l s) = fs_view s"
proof -
  have "nodes (emit l s) = nodes s" "cwd (emit l s) = cwd s" "bufs_wf (emit l s)"
    using fs_wfD(1) [OF assms] by simp_all (simp add: emit_def)
  from fs_view_kept [OF assms this(3,1,2)] show "fs_wf (emit l s)" "fs_view (emit l s) = fs_view s" by simp_all
qed

text \<open>C20. The shell's \<open>write\<close> command followed by \<open>cat\<close>: for a non-empty text without quotes and a path
  without spaces whose last name has at most 47 characters, the command line \<open>write path "text"\<close> stores
  the text as the specification of a write says and reports the outcome, and after a success
  \<open>cat path\<close> prints exactly the lines of the text, each cut after every 127 characters, and changes
  nothing else.\<close>

theorem write_command_cat:
  assumes wf: "fs_wf s" and path: "CHR '' '' \<notin> set path" "path \<noteq> []" "length path < FS_MAX_PATH"
      "length (base_part path) < FS_MAX_NAME"
    and t: "t \<noteq> []" "QUOTE \<notin> set t" "length t < FS_CMD_TEXT_MAX"
  shows "\<exists>err s\<^sub>1. fs_handle_command (text_command ''write'' path t) s = Some (True, s\<^sub>1) \<and> fs_wf s\<^sub>1 \<and>
    spec_write path t (fs_view s) err (fs_view s\<^sub>1) \<and>
    emitted s\<^sub>1 = emitted s @ [if err = FS_OK then ''Written.'' else take 63 (''Error: '' @ fs_strerror err)] \<and>
    (err = FS_OK \<longrightarrow> (\<exists>ls. fs_handle_command (''cat '' @ path) s\<^sub>1 =
         Some (True, s\<^sub>1\<lparr>emitted := emitted s\<^sub>1 @ ls\<rparr>) \<and>
       ls = cat_lines 127 t \<and> concat ls = filter (\<lambda>c. c \<noteq> NEWLINE) t))"
proof -
  obtain err u where w: "fs_write_file path (Str t) 0 s = Some (err, u)" "fs_wf u"
      "spec_write path t (fs_view s) err (fs_view u)" "okfs_frame s u"
    by (rule fs_write_Str [OF wf, of t path]) (use t(3) in auto)
  define s1 where "s1 = report err (Some ''Written.'') u"
  have call: "fs_handle_command (text_command ''write'' path t) s = Some (True, s1)"
    using fs_handle_write [OF path(1-3) t(2,3), of s] w(1) by (simp add: s1_def)
  obtain l where s1: "s1 = emit l u" "l = (if err = FS_OK then ''Written.'' else take 63 (''Error: '' @ fs_strerror err))"
    by (simp add: s1_def report_def emit_err_def append_max_def)
  have view: "fs_wf s1" "fs_view s1 = fs_view u" using emit_kept [OF w(2)] by (simp_all add: s1(1))
  have em: "emitted s1 = emitted s @ [l]" using w(4) by (auto simp: s1(1) okfs_frame_def emit_def)
  have "\<exists>ls. fs_handle_command (''cat '' @ path) s1 = Some (True, s1\<lparr>emitted := emitted s1 @ ls\<rparr>) \<and>
       ls = cat_lines 127 t \<and> concat ls = filter (\<lambda>c. c \<noteq> NEWLINE) t" if "err = FS_OK"
  proof -
    have "spec_write path t (fs_view s) FS_OK (fs_view s1)" using w(3) view(2) that by simp
    from spec_write_lookup [OF wf this path(4)] obtain Q where
      Q: "spec_lookup (fs_abs s1) (cwd_abs s1) path = Inr Q" "fs_abs s1 Q = Some (File t)" by (metis fun_upd_same)
    from fs_cat_lines [OF view(1) Q t(1)] obtain s2 ls where
      cat: "fs_cat path s1 = (FS_OK, s2)" "s2 = s1\<lparr>emitted := emitted s1 @ ls\<rparr>" "concat ls = filter (\<lambda>c. c \<noteq> NEWLINE) t"
      "ls = cat_lines 127 t" by blast
    have "fs_handle_command (''cat '' @ path) s1 = Some (True, s2)"
      unfolding fs_handle_cat by (simp add: cat(1) report_def)
    with cat(2-4) show ?thesis by blast
  qed
  then show ?thesis
    using call view(1) w(3) em s1(2) by (intro exI [of _ err] exI [of _ s1]) (simp add: view(2))
qed


theorem write_command_cat_witness:
  "\<exists>s\<^sub>1 s\<^sub>2. fs_handle_command (text_command ''write'' ''a.txt'' ''good day'') okfs_small = Some (True, s\<^sub>1) \<and>
    emitted s\<^sub>1 = [''Written.''] \<and> fs_handle_command ''cat a.txt'' s\<^sub>1 = Some (True, s\<^sub>2) \<and>
    emitted s\<^sub>2 = [''Written.'', ''good day'']"
proof -
  have len: "length (base_part ''a.txt'') < FS_MAX_NAME" by (simp add: small_parts)
  obtain r s' where w: "fs_write_file ''a.txt'' (Str ''good day'') 0 okfs_small = Some (r, s')"
      "spec_write ''a.txt'' ''good day'' (fs_view okfs_small) r (fs_view s')"
    by (rule fs_write_Str [OF okfs_small_wf, of "''good day''" "''a.txt''"]) simp_all
  have "heap_room okfs_small ALLOC_COST" using okfs_small_blocks by (simp add: heap_room_def)
  then have "r \<noteq> FS_ERR_NO_SPACE" using fs_write_Str_room(1) [OF okfs_small_wf _ _ _ w(1)] by simp
  obtain t' C' where v': "fs_view s' = (t', C')" by fastforce
  have ok: "r = FS_OK"
    using w(2) \<open>r \<noteq> _\<close> okfs_small_lookup(2) unfolding v' fs_view_def
    by (auto simp: spec_write_def small_parent spec_store_def)
  define s1 where "s1 = report r (Some ''Written.'') s'"
  have call: "fs_handle_command (text_command ''write'' ''a.txt'' ''good day'') okfs_small = Some (True, s1)"
    using fs_handle_write [of "''a.txt''" "''good day''" okfs_small] w(1) by (simp add: s1_def)
  have "CHR '' '' \<notin> set ''a.txt''" "''a.txt'' \<noteq> []" "length ''a.txt'' < FS_MAX_PATH" "''good day'' \<noteq> []"
      "QUOTE \<notin> set ''good day''" "length ''good day'' < FS_CMD_TEXT_MAX" by simp_all
  note use = write_command_cat [OF okfs_small_wf this(1-3) len this(4-6), unfolded call option.inject prod.inject okfs_small_fields(8)]
  then obtain err where err: "emitted s1 = [if err = FS_OK then ''Written.'' else take 63 (''Error: '' @ fs_strerror err)]"
      "err = FS_OK \<longrightarrow> fs_handle_command (''cat '' @ ''a.txt'') s1 =
         Some (True, s1\<lparr>emitted := emitted s1 @ cat_lines 127 ''good day''\<rparr>)"
    by (metis append_Nil)
  have "emitted s1 = emitted s' @ [''Written.'']" by (simp add: s1_def report_def ok)
  then have "err = FS_OK" using err(1) by (auto split: if_splits)
  moreover have "cat_lines 127 ''good day'' = [''good day'']" by simp
  ultimately show ?thesis using call err by auto
qed

section \<open>Saving an empty text\<close>

text \<open>Saving is refused when the text under edit is empty: the editor has no buffer then, so
  \<open>fs_write_file\<close> is given a null pointer and reports an invalid path. The session stays open and
  no file changes.\<close>

theorem edit_save_empty_refused:
  assumes "edit_ok s" and "fs_edit_is_active s" and "edit_target_line s = 0" and "edit_text s = []"
    and "line = '':w'' \<or> line = '':save''"
  shows "\<exists>s'. fs_edit_handle_line line s = Some (FS_ERR_INVALID, s') \<and> emitted s' = emitted s @ [''Invalid path or name''] \<and>
    fs_edit_is_active s' \<and> fs_view s' = fs_view s"
proof -
  have "fs_edit_handle_line line s = Some (FS_ERR_INVALID, emit ''Invalid path or name'' s)"
    using assms edit_save_empty [OF assms(1,4)]
    by (auto simp: fs_edit_handle_line_def edit_command_def fs_edit_is_active_def)
  moreover have "fs_wf s" using assms(1) by (simp add: edit_ok_def)
  ultimately show ?thesis using emit_kept [of s] assms(2) by (auto simp: fs_edit_is_active_def emit_def)
qed

theorem edit_save_empty_refused_witness:
  "\<exists>s'. fs_edit_handle_line '':w'' (okfs_small\<lparr>edit_active := True\<rparr>) = Some (FS_ERR_INVALID, s') \<and>
     emitted s' = [''Invalid path or name'']"
proof -
  let ?s = "okfs_small\<lparr>edit_active := True\<rparr>"
  have "edit_ok okfs_small" using okfs_small_wf by (simp add: edit_ok_def okfs_small_fields)
  then have ok: "edit_ok ?s" using edit_step_refl edit_step_ok by (metis edit_step_fields(2))
  have "edit_text ?s = []" by (simp add: edit_text_def buf_bytes_def okfs_small_fields)
  with edit_save_empty_refused [OF ok, of "'':w''"] show ?thesis by (auto simp: okfs_small_fields fs_edit_is_active_def)
qed

end
