(* ===== verification/Shell_Props.thy ===== *)
theory Shell_Props
  imports Shell Display_Props Okfs_Edit_Props
begin

text \<open>
  The command line: its editing as text before and after a cursor, the invariant of the main loop, and
  what commands show.
\<close>

section \<open>Editing a line\<close>

text \<open>The contents are the characters before the NUL, and the cursor is among them or behind the last.\<close>

definition line_ok :: "nat \<Rightarrow> line_t \<Rightarrow> bool" where
  "line_ok n l \<longleftrightarrow> cursor l \<le> len l \<and> len l < n \<and> chars l (len l) = NUL \<and> (\<forall>i < len l. chars l i \<noteq> NUL)"

definition line_text :: "line_t \<Rightarrow> string" where
  "line_text l = map (chars l) [0..<len l]"

text \<open>The text before the cursor and the text from the cursor on.\<close>

definition line_view :: "line_t \<Rightarrow> string \<times> string" where
  "line_view l = (take (cursor l) (line_text l), drop (cursor l) (line_text l))"

datatype line_op = Type_char char | Backspace | Cursor_left | Cursor_right | Delete_char

fun line_step :: "nat \<Rightarrow> line_op \<Rightarrow> line_t \<Rightarrow> line_t" where
  "line_step n (Type_char ch) l = (if len l < n - 1 then line_insert ch l else l)"
| "line_step n Backspace l = line_backspace l"
| "line_step n Cursor_left l = (if 0 < cursor l then l\<lparr>cursor := cursor l - 1\<rparr> else l)"
| "line_step n Cursor_right l = (if cursor l < len l then l\<lparr>cursor := cursor l + 1\<rparr> else l)"
| "line_step n Delete_char l = line_delete l"

text \<open>The same on the two halves of the text, of at most \<open>n - 1\<close> characters.\<close>

fun zip_step :: "nat \<Rightarrow> line_op \<Rightarrow> string \<times> string \<Rightarrow> string \<times> string" where
  "zip_step n (Type_char ch) (a, b) = (if length a + length b < n - 1 then (a @ [ch], b) else (a, b))"
| "zip_step n Backspace (a, b) = (butlast a, b)"
| "zip_step n Cursor_left (a, b) = (if a = [] then (a, b) else (butlast a, last a # b))"
| "zip_step n Cursor_right (a, b) = (if b = [] then (a, b) else (a @ [hd b], tl b))"
| "zip_step n Delete_char (a, b) = (a, tl b)"

lemma shift_left:
  "for_loop lo hi (\<lambda>i cs. cs(i := cs (Suc i))) cs j = (if lo \<le> j \<and> j < hi then cs (Suc j) else cs j)"
proof (induction hi arbitrary: j)
  case (Suc hi)
  then show ?case by (cases "lo \<le> hi") (auto simp: for_loop_Suc)
qed simp

lemma shift_right:
  "fold (\<lambda>i cs. cs(i := cs (i - Suc 0))) (rev [Suc lo..<Suc hi]) cs j = (if lo < j \<and> j \<le> hi then cs (j - 1) else cs j)"
proof (induction hi arbitrary: cs)
  case (Suc hi)
  then show ?case by (cases "lo < Suc hi") auto
qed simp

lemma line_text_nth: "i < len l \<Longrightarrow> line_text l ! i = chars l i"
  by (simp add: line_text_def)

lemma line_text_length [simp]: "length (line_text l) = len l"
  by (simp add: line_text_def)

lemma insert_text:
  assumes "cursor l \<le> len l"
  shows "line_text (line_insert ch l) = take (cursor l) (line_text l) @ ch # drop (cursor l) (line_text l)"
  by (rule nth_equalityI)
    (use assms in \<open>auto simp: line_insert_def Let_def line_text_def shift_right nth_append nth_Cons' min_def simp del: upt_Suc fold_simps\<close>)

lemma remove_text:
  assumes "k < len l"
  shows "map ((for_loop k (len l - 1) (\<lambda>i cs. cs(i := cs (i + 1))) (chars l))(len l - 1 := NUL)) [0..<len l - 1] =
    take k (line_text l) @ drop (Suc k) (line_text l)"
  by (rule nth_equalityI) (use assms in \<open>auto simp: line_text_def shift_left nth_append min_def\<close>)

lemma backspace_text:
  assumes "cursor l \<le> len l" and "0 < cursor l"
  shows "line_text (line_backspace l) = take (cursor l - 1) (line_text l) @ drop (cursor l) (line_text l)"
  using remove_text [of "cursor l - 1" l] assms by (simp add: line_backspace_def Let_def line_text_def)

lemma delete_text:
  assumes "cursor l < len l"
  shows "line_text (line_delete l) = take (cursor l) (line_text l) @ drop (Suc (cursor l)) (line_text l)"
  using remove_text [OF assms] assms by (simp add: line_delete_def Let_def line_text_def)

lemma line_ok_text: "line_ok n l \<longleftrightarrow> cursor l \<le> len l \<and> len l < n \<and> chars l (len l) = NUL \<and> NUL \<notin> set (line_text l)"
  by (auto simp: line_ok_def in_set_conv_nth line_text_nth)

lemma line_step_ok:
  assumes ok: "line_ok n l" and nz: "\<And>ch. op = Type_char ch \<Longrightarrow> ch \<noteq> NUL"
  shows "line_ok n (line_step n op l)" and "line_view (line_step n op l) = zip_step n op (line_view l)"
proof -
  have c: "cursor l \<le> len l" "len l < n" "chars l (len l) = NUL" "NUL \<notin> set (line_text l)" using ok by (simp_all add: line_ok_text)
  show "line_ok n (line_step n op l)"
  proof (cases op)
    case (Type_char ch)
    have "NUL \<notin> set (line_text (line_insert ch l))" using insert_text [OF c(1)] nz [OF Type_char] c(4) by (auto dest: in_set_takeD in_set_dropD)
    then show ?thesis using Type_char c by (auto simp: line_ok_text line_insert_def Let_def)
  next
    case Backspace
    then show ?thesis
    proof (cases "0 < cursor l")
      case True
      have "NUL \<notin> set (line_text (line_backspace l))" using backspace_text [OF c(1) True] c(4) by (auto dest: in_set_takeD in_set_dropD)
      then show ?thesis using Backspace c True by (auto simp: line_ok_text line_backspace_def Let_def)
    qed (use Backspace ok in \<open>simp add: line_backspace_def\<close>)
  next
    case Delete_char
    then show ?thesis
    proof (cases "cursor l < len l")
      case True
      have "NUL \<notin> set (line_text (line_delete l))" using delete_text [OF True] c(4) by (auto dest: in_set_takeD in_set_dropD)
      then show ?thesis using Delete_char c True by (auto simp: line_ok_text line_delete_def Let_def)
    qed (use Delete_char ok in \<open>simp add: line_delete_def\<close>)
  qed (use ok in \<open>auto simp: line_ok_def\<close>)
  show "line_view (line_step n op l) = zip_step n op (line_view l)"
  proof (cases op)
    case (Type_char ch)
    then show ?thesis using insert_text [OF c(1)] c by (auto simp: line_view_def line_insert_def Let_def)
  next
    case Backspace
    then show ?thesis
    proof (cases "0 < cursor l")
      case True
      have "cursor (line_backspace l) = cursor l - 1" using True by (simp add: line_backspace_def Let_def)
      then show ?thesis using Backspace backspace_text [OF c(1) True] c True by (simp add: line_view_def butlast_take)
    qed (simp add: line_view_def line_backspace_def)
  next
    case Delete_char
    then show ?thesis
    proof (cases "cursor l < len l")
      case True
      have "cursor (line_delete l) = cursor l" using True by (simp add: line_delete_def Let_def)
      then show ?thesis using Delete_char delete_text [OF True] c True by (simp add: line_view_def tl_drop drop_Suc)
    qed (simp add: line_view_def line_delete_def)
  next
    case Cursor_left
    show ?thesis
    proof (cases "cursor l = 0")
      case False
      then have "drop (cursor l - 1) (line_text l) = line_text l ! (cursor l - 1) # drop (cursor l) (line_text l)"
        using Cons_nth_drop_Suc [of "cursor l - 1" "line_text l"] c(1) by simp
      then show ?thesis using Cursor_left False c(1)
        by (simp add: line_view_def line_text_def butlast_take last_conv_nth min_def)
    qed (simp add: Cursor_left line_view_def)
  next
    case Cursor_right
    then show ?thesis using c
      by (auto simp: line_view_def line_text_def take_Suc_conv_app_nth hd_drop_conv_nth tl_drop drop_Suc)
  qed
qed

interpretation lines: op_refinement "\<lambda>op l. Some ((), line_step n op l)" "\<lambda>op v _ v'. v' = zip_step n op v" "line_ok n" line_view
  "\<lambda>op. op \<noteq> Type_char NUL"
proof unfold_locales
  fix l op
  assume "line_ok n l" and "op \<noteq> Type_char NUL"
  then show "\<exists>r l'. Some ((), line_step n op l) = Some (r, l') \<and> line_ok n l' \<and> line_view l' = zip_step n op (line_view l)"
    using line_step_ok [of n l op] by auto
qed

lemma run_line_steps: "run_ops (\<lambda>op l. Some ((), line_step n op l)) ops l = Some (map (\<lambda>_. ()) ops, fold (line_step n) ops l)"
  by (induction ops arbitrary: l) simp_all

lemma spec_zip_steps: "spec_run (\<lambda>op v _ v'. v' = zip_step n op v) ops v (rs :: unit list) v' \<Longrightarrow> v' = fold (zip_step n) ops v"
proof (induction ops arbitrary: v rs)
  case (Cons op ops)
  from Cons.prems obtain rs' :: "unit list" where "spec_run (\<lambda>op v _ v'. v' = zip_step n op v) ops (zip_step n op v) rs' v'"
    unfolding spec_run.simps by blast
  from Cons.IH [OF this] show ?case by simp
qed simp

section \<open>Strings\<close>

lemma streq_iff: "streq a b \<longleftrightarrow> a = b"
  by (induction a b rule: streq.induct) auto

lemma cstr_text:
  assumes "line_ok n l" and "n \<le> m"
  shows "cstr m (chars l) = line_text l"
proof -
  have "len l < m" using assms by (simp add: line_ok_def)
  then have "map (chars l) [0..<m] = line_text l @ NUL # map (chars l) [Suc (len l)..<m]"
    using assms(1) upt_add_eq_append [of 0 "len l" "m - len l"] by (simp add: line_text_def line_ok_def upt_conv_Cons)
  moreover have "\<forall>c \<in> set (line_text l). c \<noteq> NUL" using assms(1) by (auto simp: line_ok_text)
  ultimately show ?thesis by (simp add: cstr_def takeWhile_append2)
qed

section \<open>The log of the graphics console\<close>

text \<open>The lines on the screen from the top.\<close>

definition gfx_shown :: "'a shell_scheme \<Rightarrow> string list" where
  "gfx_shown s = map (\<lambda>i. gfx_line i s) [0..<gfx_lines s]"

definition last_lines :: "nat \<Rightarrow> 'b list \<Rightarrow> 'b list" where
  "last_lines n xs = drop (length xs - n) xs"

lemma gfx_shown_append:
  "gfx_shown (append_gfx_log msg s) = last_lines GFX_LOG_LINES (gfx_shown s @ [take 63 msg])"
proof (cases "gfx_log_count s < GFX_LOG_LINES")
  case True
  show ?thesis
    by (rule nth_equalityI)
      (use True in \<open>auto simp: gfx_shown_def gfx_lines_def gfx_line_def append_gfx_log_def Let_def last_lines_def nth_append split: if_splits\<close>)
next
  case False
  define k where "k = gfx_log_count s - 24"
  have k: "gfx_log_count s = k + 24" using False by (simp add: k_def)
  have slot: "Suc (k + i) mod 24 = k mod 24 \<longleftrightarrow> i = 23" if "i < 24" for i
  proof -
    have "Suc (k + i) mod 24 = k mod 24 \<longleftrightarrow> 24 dvd Suc i" using mod_eq_dvd_iff_nat [of k "Suc (k + i)" 24] by simp
    also have "\<dots> \<longleftrightarrow> i = 23" using that by (auto dest: dvd_imp_le)
    finally show ?thesis .
  qed
  show ?thesis
    by (rule nth_equalityI)
      (use slot in \<open>auto simp: gfx_shown_def gfx_lines_def gfx_line_def append_gfx_log_def Let_def last_lines_def k nth_append
        add.assoc [symmetric]\<close>)
qed


section \<open>What the console and the drivers leave alone\<close>

text \<open>
  A function of the console or of a driver changes the fields of its own record and the records below.
  The fields above it, which \<open>more\<close> holds, stay.
\<close>

lemma for_kept: "(\<And>i t. h (f i t) = h t) \<Longrightarrow> h (for_loop lo hi f s) = h s"
  using for_loop_preserves [where P = "\<lambda>t. h t = h s"] by metis

lemma fold_kept: "(\<And>x t. h (f x t) = h t) \<Longrightarrow> h (fold f xs s) = h s"
  by (induction xs arbitrary: s) simp_all

named_theorems kept \<open>functions that leave the fields above their record alone\<close>

lemma port_kept [kept]:
  "terminal.more (io_outb p v t) = terminal.more t" "terminal.more (snd (io_inb hw p t)) = terminal.more t"
  "display.more (io_outb p v s) = display.more s" "display.more (snd (io_inb hw p s)) = display.more s"
  "display.more (io_outw p w s) = display.more s" "display.more (snd (io_inw hw16 p s)) = display.more s"
  "display.more (log_event e s) = display.more s"
  by (simp_all add: io_outb_def io_inb_def io_outw_def io_inw_def log_event_def Let_def)

lemma cell_kept [kept]:
  "terminal.more (set_cell l c v t) = terminal.more t" "terminal.more (refresh_cell st r c t) = terminal.more t"
  "terminal.more (vga_update_hardware_cursor t) = terminal.more t"
  by (simp_all add: set_cell_def refresh_cell_def vga_update_hardware_cursor_def Let_def port_kept)

lemma rows_kept [kept]:
  "terminal.more (vga_refresh t) = terminal.more t" "terminal.more (clear_line l t) = terminal.more t"
  "terminal.more (shift_up t) = terminal.more t" "terminal.more (write_cells l c str t) = terminal.more t"
  "terminal.more (write_input l c str k t) = terminal.more t"
  by (simp_all add: vga_refresh_def clear_line_def shift_up_def write_cells_def write_input_def Let_def kept
      for_kept [where h = terminal.more] fold_kept [where h = terminal.more] split_beta)

lemma putchar_more [kept]: "terminal.more (vga_putchar_with_scrollback c t) = terminal.more t"
  by (simp add: vga_putchar_with_scrollback_def Let_def kept)

lemma console_kept [kept]:
  "terminal.more (vga_clear t) = terminal.more t" "terminal.more (vga_scroll d t) = terminal.more t"
  "terminal.more (print_chars str t) = terminal.more t" "terminal.more (vga_replace_line_text l str t) = terminal.more t"
  "terminal.more (vga_reserve_prompt_line t) = terminal.more t"
  "terminal.more (vga_replace_current_input_line pr inp k t) = terminal.more t"
  by (simp_all add: vga_clear_def vga_scroll_def print_chars_def vga_replace_line_text_def vga_reserve_prompt_line_def
      vga_replace_current_input_line_def Let_def kept for_kept [where h = terminal.more] fold_kept [where h = terminal.more])

lemma status_kept [kept]:
  "terminal.more (render_loading_status t) = terminal.more t" "terminal.more (loading_status_start l t) = terminal.more t"
  "terminal.more (loading_status_tick t) = terminal.more t" "terminal.more (loading_status_set_progress n t) = terminal.more t"
  "terminal.more (loading_status_done t) = terminal.more t"
  by (simp_all add: render_loading_status_def loading_status_start_def loading_status_tick_def
      loading_status_set_progress_def loading_status_done_def Let_def kept)

lemma printk_kept: "printk f args t = Inr t' \<Longrightarrow> terminal.more t' = terminal.more t"
  by (auto simp: printk_def kept split: sum.splits)

lemma show_event_kept: "show_event e t = Inr t' \<Longrightarrow> terminal.more t' = terminal.more t"
  by (cases e) (auto simp: kept dest: printk_kept)


lemma more_lifts: "terminal.more s = terminal.more t \<Longrightarrow> display.more s = display.more t"
  by (cases s; cases t) simp

lemma store_kept [kept]:
  "display.more (store8 a v s) = display.more s" "display.more (store16 a w s) = display.more s"
  "display.more (store32 a d s) = display.more s"
  by (simp_all add: store8_def store16_def store32_def)

lemma putpixel_kept [kept]: "display.more (display_putpixel x y c s) = display.more s"
  by (simp add: display_putpixel_def Let_def kept)

lemma shapes_kept [kept]:
  "display.more (display_clear c s) = display.more s" "display.more (display_fill_rect x y w h c s) = display.more s"
  "display.more (display_draw_rect x y w h c s) = display.more s" "display.more (display_putchar ch x y c s) = display.more s"
  by (simp_all add: display_clear_def display_fill_rect_def display_draw_rect_def display_putchar_def Let_def kept
      for_kept [where h = display.more])

lemma text_kept [kept]:
  fixes s :: "'a display_scheme"
  shows "display.more (display_puts_line str x y c s) = display.more s" "display.more (display_puts str x y c s) = display.more s"
proof -
  have "display.more (puts_line_loop str n x y c s) = display.more s" for n x and s :: "'a display_scheme"
    by (induction str arbitrary: n x s) (simp_all add: kept)
  then show "display.more (display_puts_line str x y c s) = display.more s"
    by (simp add: display_puts_line_def Let_def)
  have "display.more (puts_loop str x cx cy c s) = display.more s" for cx cy and s :: "'a display_scheme"
    by (induction str arbitrary: cx cy s) (simp_all add: kept Let_def)
  then show "display.more (display_puts str x y c s) = display.more s"
    by (simp add: display_puts_def)
qed

lemma ports_kept: "ports_only s t \<Longrightarrow> display.more t = display.more s"
  by (auto simp: ports_only_def)

lemma snapshot_kept [kept]: "display.more (vga_snapshot_text_state hw s) = display.more s"
proof -
  have rd: "ports_only t (snd (vga_read_seq hw i t))" "ports_only t (snd (vga_read_crtc hw i t))"
      "ports_only t (snd (vga_read_gc hw i t))" "ports_only t (snd (vga_read_ac hw i t))" for i and t :: "'a display_scheme"
    by (auto simp: vga_read_seq_def vga_read_crtc_def vga_read_gc_def vga_read_ac_def split_beta Let_def
        intro!: ports_chain ports_only_access)
  have all: "display.more (snd (read_all rd i n t)) = display.more t" if "\<And>i (t :: 'a display_scheme). ports_only t (snd (rd i t))" for rd i n t
    using read_all_ports [where rd = rd and s = t and i = i and n = n, OF that] by (rule ports_kept)
  show ?thesis by (simp add: vga_snapshot_text_state_def Let_def split_beta all rd kept)
qed

lemma write_all_kept: "(\<And>i v t. h (wr i v t) = h t) \<Longrightarrow> h (write_all wr i vs s) = h s"
  by (induction vs arbitrary: i s) simp_all

lemma restore_kept [kept]: "display.more (vga_restore_text_state hw s) = display.more s"
  by (simp add: vga_restore_text_state_def vga_read_crtc_def vga_write_seq_def vga_write_crtc_def vga_write_gc_def vga_write_ac_def
      Let_def split_beta kept write_all_kept [where h = display.more])

lemma modes_kept [kept]:
  "display.more (vga_set_cursor_visible v s) = display.more s" "display.more (snd (probe_bochs_vbe hw16 s)) = display.more s"
  "display.more (snd (vbe_verify hw16 rs s)) = display.more s" "display.more (mode13_registers hw s) = display.more s"
  "display.more (vbe_write i w s) = display.more s" "display.more (snd (vbe_read hw16 i s)) = display.more s"
  using ports_kept [OF ports_only_regs(4)] ports_kept [OF ports_only_probe] ports_kept [OF ports_only_verify]
    ports_kept [OF ports_only_regs(3)] ports_kept [OF ports_only_vbe(1)]
    ports_kept [OF ports_only_vbe(2)] by blast+

lemma enter_kept [kept]: "display.more (snd (display_enter_gfx hw hw16 s)) = display.more s"
proof -
  have b: "display.more (snd (bochs_set_mode hw16 w h bp t)) = display.more t" for w h bp t
    by (simp add: bochs_set_mode_def Let_def split_beta kept)
  have v: "display.more (snd (probe_vga_mode13 hw t)) = display.more t" for t
    by (simp add: probe_vga_mode13_def Let_def kept)
  have bl: "display.more (blank_text_plane hw t) = display.more t" for t
    by (simp add: blank_text_plane_def Let_def split_beta kept for_kept [where h = display.more])
  have d: "display.more (display_disable hw t) = display.more t" for t
    by (simp add: display_disable_def probe_vga_text_def Let_def kept)
  show ?thesis by (simp add: display_enter_gfx_def Let_def split_beta b v bl d kept)
qed

lemma layout_kept [kept]: "display.more (keyboard_detect_layout p s) = display.more s"
proof -
  have "display.more (detect_loop str s) = display.more s" for str
    by (induction str s rule: detect_loop.induct) (auto simp: keyboard_set_layout_def split: option.splits)
  then show ?thesis by (simp add: keyboard_detect_layout_def split: option.split)
qed

lemma irq_kept [kept]:
  "display.more (snd (keyboard_get_scancode s)) = display.more s" "display.more (keyboard_irq_handler hw s) = display.more s"
  by (simp_all add: keyboard_get_scancode_def keyboard_irq_handler_def keyboard_read_def handle_scancode_def handle_extended_def
      buffer_scancode_def Let_def split_beta kept)


section \<open>The invariant of the main loop\<close>

definition shell_ok :: "'a shell_scheme \<Rightarrow> bool" where
  "shell_ok s \<longleftrightarrow> line_ok CMD_BUFFER_SIZE (cmd_line s) \<and> line_ok PSEUDO_SIZE (pseudo_line s)"

definition lines :: "'a shell_scheme \<Rightarrow> line_t \<times> line_t" where
  "lines s = (cmd_line s, pseudo_line s)"

text \<open>Neither line under edit is touched.\<close>

definition keeps_lines :: "('a shell_scheme \<Rightarrow> 'a shell_scheme option) \<Rightarrow> bool" where
  "keeps_lines f \<longleftrightarrow> (\<forall>s s'. f s = Some s' \<longrightarrow> lines s' = lines s)"

lemma keeps_linesD: "keeps_lines f \<Longrightarrow> f s = Some s' \<Longrightarrow> lines s' = lines s"
  by (simp add: keeps_lines_def)

lemma keeps_linesI: "(\<And>s s'. f s = Some s' \<Longrightarrow> lines s' = lines s) \<Longrightarrow> keeps_lines f"
  by (simp add: keeps_lines_def)

lemma more_fields:
  assumes "display.more s = display.more t"
  shows "lines s = lines t" and "fsys s = fsys t" and "halted s = halted t" and "gfx_log_count s = gfx_log_count t"
proof -
  have "cmd_line s = cmd_line t \<and> pseudo_line s = pseudo_line t \<and> fsys s = fsys t \<and> halted s = halted t \<and>
      gfx_log_count s = gfx_log_count t"
    using assms by (cases s, cases t, hypsubst) (simp only: display.simps shell.simps shell.ext_inject simp_thms)
  then show "lines s = lines t" "fsys s = fsys t" "halted s = halted t" "gfx_log_count s = gfx_log_count t"
    by (simp_all add: lines_def)
qed

lemma shell_ok_lines: "lines s = lines t \<Longrightarrow> shell_ok s = shell_ok t"
  by (simp add: shell_ok_def lines_def)

lemma kprint_more: "kprint f args s = Some s' \<Longrightarrow> display.more s' = display.more s"
  by (auto simp: kprint_def split: sum.splits intro!: more_lifts printk_kept)

lemma show_events_more: "show_events es s = Some s' \<Longrightarrow> display.more s' = display.more s"
proof (induction es s rule: show_events.induct)
  case (2 e es s)
  then obtain t where t: "show_event e s = Inr t" "show_events es t = Some s'" by (auto split: sum.splits)
  then show ?case using 2 more_lifts [OF show_event_kept [OF t(1)]] by simp
qed simp

lemma flush_more: "flush_log s = Some s' \<Longrightarrow> display.more s' = display.more s"
  by (auto simp: flush_log_def dest!: show_events_more)

lemma log_keeps: "keeps_lines (text_console_log msg)" "keeps_lines (pseudo_console_log msg)"
  by (auto intro!: keeps_linesI simp: text_console_log_def pseudo_console_log_def append_gfx_log_def lines_def Let_def
      dest: more_fields(1) [OF kprint_more, unfolded lines_def])

lemma log_all_keeps: "(\<And>msg. keeps_lines (log msg)) \<Longrightarrow> keeps_lines (log_all log ls)"
proof (induction ls)
  case (Cons l ls)
  then show ?case by (fastforce intro!: keeps_linesI simp: bind_eq_Some_conv dest: keeps_linesD)
qed (simp add: keeps_lines_def)

lemma run_fs_lines:
  assumes "\<And>msg. keeps_lines (log msg)" and "run_fs call log s = Some (r, s')"
  shows "lines s' = lines s"
proof -
  from assms(2) obtain f t where t: "show_events (klog f) (s\<lparr>fsys := f\<rparr>) = Some t" "log_all log (emitted f) t = Some s'"
    by (auto simp: run_fs_def bind_eq_Some_conv)
  have "lines t = lines (s\<lparr>fsys := f\<rparr>)" using more_fields(1) [OF show_events_more [OF t(1)]] .
  then show ?thesis using keeps_linesD [OF log_all_keeps t(2)] assms(1) by (simp add: lines_def)
qed

lemma render_more:
  "render_pseudo_text_prompt s = Some s' \<Longrightarrow> display.more s' = display.more s"
  "render_pseudo_text_screen s = Some s' \<Longrightarrow> display.more s' = display.more s"
  "display.more (render_graphics_test_screen t) = display.more t"
proof -
  show p: "render_pseudo_text_prompt s = Some s' \<Longrightarrow> display.more s' = display.more s" for s
    by (auto simp: render_pseudo_text_prompt_def bind_eq_Some_conv Let_def kept)
  show "render_pseudo_text_screen s = Some s' \<Longrightarrow> display.more s' = display.more s"
    unfolding render_pseudo_text_screen_def Let_def
    by (drule p) (simp add: kept for_kept [where h = display.more])
  show "display.more (render_graphics_test_screen t) = display.more t"
    by (simp add: render_graphics_test_screen_def Let_def kept)
qed


lemma enter_graphics_lines: "enter_graphics hw hw16 s = Some (ok, s') \<Longrightarrow> lines s' = lines s"
proof -
  assume a: "enter_graphics hw hw16 s = Some (ok, s')"
  define t where "t = snd (display_enter_gfx hw hw16 s)"
  obtain u where u: "flush_log t = Some u" "s' = u \<or> s' = render_graphics_test_screen (u\<lparr>graphics_mode_active := True, pseudo_text_mode_active := False\<rparr>)"
    using a by (auto simp: enter_graphics_def t_def bind_eq_Some_conv split_beta Let_def split: if_splits)
  have t: "lines u = lines t" by (rule more_fields(1) [OF flush_more [OF u(1)]])
  have s: "lines t = lines s" unfolding t_def by (rule more_fields(1)) (simp add: kept)
  have "lines (render_graphics_test_screen v) = lines v" for v :: "'a shell_scheme"
    by (rule more_fields(1) [OF render_more(3)])
  then show ?thesis using u(2) t s by (auto simp: lines_def)
qed

lemma show_lines:
  "kprint f args s = Some s' \<Longrightarrow> lines s' = lines s" "flush_log s = Some s' \<Longrightarrow> lines s' = lines s"
  "render_pseudo_text_prompt s = Some s' \<Longrightarrow> lines s' = lines s" "render_pseudo_text_screen s = Some s' \<Longrightarrow> lines s' = lines s"
  using more_fields(1) [OF kprint_more] more_fields(1) [OF flush_more] more_fields(1) [OF render_more(1)]
    more_fields(1) [OF render_more(2)] by blast+

lemma shell_upd_lines:
  "lines (render_graphics_test_screen s) = lines s" "lines (vga_clear_public s) = lines s"
  "lines (reboot_system s) = lines s" "lines (shutdown_system s) = lines s" "lines (clear_gfx_log s) = lines s"
  "lines (append_gfx_log msg s) = lines s" "lines (s\<lparr>pseudo_text_mode_active := b\<rparr>) = lines s"
  "lines (keyboard_detect_layout p s) = lines s"
proof -
  show "lines (vga_clear_public s) = lines s"
    unfolding vga_clear_public_def by (intro more_fields(1) more_lifts) (simp add: kept)
  have "lines (for_loop 0 n (\<lambda>i s. s\<lparr>gfx_log := (gfx_log s)(i := [])\<rparr>) s) = lines s" for n
    by (rule for_kept) (simp add: lines_def)
  then show "lines (clear_gfx_log s) = lines s" by (simp add: clear_gfx_log_def lines_def)
  show "lines (render_graphics_test_screen s) = lines s" by (rule more_fields(1) [OF render_more(3)])
  show "lines (keyboard_detect_layout p s) = lines s" by (rule more_fields(1)) (simp add: kept)
qed (simp_all add: lines_def reboot_system_def shutdown_system_def append_gfx_log_def Let_def io_outb_def io_outw_def)

lemma console_command_lines:
  assumes log: "\<And>msg. keeps_lines (log msg)" and e: "execute_console_command hw hw16 command log g s = Some (r, s')"
  shows "lines s' = lines s"
proof -
  note L = keeps_linesD [OF log] and A = keeps_linesD [OF log_all_keeps [OF log]]
  have boot: "show_bootinfo log t = Some t' \<Longrightarrow> lines t' = lines t" for t t'
    by (auto simp: show_bootinfo_def bind_eq_Some_conv Let_def split: if_splits dest!: L)
  have lay: "lines (command_layout c t) = lines t" for c t by (simp add: command_layout_def shell_upd_lines)
  have pr: "command_print log c t = Some t' \<Longrightarrow> lines t' = lines t" for c t t'
    by (auto simp: command_print_def split: if_splits option.splits dest!: L)
  show ?thesis
    using e unfolding execute_console_command_def show_help_main_def show_help_os_def
    by (auto simp: bind_eq_Some_conv shell_upd_lines lay map_option_eq_Some split: if_splits
        dest!: A L boot pr show_lines enter_graphics_lines)
qed

lemma text_command_lines: "execute_text_command hw hw16 command s = Some s' \<Longrightarrow> lines s' = lines s"
  by (auto simp: execute_text_command_def bind_eq_Some_conv split: if_splits
      dest!: run_fs_lines [OF log_keeps(1)] console_command_lines [OF log_keeps(1)])

lemma show_text_prompt_lines: "lines (show_text_prompt s) = lines s"
  unfolding show_text_prompt_def Let_def by (auto intro!: more_fields(1) more_lifts simp: kept)

lemma reserve_lines: "lines (vga_reserve_prompt_line s) = lines s"
  by (auto intro!: more_fields(1) more_lifts simp: kept)

lemma prompt_fields [simp]:
  "cmd_line (show_text_prompt s) = cmd_line s" "pseudo_line (show_text_prompt s) = pseudo_line s"
  "cmd_line (vga_reserve_prompt_line s) = cmd_line s" "pseudo_line (vga_reserve_prompt_line s) = pseudo_line s"
  using show_text_prompt_lines [of s] reserve_lines [of s] by (simp_all add: lines_def)


lemma line_insert_ok:
  assumes "line_ok n l" and "len l < n - 1" and "ch \<noteq> NUL"
  shows "line_ok n (line_insert ch l)"
  using line_step_ok(1) [of n l "Type_char ch"] assms by simp

lemma line_backspace_ok: "line_ok n l \<Longrightarrow> line_ok n (line_backspace l)"
  using line_step_ok(1) [of n l Backspace] by simp

lemma line_delete_ok: "line_ok n l \<Longrightarrow> line_ok n (line_delete l)"
  using line_step_ok(1) [of n l Delete_char] by simp

lemma line_reset_ok: "0 < n \<Longrightarrow> line_ok n (line_reset l)"
  by (simp add: line_ok_def line_reset_def)

lemma line_fill_ok:
  assumes "2 \<le> n"
  shows "line_ok n (line_fill (n - 2) p l)"
proof -
  let ?q = "takeWhile (\<lambda>c. c \<noteq> NUL) p"
  have fill: "for_loop 0 k (\<lambda>i cs. cs(i := p ! i)) cs j = (if j < k then p ! j else cs j)" for k j and cs :: "nat \<Rightarrow> char"
    by (induction k) (auto simp: for_loop_Suc)
  have "p ! i \<noteq> NUL" if "i < length ?q" for i
    using that nth_mem [OF that] takeWhile_nth [OF that] by (auto dest: set_takeWhileD)
  then show ?thesis using assms by (auto simp: line_ok_def line_fill_def Let_def fill)
qed

lemma line_cursor_ok:
  "line_ok n l \<Longrightarrow> line_ok n (l\<lparr>cursor := cursor l - 1\<rparr>)" "line_ok n l \<Longrightarrow> cursor l < len l \<Longrightarrow> line_ok n (l\<lparr>cursor := cursor l + 1\<rparr>)"
  "line_ok n l \<Longrightarrow> line_ok n (l\<lparr>cursor := 0\<rparr>)" "line_ok n l \<Longrightarrow> line_ok n (l\<lparr>chars := (chars l)(len l := NUL)\<rparr>)"
  by (auto simp: line_ok_def)

lemma break_position_less: "0 < avail \<Longrightarrow> break_position avail l < avail"
  by (auto simp: break_position_def find_Some_iff split: option.splits) (metis diff_less length_rev length_upt minus_nat.diff_0 nth_mem set_rev set_upt atLeastLessThan_iff)

lemma copy_down:
  "for_loop 0 n (\<lambda>i cs. cs(i := cs (Suc (b + i)))) cs j = (if j < n then cs (Suc (b + j)) else cs j)"
  by (induction n arbitrary: j) (auto simp: for_loop_Suc)

lemma wrapped_line_ok:
  assumes ok: "line_ok CMD_BUFFER_SIZE l" and b: "b < len l" and "len l < CMD_BUFFER_SIZE - 1" and "ch \<noteq> NUL"
  defines "k \<equiv> len l - b - 1"
  shows "line_ok CMD_BUFFER_SIZE \<lparr>chars = (for_loop 0 (min k (CMD_BUFFER_SIZE - 2)) (\<lambda>i cs. cs(i := cs (b + 1 + i)))
    ((chars l)(b := NUL)))(k := ch, k + 1 := NUL), len = k + 1, cursor = k + 1\<rparr>"
proof -
  have "min k 126 = k" using assms by simp
  moreover have "Suc (b + i) < len l" if "i < k" for i using that b by (simp add: k_def)
  moreover have "Suc k < 128" using assms by simp
  ultimately show ?thesis using ok assms(4) by (auto simp: line_ok_def copy_down less_Suc_eq)
qed

lemma text_wrap_ok:
  assumes ok: "shell_ok s" and av: "0 < avail" "avail \<le> len (cmd_line s)" "len (cmd_line s) < CMD_BUFFER_SIZE - 1" and "ch \<noteq> NUL"
    and w: "text_wrap hw hw16 avail ch s = Some s'"
  shows "shell_ok s'"
proof -
  let ?b = "break_position avail (cmd_line s)"
  let ?k = "len (cmd_line s) - ?b - 1"
  let ?s = "s\<lparr>cmd_line := (cmd_line s)\<lparr>chars := (chars (cmd_line s))(?b := NUL)\<rparr>\<rparr>"
  from w obtain t u where t: "kprint ''\<newline>'' [] ?s = Some t"
      "execute_text_command hw hw16 (cstr CMD_BUFFER_SIZE (chars (cmd_line t))) t = Some u"
    and s': "s' = show_text_prompt (u\<lparr>cmd_line := \<lparr>chars = (for_loop 0 (min ?k (CMD_BUFFER_SIZE - 2)) (\<lambda>i cs. cs(i := cs (?b + 1 + i)))
      (chars (cmd_line u)))(?k := ch, ?k + 1 := NUL), len = ?k + 1, cursor = ?k + 1\<rparr>\<rparr>)"
    by (auto simp: text_wrap_def bind_eq_Some_conv Let_def)
  have l: "lines u = lines ?s" using show_lines(1) [OF t(1)] text_command_lines [OF t(2)] by simp
  have b: "?b < len (cmd_line s)" using break_position_less [OF av(1)] av(2) by (rule less_le_trans)
  have "line_ok CMD_BUFFER_SIZE (cmd_line s')" "pseudo_line s' = pseudo_line s"
    using wrapped_line_ok [OF _ b av(3) assms(5)] ok l show_text_prompt_lines [of "u\<lparr>cmd_line := _\<rparr>"]
    by (simp_all add: s' shell_ok_def lines_def)
  then show ?thesis using ok by (simp add: shell_ok_def)
qed


lemma after_command_ok:
  assumes "shell_ok s" and "after_command b s = Some s'"
  shows "shell_ok s'"
proof -
  obtain pending f where p: "fs_edit_get_pending_line (fsys s) = (pending, f)" by (cases "fs_edit_get_pending_line (fsys s)")
  show ?thesis
  proof (cases pending)
    case (Some q)
    then show ?thesis using assms p line_fill_ok [of CMD_BUFFER_SIZE q]
      by (auto simp: after_command_def shell_ok_def)
  next
    case None
    with assms(2) p obtain t where t: "t = s\<lparr>fsys := f\<rparr> \<or>
          run_fs (\<lambda>f. Some ((), fs_edit_display_content f)) text_console_log (s\<lparr>fsys := f\<rparr>) = Some ((), t)"
        "s' = show_text_prompt (vga_reserve_prompt_line (t\<lparr>cmd_line := line_reset (cmd_line t)\<rparr>))"
      by (fastforce simp: after_command_def bind_eq_Some_conv Let_def split: if_splits)
    from t(1) have "lines t = lines (s\<lparr>fsys := f\<rparr>)" by (elim disjE) (auto dest!: run_fs_lines [OF log_keeps(1)])
    then show ?thesis using t(2) assms(1) line_reset_ok [of CMD_BUFFER_SIZE]
      by (simp add: shell_ok_def lines_def)
  qed
qed

lemma text_enter_ok:
  assumes ok: "shell_ok s" and e: "text_enter hw hw16 s = Some s'"
  shows "shell_ok s'"
proof -
  from e obtain t where t: "kprint ''\<newline>'' [] s = Some t" by (auto simp: text_enter_def bind_eq_Some_conv)
  let ?t = "t\<lparr>cmd_line := (cmd_line t)\<lparr>chars := (chars (cmd_line t))(len (cmd_line t) := NUL)\<rparr>\<rparr>"
  have l: "lines t = lines s" by (rule show_lines(1) [OF t])
  have okt: "shell_ok ?t" using ok l line_cursor_ok(4) [of CMD_BUFFER_SIZE] by (simp add: shell_ok_def lines_def)
  show ?thesis
  proof (cases "0 < len (cmd_line t)")
    case True
    with e t obtain u b where u: "execute_text_command hw hw16 (cstr CMD_BUFFER_SIZE (chars (cmd_line ?t))) ?t = Some u"
        "s' = u \<or> after_command b u = Some s'"
      by (fastforce simp: text_enter_def bind_eq_Some_conv Let_def split: if_splits)
    have "shell_ok u" using shell_ok_lines [OF text_command_lines [OF u(1)]] okt by simp
    then show ?thesis using u(2) after_command_ok by blast
  next
    case False
    then have "s' = show_text_prompt (vga_reserve_prompt_line (?t\<lparr>cmd_line := line_reset (cmd_line ?t)\<rparr>))"
      using e t by (simp add: text_enter_def Let_def)
    then show ?thesis using okt line_reset_ok [of CMD_BUFFER_SIZE]
      by (simp add: shell_ok_def)
  qed
qed

lemma printable_char: "printable ch \<Longrightarrow> ch \<noteq> NUL"
  by (auto simp: printable_def)

lemma text_type_ok:
  assumes "shell_ok s" and "printable ch" and "text_type hw hw16 ch s = Some s'"
  shows "shell_ok s'"
proof -
  let ?avail = "int VGA_COLS - get_prompt_prefix_len s"
  let ?a = "nat (if ?avail \<le> 0 then 1 else ?avail)"
  note ch = printable_char [OF assms(2)]
  have "0 < ?a" by simp
  show ?thesis
  proof (cases "fs_edit_is_active (fsys s) \<and> ?a \<le> len (cmd_line s) \<and> len (cmd_line s) < CMD_BUFFER_SIZE - 1")
    case True
    then have "text_wrap hw hw16 ?a ch s = Some s'" using assms(3) by (auto simp: text_type_def Let_def split: if_splits)
    then show ?thesis using text_wrap_ok [OF assms(1) \<open>0 < ?a\<close> _ _ ch] True by blast
  next
    case False
    then have "s' = s \<or> (len (cmd_line s) < CMD_BUFFER_SIZE - 1 \<and> s' = show_text_prompt (s\<lparr>cmd_line := line_insert ch (cmd_line s)\<rparr>))"
      using assms(3) by (auto simp: text_type_def Let_def split: if_splits)
    then show ?thesis using assms(1) ch line_insert_ok [of CMD_BUFFER_SIZE "cmd_line s" ch]
      by (auto simp: shell_ok_def)
  qed
qed

lemma text_key_ok:
  assumes "shell_ok s" and "text_key hw hw16 sc ch s = Some s'"
  shows "shell_ok s'"
proof -
  have "shell_ok (show_text_prompt (s\<lparr>cmd_line := line_backspace (cmd_line s)\<rparr>))"
    using assms(1) line_backspace_ok [of CMD_BUFFER_SIZE] by (auto simp: shell_ok_def)
  then show ?thesis using assms text_enter_ok text_type_ok by (auto simp: text_key_def split: if_splits)
qed


lemma pseudo_execute_ok:
  assumes ok: "shell_ok s" and e: "pseudo_console_execute hw hw16 s = Some s'"
  shows "shell_ok s'"
proof -
  let ?s = "s\<lparr>pseudo_line := (pseudo_line s)\<lparr>chars := (chars (pseudo_line s))(len (pseudo_line s) := NUL)\<rparr>\<rparr>"
  let ?c = "cstr PSEUDO_SIZE (chars (pseudo_line ?s))"
  let ?p = "append_gfx_prompt_line ?c ?s"
  let ?run = "if 0 < len (pseudo_line s)
    then if fs_edit_is_active (fsys ?p) then map_option snd (run_fs (fs_edit_handle_line ?c) pseudo_console_log ?p)
      else do { (handled, u) \<leftarrow> run_fs (fs_handle_command ?c) pseudo_console_log ?p;
        if handled then Some u else map_option snd (execute_console_command hw hw16 ?c pseudo_console_log True u) }
    else Some ?s"
  have oks: "shell_ok ?s" using ok line_cursor_ok(4) [of PSEUDO_SIZE] by (simp add: shell_ok_def)
  obtain t where t: "?run = Some t" and s': "(if halted t then Some t else
      let (pending, f) = fs_edit_get_pending_line (fsys t); s = t\<lparr>fsys := f\<rparr>
      in case pending of
           Some p \<Rightarrow> Some (s\<lparr>pseudo_line := line_fill (PSEUDO_SIZE - 2) p (pseudo_line s)\<rparr>)
         | None \<Rightarrow> Some (s\<lparr>pseudo_line := line_reset (pseudo_line s)\<rparr>)) = Some s'"
    using e unfolding pseudo_console_execute_def Let_def bind_eq_Some_conv by blast
  have "lines ?p = lines ?s" unfolding append_gfx_prompt_line_def by (rule shell_upd_lines)
  then have "lines t = lines ?s" using t
    by (auto simp: bind_eq_Some_conv split: if_splits
        dest!: run_fs_lines [OF log_keeps(2)] console_command_lines [OF log_keeps(2)])
  then show ?thesis using s' oks line_fill_ok [of PSEUDO_SIZE] line_reset_ok [of PSEUDO_SIZE]
    by (auto simp: shell_ok_def lines_def Let_def split: if_splits prod.splits option.splits)
qed


lemma render_ok:
  assumes "shell_ok s"
  shows "render_pseudo_text_prompt s = Some s' \<Longrightarrow> shell_ok s'" and "render_pseudo_text_screen s = Some s' \<Longrightarrow> shell_ok s'"
    and "shell_ok (render_graphics_test_screen s)"
  using assms show_lines(3,4) shell_upd_lines(1) shell_ok_lines by metis+

lemma pseudo_change_ok: "shell_ok s \<Longrightarrow> line_ok PSEUDO_SIZE l \<Longrightarrow> shell_ok (s\<lparr>pseudo_line := l\<rparr>)"
  by (simp add: shell_ok_def)

lemma pseudo_enter_ok:
  assumes "shell_ok s" and "pseudo_enter hw hw16 s = Some s'"
  shows "shell_ok s'"
proof -
  from assms(2) obtain t where t: "pseudo_console_execute hw hw16 s = Some t" and
    s': "s' = t \<or> render_pseudo_text_screen (t\<lparr>pseudo_line := (pseudo_line t)\<lparr>cursor := 0\<rparr>\<rparr>) = Some s' \<or>
      render_pseudo_text_prompt (t\<lparr>pseudo_line := (pseudo_line t)\<lparr>cursor := 0\<rparr>\<rparr>) = Some s'"
    by (auto simp: pseudo_enter_def bind_eq_Some_conv Let_def split: if_splits)
  have "shell_ok t" by (rule pseudo_execute_ok [OF assms(1) t])
  moreover from this have "shell_ok (t\<lparr>pseudo_line := (pseudo_line t)\<lparr>cursor := 0\<rparr>\<rparr>)"
    using line_cursor_ok(3) [of PSEUDO_SIZE] by (simp add: shell_ok_def)
  ultimately show ?thesis using s' render_ok by blast
qed

lemma pseudo_edit_ok:
  assumes "shell_ok s"
  shows "shell_ok (s\<lparr>pseudo_line := line_backspace (pseudo_line s)\<rparr>)"
    and "printable ch \<Longrightarrow> len (pseudo_line s) < PSEUDO_SIZE - 1 \<Longrightarrow> shell_ok (s\<lparr>pseudo_line := line_insert ch (pseudo_line s)\<rparr>)"
    and "shell_ok (s\<lparr>pseudo_text_mode_active := b, pseudo_line := line_reset (pseudo_line s)\<rparr>)"
  using assms line_backspace_ok [of PSEUDO_SIZE] line_insert_ok [of PSEUDO_SIZE "pseudo_line s" ch] printable_char
    line_reset_ok [of PSEUDO_SIZE] by (auto simp: shell_ok_def)

lemma graphics_keys_ok:
  assumes "shell_ok s"
  shows "pseudo_key hw hw16 sc ch s = Some s' \<Longrightarrow> shell_ok s'" and "gfx_key sc ch s = Some s' \<Longrightarrow> shell_ok s'"
  using pseudo_enter_ok [OF assms] pseudo_edit_ok [OF assms] assms
  by (auto simp: pseudo_key_def gfx_key_def Let_def split: if_splits dest: render_ok(1,2) [rotated])

lemma toggle_graphics_ok:
  assumes "shell_ok s" and "toggle_graphics hw hw16 s = Some s'"
  shows "shell_ok s'"
proof -
  let ?t = "s\<lparr>graphics_toggle_requested := False\<rparr>"
  have "shell_ok ?t" "shell_ok (?t\<lparr>pseudo_text_mode_active := b\<rparr>)" for b using assms(1) by (simp_all add: shell_ok_def)
  moreover have "shell_ok u" if "enter_graphics hw hw16 ?t = Some (b, u)" for b u
    using shell_ok_lines [OF enter_graphics_lines [OF that]] calculation(1) by simp
  ultimately show ?thesis using assms
    by (auto simp: toggle_graphics_def Let_def split: if_splits intro: render_ok(3) dest: render_ok(2) [rotated])
qed

lemma change_line_ok:
  assumes "shell_ok s" and "\<And>n l. line_ok n l \<Longrightarrow> guard l \<Longrightarrow> line_ok n (change l)" and "change_line guard change s = Some s'"
  shows "shell_ok s'"
  using assms render_ok(1) [of "s\<lparr>pseudo_line := change (pseudo_line s)\<rparr>" s']
  by (auto simp: change_line_def shell_ok_def split: if_splits)

lemma handle_requests_ok:
  assumes "shell_ok s" and "handle_requests s = Some s'"
  shows "shell_ok s'"
proof -
  have "lines (vga_scroll n t) = lines t" for n and t :: "'a shell_scheme"
    by (intro more_fields(1) more_lifts) (simp add: kept)
  then have up: "shell_ok (handle_up_down s)" using assms(1) shell_ok_lines
    by (auto simp: handle_up_down_def Let_def shell_ok_def lines_def)
  have left: "shell_ok u" if "shell_ok t" "(if arrow_left_requested t
    then change_line (\<lambda>l. 0 < cursor l) (\<lambda>l. l\<lparr>cursor := cursor l - 1\<rparr>) (t\<lparr>arrow_left_requested := False\<rparr>) else Some t) = Some u" for t u
    using that change_line_ok [of "t\<lparr>arrow_left_requested := False\<rparr>", OF _ line_cursor_ok(1)] by (auto simp: shell_ok_def split: if_splits)
  have right: "shell_ok u" if "shell_ok t" "(if arrow_right_requested t
    then change_line (\<lambda>l. cursor l < len l) (\<lambda>l. l\<lparr>cursor := cursor l + 1\<rparr>) (t\<lparr>arrow_right_requested := False\<rparr>) else Some t) = Some u" for t u
    using that change_line_ok [of "t\<lparr>arrow_right_requested := False\<rparr>", OF _ line_cursor_ok(2)] by (auto simp: shell_ok_def split: if_splits)
  have del: "shell_ok u" if "shell_ok t" "(if delete_requested t
    then change_line (\<lambda>l. cursor l < len l) line_delete (t\<lparr>delete_requested := False\<rparr>) else Some t) = Some u" for t u
    using that change_line_ok [of "t\<lparr>delete_requested := False\<rparr>", OF _ line_delete_ok] by (auto simp: shell_ok_def split: if_splits)
  from assms(2) show ?thesis
    unfolding handle_requests_def Let_def bind_eq_Some_conv using left [OF up] right del by blast
qed

lemma main_step_ok: "main_step hw hw16 p q \<Longrightarrow> shell_ok (snd p) \<Longrightarrow> shell_ok (snd q)"
proof (induction rule: main_step.induct)
  case (key s sc s1 s')
  have "lines s1 = lines s" using more_fields(1) [OF irq_kept(1) [of s]] key by simp
  then have "shell_ok s1" using key shell_ok_lines by fastforce
  then show ?case using key text_key_ok graphics_keys_ok
    by (auto simp: handle_key_def bind_eq_Some_conv split: if_splits)
next
  case (no_key s s')
  have "lines s' = lines s" using more_fields(1) [OF irq_kept(1) [of s]] no_key by simp
  then show ?case using no_key shell_ok_lines by fastforce
next
  case (keyboard_irq pc s)
  then show ?case using shell_ok_lines [OF more_fields(1) [OF irq_kept(2) [of hw s]]] by simp
qed (use toggle_graphics_ok handle_requests_ok in auto)


section \<open>The prompt of the graphics console\<close>

lemma prompt_loop:
  fixes l :: line_t
  defines "mark k \<equiv> (if cursor l < k then take (cursor l) (map (chars l) [0..<k]) @ ''_'' @ drop (cursor l) (map (chars l) [0..<k])
    else map (chars l) [0..<k])"
  assumes "k + 3 < m"
  shows "for_loop 0 k (\<lambda>i p. if length p < m - 1 then (if i = cursor l then p @ ''_'' else p) @ [chars l i] else p) ''> ''
    = ''> '' @ mark k"
  using assms(2)
proof (induction k)
  case 0
  then show ?case by (simp add: mark_def)
next
  case (Suc k)
  have "length (''> '' @ mark k) < m - 1" using Suc.prems by (auto simp: mark_def min_def)
  moreover have "(if k = cursor l then ''> '' @ mark k @ ''_'' else ''> '' @ mark k) @ [chars l k] = ''> '' @ mark (Suc k)"
    by (cases k "cursor l" rule: linorder_cases) (simp_all add: mark_def)
  ultimately show ?case using Suc by (auto simp: for_loop_Suc split: if_splits)
qed

lemma pseudo_prompt_shows:
  assumes "shell_ok s"
  defines "t \<equiv> line_text (pseudo_line s)" and "c \<equiv> cursor (pseudo_line s)"
  shows "build_pseudo_prompt 80 s = Some (''> '' @ take c t @ ''_'' @ drop c t)"
proof -
  have ok: "line_ok PSEUDO_SIZE (pseudo_line s)" using assms(1) by (simp add: shell_ok_def)
  then have l: "c \<le> len (pseudo_line s)" "len (pseudo_line s) < 64" by (simp_all add: line_ok_def c_def)
  then show ?thesis using prompt_loop [of "len (pseudo_line s)" 80 "pseudo_line s"]
    by (auto simp: build_pseudo_prompt_def Let_def t_def line_text_def c_def min_def)
qed

section \<open>Theorems\<close>

text \<open>
  C38. Whatever the keys, the interrupts and the commands, both lines under edit stay inside their arrays of 128 and of
  64 characters, with the cursor inside the text and the text ended by its only NUL; so the prompt of the graphics
  console, built in an array of 80 characters without a look at the room left, fits and shows the line with the cursor.
\<close>

theorem main_loop_lines_ok:
  assumes "(main_step hw hw16)\<^sup>*\<^sup>* (pc, s) (pc', s')" and "shell_ok s"
  shows "shell_ok s' \<and> build_pseudo_prompt 80 s' = Some (''> '' @ fst (line_view (pseudo_line s')) @ ''_'' @ snd (line_view (pseudo_line s')))"
proof -
  have "shell_ok (snd q)" if "(main_step hw hw16)\<^sup>*\<^sup>* (pc, s) q" for q
    using that by (induction rule: rtranclp_induct) (simp_all add: assms(2) main_step_ok)
  from this [OF assms(1)] show ?thesis using pseudo_prompt_shows [of s'] by (simp add: line_view_def)
qed


text \<open>A machine with one file, in text mode; the key A waits in the buffer.\<close>

definition blank_line :: line_t where
  "blank_line = \<lparr>chars = (\<lambda>_. NUL), len = 0, cursor = 0\<rparr>"

definition shell_example :: shell where
  "shell_example = (display.extend display_example
     (shell.fields okfs_small blank_line blank_line (\<lambda>_. []) 0 False 0 0 0 0 [] False False))
     \<lparr>key_buffer := (\<lambda>_. 0x1E), keybuf_head := 1, keybuf_tail := 0, modifiers := 0, current_layout := LAYOUT_US,
      graphics_mode_active := False\<rparr>"

lemma shell_example_fields:
  "key_buffer shell_example = (\<lambda>_. 0x1E)" "keybuf_head shell_example = 1" "keybuf_tail shell_example = 0" "modifiers shell_example = 0"
  "current_layout shell_example = LAYOUT_US" "graphics_mode_active shell_example = False" "fsys shell_example = okfs_small"
  "cmd_line shell_example = blank_line" "pseudo_line shell_example = blank_line" "halted shell_example = False"
  by (simp_all add: shell_example_def display.defs shell.defs)

lemma shell_example_ok: "shell_ok shell_example"
  by (simp add: shell_ok_def shell_example_fields line_ok_def blank_line_def)

theorem main_loop_lines_ok_witness:
  "\<forall>hw hw16. \<exists>s'. (main_step hw hw16)\<^sup>*\<^sup>* (At_keys, shell_example) (At_keys, s') \<and> line_text (cmd_line s') = ''a'' \<and> shell_ok s' \<and>
     build_pseudo_prompt 80 s' = Some ''> _''"
proof (intro allI)
  fix hw hw16
  define s1 where "s1 = shell_example\<lparr>keybuf_tail := 1\<rparr>"
  define s' where "s' = show_text_prompt (s1\<lparr>cmd_line := line_insert (CHR ''a'') (cmd_line s1)\<rparr>)"
  have c: "keyboard_scancode_to_ascii 0x1E s1 = Some (CHR ''a'')"
    by (simp add: s1_def keyboard_scancode_to_ascii_def shell_example_fields table_read_def scancode_ascii_lower_us_def)
  have "handle_key hw hw16 0x1E s1 = Some s'"
    using c by (simp add: handle_key_def text_key_def text_type_def printable_def s'_def Let_def)
      (simp add: s1_def shell_example_fields blank_line_def fs_edit_is_active_def okfs_small_fields)
  moreover have "keyboard_get_scancode shell_example = (0x1E, s1)"
    by (simp add: keyboard_get_scancode_def shell_example_fields s1_def)
  ultimately have "main_step hw hw16 (At_keys, shell_example) (At_keys, s')"
    by (intro main_step.key) (simp_all add: shell_example_fields)
  then have r: "(main_step hw hw16)\<^sup>*\<^sup>* (At_keys, shell_example) (At_keys, s')" by blast
  have "line_text (cmd_line s') = ''a''" "line_view (pseudo_line s') = ([], [])"
    by (simp_all add: s'_def s1_def shell_example_fields blank_line_def line_insert_def Let_def line_text_def line_view_def)
  with main_loop_lines_ok [OF r shell_example_ok] r
  show "\<exists>s'. (main_step hw hw16)\<^sup>*\<^sup>* (At_keys, shell_example) (At_keys, s') \<and> line_text (cmd_line s') = ''a'' \<and> shell_ok s' \<and>
     build_pseudo_prompt 80 s' = Some ''> _''" by auto
qed

text \<open>
  C39. The keys that change a line, in any order: typing, Backspace, Delete and the arrows act on the array as they do on
  the text before and the text behind the cursor, and a line that is full takes no more characters.
\<close>

theorem line_edits_refine:
  assumes "line_ok n l" and "\<forall>op \<in> set ops. op \<noteq> Type_char NUL"
  shows "line_ok n (fold (line_step n) ops l) \<and> line_view (fold (line_step n) ops l) = fold (zip_step n) ops (line_view l)"
proof -
  obtain rs l' where "run_ops (\<lambda>op l. Some ((), line_step n op l)) ops l = Some (rs, l')" "line_ok n l'"
      "spec_run (\<lambda>op v _ v'. v' = zip_step n op v) ops (line_view l) rs (line_view l')"
    using lines.run_refines [OF assms] by blast
  then show ?thesis by (auto simp: run_line_steps dest: spec_zip_steps)
qed

theorem line_edits_refine_witness:
  "line_view (fold (line_step 64) [Type_char CHR ''h'', Type_char CHR ''x'', Type_char CHR ''i'', Cursor_left, Backspace] blank_line)
     = (''h'', ''i'')"
proof -
  have "line_ok 64 blank_line" "line_view blank_line = ([], [])" by (simp_all add: line_ok_def blank_line_def line_view_def line_text_def)
  then show ?thesis
    using line_edits_refine [of 64 blank_line "[Type_char CHR ''h'', Type_char CHR ''x'', Type_char CHR ''i'', Cursor_left, Backspace]"] by simp
qed


section \<open>Commands on the text console\<close>

lemma keep_last_puts: "ls \<noteq> [] \<Longrightarrow> keep_last (fold layout_put cs (keep_last ls)) = keep_last (fold layout_put cs ls)"
proof -
  assume "ls \<noteq> []"
  then have "keep_last ls \<noteq> []" "keep_last (keep_last ls) = keep_last ls" by (auto simp: keep_last_facts(1)) (simp add: keep_last_def)
  then show ?thesis using spec_puts_keep [of "keep_last ls" cs] spec_puts_keep [OF \<open>ls \<noteq> []\<close>, of cs] by simp
qed

lemma puts_nonempty: "ls \<noteq> [] \<Longrightarrow> fold layout_put cs ls \<noteq> []"
  by (induction cs arbitrary: ls) (simp_all add: layout_put_def)

text \<open>A line the console can print at once.\<close>

definition short_line :: "string \<Rightarrow> bool" where
  "short_line l \<longleftrightarrow> length l \<le> 510 \<and> NUL \<notin> set l"

lemma text_log_shows:
  fixes s :: "'a shell_scheme"
  assumes rep: "term_rep s ls" and l: "short_line msg"
  shows "\<exists>s'. text_console_log msg s = Some s' \<and> term_rep s' (keep_last (fold layout_put (msg @ [NEWLINE]) ls)) \<and>
    display.more s' = display.more s"
proof -
  have len: "length (msg @ [NEWLINE]) \<le> 511" using l by (simp add: short_line_def)
  have tx: "printf_text ''%s\<newline>'' [KStr msg] = Some (msg @ [NEWLINE])" by simp
  have all: "takeWhile (\<lambda>c. c \<noteq> NUL) (msg @ [NEWLINE]) = msg @ [NEWLINE]" using l by (auto simp: takeWhile_eq_all_conv short_line_def)
  have p: "text_console_log msg s = Some (print_chars (msg @ [NEWLINE]) s)"
    by (simp add: text_console_log_def kprint_def printk_def printk_buffer_text [OF tx len])
  then have "display.more (print_chars (msg @ [NEWLINE]) s) = display.more s"
    unfolding text_console_log_def by (rule kprint_more)
  then show ?thesis using p print_chars_rep(1) [OF rep, of "msg @ [NEWLINE]", unfolded all] by blast
qed

lemma text_log_all_shows:
  fixes s :: "'a shell_scheme"
  assumes "term_rep s ls" and "\<forall>l \<in> set ms. short_line l"
  shows "\<exists>s'. log_all text_console_log ms s = Some s' \<and> display.more s' = display.more s \<and>
    term_rep s' (keep_last (fold layout_put (concat (map (\<lambda>l. l @ [NEWLINE]) ms)) ls))"
  using assms
proof (induction ms arbitrary: s ls)
  case Nil
  then have "keep_last ls = ls" by (simp add: term_rep_def keep_last_def)
  then show ?case using Nil by simp
next
  case (Cons m ms)
  then have ne: "ls \<noteq> []" by (simp add: term_rep_def)
  obtain t where t: "text_console_log m s = Some t" "term_rep t (keep_last (fold layout_put (m @ [NEWLINE]) ls))"
      "display.more t = display.more s" using text_log_shows [of s ls m] Cons.prems by auto
  have "\<forall>l \<in> set ms. short_line l" using Cons.prems by simp
  from Cons.IH [OF t(2) this] obtain s' where s': "log_all text_console_log ms t = Some s'" "display.more s' = display.more t"
      "term_rep s' (keep_last (fold layout_put (concat (map (\<lambda>l. l @ [NEWLINE]) ms)) (keep_last (fold layout_put (m @ [NEWLINE]) ls))))"
    by blast
  then show ?case using t keep_last_puts [OF puts_nonempty [OF ne], of _ "m @ [NEWLINE]"] by simp
qed

text \<open>What a call of the file system says, when its heap has nothing to report.\<close>

lemma run_fs_shows:
  fixes s :: "'a shell_scheme"
  assumes "term_rep s ls" and "call ((fsys s)\<lparr>klog := [], emitted := []\<rparr>) = Some (r, f)" and "klog f = []"
    and "\<forall>l \<in> set (emitted f). short_line l"
  shows "\<exists>s'. run_fs call text_console_log s = Some (r, s') \<and> fsys s' = f \<and>
    term_rep s' (keep_last (fold layout_put (concat (map (\<lambda>l. l @ [NEWLINE]) (emitted f))) ls))"
proof -
  have "term_rep (s\<lparr>fsys := f\<rparr>) ls" using assms(1) by (simp add: term_rep_def rows_def)
  from text_log_all_shows [OF this assms(4)] obtain s' where "log_all text_console_log (emitted f) (s\<lparr>fsys := f\<rparr>) = Some s'"
      "display.more s' = display.more (s\<lparr>fsys := f\<rparr>)" "term_rep s' (keep_last (fold layout_put (concat (map (\<lambda>l. l @ [NEWLINE]) (emitted f))) ls))"
    by blast
  then show ?thesis using more_fields(2) [of s' "s\<lparr>fsys := f\<rparr>"] assms by (simp add: run_fs_def)
qed

lemma printed_fields:
  fixes f :: "'a okfs_scheme"
  shows
  "bufs_wf (f\<lparr>klog := k\<rparr>) = bufs_wf f" "bufs_wf (f\<lparr>emitted := e\<rparr>) = bufs_wf f"
  "content (f\<lparr>klog := k\<rparr>) i = content f i" "content (f\<lparr>emitted := e\<rparr>) i = content f i"
  by (simp_all add: bufs_wf_def buf_ok_def buf_ptr_def buf_len_def buf_cap_def heap_wf_def live_def heap_blocks_def content_def buf_bytes_def)

lemma quiet_view:
  assumes "fs_wf f"
  shows "fs_wf (f\<lparr>klog := [], emitted := []\<rparr>)" and "fs_view (f\<lparr>klog := [], emitted := []\<rparr>) = fs_view f"
    and "fs_view (f\<lparr>emitted := e\<rparr>) = fs_view f"
  using fs_view_kept [OF assms, of "f\<lparr>klog := [], emitted := []\<rparr>"] fs_view_kept(2) [OF assms, of "f\<lparr>emitted := e\<rparr>"] fs_wfD(1) [OF assms]
  by (simp_all add: printed_fields)

lemma shell_example_rep: "term_rep shell_example [[]]"
proof -
  have "term_rep terminal_example [[]]" unfolding terminal_example_def by (rule vga_clear_rep)
  then show ?thesis by (simp add: shell_example_def display_example_def term_rep_def rows_def terminal.defs display.defs shell.defs)
qed

lemma small_write:
  "\<exists>f. fs_write_file ''a.txt'' (Str (''good day'' @ [NEWLINE])) 0 okfs_small = Some (FS_OK, f) \<and> fs_wf f \<and> \<not> fs_edit_is_active f \<and>
     spec_write ''a.txt'' (''good day'' @ [NEWLINE]) (fs_view okfs_small) FS_OK (fs_view f)"
proof -
  let ?t = "''good day'' @ [NEWLINE]"
  obtain r f where w: "fs_write_file ''a.txt'' (Str ?t) 0 okfs_small = Some (r, f)" "fs_wf f"
      "spec_write ''a.txt'' ?t (fs_view okfs_small) r (fs_view f)" "okfs_frame okfs_small f"
    by (rule fs_write_Str [OF okfs_small_wf, of ?t "''a.txt''"]) simp_all
  have "heap_room okfs_small ALLOC_COST" using okfs_small_blocks by (simp add: heap_room_def)
  then have "r \<noteq> FS_ERR_NO_SPACE" using fs_write_Str_room(1) [OF okfs_small_wf _ _ _ w(1)] by simp
  then have "r = FS_OK" using w(3) okfs_small_lookup(2) by (cases "fs_view f") (auto simp: fs_view_def [of okfs_small] spec_write_def small_parent spec_store_def)
  moreover have "\<not> fs_edit_is_active f" using w(4) by (auto simp: okfs_frame_def fs_edit_is_active_def okfs_small_fields)
  ultimately show ?thesis using w by blast
qed

text \<open>
  C40. Command \<open>cat\<close> from the file system to the screen: for a text file of lines, each ended by a newline and of at
  most 127 characters, the terminal shows the contents of the file, and the file system is as before.
\<close>

theorem cat_command_shown:
  fixes s :: "'a shell_scheme"
  assumes fs: "fs_wf (fsys s)" "\<not> fs_edit_is_active (fsys s)" and rep: "term_rep s ls"
    and at: "spec_lookup (fs_abs (fsys s)) (cwd_abs (fsys s)) path = Inr P" "fs_abs (fsys s) P = Some (File ds)"
    and ds: "ds = concat (map (\<lambda>l. l @ [NEWLINE]) ms)" "ms \<noteq> []"
    and ms: "\<forall>l \<in> set ms. length l \<le> 127 \<and> NEWLINE \<notin> set l \<and> NUL \<notin> set l"
  shows "\<exists>s'. execute_text_command hw hw16 (''cat '' @ path) s = Some s' \<and> fs_view (fsys s') = fs_view (fsys s) \<and>
    term_rep s' (keep_last (fold layout_put ds ls))"
proof -
  let ?f = "(fsys s)\<lparr>klog := [], emitted := []\<rparr>"
  note q = quiet_view(1,2) [OF fs(1)]
  have at': "spec_lookup (fs_abs ?f) (cwd_abs ?f) path = Inr P" "fs_abs ?f P = Some (File ds)"
    using q(2) at by (simp_all add: fs_view_def)
  have "ds \<noteq> []" using ds by (cases ms) simp_all
  from fs_cat_lines [OF q(1) at' this] obtain f ms' where cat: "fs_cat path ?f = (FS_OK, f)" "f = ?f\<lparr>emitted := emitted ?f @ ms'\<rparr>"
      "ms' = ms" using ds(1) ms by blast
  have call: "fs_handle_command (''cat '' @ path) ?f = Some (True, f)" unfolding fs_handle_cat by (simp add: cat(1) report_def)
  have "klog f = []" "emitted f = ms" by (simp_all add: cat(2,3))
  moreover have "\<forall>l \<in> set (emitted f). short_line l" using ms calculation(2) by (auto simp: short_line_def)
  ultimately obtain s' where s': "run_fs (fs_handle_command (''cat '' @ path)) text_console_log s = Some (True, s')" "fsys s' = f"
      "term_rep s' (keep_last (fold layout_put ds ls))"
    using run_fs_shows [OF rep, of "fs_handle_command (''cat '' @ path)" True f] call ds(1) by auto
  have "fs_view f = fs_view ?f" unfolding cat(2) by (rule quiet_view(3) [OF q(1)])
  then show ?thesis using s' fs(2) q(2) by (simp add: execute_text_command_def)
qed

theorem cat_command_shown_witness:
  "\<forall>hw hw16. \<exists>f s'. fs_write_file ''a.txt'' (Str (''good day'' @ [NEWLINE])) 0 okfs_small = Some (FS_OK, f) \<and>
     execute_text_command hw hw16 ''cat a.txt'' (shell_example\<lparr>fsys := f\<rparr>) = Some s' \<and> term_rep s' [''good day'', []]"
proof (intro allI)
  fix hw hw16
  let ?t = "''good day'' @ [NEWLINE]"
  obtain f where f: "fs_write_file ''a.txt'' (Str ?t) 0 okfs_small = Some (FS_OK, f)" "fs_wf f" "\<not> fs_edit_is_active f"
    "spec_write ''a.txt'' ?t (fs_view okfs_small) FS_OK (fs_view f)" using small_write by blast
  have len: "length (base_part ''a.txt'') < FS_MAX_NAME" by (simp add: small_parts)
  obtain P where P: "fs_abs f P = Some (File ?t)" "spec_lookup (fs_abs f) (cwd_abs f) ''a.txt'' = Inr P"
    by (rule spec_write_lookup [OF okfs_small_wf f(4) len]) (metis fun_upd_same)
  have rep: "term_rep (shell_example\<lparr>fsys := f\<rparr>) [[]]" using shell_example_rep by (simp add: term_rep_def rows_def)
  have "keep_last (fold layout_put ?t [[]]) = [''good day'', []]" by (simp add: layout_put_def put_last_def keep_last_def)
  with cat_command_shown [of "shell_example\<lparr>fsys := f\<rparr>" "[[]]" "''a.txt''" P ?t "[''good day'']" hw hw16] f P rep
  show "\<exists>f s'. fs_write_file ''a.txt'' (Str ?t) 0 okfs_small = Some (FS_OK, f) \<and>
     execute_text_command hw hw16 ''cat a.txt'' (shell_example\<lparr>fsys := f\<rparr>) = Some s' \<and> term_rep s' [''good day'', []]" by auto
qed

text \<open>
  \<open>cmd.print("msg")\<close> prints \<open>msg\<close>: a message of at most 127 characters without a quotation mark comes out as a
  line on the terminal, and nothing of the file system or of the lines under edit changes.
\<close>

theorem cmd_print_echo:
  fixes s :: "'a shell_scheme"
  assumes "\<not> fs_edit_is_active (fsys s)" and rep: "term_rep s ls"
    and msg: "msg \<noteq> []" "length msg \<le> 127" "CHR 0x22 \<notin> set msg" "NUL \<notin> set msg"
  shows "\<exists>s'. execute_text_command hw hw16 (''cmd.print('' @ [CHR 0x22] @ msg @ [CHR 0x22] @ '')'') s = Some s' \<and>
    fsys s' = (fsys s)\<lparr>klog := [], emitted := []\<rparr> \<and> lines s' = lines s \<and> term_rep s' (keep_last (fold layout_put (msg @ [NEWLINE]) ls))"
proof -
  let ?c = "''cmd.print('' @ [CHR 0x22] @ msg @ [CHR 0x22] @ '')''"
  let ?s = "s\<lparr>fsys := (fsys s)\<lparr>klog := [], emitted := []\<rparr>\<rparr>"
  have "fs_handle_command ?c f = Some (False, f)" for f :: okfs
    by (simp add: fs_handle_command_def strncmp_Cons parse_path_and_rest_def)
  then have fs: "run_fs (fs_handle_command ?c) text_console_log s = Some (False, ?s)" by (simp add: run_fs_def)
  have "takeWhile (\<lambda>c. c \<noteq> CHR 0x22) (msg @ [CHR 0x22] @ '')'') = msg" using takeWhile_stop [OF msg(3)] by simp
  then have "extract_parenthesis_content (drop 9 ?c) 128 = Some msg"
    using msg(2) by (simp add: extract_parenthesis_content_def Let_def)
  then have "execute_console_command hw hw16 ?c text_console_log False ?s = map_option (Pair True) (text_console_log msg ?s)"
    using msg(1) by (simp add: execute_console_command_def streq_iff command_print_def)
  moreover have "term_rep ?s ls" using rep by (simp add: term_rep_def rows_def)
  then obtain s' where s': "text_console_log msg ?s = Some s'" "term_rep s' (keep_last (fold layout_put (msg @ [NEWLINE]) ls))"
      "display.more s' = display.more ?s"
    using text_log_shows [of ?s ls msg] msg(2,4) by (auto simp: short_line_def)
  ultimately have "execute_text_command hw hw16 ?c s = Some s'" using fs assms(1) by (simp add: execute_text_command_def)
  moreover have "fsys s' = fsys ?s" "lines s' = lines ?s" using more_fields(1,2) [OF s'(3)] by simp_all
  ultimately show ?thesis using s'(2) by (auto simp: lines_def)
qed


theorem cmd_print_echo_witness:
  "\<forall>hw hw16. \<exists>s'. execute_text_command hw hw16 (''cmd.print('' @ [CHR 0x22] @ ''hello (1)'' @ [CHR 0x22] @ '')'') shell_example = Some s' \<and>
     term_rep s' [''hello (1)'', []]"
proof (intro allI)
  fix hw hw16
  have "keep_last (fold layout_put (''hello (1)'' @ [NEWLINE]) [[]]) = [''hello (1)'', []]"
    by (simp add: layout_put_def put_last_def keep_last_def)
  moreover have "\<not> fs_edit_is_active (fsys shell_example)" by (simp add: shell_example_fields fs_edit_is_active_def okfs_small_fields)
  ultimately show "\<exists>s'. execute_text_command hw hw16 (''cmd.print('' @ [CHR 0x22] @ ''hello (1)'' @ [CHR 0x22] @ '')'') shell_example = Some s' \<and>
     term_rep s' [''hello (1)'', []]"
    using cmd_print_echo [OF _ shell_example_rep, of "''hello (1)''" hw hw16] by auto
qed

end
