(* ===== verification/Boot_Props.thy ===== *)
theory Boot_Props
  imports Boot Shell_Props Keyboard_Props
begin

text \<open>
  The start of the kernel runs to its first prompt: every message fits the buffer of \<open>printk\<close>, every allocation
  finds room, and what one component sets up the later ones leave alone.
\<close>

section \<open>What the console leaves alone\<close>

text \<open>The fields below the console that matter here.\<close>

definition tables :: "'a terminal_scheme \<Rightarrow> kevent list \<times> (nat \<Rightarrow> isr_t option) \<times> (nat \<Rightarrow> idt_entry_t) \<times> bool" where
  "tables t = (klog t, irq_handlers t, idt_entries t, interrupts_on t)"

lemma tables_fields [simp]:
  "tables (t\<lparr>vga_buffer := a\<rparr>) = tables t" "tables (t\<lparr>io_trace := tr\<rparr>) = tables t" "tables (t\<lparr>terminal_history := b\<rparr>) = tables t"
  "tables (t\<lparr>terminal_total_lines := n\<rparr>) = tables t" "tables (t\<lparr>scroll_view_offset := n\<rparr>) = tables t"
  "tables (t\<lparr>cursor_row := c\<rparr>) = tables t" "tables (t\<lparr>cursor_col := c\<rparr>) = tables t"
  "tables (t\<lparr>loading_status_active := d\<rparr>) = tables t" "tables (t\<lparr>loading_status_line := n\<rparr>) = tables t"
  "tables (t\<lparr>loading_status_frame := w\<rparr>) = tables t" "tables (t\<lparr>loading_status_label := str\<rparr>) = tables t"
  "tables (t\<lparr>loading_status_progress := n\<rparr>) = tables t"
  by (simp_all add: tables_def)

lemma cell_tables [kept]:
  "tables (io_outb p v t) = tables t" "tables (set_cell l c w t) = tables t" "tables (refresh_cell st r c t) = tables t"
  "tables (vga_update_hardware_cursor t) = tables t"
  by (simp_all add: io_outb_def set_cell_def refresh_cell_def vga_update_hardware_cursor_def Let_def)

lemma rows_tables [kept]:
  "tables (vga_refresh t) = tables t" "tables (clear_line l t) = tables t" "tables (shift_up t) = tables t"
  "tables (write_cells l c str t) = tables t" "tables (write_input l c str k t) = tables t"
  by (simp_all add: vga_refresh_def clear_line_def shift_up_def write_cells_def write_input_def Let_def kept
      for_kept [where h = tables] fold_kept [where h = tables] split_beta)

lemma putchar_tables [kept]: "tables (vga_putchar_with_scrollback c t) = tables t"
  by (simp add: vga_putchar_with_scrollback_def Let_def kept)

lemma print_tables [kept]: "tables (print_chars str t) = tables t"
proof -
  let ?u = "vga_refresh (fold vga_putchar_with_scrollback (takeWhile (\<lambda>c. c \<noteq> NUL) str) (t\<lparr>interrupts_on := False\<rparr>))"
  have "tables ?u = tables (t\<lparr>interrupts_on := False\<rparr>)" by (simp add: kept fold_kept [where h = tables])
  then show ?thesis by (simp add: print_chars_def Let_def tables_def)
qed

lemma console_tables [kept]:
  "tables (vga_clear t) = tables t" "tables (vga_replace_line_text l str t) = tables t"
  "tables (vga_replace_current_input_line pr inp k t) = tables t"
  by (simp_all add: vga_clear_def vga_replace_line_text_def vga_replace_current_input_line_def Let_def kept
      for_kept [where h = tables])

lemma status_tables [kept]:
  "tables (render_loading_status t) = tables t" "tables (loading_status_start l t) = tables t"
  "tables (loading_status_tick t) = tables t" "tables (loading_status_set_progress n t) = tables t"
  "tables (loading_status_done t) = tables t"
  by (simp_all add: render_loading_status_def loading_status_start_def loading_status_tick_def
      loading_status_set_progress_def loading_status_done_def Let_def kept)

text \<open>Two states that differ by what is on the console only.\<close>

definition only_shown :: "'a display_scheme \<Rightarrow> 'a display_scheme \<Rightarrow> bool" where
  "only_shown s s' \<longleftrightarrow> tables s' = tables s \<and> display.more s' = display.more s"

lemma shown_refl: "only_shown s s"
  and shown_trans [trans]: "only_shown s t \<Longrightarrow> only_shown t u \<Longrightarrow> only_shown s u"
  by (simp_all add: only_shown_def)

section \<open>Messages that can be printed\<close>

definition event_ok :: "kevent \<Rightarrow> bool" where
  "event_ok e = (case e of Printk f args \<Rightarrow> (\<exists>b. printk_buffer f args = Inr b) | _ \<Rightarrow> True)"

definition log_ok :: "'a kout_scheme \<Rightarrow> bool" where
  "log_ok s \<longleftrightarrow> (\<forall>e \<in> set (klog s). event_ok e)"

lemma event_ok_status [simp]:
  "event_ok (Status_start l)" "event_ok Status_tick" "event_ok (Status_progress n)" "event_ok Status_done"
  by (simp_all add: event_ok_def)

lemma log_ok_event [simp]: "log_ok (log_event e s) \<longleftrightarrow> log_ok s \<and> event_ok e"
  by (auto simp: log_ok_def)

lemma event_ok_text: "pred_option (\<lambda>out. length out \<le> 511) (printf_text f args) \<and> printf_text f args \<noteq> None \<Longrightarrow> event_ok (Printk f args)"
  by (auto simp: event_ok_def printk_buffer_text)

lemma dec_text_length: "\<bar>v\<bar> < 10 ^ 10 \<Longrightarrow> length (dec_text v) \<le> 11"
proof -
  assume "\<bar>v\<bar> < 10 ^ 10"
  then have "length (dec_temp (nat \<bar>v\<bar>)) \<le> 10" by (intro dec_temp_length) simp
  then show ?thesis by (auto simp: dec_text_def abs_if)
qed

lemma sint_text_length: "length (dec_text (sint (v :: u32))) \<le> 11"
  using sint_lt [of v] sint_ge [of v] by (intro dec_text_length) auto

lemma hex_text_length: "length (hex_text v) = 8"
  by (simp add: hex_text_def)

text \<open>A format without conversions.\<close>

lemma printf_plain: "CHR ''%'' \<notin> set f \<Longrightarrow> printf_text f [] = Some f"
  by (induction f "[] :: karg list" rule: printf_text.induct) auto

lemma event_ok_plain: "CHR ''%'' \<notin> set f \<Longrightarrow> length f \<le> 511 \<Longrightarrow> event_ok (Printk f [])"
  by (rule event_ok_text) (simp add: printf_plain)

lemma show_event_ok:
  fixes s :: "'a display_scheme"
  assumes "event_ok e"
  shows "\<exists>s'. show_event e s = Inr s' \<and> only_shown s s'"
proof -
  from assms obtain s' where s': "show_event e s = Inr s'" "tables s' = tables s"
    by (cases e) (auto simp: event_ok_def printk_def kept)
  then show ?thesis using more_lifts [OF show_event_kept [OF s'(1)]] by (simp add: only_shown_def)
qed

lemma kprint_ok: "event_ok (Printk f args) \<Longrightarrow> \<exists>s'. kprint f args s = Some s' \<and> only_shown s s'"
  using show_event_ok [of "Printk f args" s] by (auto simp: kprint_def)

lemma show_events_ok: "\<forall>e \<in> set es. event_ok e \<Longrightarrow> \<exists>s'. show_events es s = Some s' \<and> only_shown s s'"
proof (induction es arbitrary: s)
  case (Cons e es)
  then obtain t where t: "show_event e s = Inr t" "only_shown s t" using show_event_ok [of e s] by auto
  moreover obtain s' where "show_events es t = Some s'" "only_shown t s'" using Cons by auto
  ultimately show ?case using shown_trans by auto
qed (simp add: shown_refl)

section \<open>The messages of the memory manager and the file system\<close>

lemma log_ok_fields [simp]:
  "log_ok (s\<lparr>pmm_bitmap := a\<rparr>) = log_ok s" "log_ok (s\<lparr>pmm_page_count := n\<rparr>) = log_ok s" "log_ok (s\<lparr>pmm_free_pages := n\<rparr>) = log_ok s"
  "log_ok (s\<lparr>pmm_search_hint := n\<rparr>) = log_ok s" "log_ok (v\<lparr>phys_mem := b\<rparr>) = log_ok v"
  "log_ok (v\<lparr>kernel_page_directory := n\<rparr>) = log_ok v" "log_ok (v\<lparr>current_page_directory := n\<rparr>) = log_ok v"
  "log_ok (v\<lparr>invlpg_log := c\<rparr>) = log_ok v" "log_ok (v\<lparr>cr0 := n\<rparr>) = log_ok v" "log_ok (vmm.cr3_update g v) = log_ok v"
  "log_ok (h\<lparr>heap_mem := d\<rparr>) = log_ok h" "log_ok (h\<lparr>heap_start := n\<rparr>) = log_ok h" "log_ok (h\<lparr>heap_end := n\<rparr>) = log_ok h"
  "log_ok (f\<lparr>ram := r\<rparr>) = log_ok f" "log_ok (f\<lparr>nodes := nd\<rparr>) = log_ok f" "log_ok (f\<lparr>cwd := w\<rparr>) = log_ok f"
  "log_ok (f\<lparr>cwd_path := str\<rparr>) = log_ok f"
  by (simp_all add: log_ok_def)

lemma pmm_set_bit_log [simp]: "log_ok (pmm_set_bit w b s) = log_ok s"
  by (simp add: pmm_set_bit_def Let_def)

lemma pmm_alloc_page_log [simp]: "log_ok (snd (pmm_alloc_page s)) = log_ok s"
proof -
  have "log_ok (snd (pmm_find_free_page s)) = log_ok s" by (simp add: pmm_find_free_page_def split: option.split)
  moreover have "event_ok (Printk ''PMM: Out of memory!\<newline>'' [])" by (rule event_ok_plain) simp_all
  ultimately show ?thesis by (simp add: pmm_alloc_page_def Let_def split_beta)
qed

lemma pmm_loops_log [simp]:
  "log_ok (snd (for_loop a b pmm_init_mark x)) = log_ok (snd x)" "log_ok (for_loop a b (pmm_init_free p) s) = log_ok s"
  by (rule for_loop_preserves [where P = "\<lambda>x. log_ok (snd x)"], simp add: pmm_init_mark_def Let_def split_beta)
    (rule for_loop_preserves, simp add: pmm_init_free_def Let_def)

lemma pmm_init_log [simp]: "log_ok (pmm_init e lo up s) = log_ok s"
proof -
  have "event_ok (Printk ''Memory: %d KB (%d total pages, %d free pages)\<newline>''
      [KDec (sint a), KDec (sint b), KDec (sint c)])" for a b c :: u32
    using sint_text_length [of a] sint_text_length [of b] sint_text_length [of c] by (intro event_ok_text) simp
  then show ?thesis by (simp add: pmm_init_def Let_def split_beta)
qed

lemma clear_table_log [simp]: "log_ok (clear_table t s) = log_ok s"
  unfolding clear_table_def by (rule for_loop_preserves) (simp add: write_word_def)

lemma vmm_map_log [simp]: "log_ok (vmm_map_page p v fl s) = log_ok s"
proof -
  have "event_ok (Printk ''VMM: Failed to allocate page table!\<newline>'' [])" by (rule event_ok_plain) simp_all
  then show ?thesis by (simp add: vmm_map_page_def Let_def split_beta write_word_def invlpg_def)
qed

lemma vmm_tick_log [simp]: "log_ok (snd (map_and_tick p v x)) = log_ok (snd x)"
  by (simp add: map_and_tick_def vmm_loading_tick_def Let_def split_beta)

lemma vmm_loops_log [simp]:
  "log_ok (snd (for_loop a b (\<lambda>i. map_and_tick (p i) (v i)) x)) = log_ok (snd x)"
  "log_ok (snd (snd (for_loop a b map_heap_page y))) = log_ok (snd (snd y))"
proof -
  show "log_ok (snd (for_loop a b (\<lambda>i. map_and_tick (p i) (v i)) x)) = log_ok (snd x)"
    by (rule for_loop_preserves [where P = "\<lambda>x. log_ok (snd x)"]) simp
  have "event_ok (Printk ''VMM: Failed to allocate page for heap mapping at index %u\<newline>'' as)" for as
    by (rule event_ok_text) simp
  then show "log_ok (snd (snd (for_loop a b map_heap_page y))) = log_ok (snd (snd y))"
    by (intro for_loop_preserves [where P = "\<lambda>x. log_ok (snd (snd x))"]) (simp add: map_heap_page_def Let_def split_beta)
qed

lemma vmm_init_log [simp]: "log_ok (vmm_init s) = log_ok s"
proof -
  have "event_ok (Printk ''VMM: Paging enabled, kernel mapped at 0x%x\<newline>'' [KHex KERNEL_VIRTUAL_BASE])"
    by (rule event_ok_text) (simp add: hex_text_length)
  then show ?thesis by (simp add: vmm_init_def Let_def split_beta)
qed

lemma memory_init_log [simp]: "log_ok (memory_init e lo up s) = log_ok s"
proof -
  have m: "event_ok (Printk ''Initializing memory management...\<newline>'' [])" "event_ok (Printk ''Memory management initialized.\<newline>'' [])"
    by (rule event_ok_plain; simp)+
  have "event_ok (Printk ''Heap: Initialized at 0x%x, size %d MB\<newline>'' [KHex HEAP_START, KDec 64])"
    using dec_text_length [of 64] by (intro event_ok_text) (simp add: hex_text_length)
  then have "log_ok (heap_init t) = log_ok t" for t :: "'a kheap_scheme" by (simp add: heap_init_def Let_def)
  then show ?thesis by (simp add: memory_init_def Let_def m)
qed

lemma kmalloc_log: "kmalloc n s = Some (p, s') \<Longrightarrow> log_ok s' = log_ok s"
proof -
  have "event_ok (Printk ''kmalloc: Out of memory!\<newline>'' [])" by (rule event_ok_plain) simp_all
  then show "kmalloc n s = Some (p, s') \<Longrightarrow> log_ok s' = log_ok s"
    by (auto simp: kmalloc_def Let_def split: if_splits option.splits)
qed

lemma okfs_moves_log [simp]: "log_ok (kfree p h) = log_ok h" "log_ok (node_upd i g s) = log_ok s"
  by (simp_all add: kfree_def node_upd_def Let_def)

lemma copy_bytes_log [simp]: "log_ok (copy_bytes a b n s) = log_ok s"
  unfolding copy_bytes_def by (rule for_loop_preserves) (simp add: write_byte_def)

lemma fs_write_log:
  "fs_grow_data fid n app s = Some (b, s') \<Longrightarrow> log_ok s' = log_ok s"
  "fs_set_file_data fid src n app s = Some (r, s') \<Longrightarrow> log_ok s' = log_ok s"
  "fs_write_file pth src n s = Some (r, s') \<Longrightarrow> log_ok s' = log_ok s"
proof -
  show grow: "fs_grow_data fid n app s = Some (b, s') \<Longrightarrow> log_ok s' = log_ok s" for fid n app b s s'
  proof (cases "cap (nodes s fid) < n")
    case True
    assume "fs_grow_data fid n app s = Some (b, s')"
    with True obtain c q t where km: "kmalloc c s = Some (q, t)" and rest: "(if q = 0 then Some (False, t) else
        let t = (if app \<and> data (nodes t fid) \<noteq> 0 \<and> 0 < fsize (nodes t fid)
                 then copy_bytes q (Mem (data (nodes t fid))) (fsize (nodes t fid)) t else t);
            t = (if data (nodes t fid) \<noteq> 0 then kfree (data (nodes t fid)) t else t)
        in Some (True, node_upd fid (\<lambda>n. n\<lparr>data := q, cap := c\<rparr>) t)) = Some (b, s')"
      unfolding fs_grow_data_def Let_def bind_eq_Some_conv if_P [OF True] split_paired_Ex split_conv by blast
    show ?thesis using rest kmalloc_log [OF km] by (auto simp: Let_def split: if_split_asm)
  qed (simp add: fs_grow_data_def)
  show set: "fs_set_file_data fid src n app s = Some (r, s') \<Longrightarrow> log_ok s' = log_ok s" for fid src n app r s s'
    by (auto simp: fs_set_file_data_def bind_eq_Some_conv Let_def split: if_splits dest!: grow)
  have create: "log_ok (snd (fs_create_entry p nm ty s)) = log_ok s" for p nm ty
    by (simp add: fs_create_entry_def Let_def)
  assume w: "fs_write_file pth src n s = Some (r, s')"
  show "log_ok s' = log_ok s"
  proof (cases "fs_resolve_parent pth s")
    case (Inl e)
    then show ?thesis using w by (auto simp: fs_write_file_def bind_eq_Some_conv split: if_split_asm)
  next
    case (Inr x)
    obtain pr nm where x: "x = (pr, nm)" by (cases x)
    obtain fid t where c: "fs_create_entry pr nm FS_TYPE_FILE s = (fid, t)" "log_ok t = log_ok s"
      using create [of pr nm FS_TYPE_FILE] by (cases "fs_create_entry pr nm FS_TYPE_FILE s") simp
    from w Inr x c(1) have "s' = s \<or> s' = t \<or> (\<exists>k. fs_set_file_data fid src k False t = Some (r, s')) \<or>
        (\<exists>k. fs_set_file_data (fs_find_child pr nm s) src k False s = Some (r, s'))"
      by (auto simp: fs_write_file_def bind_eq_Some_conv Let_def split: if_split_asm)
    then show ?thesis using set [of fid src _ False t r s'] set [of _ src _ False s r s'] c(2) by blast
  qed
qed

lemma fs_init_log: "fs_init s = Some s' \<Longrightarrow> log_ok s' = log_ok s"
proof -
  have tables: "log_ok (fs_init_tables s) = log_ok s" using fs_init_tables_fields [of s] by auto
  have "log_ok (snd (fs_mkdir pth t)) = log_ok t" for pth and t :: "'a okfs_scheme"
    by (simp add: fs_mkdir_def fs_create_entry_def Let_def split_beta split: sum.split)
  then show "fs_init s = Some s' \<Longrightarrow> log_ok s' = log_ok s"
    using tables by (auto simp: fs_init_def bind_eq_Some_conv Let_def dest!: fs_write_log(3))
qed

section \<open>The heap at the start\<close>

lemma memory_init_rep: "heap_rep (memory_init e lo up s) [(0x4000000 - 12, True)]"
proof -
  have "heap_rep (log_event v t) bs = heap_rep t bs" for v bs and t :: "'a kheap_scheme" by (simp add: heap_rep_def log_event_def)
  then show ?thesis using heap_init_rep by (simp add: memory_init_def Let_def)
qed

lemma pmm_rest [simp]:
  fixes s :: "'a kheap_scheme" and x :: "bool \<times> 'a kheap_scheme"
  shows "kheap.more (log_event e s) = kheap.more s" "kheap.more (pmm_set_bit i b s) = kheap.more s"
    "kheap.more (snd (pmm_alloc_page s)) = kheap.more s" "kheap.more (snd (for_loop lo hi pmm_init_mark x)) = kheap.more (snd x)"
    "kheap.more (for_loop lo hi (pmm_init_free p) s) = kheap.more s"
proof -
  show "kheap.more (log_event e s) = kheap.more s" for e and s :: "'a kheap_scheme" by (simp add: log_event_def)
  note l = this
  show "kheap.more (pmm_set_bit i b s) = kheap.more s" for i b and s :: "'a kheap_scheme" by (simp add: pmm_set_bit_def Let_def)
  note b = this
  show "kheap.more (snd (pmm_alloc_page s)) = kheap.more s"
    by (simp add: pmm_alloc_page_def pmm_find_free_page_def Let_def l b split: option.split)
  show "kheap.more (snd (for_loop lo hi pmm_init_mark x)) = kheap.more (snd x)"
    by (rule for_kept [where h = "\<lambda>x. kheap.more (snd x)"]) (simp add: pmm_init_mark_def Let_def split_beta l b)
  show "kheap.more (for_loop lo hi (pmm_init_free p) s) = kheap.more s"
    by (rule for_kept) (simp add: pmm_init_free_def Let_def l b)
qed

lemma vmm_rest [simp]:
  fixes s :: "'a kheap_scheme"
  shows "kheap.more (clear_table t s) = kheap.more s" "kheap.more (vmm_map_page p v fl s) = kheap.more s"
proof -
  show c: "kheap.more (clear_table t s) = kheap.more s" for t and s :: "'a kheap_scheme"
    unfolding clear_table_def by (rule for_kept) (simp add: write_word_def)
  show "kheap.more (vmm_map_page p v fl s) = kheap.more s"
    by (simp add: vmm_map_page_def Let_def split_beta write_word_def invlpg_def c)
qed

lemma vmm_tick_rest [simp]:
  fixes x :: "u32 \<times> 'a kheap_scheme"
  shows "kheap.more (snd (map_and_tick p v x)) = kheap.more (snd x)"
  by (simp add: map_and_tick_def vmm_loading_tick_def Let_def split_beta)

lemma vmm_loops_rest [simp]:
  fixes x :: "u32 \<times> 'a kheap_scheme"
  shows "kheap.more (snd (for_loop a b (\<lambda>i. map_and_tick (p' i) (v' i)) x)) = kheap.more (snd x)"
    "kheap.more (snd (snd (for_loop a b map_heap_page (c, x)))) = kheap.more (snd x)"
  by (rule for_kept [where h = "\<lambda>x. kheap.more (snd x)"], simp)
    (subst for_kept [where h = "\<lambda>x. kheap.more (snd (snd x))"], simp_all add: map_heap_page_def Let_def split_beta)

lemma memory_init_okfs:
  fixes s :: "'a kheap_scheme"
  shows "kheap.more (memory_init e lo up s) = kheap.more s"
  by (simp add: memory_init_def pmm_init_def vmm_init_def heap_init_def Let_def split_beta)

section \<open>Processes on the file system's heap\<close>

text \<open>An allocation for somebody else leaves every buffer of the file system in place.\<close>

lemma bufs_wf_alloc:
  fixes s :: "'a okfs_scheme"
  assumes wf: "bufs_wf s" and k: "kmalloc n s = Some (q, s')" "unat n \<le> 0xFFFFFFF0"
  shows "bufs_wf s'" and "content s' i = content s i"
proof -
  have hw: "heap_wf s" using wf by (simp add: bufs_wf_def)
  obtain h l where s': "s' = s\<lparr>heap_mem := h, klog := l\<rparr>" using kmalloc_okfs [OF k(1)] .
  have live: "live s' p = live s p" if "live s p \<noteq> None" for p
    using that kh.alloc_null [OF hw] kh.alloc_new [OF hw k(1) _ k(2)] k(1) by (cases "q = 0") auto
  have ok: "buf_ok s' p a c" if "buf_ok s p a c" for p a c using that live [of p] by (auto simp: buf_ok_def split: if_splits)
  have f: "buf_ptr s' = buf_ptr s" "buf_len s' = buf_len s" "buf_cap s' = buf_cap s"
    by (simp_all add: s' buf_ptr_def buf_len_def buf_cap_def fun_eq_iff)
  show "bufs_wf s'" using wf ok kh.alloc_ok [OF hw k(1)] by (auto simp: bufs_wf_def f)
  show "content s' i = content s i" by (simp add: content_def f) (simp add: s' buf_bytes_def)
qed

lemma fs_wf_alloc:
  fixes s :: "'a okfs_scheme"
  assumes wf: "fs_wf s" and k: "kmalloc n s = Some (q, s')" "unat n \<le> 0xFFFFFFF0"
  shows "fs_wf s'" and "fs_view s' = fs_view s"
proof -
  obtain h l where s': "s' = s\<lparr>heap_mem := h, klog := l\<rparr>" using kmalloc_okfs [OF k(1)] .
  have "nodes s' = nodes s" "cwd s' = cwd s" by (simp_all add: s')
  from fs_view_kept [OF wf bufs_wf_alloc(1) [OF fs_wfD(1) [OF wf] k] this bufs_wf_alloc(2) [OF fs_wfD(1) [OF wf] k]]
  show "fs_wf s'" "fs_view s' = fs_view s" by simp_all
qed


lemma heap_rejoin: "kheap.extend (kheap.truncate s) (kheap.more s) = s"
  by (cases s) (simp add: kheap.defs)

lemma on_heap_fields [simp]:
  "heap_mem (on_heap_of h s) = heap_mem h" "heap_start (on_heap_of h s) = heap_start h" "klog (on_heap_of h s) = klog h"
  "kheap.truncate (on_heap_of h s) = kheap.truncate h" "kheap.more (on_heap_of h s) = kheap.more s"
  by (simp_all add: on_heap_of_def kheap.defs)

lemma kmalloc_taken:
  assumes "kmalloc n g = Some (q, g')" and "q \<noteq> 0" and "heap_mem p = heap_mem g" "heap_start p = heap_start g"
  shows "kmalloc n p = Some (q, p\<lparr>heap_mem := heap_mem g'\<rparr>)" and "g' = g\<lparr>heap_mem := heap_mem g'\<rparr>"
  using assms by (auto simp: kmalloc_def Let_def split: if_splits option.splits)

lemma truncate_upd:
  "kheap.truncate (s\<lparr>klog := l\<rparr>) = (kheap.truncate s)\<lparr>klog := l\<rparr>" "kheap.truncate (log_event e s) = log_event e (kheap.truncate s)"
  "kheap.truncate (s\<lparr>heap_mem := h\<rparr>) = (kheap.truncate s)\<lparr>heap_mem := h\<rparr>" "klog (kheap.truncate s) = klog s"
  "kheap.truncate (p\<lparr>current_process := c\<rparr>) = kheap.truncate p" "kheap.truncate (p\<lparr>process_count := n\<rparr>) = kheap.truncate p"
  "kheap.truncate (p\<lparr>next_pid := n\<rparr>) = kheap.truncate p" "kheap.truncate (pcb_upd i f p) = kheap.truncate p"
  by (simp_all add: kheap.defs log_event_def pcb_upd_def)

lemma pcb_upd_log: "klog (pcb_upd i f p) = klog p"
  by (simp add: pcb_upd_def)

lemma scheduler_init_ok: "\<exists>e. scheduler_init p = log_event e p \<and> event_ok e"
  unfolding scheduler_init_def using event_ok_plain by force

lemma process_init_ok:
  fixes g :: okfs and pt :: procs
  assumes wf: "heap_wf g" and room: "heap_room g ALLOC_COST" and log: "log_ok g"
  obtains p q h where "process_init (on_heap_of g pt) = Inr p" and "q \<noteq> 0" and "kmalloc PROCESS_STACK_SIZE g = Some (q, g\<lparr>heap_mem := h\<rparr>)"
    and "on_heap_of p g = g\<lparr>klog := klog p, heap_mem := h\<rparr>" and "log_ok p"
    and "current_process p = Some 0" and "pstate (pcbs p 0) = PROCESS_STATE_RUNNING" and "kernel_stack (pcbs p 0) = q"
proof -
  define p0 where "p0 = pcb_upd 0 (\<lambda>b. b\<lparr>pid := 0, pstate := PROCESS_STATE_RUNNING, priority := 0, ticks_remaining := 1\<rparr>)
    ((for_loop 0 MAX_PROCESSES (\<lambda>i. pcb_upd i (\<lambda>b. b\<lparr>pstate := PROCESS_STATE_ZOMBIE, pid := 0, pnext := None\<rparr>))
       (log_event (Printk ''Initializing process management...\<newline>'' []) (on_heap_of g pt)))\<lparr>current_process := Some 0\<rparr>)"
  have m: "event_ok (Printk ''Initializing process management...\<newline>'' [])"
      "event_ok (Printk ''Process management initialized. Idle process (PID 0) running.\<newline>'' [])" by (rule event_ok_plain; simp)+
  have l0: "log_ok p0" using log m unfolding p0_def
    by (simp add: log_ok_def pcb_upd_log for_kept [where h = klog])
  have t0: "kheap.truncate p0 = kheap.truncate (g\<lparr>klog := klog p0\<rparr>)"
    unfolding p0_def by (simp add: pcb_upd_log for_kept [where h = klog])
      (simp add: truncate_upd for_kept [where h = kheap.truncate] log_event_def)
  obtain q g' where k: "kmalloc PROCESS_STACK_SIZE g = Some (q, g')" using kh.alloc_returns [OF wf] by blast
  have q: "q \<noteq> 0" using kmalloc_room(1) [OF wf _ _ room _ k] by simp
  have hp: "heap_mem p0 = heap_mem g" "heap_start p0 = heap_start g"
    using arg_cong [OF t0, of heap_mem] arg_cong [OF t0, of heap_start] by (simp_all add: kheap.defs)
  note kp = kmalloc_taken(1) [OF k q hp] and kg = kmalloc_taken(2) [OF k q hp]
  define p1 where "p1 = (pcb_upd 0 (\<lambda>b. b\<lparr>kernel_stack := q\<rparr>) (p0\<lparr>heap_mem := heap_mem g'\<rparr>))\<lparr>process_count := 1, next_pid := 1\<rparr>"
  obtain e where e: "scheduler_init p1 = log_event e p1" "event_ok e" using scheduler_init_ok by blast
  define p where "p = log_event (Printk ''Process management initialized. Idle process (PID 0) running.\<newline>'' []) (log_event e p1)"
  have run: "process_init (on_heap_of g pt) = Inr p"
    unfolding process_init_def Let_def p0_def [symmetric] kp returns_def using q e by (simp add: p1_def p_def)
  have "kheap.truncate p = kheap.truncate (g\<lparr>klog := klog p, heap_mem := heap_mem g'\<rparr>)"
    unfolding p_def p1_def by (simp add: truncate_upd t0 pcb_upd_log log_event_def)
  then have heap: "on_heap_of p g = g\<lparr>klog := klog p, heap_mem := heap_mem g'\<rparr>"
    using heap_rejoin [of "g\<lparr>klog := klog p, heap_mem := heap_mem g'\<rparr>"] by (simp add: on_heap_of_def)
  have "log_ok p" using l0 m e(2) by (simp add: p_def p1_def) (simp add: log_ok_def pcb_upd_log)
  moreover have "current_process p = Some 0" "pstate (pcbs p 0) = PROCESS_STATE_RUNNING" "kernel_stack (pcbs p 0) = q"
    by (simp_all add: p_def p1_def p0_def log_event_def pcb_upd_def)
  ultimately show thesis using that [OF run q _ heap] k kg by simp
qed


section \<open>The drivers\<close>

lemma port_log [simp]:
  "log_ok (io_outb p v s) = log_ok s" "log_ok (snd (io_inb hw p s)) = log_ok s"
  by (simp_all add: log_ok_def io_outb_def io_inb_def Let_def)

lemma wait_log [simp]: "log_ok (drain hw n s) = log_ok s" "log_ok (snd (wait_while hw P n s)) = log_ok s"
  by (induction n arbitrary: s) (simp_all add: split_beta)

lemma keyboard_init_log: "log_ok (keyboard_init hw s) = log_ok s"
proof -
  have m: "event_ok (Printk ''  [OK] Keyboard interrupts registered\<newline>'' [])" "event_ok (Printk ''Initializing PS/2 keyboard...\<newline>'' [])"
      "event_ok (Printk ''  [KB] Scanning enabled (ACK OK)\<newline>'' [])" "event_ok (Printk ''  [KB] No ACK from keyboard (continuing anyway)\<newline>'' [])"
    by (rule event_ok_plain; simp)+
  have h: "event_ok (Printk ''  [KB] CCB configured (0x%x)\<newline>'' [KHex w])" "event_ok (Printk ''  [KB] Responded with 0x%x (continuing)\<newline>'' [KHex w])" for w
    by (rule event_ok_text; simp add: hex_text_length)+
  have "log_ok (report_ack hw k t) = log_ok t" for k and t :: "'a kbd_scheme" by (simp add: report_ack_def split_beta m h)
  then have "log_ok (controller_setup hw s) = log_ok s" by (simp add: controller_setup_def Let_def split_beta m h)
  then show ?thesis using m by (simp add: keyboard_init_def Let_def) (simp add: log_ok_def idt_register_handler_def)
qed

lemma keyboard_init_effect:
  obtains ls tr where "keyboard_init hw s = s\<lparr>io_trace := tr, irq_handlers := (irq_handlers s)(1 \<mapsto> Keyboard_irq_handler),
    keybuf_head := 0, keybuf_tail := 0, modifiers := 0, klog := ls\<rparr>"
proof -
  obtain ls es where "controller_setup hw s = s\<lparr>klog := klog s @ ls, io_trace := io_trace s @ es\<rparr>"
    using controller_setup_io [of s hw] unfolding io_only_def by blast
  then have "keyboard_init hw s = s\<lparr>io_trace := io_trace s @ es, irq_handlers := (irq_handlers s)(1 \<mapsto> Keyboard_irq_handler),
      keybuf_head := 0, keybuf_tail := 0, modifiers := 0, klog := klog (keyboard_init hw s)\<rparr>"
    by (simp add: keyboard_init_def idt_register_handler_def log_event_def)
  then show thesis by (rule that)
qed

lemma timer_init_effect:
  fixes m :: "'a machine_scheme"
  obtains tr where "on_timer (timer_init f) m = m\<lparr>io_trace := tr, irq_handlers := (irq_handlers m)(0 \<mapsto> Timer_irq_handler)\<rparr>"
proof -
  let ?d = "1193182 div (if f = 0 then TICK_HZ else f)"
  define tr where "tr = [Out PIT_CMD 0x36, Out PIT_CH0 (ucast (?d AND 0xFF)), Out PIT_CH0 (ucast (drop_bit 8 ?d AND 0xFF))]"
  have "timer_init f t = t\<lparr>io_trace := io_trace t @ tr, irq_handlers := (irq_handlers t)(0 \<mapsto> Timer_irq_handler)\<rparr>" for t :: timer
    unfolding tr_def by (simp add: timer_init_def Let_def io_outb_def idt_register_handler_def)
  then have "on_timer (timer_init f) m = m\<lparr>io_trace := io_trace m @ tr, irq_handlers := (irq_handlers m)(0 \<mapsto> Timer_irq_handler)\<rparr>"
    by (cases m) (simp add: on_timer_def interrupts.defs timer.defs)
  then show thesis by (rule that)
qed

lemma idt_init_fields:
  fixes m :: "'a display_scheme"
  shows "k < 16 \<Longrightarrow> irq_handlers (idt_init a m) k = None" "klog (idt_init a m) = klog m"
    "interrupts_on (idt_init a m) = interrupts_on m" "display.more (idt_init a m) = display.more m"
proof -
  have "irq_handlers (for_loop 0 n (\<lambda>i s. s\<lparr>irq_handlers := (irq_handlers s)(i := None)\<rparr>) t) k = (if k < n then None else irq_handlers t k)"
    for n k and t :: "'a display_scheme" by (induction n) (auto simp: for_loop_Suc)
  then show "k < 16 \<Longrightarrow> irq_handlers (idt_init a m) k = None" by (simp add: idt_init_def pic_remap_def io_outb_def Let_def)
  show "klog (idt_init a m) = klog m" "interrupts_on (idt_init a m) = interrupts_on m" "display.more (idt_init a m) = display.more m"
    by (simp_all add: idt_init_def pic_remap_def io_outb_def Let_def idt_set_entry_raw_def for_kept [where h = klog]
        for_kept [where h = interrupts_on] for_kept [where h = display.more])
qed

lemma isr_install_fields:
  fixes m :: "'a display_scheme"
  shows "irq_handlers (isr_install_all isr irq m) = irq_handlers m" "klog (isr_install_all isr irq m) = klog m"
    "interrupts_on (isr_install_all isr irq m) = interrupts_on m" "display.more (isr_install_all isr irq m) = display.more m"
    "k < 16 \<Longrightarrow> gate_target (idt_entries (isr_install_all isr irq m) (32 + k)) = irq k"
  by (simp_all add: isr_install_all_def Let_def gates_loop gates_loop_0)
    (simp_all add: idt_set_entry_raw_def for_kept [where h = irq_handlers] for_kept [where h = klog]
        for_kept [where h = interrupts_on] for_kept [where h = display.more])

lemma gdt_init_kept [kept]:
  fixes m :: "'a display_scheme"
  shows "tables (gdt_init a m) = tables m" "display.more (gdt_init a m) = display.more m"
  by (simp_all add: gdt_init_def gdt_set_entry_def Let_def tables_def)


section \<open>The steps of the start\<close>

text \<open>Both drivers are registered, the gates of the interrupts lead to their stubs, and no message waits.\<close>

definition drivers_ready :: "link_info \<Rightarrow> 'a display_scheme \<Rightarrow> bool" where
  "drivers_ready lk m \<longleftrightarrow> klog m = [] \<and> irq_handlers m 0 = Some Timer_irq_handler \<and> irq_handlers m 1 = Some Keyboard_irq_handler \<and>
     (\<forall>k < 16. gate_target (idt_entries m (32 + k)) = irq_stub lk k)"

lemma shown_ready: "only_shown m m' \<Longrightarrow> drivers_ready lk m' = drivers_ready lk m \<and> interrupts_on m' = interrupts_on m"
  by (simp add: only_shown_def drivers_ready_def tables_def)

lemma ready_fields:
  "drivers_ready lk (s\<lparr>fsys := f\<rparr>) = drivers_ready lk s" "drivers_ready lk (m\<lparr>process_table := p\<rparr>) = drivers_ready lk m"
  "drivers_ready lk (d\<lparr>interrupts_on := b\<rparr>) = drivers_ready lk d"
  by (cases s, simp add: drivers_ready_def) (cases m, simp add: drivers_ready_def, simp add: drivers_ready_def)

definition plain_text :: "string \<Rightarrow> bool" where
  "plain_text t \<longleftrightarrow> CHR ''%'' \<notin> set t \<and> length t \<le> 400"

lemma loading_step_ok:
  assumes "0 \<le> fr" "fr < 5" and "length c \<le> 100"
  shows "\<exists>m'. loading_step c fr m = Some (fr + 1, m') \<and> only_shown m m'"
proof -
  let ?bar = "map (\<lambda>i. if int i < fr + 1 then CHR ''#'' else CHR ''-'') [0..<5]"
  have "length (dec_text (fr + 1)) \<le> 11" "length (dec_text 5) \<le> 11" using assms by (intro dec_text_length; simp)+
  then have "event_ok (Printk ''[Loading %d/%d] [%s] %s\<newline>'' [KDec (fr + 1), KDec 5, KStr ?bar, KStr c])"
    using assms(3) by (intro event_ok_text) simp
  from show_event_ok [OF this, of m] show ?thesis
    using assms(2) by (auto simp: loading_step_def loading_tick_inline_def Let_def split: sum.splits)
qed

lemma flush_log_ok: "log_ok s \<Longrightarrow> \<exists>s'. flush_log s = Some s' \<and> only_shown (s\<lparr>klog := []\<rparr>) s'"
  unfolding flush_log_def by (rule show_events_ok) (simp add: log_ok_def)

lemma shown_log: "only_shown s s' \<Longrightarrow> log_ok s' = log_ok s"
  by (simp add: only_shown_def tables_def log_ok_def)

text \<open>The message of a step, then the step itself on a state that differs by the console only.\<close>

lemma kernel_init_ok:
  fixes m :: "'a machine_scheme"
  assumes log: "log_ok m" and stamp: "plain_text (build_stamp lk)"
  obtains m' where "kernel_init hw lk m = Some m'" and "drivers_ready lk m'" and "interrupts_on m' = interrupts_on m"
    and "display.more m' = display.more m"
proof -
  have m: "event_ok (Printk (KERNEL_VERSION_STRING @ ''\<newline>'') [])" by (rule event_ok_plain) (simp_all add: KERNEL_VERSION_STRING_def)
  have s: "event_ok (Printk (''Built: '' @ build_stamp lk @ ''\<newline>\<newline>'') [])"
    by (rule event_ok_plain) (use stamp in \<open>simp_all add: plain_text_def\<close>)
  define m1 where "m1 = io_outb 0x3D5 0x20 (io_outb 0x3D4 0x0A (vga_clear m))"
  have "display.more (vga_clear m) = display.more m" by (rule more_lifts) (simp add: kept)
  then have s1: "only_shown m m1" by (simp add: only_shown_def m1_def kept)
  obtain m2 where m2: "kprint (KERNEL_VERSION_STRING @ ''\<newline>'') [] m1 = Some m2" "only_shown m1 m2" using kprint_ok [OF m] by blast
  obtain m3 where m3: "kprint (''Built: '' @ build_stamp lk @ ''\<newline>\<newline>'') [] m2 = Some m3" "only_shown m2 m3" using kprint_ok [OF s] by blast
  obtain m4 where m4: "loading_step ''GDT'' 0 m3 = Some (1, m4)" "only_shown m3 m4" using loading_step_ok [of 0 "''GDT''" m3] by auto
  define g where "g = gdt_init (gdt_address lk) m4"
  obtain m5 where m5: "loading_step ''IDT/PIC'' 1 g = Some (2, m5)" "only_shown g m5" using loading_step_ok [of 1 "''IDT/PIC''" g] by auto
  define i where "i = idt_init (idt_address lk) m5"
  obtain m6 where m6: "loading_step ''ISRs'' 2 i = Some (3, m6)" "only_shown i m6" using loading_step_ok [of 2 "''ISRs''" i] by auto
  define j where "j = isr_install_all (isr_stub lk) (irq_stub lk) m6"
  obtain m7 where m7: "loading_step ''PIT Timer'' 3 j = Some (4, m7)" "only_shown j m7" using loading_step_ok [of 3 "''PIT Timer''" j] by auto
  obtain tr where t: "on_timer (timer_init 100) m7 = m7\<lparr>io_trace := tr, irq_handlers := (irq_handlers m7)(0 \<mapsto> Timer_irq_handler)\<rparr>"
    by (rule timer_init_effect)
  define t8 where "t8 = on_timer (timer_init 100) m7"
  obtain m9 where m9: "loading_step ''PS/2 Keyboard'' 4 t8 = Some (5, m9)" "only_shown t8 m9"
    using loading_step_ok [of 4 "''PS/2 Keyboard''" t8] by auto
  obtain ls tr' where k: "keyboard_init hw m9 = m9\<lparr>io_trace := tr', irq_handlers := (irq_handlers m9)(1 \<mapsto> Keyboard_irq_handler),
      keybuf_head := 0, keybuf_tail := 0, modifiers := 0, klog := ls\<rparr>" by (rule keyboard_init_effect)
  have tab: "klog m9 = klog m" "interrupts_on m9 = interrupts_on m" "display.more m9 = display.more m"
      "irq_handlers m9 0 = Some Timer_irq_handler" "\<forall>k < 16. gate_target (idt_entries m9 (32 + k)) = irq_stub lk k"
    using s1 m2(2) m3(2) m4(2) m5(2) m6(2) m7(2) m9(2) idt_init_fields [where a = "idt_address lk" and m = m5]
      isr_install_fields [where isr = "isr_stub lk" and irq = "irq_stub lk" and m = m6] gdt_init_kept [where a = "gdt_address lk" and m = m4]
    by (simp_all add: only_shown_def tables_def g_def i_def j_def t8_def t)
  have "log_ok (keyboard_init hw m9)" using log tab(1) by (simp add: keyboard_init_log) (simp add: log_ok_def)
  then obtain m' where m': "flush_log (keyboard_init hw m9) = Some m'" "only_shown ((keyboard_init hw m9)\<lparr>klog := []\<rparr>) m'"
    using flush_log_ok by blast
  have run: "kernel_init hw lk m = Some m'"
    by (simp only: kernel_init_def Let_def Option.bind.simps split_conv m1_def [symmetric] m2(1) m3(1) m4(1) g_def [symmetric] m5(1) i_def [symmetric] m6(1)
        j_def [symmetric] m7(1) t8_def [symmetric] m9(1) m'(1))
  show thesis using that [OF run] m'(2) tab by (simp add: k drivers_ready_def only_shown_def tables_def)
qed


lemma shown_fsys: "only_shown m m' \<Longrightarrow> only_shown (m\<lparr>fsys := f\<rparr>) (m'\<lparr>fsys := f\<rparr>)"
  by (cases m; cases m') (simp add: only_shown_def tables_def)

lemma shown_table: "only_shown m m' \<Longrightarrow> only_shown (m\<lparr>process_table := p\<rparr>) (m'\<lparr>process_table := p\<rparr>)"
  by (cases m; cases m') (simp add: only_shown_def tables_def)

lemma more_table: "display.more s = display.more t \<Longrightarrow> process_table s = process_table t"
  by (cases s, cases t, hypsubst) (simp only: display.simps shell.simps shell.ext_inject machine.simps machine.ext_inject simp_thms)

lemma shown_kept:
  assumes "only_shown m m'"
  shows "fsys m' = fsys m" and "lines m' = lines m" and "halted m' = halted m" and "process_table m' = process_table m"
proof -
  have e: "display.more m' = display.more m" using assms by (simp add: only_shown_def)
  show "fsys m' = fsys m" "lines m' = lines m" "halted m' = halted m" using more_fields [OF e] by simp_all
  show "process_table m' = process_table m" by (rule more_table [OF e])
qed

lemma flush_fs_ok: "log_ok (fsys s) \<Longrightarrow> \<exists>s'. flush_fs s = Some s' \<and> only_shown (s\<lparr>fsys := (fsys s)\<lparr>klog := []\<rparr>\<rparr>) s'"
  unfolding flush_fs_def by (rule show_events_ok) (simp add: log_ok_def)

lemma boot_memory_ok:
  assumes "log_ok (fsys m)"
  obtains m' where "boot_memory lk mbd m = Some m'"
    and "only_shown (m\<lparr>fsys := (memory_init (kernel_end lk) (mem_lower mbd) (mem_upper mbd) (fsys m))\<lparr>klog := []\<rparr>\<rparr>) m'"
proof -
  let ?m = "m\<lparr>fsys := memory_init (kernel_end lk) (mem_lower mbd) (mem_upper mbd) (fsys m)\<rparr>"
  obtain t where t: "flush_fs ?m = Some t" "only_shown (?m\<lparr>fsys := (fsys ?m)\<lparr>klog := []\<rparr>\<rparr>) t" using flush_fs_ok [of ?m] assms by auto
  have "event_ok (Printk ''  [OK]\<newline>\<newline>'' [])" by (rule event_ok_plain) simp_all
  then obtain m' where "kprint ''  [OK]\<newline>\<newline>'' [] t = Some m'" "only_shown t m'" using kprint_ok by blast
  then show thesis using that [of m'] t shown_trans by (auto simp: boot_memory_def)
qed

lemma boot_fs_ok:
  assumes "fs_init (fsys m) = Some f" and "log_ok f"
  obtains m' where "boot_fs m = Some m'" and "only_shown (m\<lparr>fsys := f\<lparr>klog := []\<rparr>\<rparr>) m'"
proof -
  have e: "event_ok (Printk ''Initializing filesystem...\<newline>'' [])" "event_ok (Printk ''  [OK] OKFS ready\<newline>\<newline>'' [])"
    by (rule event_ok_plain; simp)+
  obtain t where t: "kprint ''Initializing filesystem...\<newline>'' [] m = Some t" "only_shown m t" using kprint_ok [OF e(1)] by blast
  obtain u where u: "flush_fs (t\<lparr>fsys := f\<rparr>) = Some u" "only_shown (t\<lparr>fsys := f\<lparr>klog := []\<rparr>\<rparr>) u"
    using flush_fs_ok [of "t\<lparr>fsys := f\<rparr>"] assms(2) by auto
  obtain m' where m': "kprint ''  [OK] OKFS ready\<newline>\<newline>'' [] u = Some m'" "only_shown u m'" using kprint_ok [OF e(2)] by blast
  have "boot_fs m = Some m'" using t u(1) m'(1) assms(1) shown_kept(1) [OF t(2)] by (simp add: boot_fs_def)
  then show thesis using that shown_trans [OF shown_fsys [OF t(2)] shown_trans [OF u(2) m'(2)]] by blast
qed

lemma boot_processes_ok:
  fixes m :: "'a machine_scheme"
  assumes "heap_wf (fsys m)" and "heap_room (fsys m) ALLOC_COST" and "log_ok (fsys m)"
  obtains m' p q h where "boot_processes m = Some m'" and "only_shown (m\<lparr>process_table := p, fsys := (fsys m)\<lparr>heap_mem := h, klog := []\<rparr>\<rparr>) m'"
    and "kmalloc PROCESS_STACK_SIZE (fsys m) = Some (q, (fsys m)\<lparr>heap_mem := h\<rparr>)" and "q \<noteq> 0"
    and "current_process p = Some 0" and "pstate (pcbs p 0) = PROCESS_STATE_RUNNING" and "kernel_stack (pcbs p 0) = q"
proof -
  have e: "event_ok (Printk ''Initializing process management...\<newline>'' [])" "event_ok (Printk ''  [OK]\<newline>\<newline>'' [])"
    by (rule event_ok_plain; simp)+
  obtain t where t: "kprint ''Initializing process management...\<newline>'' [] m = Some t" "only_shown m t" using kprint_ok [OF e(1)] by blast
  note f = shown_kept(1,4) [OF t(2)]
  obtain p q h where p: "process_init (on_heap_of (fsys m) (process_table m)) = Inr p" "q \<noteq> 0"
      "kmalloc PROCESS_STACK_SIZE (fsys m) = Some (q, (fsys m)\<lparr>heap_mem := h\<rparr>)"
      "on_heap_of p (fsys m) = (fsys m)\<lparr>klog := klog p, heap_mem := h\<rparr>" "log_ok p"
      "current_process p = Some 0" "pstate (pcbs p 0) = PROCESS_STATE_RUNNING" "kernel_stack (pcbs p 0) = q"
    by (rule process_init_ok [OF assms, of "process_table m"])
  let ?t = "t\<lparr>process_table := p, fsys := (fsys m)\<lparr>klog := klog p, heap_mem := h\<rparr>\<rparr>"
  have "log_ok (fsys ?t)" using p(5) by (simp add: log_ok_def)
  then obtain u where u: "flush_fs ?t = Some u" "only_shown (?t\<lparr>fsys := (fsys ?t)\<lparr>klog := []\<rparr>\<rparr>) u" using flush_fs_ok by blast
  obtain m' where m': "kprint ''  [OK]\<newline>\<newline>'' [] u = Some m'" "only_shown u m'" using kprint_ok [OF e(2)] by blast
  have run: "boot_processes m = Some m'" using t(1) p(1,4) u(1) m'(1) f by (simp add: boot_processes_def)
  have "only_shown (m\<lparr>process_table := p, fsys := (fsys m)\<lparr>heap_mem := h, klog := []\<rparr>\<rparr>) (?t\<lparr>fsys := (fsys ?t)\<lparr>klog := []\<rparr>\<rparr>)"
    using shown_fsys [OF shown_table [OF t(2), of p]] by simp
  from shown_trans [OF this shown_trans [OF u(2) m'(2)]] show thesis by (rule that [OF run _ p(3,2,6-8)])
qed


section \<open>From the boot loader to the first prompt\<close>

lemma start_command_line_ok:
  assumes "\<forall>nm. loader = Some nm \<longrightarrow> length nm \<le> 400"
  obtains m' where "start_command_line magic fl lo up loader m = Some m'" and "tables m' = tables m"
    and "display.more m' = display.more (keep_boot_info magic fl lo up loader m)"
proof -
  have e: "event_ok (Printk ''=== openkernel Boot Info ===\<newline>'' [])" "event_ok (Printk ''openkernel Command Line\<newline>'' [])"
      "event_ok (Printk ''Type 'help' for available commands.\<newline>'' [])" by (rule event_ok_plain; simp)+
  have h: "event_ok (Printk ''Magic: 0x%x  Flags: 0x%x\<newline>'' [KHex magic, KHex fl])" by (rule event_ok_text) (simp add: hex_text_length)
  have d: "event_ok (Printk ''Memory: %d KB lower, %d KB upper (%d MB total)\<newline>''
      [KDec (sint lo), KDec (sint up), KDec (sint ((up + lo) div 1024))])"
    using sint_text_length [of lo] sint_text_length [of up] sint_text_length [of "(up + lo) div 1024"] by (intro event_ok_text) simp
  obtain a where a: "kprint ''=== openkernel Boot Info ===\<newline>'' [] m = Some a" "only_shown m a" using kprint_ok [OF e(1)] by blast
  obtain b where b: "kprint ''Magic: 0x%x  Flags: 0x%x\<newline>'' [KHex magic, KHex fl] a = Some b" "only_shown a b" using kprint_ok [OF h] by blast
  obtain c where c: "kprint ''Memory: %d KB lower, %d KB upper (%d MB total)\<newline>''
      [KDec (sint lo), KDec (sint up), KDec (sint ((up + lo) div 1024))] b = Some c" "only_shown b c" using kprint_ok [OF d] by blast
  have "\<exists>t. (case loader of Some nm \<Rightarrow> kprint ''Loader: %s\<newline>'' [KStr nm] c | None \<Rightarrow> Some c) = Some t \<and> only_shown c t"
  proof (cases loader)
    case (Some nm)
    then have "event_ok (Printk ''Loader: %s\<newline>'' [KStr nm])" using assms by (intro event_ok_text) simp
    then show ?thesis using kprint_ok Some by simp
  qed (simp add: shown_refl)
  then obtain t where t: "(case loader of Some nm \<Rightarrow> kprint ''Loader: %s\<newline>'' [KStr nm] c | None \<Rightarrow> Some c) = Some t" "only_shown c t" by blast
  define k where "k = vga_clear_public (keep_boot_info magic fl lo up loader t)"
  obtain u where u: "kprint ''openkernel Command Line\<newline>'' [] k = Some u" "only_shown k u" using kprint_ok [OF e(2)] by blast
  obtain v where v: "kprint ''Type 'help' for available commands.\<newline>'' [] u = Some v" "only_shown u v" using kprint_ok [OF e(3)] by blast
  have run: "start_command_line magic fl lo up loader m = Some (show_text_prompt v)"
    by (simp only: start_command_line_def Let_def Option.bind.simps a(1) b(1) c(1) t(1) k_def [symmetric] u(1) v(1))
  have mt: "only_shown m t" using a(2) b(2) c(2) t(2) shown_trans by blast
  have "tables (keep_boot_info magic fl lo up loader t) = tables t" by (simp add: keep_boot_info_def Let_def tables_def split: option.split)
  then have kt: "tables k = tables t" by (simp add: k_def vga_clear_public_def kept)
  have kd: "display.more k = display.more (keep_boot_info magic fl lo up loader t)"
    unfolding k_def vga_clear_public_def by (rule more_lifts) (simp add: kept)
  have "display.more (keep_boot_info magic fl lo up loader t) = display.more (keep_boot_info magic fl lo up loader m)"
    using mt by (cases m; cases t) (simp add: only_shown_def keep_boot_info_def Let_def split: option.split)
  moreover have "display.more (show_text_prompt v) = display.more v" "tables (show_text_prompt v) = tables v"
    unfolding show_text_prompt_def Let_def by (auto intro!: more_lifts simp: kept)
  ultimately show thesis using that [OF run] kt kd u(2) v(2) mt by (simp add: only_shown_def)
qed


lemma klog_heap: "heap_wf (s\<lparr>klog := k\<rparr>) = heap_wf s" "heap_room (s\<lparr>klog := k\<rparr>) n = heap_room s n"
  by (simp_all add: heap_wf_def heap_room_def heap_blocks_def)

lemma klog_view:
  fixes f :: "'a okfs_scheme"
  assumes "fs_wf f" shows "fs_wf (f\<lparr>klog := k\<rparr>)" and "fs_view (f\<lparr>klog := k\<rparr>) = fs_view f"
  using fs_view_kept [OF assms, of "f\<lparr>klog := k\<rparr>"] fs_wfD(1) [OF assms] by (simp_all add: printed_fields)

text \<open>The file system after the memory manager has started.\<close>

lemma boot_fs_init:
  fixes f :: okfs
  assumes "log_ok f" and "edit_buf f = 0" "edit_len f = 0" "edit_cap f = 0"
  obtains g where "fs_init ((memory_init e lo up f)\<lparr>klog := []\<rparr>) = Some g" and "log_ok g" and "fs_wf g" and "heap_room g ALLOC_COST"
    and "fs_view g = ([[] \<mapsto> Dir, [''docs''] \<mapsto> Dir, [''readme.txt''] \<mapsto> File readme_text, [''docs'', ''about.txt''] \<mapsto> File about_text], [])"
proof -
  let ?f = "(memory_init e lo up f)\<lparr>klog := []\<rparr>"
  have more: "kheap.more ?f = kheap.more f" using memory_init_okfs [of e lo up f] by simp
  have ed: "edit_buf ?f = 0 \<and> edit_len ?f = 0 \<and> edit_cap ?f = 0"
    using more assms(2-4) by (cases ?f, cases f) (simp only: kheap.simps okfs.simps okfs.ext_inject simp_thms)
  have blocks: "heap_wf ?f" "heap_room ?f (3 * ALLOC_COST)"
    using heap_rep_wf [OF memory_init_rep [of e lo up f]] heap_rep_blocks [OF memory_init_rep [of e lo up f]]
    by (simp_all add: klog_heap) (simp add: heap_room_def)
  have "buf_ok ?f (edit_buf ?f) (edit_len ?f) (edit_cap ?f)" using ed by (simp add: buf_ok_def)
  from fs_init_effect [OF blocks(1) this] obtain g x y where g: "fs_init ?f = Some g" "fs_wf g"
      "heap_room ?f (2 * ALLOC_COST) \<longrightarrow> x = readme_text \<and> y = about_text"
      "fs_view g = ([[] \<mapsto> Dir, [''docs''] \<mapsto> Dir, [''readme.txt''] \<mapsto> File x, [''docs'', ''about.txt''] \<mapsto> File y], [])"
      "\<forall>n. heap_room ?f n \<and> 2 * ALLOC_COST \<le> n \<longrightarrow> heap_room g (n - 2 * ALLOC_COST)" by blast
  have "heap_room ?f (2 * ALLOC_COST)" using blocks(2) by (auto simp: heap_room_def)
  moreover have "heap_room g ALLOC_COST" using g(5) blocks(2) by (auto dest: spec [of _ "3 * ALLOC_COST"])
  moreover have "log_ok g" using fs_init_log [OF g(1)] by (simp add: log_ok_def)
  ultimately show thesis using that [OF g(1)] g(2-4) by blast
qed


lemma eflags_bit: "(v OR 0x200) AND 0x200 \<noteq> (0 :: u32)"
proof -
  have "bit ((v OR 0x200) AND 0x200 :: u32) 9" by (simp add: bit_simps)
  then show ?thesis by auto
qed

lemma layout_tables_kept: "tables (keyboard_detect_layout c s) = tables s"
proof -
  have "tables (detect_loop str s) = tables s" for str
    by (induction str s rule: detect_loop.induct) (auto simp: keyboard_set_layout_def tables_def split: option.splits)
  then show ?thesis by (simp add: keyboard_detect_layout_def split: option.split)
qed

lemma boot_layout_ok: "only_shown m (if b then keyboard_detect_layout c m else m)"
  using layout_kept [of c m] shown_refl [of m] by (simp add: only_shown_def layout_tables_kept)

lemma kept_info:
  assumes "display.more m' = display.more (keep_boot_info mg fl lo up ld m)"
  shows "fsys m' = fsys m" and "lines m' = lines m" and "halted m' = halted m" and "process_table m' = process_table m"
proof -
  have k: "fsys (keep_boot_info mg fl lo up ld m) = fsys m" "lines (keep_boot_info mg fl lo up ld m) = lines m"
      "halted (keep_boot_info mg fl lo up ld m) = halted m" "process_table (keep_boot_info mg fl lo up ld m) = process_table m"
    by (simp_all add: keep_boot_info_def Let_def lines_def split: option.split)
  show "fsys m' = fsys m" "lines m' = lines m" "halted m' = halted m" using more_fields [OF assms] k by simp_all
  show "process_table m' = process_table m" using more_table [OF assms] k(4) by simp
qed

text \<open>The state of the static variables when the boot loader calls the kernel.\<close>

definition boot_state :: "'a machine_scheme \<Rightarrow> bool" where
  "boot_state m \<longleftrightarrow> shell_ok m \<and> \<not> halted m \<and> klog m = [] \<and> klog (fsys m) = [] \<and>
     edit_buf (fsys m) = 0 \<and> edit_len (fsys m) = 0 \<and> edit_cap (fsys m) = 0"

text \<open>
  C13. From the boot loader to the first prompt: whatever the keyboard controller answers and whatever memory sizes the
  loader reports, if its name and the date of the build have at most 400 characters, the date none of them a percent
  sign, and the static variables are as linked, the kernel starts, with interrupts on and both drivers registered behind their gates, with the initial files in a well-formed file system,
  the idle process running on its own stack from the same heap, and both lines under edit in their arrays. No message
  on the way overruns the buffer of \<open>printk\<close>. The region of the heap is taken to be backed by memory.
\<close>

theorem kernel_boot_ready:
  fixes m :: "'a machine_scheme"
  assumes boot: "boot_state m" and stamp: "plain_text (build_stamp lk)"
    and loader: "\<forall>nm. boot_loader_name mbd = Some nm \<longrightarrow> length nm \<le> 400"
  shows "\<exists>m'. kernel_boot hw lk eflags 0x2BADB002 mbd m = Some m' \<and> interrupts_on m' \<and> drivers_ready lk m' \<and> shell_ok m' \<and> \<not> halted m' \<and>
    fs_wf (fsys m') \<and> fs_view (fsys m') = ([[] \<mapsto> Dir, [''docs''] \<mapsto> Dir, [''readme.txt''] \<mapsto> File readme_text,
      [''docs'', ''about.txt''] \<mapsto> File about_text], []) \<and>
    current_process (process_table m') = Some 0 \<and> pstate (pcbs (process_table m') 0) = PROCESS_STATE_RUNNING \<and>
    kernel_stack (pcbs (process_table m') 0) \<noteq> 0"
proof -
  have b: "log_ok m" "log_ok (fsys m)" "edit_buf (fsys m) = 0" "edit_len (fsys m) = 0" "edit_cap (fsys m) = 0"
      "shell_ok m" "\<not> halted m" using boot by (simp_all add: boot_state_def log_ok_def)
  obtain m1 where m1: "kernel_init hw lk m = Some m1" "drivers_ready lk m1" "interrupts_on m1 = interrupts_on m" "display.more m1 = display.more m"
    by (rule kernel_init_ok [OF b(1) stamp])
  note f1 = more_fields [OF m1(4)]
  define m2 where m2: "m2 = (if mb_info_flags mbd AND 4 \<noteq> 0 then keyboard_detect_layout (cmdline mbd) m1 else m1)"
  have shown2: "only_shown m1 m2" unfolding m2 by (rule boot_layout_ok)
  note f2 = shown_kept [OF shown2]
  let ?f = "(memory_init (kernel_end lk) (mem_lower mbd) (mem_upper mbd) (fsys m))\<lparr>klog := []\<rparr>"
  obtain m3 where m3: "boot_memory lk mbd m2 = Some m3" "only_shown (m2\<lparr>fsys := ?f\<rparr>) m3"
    using boot_memory_ok [of m2 lk mbd] b(2) f1(2) f2(1) by metis
  obtain g where g: "fs_init ?f = Some g" "log_ok g" "fs_wf g" "heap_room g ALLOC_COST"
      "fs_view g = ([[] \<mapsto> Dir, [''docs''] \<mapsto> Dir, [''readme.txt''] \<mapsto> File readme_text, [''docs'', ''about.txt''] \<mapsto> File about_text], [])"
    by (rule boot_fs_init [OF b(2-5)])
  obtain m4 where m4: "boot_fs m3 = Some m4" "only_shown (m3\<lparr>fsys := g\<lparr>klog := []\<rparr>\<rparr>) m4"
    using boot_fs_ok [of m3 g] g(1,2) shown_kept(1) [OF m3(2)] by auto
  let ?m4 = "m4\<lparr>interrupts_on := True\<rparr>" and ?g = "g\<lparr>klog := []\<rparr>"
  have f4: "fsys ?m4 = ?g" using shown_kept(1) [OF m4(2)] by simp
  have hp: "heap_wf ?g" "heap_room ?g ALLOC_COST" "log_ok ?g"
    using fs_wfD(1) [OF g(3)] g(4) by (simp_all add: klog_heap bufs_wf_def) (simp add: log_ok_def)
  obtain m5 p q h where m5: "boot_processes ?m4 = Some m5" "only_shown (?m4\<lparr>process_table := p, fsys := ?g\<lparr>heap_mem := h, klog := []\<rparr>\<rparr>) m5"
      "kmalloc PROCESS_STACK_SIZE ?g = Some (q, ?g\<lparr>heap_mem := h\<rparr>)" "q \<noteq> 0" "current_process p = Some 0"
      "pstate (pcbs p 0) = PROCESS_STATE_RUNNING" "kernel_stack (pcbs p 0) = q"
    by (rule boot_processes_ok [of ?m4, unfolded f4, OF hp])
  note f5 = shown_kept [OF m5(2)] and r5 = shown_ready [OF m5(2)]
  have on: "interrupts_on m5" using r5 by simp
  have "event_ok (Printk ''  [OK] System Ready (EFLAGS: 0x%x)\<newline>\<newline>'' [KHex (asm_get_eflags eflags m5)])"
    by (rule event_ok_text) (simp add: hex_text_length)
  then obtain m6 where m6: "kprint ''  [OK] System Ready (EFLAGS: 0x%x)\<newline>\<newline>'' [KHex (asm_get_eflags eflags m5)] m5 = Some m6" "only_shown m5 m6"
    using kprint_ok by blast
  obtain m' where m': "start_command_line 0x2BADB002 (mb_info_flags mbd) (mem_lower mbd) (mem_upper mbd) (boot_loader_name mbd) m6 = Some m'"
      "tables m' = tables m6" "display.more m' = display.more (keep_boot_info 0x2BADB002 (mb_info_flags mbd) (mem_lower mbd) (mem_upper mbd) (boot_loader_name mbd) m6)"
    by (rule start_command_line_ok [OF loader])
  note f6 = shown_kept [OF m6(2)] and f = kept_info [OF m'(3)] and f3 = shown_kept [OF m3(2)] and f4' = shown_kept [OF m4(2)]
  have run: "kernel_boot hw lk eflags 0x2BADB002 mbd m = Some m'"
    using on eflags_bit [of eflags] m6(1)
    by (simp add: kernel_boot_def m1(1) Let_def m3(1) m4(1) m5(1) m'(1) asm_get_eflags_def flip: m2)
  have "drivers_ready lk m6" using m1(2) shown_ready [OF shown2, of lk] shown_ready [OF m3(2), of lk] shown_ready [OF m4(2), of lk]
      shown_ready [OF m5(2), of lk] shown_ready [OF m6(2), of lk] by (simp only: ready_fields)
  then have dr: "drivers_ready lk m' \<and> interrupts_on m'" using m'(2) on shown_ready [OF m6(2)] by (simp add: drivers_ready_def tables_def)
  have "lines m' = lines m" "halted m' = halted m" using f f6 f5 f4' f3 f2 f1 by (simp_all add: lines_def)
  then have sh: "shell_ok m'" "\<not> halted m'" using b(6,7) shell_ok_lines [of m' m] by simp_all
  have fm: "fsys m' = ?g\<lparr>heap_mem := h, klog := []\<rparr>" "process_table m' = p" using f f6 f5 by simp_all
  have "fs_wf (fsys m')" "fs_view (fsys m') = fs_view g"
    using klog_view [OF fs_wf_alloc(1) [OF klog_view(1) [OF g(3)] m5(3)]] fs_wf_alloc(2) [OF klog_view(1) [OF g(3)] m5(3)]
      klog_view(2) [OF g(3)] by (simp_all add: fm)
  then show ?thesis using run dr sh g(5) m5(4-7) by (simp add: fm)
qed


definition machine_example :: machine where
  "machine_example = shell.extend (shell_example\<lparr>fsys := okfs_small\<lparr>klog := []\<rparr>, klog := []\<rparr>) (machine.fields 0 procs_base)"

definition link_example :: link_info where
  "link_example = \<lparr>kernel_end = 0x200000, gdt_address = 0x180000, idt_address = 0x181000, isr_stub = (\<lambda>n. 0x101000 + of_nat n * 16),
     irq_stub = (\<lambda>n. 0x102000 + of_nat n * 16), build_stamp = ''Jan  1 2026 12:00:00''\<rparr>"

definition boot_info_example :: boot_info where
  "boot_info_example = \<lparr>mb_info_flags = 0x204, mem_lower = 640, mem_upper = 32128, cmdline = Some ''kernel layout=it'', boot_loader_name = Some ''GRUB''\<rparr>"

lemma log_and_files: "klog (s\<lparr>fsys := f\<rparr>) = klog s" "fsys (s\<lparr>klog := k\<rparr>) = fsys s"
  by (cases s; simp)+

lemma machine_example_boot: "boot_state machine_example"
proof -
  have "cmd_line machine_example = blank_line" "pseudo_line machine_example = blank_line" "\<not> halted machine_example" "klog machine_example = []"
      "fsys machine_example = okfs_small\<lparr>klog := []\<rparr>"
    by (simp_all add: machine_example_def shell.defs machine.defs shell_example_fields log_and_files)
  then show ?thesis by (simp add: boot_state_def shell_ok_def line_ok_def blank_line_def okfs_small_fields)
qed

theorem kernel_boot_ready_witness:
  "\<forall>hw. \<exists>m'. kernel_boot hw link_example 0x46 0x2BADB002 boot_info_example machine_example = Some m' \<and> interrupts_on m' \<and>
     gate_target (idt_entries m' 33) = 0x102010 \<and> fs_abs (fsys m') [''readme.txt''] = Some (File readme_text)"
proof
  fix hw
  have "plain_text (build_stamp link_example)" by (simp add: link_example_def plain_text_def)
  moreover have "\<forall>nm. boot_loader_name boot_info_example = Some nm \<longrightarrow> length nm \<le> 400" by (simp add: boot_info_example_def)
  ultimately obtain m' where m': "kernel_boot hw link_example 0x46 0x2BADB002 boot_info_example machine_example = Some m'" "interrupts_on m'"
      "drivers_ready link_example m'" "fs_view (fsys m') = ([[] \<mapsto> Dir, [''docs''] \<mapsto> Dir, [''readme.txt''] \<mapsto> File readme_text,
        [''docs'', ''about.txt''] \<mapsto> File about_text], [])"
    using kernel_boot_ready [OF machine_example_boot] by metis
  have "\<forall>k < 16. gate_target (idt_entries m' (32 + k)) = irq_stub link_example k" using m'(3) unfolding drivers_ready_def by blast
  from spec [OF this, of 1] have "gate_target (idt_entries m' 33) = 0x102010" by (simp add: link_example_def)
  moreover have "fs_abs (fsys m') [''readme.txt''] = Some (File readme_text)" using m'(4) by (simp add: fs_view_def)
  ultimately show "\<exists>m'. kernel_boot hw link_example 0x46 0x2BADB002 boot_info_example machine_example = Some m' \<and> interrupts_on m' \<and>
     gate_target (idt_entries m' 33) = 0x102010 \<and> fs_abs (fsys m') [''readme.txt''] = Some (File readme_text)"
    using m'(1,2) by auto
qed


end
