(* ===== verification/Spec2Isabelle.thy ===== *)
theory Spec2Isabelle
  imports Keyboard_Props Sync Framebuffer Boot_Props
begin

text \<open>
  openkernel is a small 32-bit kernel in C for a PC. This development models the C code under
  \<open>src/kernel\<close> and proves what its parts do.

  \<^bold>\<open>The program.\<close> \<open>kernel_main\<close> sets up the segment and interrupt tables, the timer and the keyboard,
  then the memory managers, the file system and the process table, and ends in a loop that takes
  keys from the keyboard buffer, edits a command line and runs commands, most of which work on the
  file system. The parts share little: every part prints through \<open>printk\<close> and the status
  line; the file system, the editor and the process table take their memory from \<open>kmalloc\<close>; the
  page tables take pages from the page allocator; the mutexes and the timer call the scheduler; the
  keyboard and the timer register interrupt handlers; the graphics console draws with the display driver.

  \<^bold>\<open>The theories.\<close>

  \<^item> \<open>OK_Prelude\<close>: the types of machine integers, \<open>for_loop\<close> and \<open>scan\<close> for counting and searching
    loops with their invariant rules, the log of what the parts print (\<open>kevent\<close>), lemmas on words
    that do not wrap, and the locale \<open>op_refinement\<close>: operations that one by one refine a specification do so in
    every sequence.
  \<^item> \<open>Pmm\<close>, \<open>Vmm\<close>, \<open>Kheap\<close>: \<open>memory.c\<close>. Three records, each extending the one before: the page bitmap
    and its counters; physical memory with the page directory, CR0, CR3 and the list of invalidated
    addresses; the block headers of the heap as a map from addresses. The abstract views are the set of
    free frames, the page table entry of an address, and the list of block sizes with the live
    regions. \<open>Kheap\<close> shows that allocation is best fit, that freeing merges with the next
    block, and that outstanding requests never overlap, and gives the laws on live regions its clients rely on.
    The locales \<open>frame_allocator\<close> and \<open>heap_allocator\<close> are the interfaces of the two allocators.
  \<^item> \<open>Okfs\<close>: \<open>fs.c\<close> up to \<open>fs_cat\<close>: the table of 128 nodes, the working directory and the contents of
    files in heap buffers (a byte memory under the block headers of \<open>Kheap\<close>). \<open>Okfs_Buf\<close> and \<open>Okfs_Inv\<close>
    hold the buffers apart; \<open>Okfs_Tree\<close> and \<open>Okfs_Path\<close> read the table as a tree and a path as
    the names it leads along; \<open>Okfs_Spec\<close> has the specification, a map from absolute paths to
    directories and contents of files, and shows that each operation refines it; \<open>Okfs_Write\<close> and \<open>Okfs_Room\<close> do so for
    writing and show that it succeeds with enough room in the heap; \<open>Okfs_Props\<close> has the resulting theorems, by an
    interpretation of \<open>op_refinement\<close>.
  \<^item> \<open>Okfs_Edit\<close>, \<open>Okfs_Edit_Props\<close>: the rest of \<open>fs.c\<close>, the line editor over a heap buffer and the
    commands of the shell that work on files.
  \<^item> \<open>Idt\<close>: \<open>gdt.c\<close>, \<open>idt.c\<close>, \<open>isr_setup.c\<close>: descriptors, the interrupt controllers as a trace of
    port accesses, and the dispatch of exceptions and interrupts. The calls of \<open>isr_install_all\<close>, one for each
    vector, are two loops over the addresses of the stubs.
  \<^item> \<open>Keyboard_Layouts\<close>, \<open>Keyboard\<close>, \<open>Keyboard_Props\<close>: \<open>keyboard.c\<close>: the 19 layouts, the interrupt handler, the ring
    buffer shared by the handler and the reader, whose accesses are interleaved by a step relation, and the set-up
    of the controller, which is a parameter. The locale \<open>bounded_fifo\<close> is what the ring buffer promises.
  \<^item> \<open>Process\<close>, \<open>Process_Props\<close>: \<open>process.c\<close> and \<open>context_switch.asm\<close>: control blocks by index, the ready ring, the
    stack words and registers of a switch, wait queues.
  \<^item> \<open>Sync\<close>: \<open>sync.c\<close>, \<open>sync.h\<close>: atomic exchange, spinlocks and mutexes. The locale
    \<open>exclusion\<close> states what a lock word and its two transitions promise and proves mutual exclusion
    once; it is interpreted for the steps of both locks.
  \<^item> \<open>Timer\<close>: \<open>timer.c\<close>: the programming of the timer, the tick handler with its preemption, and the sleep.
  \<^item> \<open>Terminal\<close>, \<open>Terminal_Props\<close>: the console of \<open>kernel.c\<close>: the scrollback buffer, formatted printing, the status line
    and the input line. The abstract console is the list of the lines printed.
  \<^item> \<open>Font\<close>, \<open>Display\<close>, \<open>Display_Props\<close>: \<open>font.h\<close> and \<open>display.c\<close>: the probes for a graphics mode, which ask devices
    that are parameters, the registers of the text mode, and drawing into memory whose backed addresses are a
    parameter. The theorems say which pixels a call paints and that no call writes outside the frame; the locale
    \<open>byte_memory\<close> is what they need of memory.
  \<^item> \<open>Framebuffer\<close>: \<open>framebuffer.c\<close>, \<open>pci.c\<close>, \<open>vbe.c\<close>: the drawing primitives that are not built into the kernel,
    which do the same as those of \<open>display.c\<close>, and the search of the PCI bus.
  \<^item> \<open>Shell\<close>, \<open>Shell_Props\<close>: the command line of \<open>kernel.c\<close> on the text and on the graphics console: the
    line under edit as an array with a cursor, every command, and the loop of \<open>kernel_main\<close> as a step relation that
    interrupts of the keyboard interleave. The line refines the text before and the text behind the cursor.
  \<^item> \<open>Boot\<close>, \<open>Boot_Props\<close>: \<open>kernel_init\<close> and \<open>kernel_main\<close> up to the loop, which join the components into one
    machine, and that the kernel reaches its first prompt with every part set up.

  \<^bold>\<open>State, errors, loops.\<close> A component's globals are a record and its functions take and return it.
  Pointers into arrays are indices, pointers into memory are 32-bit words and 0 is null. Error
  codes are the numbers of the source; a read or write outside an array, where C gives no
  meaning, is a value of its own (\<open>None\<close> or a fault), so that each theorem about a result shows that
  it does not occur. Exceptions are the history of the terminal, a total map of cells that the cursor set by the
  input line may leave at column 80 or more, and the conversion of scan codes 60 to 88, for which the loop makes no
  step. Loops with a bound are \<open>for_loop\<close> or structural recursion. Loops that follow links or wait for
  a device (\<open>kmalloc\<close>, \<open>mutex_lock\<close>, the queues, the doubling of capacities) are partial functions, whose
  value \<open>None\<close> is not to return; the theorems state that they return. No definition uses fuel, but the
  sleep reads a counter given as a sequence of values, and the wait for the keyboard controller has the
  bounds of the code. What a component prints is logged and shown on the console when its call is over, messages of
  the heap before the lines of the file system's callback.

  \<^bold>\<open>Not modelled.\<close> The assembly of the boot sector and of the interrupt stubs, whose effect (a call of the handler) is
  a function of the model; interrupts between \<open>enable_interrupts\<close> and the loop; busy delays, which change no state. The
  memory barriers of \<open>sync.h\<close> have no effect on one processor. The region of the heap is taken to be backed by memory.
  The demonstration process \<open>test_process\<close> is called by nothing.
\<close>

end
